(* ===== verification/Xv_Prelude.thy ===== *)
theory Xv_Prelude
  imports Main "HOL-Library.Word" "HOL-Library.Signed_Division" "HOL-Library.Monad_Syntax"
begin

unbundle bit_operations_syntax

section \<open>Prelude: the C machine the models share\<close>

text \<open>
  What every component of libxv uses of C and of \<^verbatim>\<open>src/src/xv_define.h\<close>: pointers, typed
  heaps with allocation and deallocation, arrays with bounds, checked \<^verbatim>\<open>int\<close> arithmetic, byte
  blocks with \<^verbatim>\<open>memcpy\<close>/\<^verbatim>\<open>memmove\<close>/\<^verbatim>\<open>realloc\<close>, the return codes and the event masks.

  An operation that C leaves undefined (a null or dangling dereference, an index or a byte range
  outside its block, signed overflow, a read of a pointer that was never assigned, division by
  zero) is the value \<open>None\<close> of the option monad, so a theorem \<open>f s = Some r\<close> says in
  particular that \<open>f\<close> runs without undefined behaviour. Error codes that the program itself
  returns (\<open>XV_ERR\<close>, \<open>XV_AGAIN\<close>) and null pointers are ordinary values.
\<close>

subsection \<open>Pointers and typed heaps\<close>

type_synonym addr = nat
type_synonym byte = "8 word"
type_synonym u32 = "32 word"

abbreviation NULL :: addr where
  "NULL \<equiv> 0"

text \<open>
  The allocator hands out fresh addresses; all typed heaps of the program extend this record, so
  that two live objects never share an address whatever their types. Allocation succeeds: the
  sources never test the result of \<^verbatim>\<open>xv_malloc\<close>.
\<close>

record memory =
  brk :: addr

definition xv_malloc :: "'z memory_scheme \<Rightarrow> addr \<times> 'z memory_scheme" where
  "xv_malloc s = (Suc (brk s), s\<lparr>brk := Suc (brk s)\<rparr>)"

definition deref :: "(addr \<rightharpoonup> 'a) \<Rightarrow> addr \<Rightarrow> 'a option" where
  "deref h p = (if p = NULL then None else h p)"

definition xv_free :: "(addr \<rightharpoonup> 'a) \<Rightarrow> addr \<Rightarrow> (addr \<rightharpoonup> 'a) option" where
  "xv_free h p =
     (if p = NULL then Some h
      else case h p of None \<Rightarrow> None | Some _ \<Rightarrow> Some (h(p := None)))"

subsection \<open>Checked integers, arrays and byte blocks\<close>

definition INT_MAX :: int where
  "INT_MAX = 2147483647"

definition INT_MIN :: int where
  "INT_MIN = - 2147483648"

text \<open>The result of a signed \<^verbatim>\<open>int\<close> operation: undefined when it does not fit.\<close>

definition c_int :: "int \<Rightarrow> int option" where
  "c_int x = (if INT_MIN \<le> x \<and> x \<le> INT_MAX then Some x else None)"

definition c_mod :: "int \<Rightarrow> int \<Rightarrow> int option" where
  "c_mod a b = (if b = 0 then None else c_int (a smod b))"

definition arr_get :: "'a list \<Rightarrow> int \<Rightarrow> 'a option" where
  "arr_get xs i = (if 0 \<le> i \<and> i < int (length xs) then Some (xs ! nat i) else None)"

definition arr_set :: "'a list \<Rightarrow> int \<Rightarrow> 'a \<Rightarrow> 'a list option" where
  "arr_set xs i v = (if 0 \<le> i \<and> i < int (length xs) then Some (xs[nat i := v]) else None)"

definition mem_get :: "'a list \<Rightarrow> int \<Rightarrow> int \<Rightarrow> 'a list option" where
  "mem_get blk off n =
     (if 0 \<le> off \<and> 0 \<le> n \<and> off + n \<le> int (length blk)
      then Some (take (nat n) (drop (nat off) blk)) else None)"

definition mem_put :: "'a list \<Rightarrow> int \<Rightarrow> 'a list \<Rightarrow> 'a list option" where
  "mem_put blk off xs =
     (if 0 \<le> off \<and> off + int (length xs) \<le> int (length blk)
      then Some (take (nat off) blk @ xs @ drop (nat off + length xs) blk) else None)"

definition memmove :: "'a list \<Rightarrow> int \<Rightarrow> int \<Rightarrow> int \<Rightarrow> 'a list option" where
  "memmove blk dst src n = do { xs \<leftarrow> mem_get blk src n; mem_put blk dst xs }"

text \<open>\<^verbatim>\<open>realloc\<close> keeps the common prefix; the rest of the new block is indeterminate.\<close>

definition xv_realloc :: "'a \<Rightarrow> 'a list \<Rightarrow> int \<Rightarrow> 'a list" where
  "xv_realloc fill blk n = take (nat n) blk @ replicate (nat n - length blk) fill"

subsection \<open>Return codes and event masks (\<^verbatim>\<open>xv_define.h\<close>)\<close>

definition XV_OK :: int where "XV_OK = 0"
definition XV_AGAIN :: int where "XV_AGAIN = 1"
definition XV_ERR :: int where "XV_ERR = - 1"

definition XV_NONE :: u32 where "XV_NONE = 0"
definition XV_READ :: u32 where "XV_READ = 1"
definition XV_WRITE :: u32 where "XV_WRITE = 2"
definition XV_ALL_EVENT :: u32 where "XV_ALL_EVENT = XV_READ OR XV_WRITE"

text \<open>The C test \<^verbatim>\<open>if (mask & bit)\<close>.\<close>

definition has :: "u32 \<Rightarrow> u32 \<Rightarrow> bool" where
  "has m b \<longleftrightarrow> m AND b \<noteq> 0"

subsection \<open>Automation\<close>

named_theorems code_defs \<open>the return codes and event masks, to be unfolded\<close>

declare XV_OK_def [code_defs] XV_AGAIN_def [code_defs] XV_ERR_def [code_defs]
  XV_NONE_def [code_defs] XV_READ_def [code_defs] XV_WRITE_def [code_defs]
  XV_ALL_EVENT_def [code_defs]

lemma XV_codes_distinct [simp]:
  "XV_OK \<noteq> XV_ERR" "XV_ERR \<noteq> XV_OK" "XV_AGAIN \<noteq> XV_OK" "XV_OK \<noteq> XV_AGAIN"
  "XV_AGAIN \<noteq> XV_ERR" "XV_ERR \<noteq> XV_AGAIN"
  by (simp_all add: code_defs)

lemma c_int_Some_iff: "c_int x = Some y \<longleftrightarrow> y = x \<and> INT_MIN \<le> x \<and> x \<le> INT_MAX"
  by (auto simp: c_int_def)

lemma c_int_in_range: "0 \<le> x \<Longrightarrow> x \<le> INT_MAX \<Longrightarrow> c_int x = Some x"
  by (simp add: c_int_def INT_MIN_def)

lemma c_int_None_iff: "c_int x = None \<longleftrightarrow> x < INT_MIN \<or> INT_MAX < x"
  by (auto simp: c_int_def)

lemma bind_SomeE:
  assumes "m \<bind> f = Some y"
  obtains x where "m = Some x" "f x = Some y"
  using assms by (auto simp: Option.bind_eq_Some_conv)

lemma deref_NULL [simp]: "deref h NULL = None"
  by (simp add: deref_def)

lemma deref_nonnull [simp]: "p \<noteq> NULL \<Longrightarrow> deref h p = h p"
  by (simp add: deref_def)

lemma deref_Some_iff: "deref h p = Some x \<longleftrightarrow> p \<noteq> NULL \<and> h p = Some x"
  by (simp add: deref_def)

lemma xv_free_live: "p \<noteq> NULL \<Longrightarrow> h p = Some x \<Longrightarrow> xv_free h p = Some (h(p := None))"
  by (simp add: xv_free_def)

lemma xv_free_dangling: "p \<noteq> NULL \<Longrightarrow> h p = None \<Longrightarrow> xv_free h p = None"
  by (simp add: xv_free_def)

lemma xv_free_Some_iff:
  "xv_free h p = Some h' \<longleftrightarrow> (p = NULL \<and> h' = h \<or> p \<noteq> NULL \<and> h p \<noteq> None \<and> h' = h(p := None))"
  by (auto simp: xv_free_def split: option.splits)

lemma arr_get_Some_iff:
  "arr_get xs i = Some v \<longleftrightarrow> 0 \<le> i \<and> i < int (length xs) \<and> v = xs ! nat i"
  by (auto simp: arr_get_def)

lemma arr_set_Some_iff:
  "arr_set xs i v = Some ys \<longleftrightarrow> 0 \<le> i \<and> i < int (length xs) \<and> ys = xs[nat i := v]"
  by (auto simp: arr_set_def)

lemma mem_get_Some_iff:
  "mem_get blk off n = Some xs \<longleftrightarrow>
     0 \<le> off \<and> 0 \<le> n \<and> off + n \<le> int (length blk) \<and> xs = take (nat n) (drop (nat off) blk)"
  by (auto simp: mem_get_def)

lemma mem_put_Some_iff:
  "mem_put blk off xs = Some blk' \<longleftrightarrow>
     0 \<le> off \<and> off + int (length xs) \<le> int (length blk) \<and>
     blk' = take (nat off) blk @ xs @ drop (nat off + length xs) blk"
  by (auto simp: mem_put_def)

lemma mem_put_length: "mem_put blk off xs = Some blk' \<Longrightarrow> length blk' = length blk"
  by (auto simp: mem_put_Some_iff)

lemma length_xv_realloc [simp]: "length (xv_realloc fill blk n) = nat n"
  by (simp add: xv_realloc_def)

lemma take_xv_realloc:
  "k \<le> length blk \<Longrightarrow> k \<le> nat n \<Longrightarrow> take k (xv_realloc fill blk n) = take k blk"
  by (simp add: xv_realloc_def min_def)

lemma has_zero [simp]: "\<not> has 0 b"
  by (simp add: has_def)

lemma has_event [simp]:
  "has XV_READ XV_READ" "\<not> has XV_READ XV_WRITE" "has XV_WRITE XV_WRITE" "\<not> has XV_WRITE XV_READ"
  "XV_READ \<noteq> XV_WRITE" "XV_WRITE \<noteq> XV_READ" "XV_READ \<noteq> XV_NONE" "XV_WRITE \<noteq> XV_NONE"
  by (simp_all add: has_def code_defs)

lemma sdiv_nonneg: "0 \<le> a \<Longrightarrow> 0 < b \<Longrightarrow> a sdiv b = a div b" for a b :: int
  by (cases "a = 0") (auto simp: signed_divide_int_def sgn_if)

lemma smod_nonneg: "0 \<le> a \<Longrightarrow> 0 < b \<Longrightarrow> a smod b = a mod b" for a b :: int
  by (simp add: minus_mult_sdiv_eq_smod [symmetric] sdiv_nonneg minus_mult_div_eq_mod)

end
