(* ===== verification/Xv_Queue.thy ===== *)
theory Xv_Queue
  imports Xv_Prelude
begin

section \<open>The linked-list queue (\<^verbatim>\<open>src/src/xv_queue.c\<close>)\<close>

text \<open>
  Nodes, queues and concurrent queues live in typed heaps. \<open>n_next\<close> is \<open>None\<close> for a link
  that was never assigned: \<^verbatim>\<open>xv_queue_push\<close> leaves \<^verbatim>\<open>node->next\<close> of a new node as
  \<^verbatim>\<open>malloc\<close> returned it. Every operation below touches one queue of a heap that holds any
  number of them; the abstraction \<open>queue_list\<close> gives the elements of each, and the laws say how
  an operation changes the whole family (so also that it leaves the other queues alone).
\<close>

subsection \<open>Data and operations\<close>

record xv_node_t =
  n_data :: addr
  n_next :: "addr option"

record xv_queue_t =
  q_head :: addr
  q_tail :: addr
  q_size :: int

record xv_concurrent_queue_t =
  cq_queue :: addr
  cq_mutex :: bool

record qheap = memory +
  nodes :: "addr \<rightharpoonup> xv_node_t"
  queues :: "addr \<rightharpoonup> xv_queue_t"
  cqueues :: "addr \<rightharpoonup> xv_concurrent_queue_t"

definition xv_queue_init :: "'z qheap_scheme \<Rightarrow> addr \<times> 'z qheap_scheme" where
  "xv_queue_init s =
     (let (p, s) = xv_malloc s in
      (p, s\<lparr>queues := (queues s)(p \<mapsto> \<lparr>q_head = NULL, q_tail = NULL, q_size = 0\<rparr>)\<rparr>))"

text \<open>The loop of \<^verbatim>\<open>xv_queue_destroy\<close>; \<open>destroy\<close> is the callback, \<open>None\<close> when it is
  \<^verbatim>\<open>NULL\<close>.\<close>

partial_function (option) destroy_nodes ::
  "(addr \<Rightarrow> 'z qheap_scheme \<Rightarrow> 'z qheap_scheme option) option \<Rightarrow> addr \<Rightarrow> 'z qheap_scheme \<Rightarrow>
   'z qheap_scheme option" where
  "destroy_nodes destroy node s =
     (if node = NULL then Some s
      else do {
        n \<leftarrow> deref (nodes s) node;
        tmp \<leftarrow> n_next n;
        s \<leftarrow> (case destroy of None \<Rightarrow> Some s | Some cb \<Rightarrow> cb (n_data n) s);
        h \<leftarrow> xv_free (nodes s) node;
        destroy_nodes destroy tmp (s\<lparr>nodes := h\<rparr>) })"

definition xv_queue_destroy ::
  "'z qheap_scheme \<Rightarrow> addr \<Rightarrow> (addr \<Rightarrow> 'z qheap_scheme \<Rightarrow> 'z qheap_scheme option) option \<Rightarrow>
   'z qheap_scheme option" where
  "xv_queue_destroy s queue destroy = do {
     q \<leftarrow> deref (queues s) queue;
     s \<leftarrow> destroy_nodes destroy (q_head q) s;
     h \<leftarrow> xv_free (queues s) queue;
     Some (s\<lparr>queues := h\<rparr>) }"

definition xv_queue_push :: "'z qheap_scheme \<Rightarrow> addr \<Rightarrow> addr \<Rightarrow> 'z qheap_scheme option" where
  "xv_queue_push s queue data = do {
     let (node, s) = xv_malloc s;
     let s = s\<lparr>nodes := (nodes s)(node \<mapsto> \<lparr>n_data = data, n_next = None\<rparr>)\<rparr>;
     q \<leftarrow> deref (queues s) queue;
     (q, s) \<leftarrow>
       (if q_tail q \<noteq> NULL
        then do {
          t \<leftarrow> deref (nodes s) (q_tail q);
          Some (q\<lparr>q_tail := node\<rparr>,
                s\<lparr>nodes := (nodes s)(q_tail q \<mapsto> t\<lparr>n_next := Some node\<rparr>)\<rparr>) }
        else Some (q\<lparr>q_head := node, q_tail := node\<rparr>, s));
     n \<leftarrow> c_int (q_size q + 1);
     Some (s\<lparr>queues := (queues s)(queue \<mapsto> q\<lparr>q_size := n\<rparr>)\<rparr>) }"

definition xv_queue_pop :: "'z qheap_scheme \<Rightarrow> addr \<Rightarrow> (addr \<times> 'z qheap_scheme) option" where
  "xv_queue_pop s queue = do {
     q \<leftarrow> deref (queues s) queue;
     if q_size q = 1
     then do {
       h \<leftarrow> deref (nodes s) (q_head q);
       ns \<leftarrow> xv_free (nodes s) (q_head q);
       n \<leftarrow> c_int (q_size q - 1);
       Some (n_data h, s\<lparr>nodes := ns,
         queues := (queues s)(queue \<mapsto> q\<lparr>q_head := NULL, q_tail := NULL, q_size := n\<rparr>)\<rparr>) }
     else if q_size q > 1
     then do {
       h \<leftarrow> deref (nodes s) (q_head q);
       nx \<leftarrow> n_next h;
       ns \<leftarrow> xv_free (nodes s) (q_head q);
       n \<leftarrow> c_int (q_size q - 1);
       Some (n_data h, s\<lparr>nodes := ns,
         queues := (queues s)(queue \<mapsto> q\<lparr>q_head := nx, q_size := n\<rparr>)\<rparr>) }
     else Some (NULL, s) }"

definition xv_queue_size :: "'z qheap_scheme \<Rightarrow> addr \<Rightarrow> int option" where
  "xv_queue_size s queue = do { q \<leftarrow> deref (queues s) queue; Some (q_size q) }"

subsection \<open>Abstraction: the elements of a queue\<close>

text \<open>\<open>links h ns\<close>: the nodes \<open>ns\<close> are live and each points to the next; the last link is the
  one that was never assigned.\<close>

fun links :: "(addr \<rightharpoonup> xv_node_t) \<Rightarrow> addr list \<Rightarrow> bool" where
  "links h [] = True"
| "links h [p] = (\<exists>n. h p = Some n \<and> n_next n = None)"
| "links h (p # p' # ps) = ((\<exists>n. h p = Some n \<and> n_next n = Some p') \<and> links h (p' # ps))"

fun walk :: "(addr \<rightharpoonup> xv_node_t) \<Rightarrow> nat \<Rightarrow> addr \<Rightarrow> addr list" where
  "walk h 0 p = []"
| "walk h (Suc n) p =
     p # walk h n (case h p of None \<Rightarrow> NULL | Some nd \<Rightarrow> (case n_next nd of None \<Rightarrow> NULL | Some q \<Rightarrow> q))"

definition queue_nodes :: "'z qheap_scheme \<Rightarrow> addr \<Rightarrow> addr list" where
  "queue_nodes s q =
     (case queues s q of None \<Rightarrow> [] | Some qd \<Rightarrow> walk (nodes s) (nat (q_size qd)) (q_head qd))"

definition node_data :: "(addr \<rightharpoonup> xv_node_t) \<Rightarrow> addr \<Rightarrow> addr" where
  "node_data h p = (case h p of None \<Rightarrow> NULL | Some n \<Rightarrow> n_data n)"

definition queue_list :: "'z qheap_scheme \<Rightarrow> addr \<Rightarrow> addr list" where
  "queue_list s q = map (node_data (nodes s)) (queue_nodes s q)"

definition queue_repr :: "'z qheap_scheme \<Rightarrow> xv_queue_t \<Rightarrow> addr list \<Rightarrow> bool" where
  "queue_repr s qd ns \<longleftrightarrow>
     links (nodes s) ns \<and> distinct ns \<and> NULL \<notin> set ns \<and>
     q_size qd = int (length ns) \<and> q_size qd \<le> INT_MAX \<and>
     q_head qd = (if ns = [] then NULL else hd ns) \<and>
     q_tail qd = (if ns = [] then NULL else last ns)"

text \<open>The heap invariant: every live queue is a proper chain, different queues have different
  nodes, and every live address is below the allocation break.\<close>

definition qheap_ok :: "'z qheap_scheme \<Rightarrow> bool" where
  "qheap_ok s \<longleftrightarrow>
     (\<forall>q qd. queues s q = Some qd \<longrightarrow>
        q \<noteq> NULL \<and> q \<le> brk s \<and> queue_repr s qd (queue_nodes s q)) \<and>
     (\<forall>q q'. q \<noteq> q' \<longrightarrow> set (queue_nodes s q) \<inter> set (queue_nodes s q') = {}) \<and>
     (\<forall>p n. nodes s p = Some n \<longrightarrow> p \<noteq> NULL \<and> p \<le> brk s)"

definition live_queue :: "'z qheap_scheme \<Rightarrow> addr \<Rightarrow> bool" where
  "live_queue s q \<longleftrightarrow> queues s q \<noteq> None"

text \<open>The abstraction reads the nodes and queues only, so it is untouched by any update of the
  fields that other components add to the state.\<close>

lemma queue_nodes_cong: "nodes t = nodes s \<Longrightarrow> queues t = queues s \<Longrightarrow> queue_nodes t = queue_nodes s"
  by (rule ext) (simp add: queue_nodes_def split: option.split)

lemma qheap_cong:
  assumes "nodes t = nodes s" "queues t = queues s"
  shows "queue_list t = queue_list s" "live_queue t = live_queue s"
    "brk t = brk s \<Longrightarrow> qheap_ok t = qheap_ok s"
  by (rule ext, simp add: queue_list_def queue_nodes_cong[OF assms] assms,
      rule ext, simp add: live_queue_def assms,
      simp add: qheap_ok_def queue_repr_def queue_nodes_cong[OF assms] assms)

subsection \<open>Chains\<close>

lemma walk_links: "links h ns \<Longrightarrow> ns \<noteq> [] \<Longrightarrow> walk h (length ns) (hd ns) = ns"
  by (induction h ns rule: links.induct) auto

lemma walk_cong_links:
  "links h ns \<Longrightarrow> ns \<noteq> [] \<Longrightarrow> \<forall>p \<in> set ns. h' p = h p \<Longrightarrow> walk h' (length ns) (hd ns) = ns"
  by (induction h ns rule: links.induct) auto

lemma links_cong: "links h ns \<Longrightarrow> \<forall>p \<in> set ns. h' p = h p \<Longrightarrow> links h' ns"
  by (induction h ns rule: links.induct) auto

lemma links_live: "links h ns \<Longrightarrow> p \<in> set ns \<Longrightarrow> \<exists>n. h p = Some n"
  by (induction h ns rule: links.induct) auto

lemma links_last: "links h ns \<Longrightarrow> ns \<noteq> [] \<Longrightarrow> \<exists>n. h (last ns) = Some n \<and> n_next n = None"
  by (induction h ns rule: links.induct) auto

lemma links_tl: "links h (p # ns) \<Longrightarrow> links h ns"
  by (cases ns) auto

text \<open>Appending a fresh node behind the last one, as \<^verbatim>\<open>xv_queue_push\<close> does.\<close>

lemma links_snoc:
  "links h ns \<Longrightarrow> ns \<noteq> [] \<Longrightarrow> distinct ns \<Longrightarrow> p \<notin> set ns \<Longrightarrow> h (last ns) = Some t \<Longrightarrow>
   links (h(p \<mapsto> \<lparr>n_data = d, n_next = None\<rparr>, last ns \<mapsto> t\<lparr>n_next := Some p\<rparr>)) (ns @ [p])"
proof (induction h ns rule: links.induct)
  case (1 h)
  then show ?case by simp
next
  case (2 h q)
  then show ?case by auto
next
  case (3 h q q' qs)
  define l where "l = last (q' # qs)"
  let ?h = "h(p \<mapsto> \<lparr>n_data = d, n_next = None\<rparr>, l \<mapsto> t\<lparr>n_next := Some p\<rparr>)"
  have "links ?h ((q' # qs) @ [p])"
    unfolding l_def by (rule "3.IH") (use "3.prems" in auto)
  moreover have "q \<noteq> l" "q \<noteq> p" and last: "last (q # q' # qs) = l"
    using "3.prems" by (auto simp: l_def split: if_splits)
  ultimately show ?case
    unfolding last append_Cons links.simps(3) using "3.prems"(1) by simp
qed

subsection \<open>The laws of the operations\<close>

lemma qheap_okD:
  assumes "qheap_ok s" "queues s q = Some qd"
  shows "q \<noteq> NULL" "q \<le> brk s" "queue_repr s qd (queue_nodes s q)"
    "links (nodes s) (queue_nodes s q)" "distinct (queue_nodes s q)" "NULL \<notin> set (queue_nodes s q)"
    "q_size qd = int (length (queue_nodes s q))" "int (length (queue_nodes s q)) \<le> INT_MAX"
    "q_head qd = (if queue_nodes s q = [] then NULL else hd (queue_nodes s q))"
    "q_tail qd = (if queue_nodes s q = [] then NULL else last (queue_nodes s q))"
  using assms unfolding qheap_ok_def queue_repr_def by fastforce+

lemma qheap_ok_nodes_below: "qheap_ok s \<Longrightarrow> nodes s p = Some n \<Longrightarrow> p \<noteq> NULL \<and> p \<le> brk s"
  by (simp add: qheap_ok_def)

lemma queue_nodes_disjoint:
  "qheap_ok s \<Longrightarrow> q \<noteq> q' \<Longrightarrow> set (queue_nodes s q) \<inter> set (queue_nodes s q') = {}"
  by (simp add: qheap_ok_def)

lemma queue_nodes_live:
  assumes "qheap_ok s" "p \<in> set (queue_nodes s q)"
  shows "\<exists>n. nodes s p = Some n"
proof (cases "queues s q")
  case None
  then show ?thesis using assms(2) by (simp add: queue_nodes_def)
next
  case (Some qd)
  then show ?thesis using qheap_okD(4)[OF assms(1) Some] links_live assms(2) by blast
qed

lemma length_queue_list: "length (queue_list s q) = length (queue_nodes s q)"
  by (simp add: queue_list_def)

lemma queue_nodes_unique:
  assumes "queues s q = Some qd" "queue_repr s qd ns"
  shows "queue_nodes s q = ns"
  using assms walk_links[of "nodes s" ns]
  by (cases "ns = []") (auto simp: queue_nodes_def queue_repr_def)

text \<open>
  The frame rule of the heap: a state \<open>t\<close> that differs from \<open>s\<close> in one queue \<open>q\<close>, whose new
  chain is \<open>ns\<close>, and in no node of any other queue, is a well-formed heap again in which
  only \<open>q\<close> has changed.
\<close>

lemma qheap_frame:
  assumes ok: "qheap_ok s"
    and q: "q \<noteq> NULL" "q \<le> brk t" "queues t = (queues s)(q \<mapsto> qd)"
    and repr: "queue_repr t qd ns"
    and brk: "brk s \<le> brk t"
    and same: "\<And>q' p. q' \<noteq> q \<Longrightarrow> p \<in> set (queue_nodes s q') \<Longrightarrow> nodes t p = nodes s p"
    and apart: "\<And>q'. q' \<noteq> q \<Longrightarrow> set (queue_nodes s q') \<inter> set ns = {}"
    and below: "\<And>p n. nodes t p = Some n \<Longrightarrow> p \<noteq> NULL \<and> p \<le> brk t"
  shows "qheap_ok t" and "queue_list t = (queue_list s)(q := map (node_data (nodes t)) ns)"
    and "live_queue t = (live_queue s)(q := True)"
proof -
  have other: "queue_nodes t q' = queue_nodes s q' \<and>
      (\<forall>qd'. queues s q' = Some qd' \<longrightarrow> queue_repr t qd' (queue_nodes s q'))" if "q' \<noteq> q" for q'
  proof (cases "queues s q'")
    case None
    then show ?thesis using that q(3) by (simp add: queue_nodes_def)
  next
    case (Some qd')
    note d = qheap_okD[OF ok Some]
    have "queue_repr t qd' (queue_nodes s q')"
      using d links_cong[OF d(4), of "nodes t"] same[OF that] by (simp add: queue_repr_def)
    moreover from this have "queue_nodes t q' = queue_nodes s q'"
      using queue_nodes_unique[of t q' qd'] Some that q(3) by simp
    ultimately show ?thesis using Some by simp
  qed
  have self: "queue_nodes t q = ns"
    using queue_nodes_unique[of t q qd] repr q(3) by simp
  show "qheap_ok t"
    unfolding qheap_ok_def
  proof (intro conjI allI impI)
    fix q' qd'
    assume *: "queues t q' = Some qd'"
    show "q' \<noteq> NULL"
      using * q(1,3) qheap_okD(1)[OF ok] by (auto split: if_splits)
    show "q' \<le> brk t"
      using * q(2,3) brk qheap_okD(2)[OF ok] by (fastforce split: if_splits)
    show "queue_repr t qd' (queue_nodes t q')"
      using * q(3) repr self other by (auto split: if_splits)
  next
    fix q1 q2 :: addr
    assume "q1 \<noteq> q2"
    then show "set (queue_nodes t q1) \<inter> set (queue_nodes t q2) = {}"
      using self other apart queue_nodes_disjoint[OF ok] by (metis inf_commute)
  qed (use below in auto)
  have "map (node_data (nodes t)) (queue_nodes s q') = map (node_data (nodes s)) (queue_nodes s q')"
    if "q' \<noteq> q" for q'
    using same[OF that] by (simp add: node_data_def)
  then show "queue_list t = (queue_list s)(q := map (node_data (nodes t)) ns)"
    using self other by (auto simp: queue_list_def fun_eq_iff)
  show "live_queue t = (live_queue s)(q := True)"
    using q(3) by (auto simp: live_queue_def fun_eq_iff)
qed


lemma fresh_node:
  assumes "qheap_ok s" shows "nodes s (Suc (brk s)) = None"
  using qheap_ok_nodes_below[OF assms, of "Suc (brk s)"] by (cases "nodes s (Suc (brk s))") auto

lemma fresh_not_in_queue:
  assumes "qheap_ok s" shows "Suc (brk s) \<notin> set (queue_nodes s q)"
  using queue_nodes_live[OF assms, of "Suc (brk s)" q] fresh_node[OF assms] by auto

lemma push_empty_law:
  assumes ok: "qheap_ok s" and qd: "queues s q = Some qd" and ns: "queue_nodes s q = []"
  shows "\<exists>t. xv_queue_push s q x = Some t \<and> qheap_ok t \<and>
     queue_list t = (queue_list s)(q := [x]) \<and> live_queue t = live_queue s \<and>
     cqueues t = cqueues s \<and> qheap.more t = qheap.more s \<and> brk t = Suc (brk s)"
proof -
  note d = qheap_okD[OF ok qd]
  let ?p = "Suc (brk s)"
  define qd' where "qd' = qd\<lparr>q_head := ?p, q_tail := ?p, q_size := 1\<rparr>"
  define t where "t = s\<lparr>brk := ?p, nodes := (nodes s)(?p \<mapsto> \<lparr>n_data = x, n_next = None\<rparr>),
    queues := (queues s)(q \<mapsto> qd')\<rparr>"
  have q: "q_tail qd = NULL" "q_size qd = 0"
    using d ns by simp_all
  have push: "xv_queue_push s q x = Some t"
    using d(1) qd q by (simp add: xv_queue_push_def xv_malloc_def t_def qd'_def c_int_in_range INT_MAX_def)
  have "queue_repr t qd' [?p]"
    by (simp add: queue_repr_def t_def qd'_def INT_MAX_def)
  note frame = qheap_frame[OF ok d(1) _ _ this]
  have "qheap_ok t" "queue_list t = (queue_list s)(q := map (node_data (nodes t)) [?p])"
    "live_queue t = (live_queue s)(q := True)"
    by (rule frame; use d(2) fresh_not_in_queue[OF ok] qheap_ok_nodes_below[OF ok] in
        \<open>force simp: t_def split: if_splits\<close>)+
  moreover have "map (node_data (nodes t)) [?p] = [x]"
    by (simp add: t_def node_data_def)
  moreover have "(live_queue s)(q := True) = live_queue s"
    using qd by (auto simp: live_queue_def fun_eq_iff)
  ultimately show ?thesis
    using push by (simp add: t_def)
qed

lemma push_nonempty_law:
  assumes ok: "qheap_ok s" and qd: "queues s q = Some qd" and ns: "queue_nodes s q \<noteq> []"
    and room: "int (length (queue_nodes s q)) < INT_MAX"
  shows "\<exists>t. xv_queue_push s q x = Some t \<and> qheap_ok t \<and>
     queue_list t = (queue_list s)(q := queue_list s q @ [x]) \<and> live_queue t = live_queue s \<and>
     cqueues t = cqueues s \<and> qheap.more t = qheap.more s \<and> brk t = Suc (brk s)"
proof -
  note d = qheap_okD[OF ok qd]
  let ?p = "Suc (brk s)" and ?ns = "queue_nodes s q"
  obtain tl where tl: "nodes s (last ?ns) = Some tl"
    using links_last[OF d(4) ns] by blast
  have lastp: "last ?ns \<noteq> ?p" "last ?ns \<noteq> NULL"
    using fresh_not_in_queue[OF ok] d(6) last_in_set[OF ns] by metis+
  define qd' where "qd' = qd\<lparr>q_tail := ?p, q_size := int (length ?ns) + 1\<rparr>"
  define h where "h = (nodes s)(?p \<mapsto> \<lparr>n_data = x, n_next = None\<rparr>, last ?ns \<mapsto> tl\<lparr>n_next := Some ?p\<rparr>)"
  define t where "t = s\<lparr>brk := ?p, nodes := h, queues := (queues s)(q \<mapsto> qd')\<rparr>"
  have tailq: "q_tail qd = last ?ns"
    using d(10) ns by simp
  have push: "xv_queue_push s q x = Some t"
    using d(1,7) qd tl lastp room tailq
    by (simp add: xv_queue_push_def xv_malloc_def t_def qd'_def h_def c_int_in_range)
  have "links h (?ns @ [?p])"
    unfolding h_def using links_snoc[OF d(4) ns d(5) fresh_not_in_queue[OF ok] tl] .
  then have "queue_repr t qd' (?ns @ [?p])"
    using d ns room fresh_not_in_queue[OF ok] by (simp add: queue_repr_def t_def qd'_def)
  note frame = qheap_frame[OF ok d(1) _ _ this]
  have same: "h p = nodes s p" if "p \<in> set (queue_nodes s q')" "q' \<noteq> q" for p q'
    using that fresh_not_in_queue[OF ok, of q'] queue_nodes_disjoint[OF ok that(2)] last_in_set[OF ns]
    by (auto simp: h_def)
  have below: "p \<noteq> NULL \<and> p \<le> ?p" if "h p = Some n" for p n
    using that qheap_ok_nodes_below[OF ok] tl
    by (auto simp: h_def intro: le_SucI split: if_splits)
  have "qheap_ok t" "queue_list t = (queue_list s)(q := map (node_data (nodes t)) (?ns @ [?p]))"
    "live_queue t = (live_queue s)(q := True)"
    by (rule frame; use d(2) same below fresh_not_in_queue[OF ok] queue_nodes_disjoint[OF ok] in
        \<open>force simp: t_def\<close>)+
  moreover have "map (node_data (nodes t)) (?ns @ [?p]) = queue_list s q @ [x]"
    using fresh_not_in_queue[OF ok] tl lastp
    by (auto simp: t_def h_def node_data_def queue_list_def)
  moreover have "(live_queue s)(q := True) = live_queue s"
    using qd by (auto simp: live_queue_def fun_eq_iff)
  ultimately show ?thesis
    using push by (simp add: t_def)
qed

lemma push_law:
  assumes ok: "qheap_ok s" and live: "live_queue s q"
    and room: "int (length (queue_list s q)) < INT_MAX"
  shows "\<exists>t. xv_queue_push s q x = Some t \<and> qheap_ok t \<and>
     queue_list t = (queue_list s)(q := queue_list s q @ [x]) \<and> live_queue t = live_queue s \<and>
     cqueues t = cqueues s \<and> qheap.more t = qheap.more s \<and> brk t = Suc (brk s)"
proof -
  obtain qd where qd: "queues s q = Some qd"
    using live by (auto simp: live_queue_def)
  show ?thesis
  proof (cases "queue_nodes s q = []")
    case True
    then show ?thesis
      using push_empty_law[OF ok qd True] by (simp add: queue_list_def)
  next
    case False
    then show ?thesis
      using push_nonempty_law[OF ok qd False] room by (simp add: length_queue_list)
  qed
qed


text \<open>Conversely a push that succeeds had room: otherwise \<^verbatim>\<open>queue->size++\<close> overflows.\<close>

lemma push_Some_room:
  assumes ok: "qheap_ok s" and qd: "queues s q = Some qd" and push: "xv_queue_push s q x = Some t"
  shows "int (length (queue_list s q)) < INT_MAX"
proof -
  note d = qheap_okD[OF ok qd]
  have "c_int (q_size qd + 1) \<noteq> None"
    using push qd d(1)
    by (auto simp: xv_queue_push_def xv_malloc_def Let_def Option.bind_eq_Some_conv split: if_splits)
  then show ?thesis
    using d(7) by (auto simp: c_int_def length_queue_list split: if_splits)
qed

lemma pop_empty_law:
  assumes ok: "qheap_ok s" and live: "live_queue s q" and "queue_list s q = []"
  shows "xv_queue_pop s q = Some (NULL, s)"
proof -
  obtain qd where qd: "queues s q = Some qd"
    using live by (auto simp: live_queue_def)
  have "q_size qd = 0"
    using assms(3) qheap_okD(7)[OF ok qd] by (simp add: queue_list_def)
  then show ?thesis
    using qd qheap_okD(1)[OF ok qd] by (simp add: xv_queue_pop_def)
qed

lemma pop_nodes:
  assumes ok: "qheap_ok s" and qd: "queues s q = Some qd" and ns: "queue_nodes s q = p # ps"
  obtains n where "nodes s p = Some n" "p \<noteq> NULL" "p \<notin> set ps"
    "n_next n = (if ps = [] then None else Some (hd ps))" "q_head qd = p"
    "q_tail qd = (if ps = [] then p else last ps)" "q_size qd = int (length ps) + 1"
    "xv_queue_pop s q = Some (n_data n,
       s\<lparr>nodes := (nodes s)(p := None), queues := (queues s)(q \<mapsto> qd\<lparr>
         q_head := (if ps = [] then NULL else hd ps),
         q_tail := (if ps = [] then NULL else last ps), q_size := int (length ps)\<rparr>)\<rparr>)"
proof -
  note d = qheap_okD[OF ok qd]
  obtain n where n: "nodes s p = Some n" "n_next n = (if ps = [] then None else Some (hd ps))"
    using d(4) ns by (cases ps) auto
  have pd: "p \<noteq> NULL" "p \<notin> set ps" "q_head qd = p" "q_tail qd = (if ps = [] then p else last ps)"
    "q_size qd = int (length ps) + 1"
    using d ns by auto
  have c: "c_int (int (length ps)) = Some (int (length ps))"
    using d(8) ns by (simp add: c_int_in_range)
  have "xv_queue_pop s q = Some (n_data n,
       s\<lparr>nodes := (nodes s)(p := None), queues := (queues s)(q \<mapsto> qd\<lparr>
         q_head := (if ps = [] then NULL else hd ps),
         q_tail := (if ps = [] then NULL else last ps), q_size := int (length ps)\<rparr>)\<rparr>)"
    using d(1) qd n pd c by (cases ps; cases qd) (auto simp: xv_queue_pop_def xv_free_def)
  then show thesis
    using n pd by (intro that) auto
qed

lemma pop_cons_law:
  assumes ok: "qheap_ok s" and live: "live_queue s q" and cons: "queue_list s q = x # xs"
  shows "\<exists>t. xv_queue_pop s q = Some (x, t) \<and> qheap_ok t \<and>
     queue_list t = (queue_list s)(q := xs) \<and> live_queue t = live_queue s \<and>
     cqueues t = cqueues s \<and> qheap.more t = qheap.more s \<and> brk t = brk s"
proof -
  obtain qd where qd: "queues s q = Some qd"
    using live by (auto simp: live_queue_def)
  note d = qheap_okD[OF ok qd]
  obtain p ps where ns: "queue_nodes s q = p # ps" "node_data (nodes s) p = x"
    "map (node_data (nodes s)) ps = xs"
    using cons by (auto simp: queue_list_def)
  obtain n where n: "nodes s p = Some n" "p \<noteq> NULL" "p \<notin> set ps"
    and pop: "xv_queue_pop s q = Some (n_data n,
       s\<lparr>nodes := (nodes s)(p := None), queues := (queues s)(q \<mapsto> qd\<lparr>
         q_head := (if ps = [] then NULL else hd ps),
         q_tail := (if ps = [] then NULL else last ps), q_size := int (length ps)\<rparr>)\<rparr>)"
    by (rule pop_nodes[OF ok qd ns(1)])
  define qd' where "qd' = qd\<lparr>q_head := (if ps = [] then NULL else hd ps),
         q_tail := (if ps = [] then NULL else last ps), q_size := int (length ps)\<rparr>"
  define t where "t = s\<lparr>nodes := (nodes s)(p := None), queues := (queues s)(q \<mapsto> qd')\<rparr>"
  have pop': "xv_queue_pop s q = Some (x, t)"
    using pop ns(2) n(1) by (simp add: t_def qd'_def node_data_def)
  have "links ((nodes s)(p := None)) ps"
    using links_cong[OF links_tl, of "nodes s" p ps] d(4) ns(1) n(3) by auto
  then have "queue_repr t qd' ps"
    using d(5,6,8) ns(1) by (simp add: queue_repr_def t_def qd'_def)
  note frame = qheap_frame[OF ok d(1) _ _ this]
  have apart: "p \<notin> set (queue_nodes s q') \<and> set (queue_nodes s q') \<inter> set ps = {}" if "q' \<noteq> q" for q'
    using queue_nodes_disjoint[OF ok that] ns(1) by auto
  have "qheap_ok t" "queue_list t = (queue_list s)(q := map (node_data (nodes t)) ps)"
    "live_queue t = (live_queue s)(q := True)"
    by (rule frame; use d(2) apart qheap_ok_nodes_below[OF ok] in
        \<open>force simp: t_def split: if_splits\<close>)+
  moreover have "map (node_data (nodes t)) ps = xs"
    using n(3) ns(3) by (auto simp: t_def node_data_def)
  moreover have "(live_queue s)(q := True) = live_queue s"
    using qd by (auto simp: live_queue_def fun_eq_iff)
  ultimately show ?thesis
    using pop' by (simp add: t_def)
qed

lemma size_law:
  assumes ok: "qheap_ok s" and live: "live_queue s q"
  shows "xv_queue_size s q = Some (int (length (queue_list s q)))"
proof -
  obtain qd where qd: "queues s q = Some qd"
    using live by (auto simp: live_queue_def)
  then show ?thesis
    using qheap_okD(1,7)[OF ok qd] by (simp add: xv_queue_size_def length_queue_list)
qed

lemma init_law:
  assumes ok: "qheap_ok s" and init: "xv_queue_init s = (q, t)"
  shows "qheap_ok t" "queue_list t = (queue_list s)(q := [])" "live_queue t = (live_queue s)(q := True)"
    "\<not> live_queue s q" "q = Suc (brk s)" "cqueues t = cqueues s" "qheap.more t = qheap.more s"
proof -
  define qd :: xv_queue_t where "qd = \<lparr>q_head = NULL, q_tail = NULL, q_size = 0\<rparr>"
  have t: "t = s\<lparr>brk := Suc (brk s), queues := (queues s)(q \<mapsto> qd)\<rparr>" and q: "q = Suc (brk s)"
    using init by (auto simp: xv_queue_init_def xv_malloc_def qd_def)
  show "q = Suc (brk s)" "cqueues t = cqueues s" "qheap.more t = qheap.more s"
    using t q by simp_all
  show "\<not> live_queue s q"
    using qheap_okD(2)[OF ok, of q] q by (cases "queues s q") (auto simp: live_queue_def)
  have "queue_repr t qd []"
    by (simp add: queue_repr_def qd_def INT_MAX_def)
  note frame = qheap_frame[OF ok _ _ _ this, where q = q]
  have l: "map (node_data (nodes t)) [] = []" by simp
  show "qheap_ok t" "queue_list t = (queue_list s)(q := [])" "live_queue t = (live_queue s)(q := True)"
    by (rule frame[unfolded l]; use q qheap_ok_nodes_below[OF ok] in
        \<open>force simp: t intro: le_SucI\<close>)+
qed


text \<open>Destroying: the walk follows the links to the last node, whose link was never assigned.\<close>

lemma destroy_nodes_uninit:
  assumes "links (nodes s) ns" "ns \<noteq> []" "distinct ns" "NULL \<notin> set ns"
    and cb: "\<And>f d s s'. destroy = Some f \<Longrightarrow> f d s = Some s' \<Longrightarrow> nodes s' = nodes s"
  shows "destroy_nodes destroy (hd ns) s = None"
  using assms(1-4)
proof (induction ns arbitrary: s)
  case Nil
  then show ?case by simp
next
  case (Cons p ps)
  obtain n where n: "nodes s p = Some n" "n_next n = (if ps = [] then None else Some (hd ps))"
    using Cons.prems(1) by (cases ps) auto
  show ?case
  proof (cases "ps = []")
    case True
    then show ?thesis using n Cons.prems by (simp add: destroy_nodes.simps[of _ p])
  next
    case False
    have step: "destroy_nodes destroy (hd ps) (s'\<lparr>nodes := (nodes s)(p := None)\<rparr>) = None" for s'
    proof (rule Cons.IH)
      have "\<forall>x \<in> set ps. ((nodes s)(p := None)) x = nodes s x"
        using Cons.prems(3) by auto
      then show "links (nodes (s'\<lparr>nodes := (nodes s)(p := None)\<rparr>)) ps"
        using links_cong[OF links_tl[OF Cons.prems(1)]] by simp
    qed (use False Cons.prems in auto)
    have "nodes s' = nodes s" if "(case destroy of None \<Rightarrow> Some s | Some cb \<Rightarrow> cb (n_data n) s) = Some s'" for s'
      using that cb by (auto split: option.splits)
    then show ?thesis
      using n False Cons.prems(4) step
      by (auto simp: destroy_nodes.simps[of _ p] xv_free_def Option.bind_eq_None_conv)
  qed
qed

subsection \<open>Queues as a family of lists\<close>

text \<open>
  The contract of a family of FIFO queues that live in one state, and a client that runs any
  sequence of calls on them. \<open>q_spec\<close> is the specification over a map from queues to lists;
  popping an empty queue returns \<open>NULL\<close> and changes nothing.
\<close>

datatype q_op = QPush addr addr | QPop addr | QSize addr

datatype q_out = OUnit | OPtr addr | OInt int

fun q_op_queue :: "q_op \<Rightarrow> addr" where
  "q_op_queue (QPush q x) = q"
| "q_op_queue (QPop q) = q"
| "q_op_queue (QSize q) = q"

fun q_spec :: "(addr \<Rightarrow> addr list) \<Rightarrow> q_op \<Rightarrow> q_out \<times> (addr \<Rightarrow> addr list)" where
  "q_spec m (QPush q x) = (OUnit, m(q := m q @ [x]))"
| "q_spec m (QPop q) = (case m q of [] \<Rightarrow> (OPtr NULL, m) | x # xs \<Rightarrow> (OPtr x, m(q := xs)))"
| "q_spec m (QSize q) = (OInt (int (length (m q))), m)"

fun q_spec_run :: "(addr \<Rightarrow> addr list) \<Rightarrow> q_op list \<Rightarrow> q_out list \<times> (addr \<Rightarrow> addr list)" where
  "q_spec_run m [] = ([], m)"
| "q_spec_run m (c # cs) =
     (let (x, m) = q_spec m c; (xs, m) = q_spec_run m cs in (x # xs, m))"

fun q_exec ::
  "('s \<Rightarrow> addr \<Rightarrow> addr \<Rightarrow> 's option) \<Rightarrow> ('s \<Rightarrow> addr \<Rightarrow> (addr \<times> 's) option) \<Rightarrow>
   ('s \<Rightarrow> addr \<Rightarrow> (int \<times> 's) option) \<Rightarrow> 's \<Rightarrow> q_op \<Rightarrow> (q_out \<times> 's) option" where
  "q_exec push pop sz s (QPush q x) = do { s \<leftarrow> push s q x; Some (OUnit, s) }"
| "q_exec push pop sz s (QPop q) = do { (x, s) \<leftarrow> pop s q; Some (OPtr x, s) }"
| "q_exec push pop sz s (QSize q) = do { (n, s) \<leftarrow> sz s q; Some (OInt n, s) }"

fun q_exec_run ::
  "('s \<Rightarrow> addr \<Rightarrow> addr \<Rightarrow> 's option) \<Rightarrow> ('s \<Rightarrow> addr \<Rightarrow> (addr \<times> 's) option) \<Rightarrow>
   ('s \<Rightarrow> addr \<Rightarrow> (int \<times> 's) option) \<Rightarrow> 's \<Rightarrow> q_op list \<Rightarrow> (q_out list \<times> 's) option" where
  "q_exec_run push pop sz s [] = Some ([], s)"
| "q_exec_run push pop sz s (c # cs) = do {
     (x, s) \<leftarrow> q_exec push pop sz s c;
     (xs, s) \<leftarrow> q_exec_run push pop sz s cs;
     Some (x # xs, s) }"

locale fifo_family =
  fixes ok :: "'s \<Rightarrow> bool"
    and live :: "'s \<Rightarrow> addr \<Rightarrow> bool"
    and elems :: "'s \<Rightarrow> addr \<Rightarrow> addr list"
    and push :: "'s \<Rightarrow> addr \<Rightarrow> addr \<Rightarrow> 's option"
    and pop :: "'s \<Rightarrow> addr \<Rightarrow> (addr \<times> 's) option"
    and sz :: "'s \<Rightarrow> addr \<Rightarrow> (int \<times> 's) option"
  assumes push: "ok s \<Longrightarrow> live s q \<Longrightarrow> int (length (elems s q)) < INT_MAX \<Longrightarrow>
      \<exists>t. push s q x = Some t \<and> ok t \<and> live t = live s \<and> elems t = (elems s)(q := elems s q @ [x])"
    and pop_nil: "ok s \<Longrightarrow> live s q \<Longrightarrow> elems s q = [] \<Longrightarrow> pop s q = Some (NULL, s)"
    and pop_cons: "ok s \<Longrightarrow> live s q \<Longrightarrow> elems s q = x # xs \<Longrightarrow>
      \<exists>t. pop s q = Some (x, t) \<and> ok t \<and> live t = live s \<and> elems t = (elems s)(q := xs)"
    and sz: "ok s \<Longrightarrow> live s q \<Longrightarrow> sz s q = Some (int (length (elems s q)), s)"
begin

lemma exec_refines:
  assumes "ok s" "live s (q_op_queue c)" "int (length (elems s (q_op_queue c))) < INT_MAX"
  shows "\<exists>t. q_exec push pop sz s c = Some (fst (q_spec (elems s) c), t) \<and> ok t \<and> live t = live s \<and>
     elems t = snd (q_spec (elems s) c)"
proof (cases c)
  case (QPush q x)
  then show ?thesis using push[of s q x] assms by auto
next
  case (QPop q)
  then show ?thesis
    using pop_nil[of s q] pop_cons[of s q] assms by (cases "elems s q") fastforce+
next
  case (QSize q)
  then show ?thesis using sz[of s q] assms by simp
qed

lemma spec_length: "length (snd (q_spec m c) q) \<le> Suc (length (m q))"
  by (cases c) (auto split: list.splits)

lemma run_refines:
  "ok s \<Longrightarrow> \<forall>c \<in> set cs. live s (q_op_queue c) \<Longrightarrow>
   \<forall>q. int (length (elems s q)) + int (length cs) \<le> INT_MAX \<Longrightarrow>
   \<exists>t. q_exec_run push pop sz s cs = Some (fst (q_spec_run (elems s) cs), t) \<and> ok t \<and>
     elems t = snd (q_spec_run (elems s) cs)"
proof (induction cs arbitrary: s)
  case Nil
  then show ?case by simp
next
  case (Cons c cs)
  have room: "int (length (elems s (q_op_queue c))) < INT_MAX"
    using Cons.prems(3)[rule_format, of "q_op_queue c"] by simp
  obtain t where t: "q_exec push pop sz s c = Some (fst (q_spec (elems s) c), t)" "ok t"
    "live t = live s" "elems t = snd (q_spec (elems s) c)"
    using exec_refines[OF Cons.prems(1) _ room] Cons.prems(2) by auto
  have "\<forall>q. int (length (elems t q)) + int (length cs) \<le> INT_MAX"
  proof
    fix q
    show "int (length (elems t q)) + int (length cs) \<le> INT_MAX"
      using Cons.prems(3)[rule_format, of q] spec_length[of "elems s" c q] t(4) by simp
  qed
  then obtain u where "q_exec_run push pop sz t cs = Some (fst (q_spec_run (elems t) cs), u)" "ok u"
    "elems u = snd (q_spec_run (elems t) cs)"
    using Cons.IH[OF t(2)] Cons.prems(2) t(3) by auto
  then show ?case
    using t by (simp add: case_prod_beta Let_def)
qed

end

definition queue_size_st :: "'z qheap_scheme \<Rightarrow> addr \<Rightarrow> (int \<times> 'z qheap_scheme) option" where
  "queue_size_st s q = do { n \<leftarrow> xv_queue_size s q; Some (n, s) }"

interpretation xq: fifo_family qheap_ok live_queue queue_list xv_queue_push xv_queue_pop queue_size_st
proof unfold_locales
  fix s :: "'z qheap_scheme" and q x
  assume "qheap_ok s" "live_queue s q" "int (length (queue_list s q)) < INT_MAX"
  from push_law[OF this]
  show "\<exists>t. xv_queue_push s q x = Some t \<and> qheap_ok t \<and> live_queue t = live_queue s \<and>
      queue_list t = (queue_list s)(q := queue_list s q @ [x])" by blast
next
  fix s :: "'z qheap_scheme" and q
  assume "qheap_ok s" "live_queue s q" "queue_list s q = []"
  then show "xv_queue_pop s q = Some (NULL, s)" by (rule pop_empty_law)
next
  fix s :: "'z qheap_scheme" and q x xs
  assume "qheap_ok s" "live_queue s q" "queue_list s q = x # xs"
  from pop_cons_law[OF this]
  show "\<exists>t. xv_queue_pop s q = Some (x, t) \<and> qheap_ok t \<and> live_queue t = live_queue s \<and>
      queue_list t = (queue_list s)(q := xs)" by blast
next
  fix s :: "'z qheap_scheme" and q
  assume "qheap_ok s" "live_queue s q"
  then show "queue_size_st s q = Some (int (length (queue_list s q)), s)"
    by (simp add: queue_size_st_def size_law)
qed


subsection \<open>Properties\<close>

text \<open>A heap with two empty queues, at addresses 1 and 2, for the witnesses.\<close>

definition empty_qheap :: qheap where
  "empty_qheap = \<lparr>brk = 0, nodes = Map.empty, queues = Map.empty, cqueues = Map.empty\<rparr>"

definition two_queues :: qheap where
  "two_queues = snd (xv_queue_init (snd (xv_queue_init empty_qheap)))"

lemma empty_qheap_ok: "qheap_ok empty_qheap" "queue_list empty_qheap = (\<lambda>_. [])"
  by (auto simp: qheap_ok_def empty_qheap_def queue_list_def queue_nodes_def)

lemma two_queues_ok:
  "qheap_ok two_queues" "queue_list two_queues = (\<lambda>_. [])" "live_queue two_queues 1" "live_queue two_queues 2"
proof -
  obtain s1 where s1: "xv_queue_init empty_qheap = (1, s1)" "brk s1 = 1"
    by (simp add: xv_queue_init_def xv_malloc_def empty_qheap_def)
  obtain s2 where s2: "xv_queue_init s1 = (2, s2)"
    using s1(2) by (simp add: xv_queue_init_def xv_malloc_def)
  have t: "two_queues = s2"
    by (simp add: two_queues_def s1 s2)
  note i1 = init_law[OF empty_qheap_ok(1) s1(1)]
  note i2 = init_law[OF i1(1) s2]
  show "qheap_ok two_queues" "queue_list two_queues = (\<lambda>_. [])"
    "live_queue two_queues 1" "live_queue two_queues 2"
    using i1(2,3) i2(1,2,3) empty_qheap_ok(2) t by (simp_all add: fun_eq_iff)
qed

text \<open>C2. Refinement of the linked list: any sequence of pushes, pops and size queries on any number
  of queues in one heap returns exactly what FIFO lists would return, never touches a dangling or
  unassigned pointer, keeps the chains of different queues disjoint, and leaves in each queue
  exactly the specified list.\<close>

theorem queue_run_refines:
  assumes "qheap_ok s" "\<forall>c \<in> set cs. live_queue s (q_op_queue c)"
    "\<forall>q. int (length (queue_list s q)) + int (length cs) \<le> INT_MAX"
  shows "\<exists>t. q_exec_run xv_queue_push xv_queue_pop queue_size_st s cs =
       Some (fst (q_spec_run (queue_list s) cs), t) \<and>
     qheap_ok t \<and> queue_list t = snd (q_spec_run (queue_list s) cs)"
  using assms by (rule xq.run_refines)

theorem queue_run_refines_witness:
  "\<exists>t. q_exec_run xv_queue_push xv_queue_pop queue_size_st two_queues
       [QPush 1 7, QPush 2 9, QPush 1 8, QPop 1, QSize 1, QPop 2, QPop 2] =
       Some ([OUnit, OUnit, OUnit, OPtr 7, OInt 1, OPtr 9, OPtr NULL], t) \<and>
     qheap_ok t \<and> queue_list t 1 = [8]"
  using queue_run_refines[of two_queues
      "[QPush 1 7, QPush 2 9, QPush 1 8, QPop 1, QSize 1, QPop 2, QPop 2]"] two_queues_ok
  by (auto simp: INT_MAX_def)

text \<open>C37. \<^verbatim>\<open>xv_queue_destroy\<close>: an empty queue is released and nothing else changes; on a queue that
  still holds elements the walk reads the \<^verbatim>\<open>next\<close> link of the last node, which
  \<^verbatim>\<open>xv_queue_push\<close> never assigns, so the behaviour is undefined (for every destroy callback that
  does not itself modify nodes).\<close>

theorem xv_queue_destroy_defined_iff_empty:
  assumes ok: "qheap_ok s" and live: "live_queue s q"
    and cb: "\<And>f d s s'. destroy = Some f \<Longrightarrow> f d s = Some s' \<Longrightarrow> nodes s' = nodes s"
  shows "xv_queue_destroy s q destroy =
     (if queue_list s q = [] then Some (s\<lparr>queues := (queues s)(q := None)\<rparr>) else None)"
proof -
  obtain qd where qd: "queues s q = Some qd"
    using live by (auto simp: live_queue_def)
  note d = qheap_okD[OF ok qd]
  show ?thesis
  proof (cases "queue_list s q = []")
    case True
    then have "q_head qd = NULL"
      using d(9) by (simp add: queue_list_def)
    then show ?thesis
      using True d(1) qd by (simp add: xv_queue_destroy_def destroy_nodes.simps xv_free_def)
  next
    case False
    then have ne: "queue_nodes s q \<noteq> []"
      by (simp add: queue_list_def)
    have "destroy_nodes destroy (q_head qd) s = None"
      using destroy_nodes_uninit[OF d(4) ne d(5,6) cb] d(9) ne by simp
    then show ?thesis
      using False d(1) qd by (simp add: xv_queue_destroy_def)
  qed
qed

theorem xv_queue_destroy_defined_iff_empty_witness:
  "xv_queue_destroy two_queues 1 None = Some (two_queues\<lparr>queues := (queues two_queues)(1 := None)\<rparr>)"
  using xv_queue_destroy_defined_iff_empty[OF two_queues_ok(1,3), of None] two_queues_ok(2) by simp

end
