(* ===== verification/Xv_Concurrent_Queue.thy ===== *)
theory Xv_Concurrent_Queue
  imports Xv_Queue
begin

section \<open>The mutex-protected queue (\<^verbatim>\<open>src/src/xv_queue.c\<close>, second half)\<close>

text \<open>
  First the operations as the code writes them, for a caller that runs them without interference:
  lock, operate on the inner queue, unlock. A lock on a mutex that is already held has no result
  here (the caller would block). Then the same operations as threads execute them, in steps that
  any number of threads may interleave, with the invariant that makes the queue linearizable.
\<close>

subsection \<open>Operations\<close>

definition pthread_mutex_lock :: "'z qheap_scheme \<Rightarrow> addr \<Rightarrow> 'z qheap_scheme option" where
  "pthread_mutex_lock s queue = do {
     cq \<leftarrow> deref (cqueues s) queue;
     if cq_mutex cq then None
     else Some (s\<lparr>cqueues := (cqueues s)(queue \<mapsto> cq\<lparr>cq_mutex := True\<rparr>)\<rparr>) }"

definition pthread_mutex_unlock :: "'z qheap_scheme \<Rightarrow> addr \<Rightarrow> 'z qheap_scheme option" where
  "pthread_mutex_unlock s queue = do {
     cq \<leftarrow> deref (cqueues s) queue;
     Some (s\<lparr>cqueues := (cqueues s)(queue \<mapsto> cq\<lparr>cq_mutex := False\<rparr>)\<rparr>) }"

definition xv_concurrent_queue_init :: "'z qheap_scheme \<Rightarrow> addr \<times> 'z qheap_scheme" where
  "xv_concurrent_queue_init s =
     (let (queue, s) = xv_malloc s;
          (q, s) = xv_queue_init s
      in (queue, s\<lparr>cqueues := (cqueues s)(queue \<mapsto> \<lparr>cq_queue = q, cq_mutex = False\<rparr>)\<rparr>))"

definition xv_concurrent_queue_destroy ::
  "'z qheap_scheme \<Rightarrow> addr \<Rightarrow> (addr \<Rightarrow> 'z qheap_scheme \<Rightarrow> 'z qheap_scheme option) option \<Rightarrow>
   'z qheap_scheme option" where
  "xv_concurrent_queue_destroy s queue destroy = do {
     cq \<leftarrow> deref (cqueues s) queue;
     s \<leftarrow> xv_queue_destroy s (cq_queue cq) destroy;
     h \<leftarrow> xv_free (cqueues s) queue;
     Some (s\<lparr>cqueues := h\<rparr>) }"

definition xv_concurrent_queue_push :: "'z qheap_scheme \<Rightarrow> addr \<Rightarrow> addr \<Rightarrow> 'z qheap_scheme option" where
  "xv_concurrent_queue_push s queue data = do {
     s \<leftarrow> pthread_mutex_lock s queue;
     cq \<leftarrow> deref (cqueues s) queue;
     s \<leftarrow> xv_queue_push s (cq_queue cq) data;
     pthread_mutex_unlock s queue }"

definition xv_concurrent_queue_pop :: "'z qheap_scheme \<Rightarrow> addr \<Rightarrow> (addr \<times> 'z qheap_scheme) option" where
  "xv_concurrent_queue_pop s queue = do {
     s \<leftarrow> pthread_mutex_lock s queue;
     cq \<leftarrow> deref (cqueues s) queue;
     (data, s) \<leftarrow> xv_queue_pop s (cq_queue cq);
     s \<leftarrow> pthread_mutex_unlock s queue;
     Some (data, s) }"

definition xv_concurrent_queue_size :: "'z qheap_scheme \<Rightarrow> addr \<Rightarrow> (int \<times> 'z qheap_scheme) option" where
  "xv_concurrent_queue_size s queue = do {
     s \<leftarrow> pthread_mutex_lock s queue;
     cq \<leftarrow> deref (cqueues s) queue;
     size \<leftarrow> xv_queue_size s (cq_queue cq);
     s \<leftarrow> pthread_mutex_unlock s queue;
     Some (size, s) }"

subsection \<open>Invariant and laws\<close>

definition live_cq :: "'z qheap_scheme \<Rightarrow> addr \<Rightarrow> bool" where
  "live_cq s c \<longleftrightarrow> cqueues s c \<noteq> None"

definition cq_list :: "'z qheap_scheme \<Rightarrow> addr \<Rightarrow> addr list" where
  "cq_list s c = (case cqueues s c of None \<Rightarrow> [] | Some cq \<Rightarrow> queue_list s (cq_queue cq))"

text \<open>Between calls no mutex is held, and every concurrent queue owns its inner queue.\<close>

definition cq_ok :: "'z qheap_scheme \<Rightarrow> bool" where
  "cq_ok s \<longleftrightarrow> qheap_ok s \<and>
     (\<forall>c cq. cqueues s c = Some cq \<longrightarrow>
        c \<noteq> NULL \<and> c \<le> brk s \<and> \<not> cq_mutex cq \<and> live_queue s (cq_queue cq)) \<and>
     (\<forall>c c' cq cq'. cqueues s c = Some cq \<longrightarrow> cqueues s c' = Some cq' \<longrightarrow>
        cq_queue cq = cq_queue cq' \<longrightarrow> c = c')"

lemma cq_okD:
  assumes "cq_ok s" "cqueues s c = Some cq"
  shows "qheap_ok s" "c \<noteq> NULL" "c \<le> brk s" "\<not> cq_mutex cq" "live_queue s (cq_queue cq)"
  using assms by (auto simp: cq_ok_def)

lemma qheap_ok_cong [simp]:
  "qheap_ok (s\<lparr>cqueues := x\<rparr>) = qheap_ok s"
  "queue_list (s\<lparr>cqueues := x\<rparr>) = queue_list s"
  "live_queue (s\<lparr>cqueues := x\<rparr>) = live_queue s"
  by (rule qheap_cong; simp)+

lemma lock_law:
  assumes "cqueues s c = Some cq" "c \<noteq> NULL"
  shows "pthread_mutex_lock s c =
     (if cq_mutex cq then None else Some (s\<lparr>cqueues := (cqueues s)(c \<mapsto> cq\<lparr>cq_mutex := True\<rparr>)\<rparr>))"
  using assms by (simp add: pthread_mutex_lock_def)

lemma unlock_law:
  assumes "cqueues s c = Some cq" "c \<noteq> NULL"
  shows "pthread_mutex_unlock s c = Some (s\<lparr>cqueues := (cqueues s)(c \<mapsto> cq\<lparr>cq_mutex := False\<rparr>)\<rparr>)"
  using assms by (simp add: pthread_mutex_unlock_def)

text \<open>Releasing the mutex after the inner operation restores the table of concurrent queues.\<close>

lemma relock_same:
  "\<not> cq_mutex cq \<Longrightarrow> m c = Some cq \<Longrightarrow> m(c \<mapsto> cq\<lparr>cq_mutex := False\<rparr>) = m"
  by (cases cq) (auto simp: fun_eq_iff)

text \<open>The family of concurrent queues after one inner queue has changed.\<close>

lemma cq_update:
  assumes ok: "cq_ok s" and cq: "cqueues s c = Some cq"
    and t: "qheap_ok t" "cqueues t = cqueues s" "live_queue t = live_queue s" "brk s \<le> brk t"
    and l: "queue_list t = (queue_list s)(cq_queue cq := xs)"
  shows "cq_ok t" "cq_list t = (cq_list s)(c := xs)" "live_cq t = live_cq s"
proof -
  show "cq_ok t"
    unfolding cq_ok_def t(2,3)
  proof (intro conjI allI impI)
    show "c' \<le> brk t" if "cqueues s c' = Some cq'" for c' cq'
      using cq_okD(3)[OF ok that] t(4) by simp
    show "c1 = c2" if "cqueues s c1 = Some q1" "cqueues s c2 = Some q2" "cq_queue q1 = cq_queue q2"
      for c1 c2 q1 q2
      using ok that unfolding cq_ok_def by blast
  qed (use t(1) cq_okD[OF ok] in auto)
  show "cq_list t = (cq_list s)(c := xs)"
  proof
    fix c'
    have "c' = c" if "cqueues s c' = Some cq'" "cq_queue cq' = cq_queue cq" for cq'
      using ok cq that unfolding cq_ok_def by blast
    then show "cq_list t c' = ((cq_list s)(c := xs)) c'"
      using cq by (cases "cqueues s c'") (auto simp: cq_list_def t(2) l)
  qed
  show "live_cq t = live_cq s"
    using t(2) by (simp add: live_cq_def fun_eq_iff)
qed


lemma locked_cq:
  assumes ok: "cq_ok s" and live: "live_cq s c"
  obtains cq s1 where "cqueues s c = Some cq" "c \<noteq> NULL" "pthread_mutex_lock s c = Some s1"
    "s1 = s\<lparr>cqueues := (cqueues s)(c \<mapsto> cq\<lparr>cq_mutex := True\<rparr>)\<rparr>"
    "qheap_ok s1" "live_queue s1 (cq_queue cq)" "queue_list s1 (cq_queue cq) = cq_list s c"
    "(cqueues s)(c \<mapsto> cq\<lparr>cq_mutex := False\<rparr>) = cqueues s"
proof -
  obtain cq where cq: "cqueues s c = Some cq"
    using live by (auto simp: live_cq_def)
  note d = cq_okD[OF ok cq]
  show thesis
    by (rule that[OF cq d(2) _ refl]) (use cq d relock_same[OF d(4), of "cqueues s" c] in
        \<open>simp_all add: lock_law cq_list_def\<close>)
qed

lemma cq_push_law:
  assumes ok: "cq_ok s" and live: "live_cq s c" and room: "int (length (cq_list s c)) < INT_MAX"
  shows "\<exists>t. xv_concurrent_queue_push s c x = Some t \<and> cq_ok t \<and> live_cq t = live_cq s \<and>
     cq_list t = (cq_list s)(c := cq_list s c @ [x]) \<and> qheap.more t = qheap.more s \<and> brk s \<le> brk t"
proof -
  obtain cq s1 where l: "cqueues s c = Some cq" "c \<noteq> NULL" "pthread_mutex_lock s c = Some s1"
    "s1 = s\<lparr>cqueues := (cqueues s)(c \<mapsto> cq\<lparr>cq_mutex := True\<rparr>)\<rparr>"
    "qheap_ok s1" "live_queue s1 (cq_queue cq)" "queue_list s1 (cq_queue cq) = cq_list s c"
    "(cqueues s)(c \<mapsto> cq\<lparr>cq_mutex := False\<rparr>) = cqueues s"
    by (rule locked_cq[OF ok live])
  obtain t1 where t1: "xv_queue_push s1 (cq_queue cq) x = Some t1" "qheap_ok t1"
    "queue_list t1 = (queue_list s1)(cq_queue cq := queue_list s1 (cq_queue cq) @ [x])"
    "live_queue t1 = live_queue s1" "cqueues t1 = cqueues s1" "qheap.more t1 = qheap.more s1"
    "brk t1 = Suc (brk s1)"
    using push_law[OF l(5,6)] room l(7) by auto
  define t where "t = t1\<lparr>cqueues := cqueues s\<rparr>"
  have "xv_concurrent_queue_push s c x = Some t"
    using l t1 by (simp add: xv_concurrent_queue_push_def unlock_law t_def)
  moreover have "cq_ok t" "cq_list t = (cq_list s)(c := cq_list s c @ [x])" "live_cq t = live_cq s"
    by (rule cq_update[OF ok l(1)]; use t1 l in \<open>simp add: t_def\<close>)+
  ultimately show ?thesis
    using t1 l(4) by (simp add: t_def)
qed

lemma cq_pop_empty_law:
  assumes ok: "cq_ok s" and live: "live_cq s c" and empty: "cq_list s c = []"
  shows "xv_concurrent_queue_pop s c = Some (NULL, s)"
proof -
  obtain cq s1 where l: "cqueues s c = Some cq" "c \<noteq> NULL" "pthread_mutex_lock s c = Some s1"
    "s1 = s\<lparr>cqueues := (cqueues s)(c \<mapsto> cq\<lparr>cq_mutex := True\<rparr>)\<rparr>"
    "qheap_ok s1" "live_queue s1 (cq_queue cq)" "queue_list s1 (cq_queue cq) = cq_list s c"
    "(cqueues s)(c \<mapsto> cq\<lparr>cq_mutex := False\<rparr>) = cqueues s"
    by (rule locked_cq[OF ok live])
  have "xv_queue_pop s1 (cq_queue cq) = Some (NULL, s1)"
    using pop_empty_law[OF l(5,6)] l(7) empty by simp
  then show ?thesis
    using l by (simp add: xv_concurrent_queue_pop_def unlock_law)
qed

lemma cq_pop_cons_law:
  assumes ok: "cq_ok s" and live: "live_cq s c" and cons: "cq_list s c = x # xs"
  shows "\<exists>t. xv_concurrent_queue_pop s c = Some (x, t) \<and> cq_ok t \<and> live_cq t = live_cq s \<and>
     cq_list t = (cq_list s)(c := xs) \<and> qheap.more t = qheap.more s \<and> brk t = brk s"
proof -
  obtain cq s1 where l: "cqueues s c = Some cq" "c \<noteq> NULL" "pthread_mutex_lock s c = Some s1"
    "s1 = s\<lparr>cqueues := (cqueues s)(c \<mapsto> cq\<lparr>cq_mutex := True\<rparr>)\<rparr>"
    "qheap_ok s1" "live_queue s1 (cq_queue cq)" "queue_list s1 (cq_queue cq) = cq_list s c"
    "(cqueues s)(c \<mapsto> cq\<lparr>cq_mutex := False\<rparr>) = cqueues s"
    by (rule locked_cq[OF ok live])
  obtain t1 where t1: "xv_queue_pop s1 (cq_queue cq) = Some (x, t1)" "qheap_ok t1"
    "queue_list t1 = (queue_list s1)(cq_queue cq := xs)"
    "live_queue t1 = live_queue s1" "cqueues t1 = cqueues s1" "qheap.more t1 = qheap.more s1"
    "brk t1 = brk s1"
    using pop_cons_law[OF l(5,6)] cons l(7) by auto
  define t where "t = t1\<lparr>cqueues := cqueues s\<rparr>"
  have "xv_concurrent_queue_pop s c = Some (x, t)"
    using l t1 by (simp add: xv_concurrent_queue_pop_def unlock_law t_def)
  moreover have "cq_ok t" "cq_list t = (cq_list s)(c := xs)" "live_cq t = live_cq s"
    by (rule cq_update[OF ok l(1)]; use t1 l in \<open>simp add: t_def\<close>)+
  ultimately show ?thesis
    using t1 l(4) by (simp add: t_def)
qed

lemma cq_size_law:
  assumes ok: "cq_ok s" and live: "live_cq s c"
  shows "xv_concurrent_queue_size s c = Some (int (length (cq_list s c)), s)"
proof -
  obtain cq s1 where l: "cqueues s c = Some cq" "c \<noteq> NULL" "pthread_mutex_lock s c = Some s1"
    "s1 = s\<lparr>cqueues := (cqueues s)(c \<mapsto> cq\<lparr>cq_mutex := True\<rparr>)\<rparr>"
    "qheap_ok s1" "live_queue s1 (cq_queue cq)" "queue_list s1 (cq_queue cq) = cq_list s c"
    "(cqueues s)(c \<mapsto> cq\<lparr>cq_mutex := False\<rparr>) = cqueues s"
    by (rule locked_cq[OF ok live])
  have "xv_queue_size s1 (cq_queue cq) = Some (int (length (queue_list s1 (cq_queue cq))))"
    using size_law[OF l(5,6)] .
  then show ?thesis
    using l by (simp add: xv_concurrent_queue_size_def unlock_law)
qed

lemma cq_init_law:
  assumes ok: "cq_ok s" and init: "xv_concurrent_queue_init s = (c, t)"
  shows "cq_ok t" "cq_list t = (cq_list s)(c := [])" "live_cq t = (live_cq s)(c := True)"
    "\<not> live_cq s c" "c = Suc (brk s)" "qheap.more t = qheap.more s" "brk t = Suc (Suc (brk s))"
proof -
  define s1 where "s1 = s\<lparr>brk := c\<rparr>"
  obtain q s2 where q: "xv_queue_init s1 = (q, s2)"
    by fastforce
  have c: "c = Suc (brk s)" and t: "t = s2\<lparr>cqueues := (cqueues s)(c \<mapsto> \<lparr>cq_queue = q, cq_mutex = False\<rparr>)\<rparr>"
    and b2: "brk s2 = Suc c"
    using init q by (auto simp: xv_concurrent_queue_init_def xv_malloc_def s1_def xv_queue_init_def)
  have ok0: "qheap_ok s"
    using ok by (simp add: cq_ok_def)
  have ok1: "qheap_ok s1" and l1: "queue_list s1 = queue_list s" "live_queue s1 = live_queue s"
    using ok0 qheap_cong(1,2)[of s1 s] queue_nodes_cong[of s1 s]
    by (fastforce simp: qheap_ok_def s1_def c queue_repr_def intro: le_SucI)+
  note i = init_law[OF ok1 q]
  have new: "\<not> live_cq s c"
    using cq_okD(3)[OF ok, of c] c by (cases "cqueues s c") (auto simp: live_cq_def)
  have fresh: False if "cqueues s c' = Some cq" "cq_queue cq = q" for c' cq
    using cq_okD(5)[OF ok that(1)] i(4) l1(2) that(2) by auto
  show "\<not> live_cq s c" "c = Suc (brk s)" "qheap.more t = qheap.more s" "brk t = Suc (Suc (brk s))"
    using new c i(7) t b2 by (simp_all add: s1_def)
  show "live_cq t = (live_cq s)(c := True)"
    by (simp add: live_cq_def t fun_eq_iff)
  show "cq_list t = (cq_list s)(c := [])"
    using i(2) l1(1) by (auto simp: cq_list_def t fun_eq_iff dest: fresh split: option.splits)
  have below: "cqueues s c' = Some cq \<Longrightarrow> c' \<noteq> NULL \<and> c' \<le> Suc c \<and> \<not> cq_mutex cq \<and> live_queue s (cq_queue cq)"
    for c' cq
    using cq_okD[OF ok, of c' cq] c by auto
  have inj: "c1 = c2" if "cqueues s c1 = Some q1" "cqueues s c2 = Some q2" "cq_queue q1 = cq_queue q2"
    for c1 c2 q1 q2
    using ok that unfolding cq_ok_def by blast
  show "cq_ok t"
    unfolding cq_ok_def
    by (intro conjI allI impI)
      (use i(1,3) l1(2) in \<open>auto simp: t b2 c dest: fresh below inj split: if_splits\<close>)
qed

interpretation xc: fifo_family cq_ok live_cq cq_list
  xv_concurrent_queue_push xv_concurrent_queue_pop xv_concurrent_queue_size
proof unfold_locales
  fix s :: "'z qheap_scheme" and c x
  assume "cq_ok s" "live_cq s c" "int (length (cq_list s c)) < INT_MAX"
  from cq_push_law[OF this]
  show "\<exists>t. xv_concurrent_queue_push s c x = Some t \<and> cq_ok t \<and> live_cq t = live_cq s \<and>
      cq_list t = (cq_list s)(c := cq_list s c @ [x])" by blast
next
  fix s :: "'z qheap_scheme" and c x xs
  assume "cq_ok s" "live_cq s c" "cq_list s c = x # xs"
  from cq_pop_cons_law[OF this]
  show "\<exists>t. xv_concurrent_queue_pop s c = Some (x, t) \<and> cq_ok t \<and> live_cq t = live_cq s \<and>
      cq_list t = (cq_list s)(c := xs)" by blast
qed (rule cq_pop_empty_law cq_size_law; assumption)+


subsection \<open>Threads\<close>

text \<open>
  A thread is outside the queue, about to lock, inside the critical section, or about to unlock
  with its result. A step is one of these moves of one thread; the scheduler may pick any thread
  that can move. The ghost field \<open>cq_log\<close> records the completed inner operations with their
  results in the order in which they took effect.
\<close>

type_synonym tid = nat

datatype cq_call = CPush addr | CPop | CSize

datatype cq_pc = Outside | Locking cq_call | Critical cq_call | Unlocking cq_call q_out

record cq_sys =
  cq_heap :: qheap
  cq_pcs :: "tid \<Rightarrow> cq_pc"
  cq_log :: "(tid \<times> cq_call \<times> q_out) list"

fun on_queue :: "addr \<Rightarrow> cq_call \<Rightarrow> q_op" where
  "on_queue q (CPush x) = QPush q x"
| "on_queue q CPop = QPop q"
| "on_queue q CSize = QSize q"

text \<open>The statement between lock and unlock.\<close>

definition cq_body :: "qheap \<Rightarrow> addr \<Rightarrow> cq_call \<Rightarrow> (q_out \<times> qheap) option" where
  "cq_body s queue call = do {
     cq \<leftarrow> deref (cqueues s) queue;
     q_exec xv_queue_push xv_queue_pop queue_size_st s (on_queue (cq_queue cq) call) }"

inductive cq_step :: "addr \<Rightarrow> cq_sys \<Rightarrow> cq_sys \<Rightarrow> bool" for c where
  call: "cq_pcs s i = Outside \<Longrightarrow> cq_step c s (s\<lparr>cq_pcs := (cq_pcs s)(i := Locking k)\<rparr>)"
| lock: "cq_pcs s i = Locking k \<Longrightarrow> pthread_mutex_lock (cq_heap s) c = Some h \<Longrightarrow>
     cq_step c s (s\<lparr>cq_heap := h, cq_pcs := (cq_pcs s)(i := Critical k)\<rparr>)"
| body: "cq_pcs s i = Critical k \<Longrightarrow> cq_body (cq_heap s) c k = Some (r, h) \<Longrightarrow>
     cq_step c s (s\<lparr>cq_heap := h, cq_pcs := (cq_pcs s)(i := Unlocking k r),
       cq_log := cq_log s @ [(i, k, r)]\<rparr>)"
| unlock: "cq_pcs s i = Unlocking k r \<Longrightarrow> pthread_mutex_unlock (cq_heap s) c = Some h \<Longrightarrow>
     cq_step c s (s\<lparr>cq_heap := h, cq_pcs := (cq_pcs s)(i := Outside)\<rparr>)"

definition cq_start :: "qheap \<Rightarrow> cq_sys" where
  "cq_start h = \<lparr>cq_heap = h, cq_pcs = (\<lambda>_. Outside), cq_log = []\<rparr>"

inductive cq_reach :: "addr \<Rightarrow> qheap \<Rightarrow> cq_sys \<Rightarrow> bool" for c h where
  start: "cq_reach c h (cq_start h)"
| step: "cq_reach c h s \<Longrightarrow> cq_step c s t \<Longrightarrow> cq_reach c h t"

fun holds :: "cq_pc \<Rightarrow> bool" where
  "holds (Critical k) = True"
| "holds (Unlocking k r) = True"
| "holds _ = False"

text \<open>The calls of the log as specification operations on queue \<open>q\<close>.\<close>

definition log_ops :: "addr \<Rightarrow> (tid \<times> cq_call \<times> q_out) list \<Rightarrow> q_op list" where
  "log_ops q l = map (\<lambda>(i, k, r). on_queue q k) l"

definition log_outs :: "(tid \<times> cq_call \<times> q_out) list \<Rightarrow> q_out list" where
  "log_outs l = map (\<lambda>(i, k, r). r) l"

text \<open>
  The invariant: the mutex is held exactly when some thread is between lock and unlock, at most one
  thread is, the heap is well formed, and the log replayed on the list specification yields the
  logged results and the current contents.
\<close>

definition cq_inv :: "addr \<Rightarrow> addr \<Rightarrow> (addr \<Rightarrow> addr list) \<Rightarrow> cq_sys \<Rightarrow> bool" where
  "cq_inv c q m s \<longleftrightarrow>
     c \<noteq> NULL \<and> qheap_ok (cq_heap s) \<and> live_queue (cq_heap s) q \<and>
     cqueues (cq_heap s) c = Some \<lparr>cq_queue = q, cq_mutex = (\<exists>i. holds (cq_pcs s i))\<rparr> \<and>
     (\<forall>i j. holds (cq_pcs s i) \<longrightarrow> holds (cq_pcs s j) \<longrightarrow> i = j) \<and>
     q_spec_run m (log_ops q (cq_log s)) = (log_outs (cq_log s), queue_list (cq_heap s))"

lemma q_spec_run_snoc:
  "q_spec_run m (cs @ [c]) =
     (let (xs, m) = q_spec_run m cs; (x, m) = q_spec m c in (xs @ [x], m))"
  by (induction cs arbitrary: m) (auto simp: Let_def split: prod.splits)


lemma body_law:
  assumes ok: "qheap_ok h" and live: "live_queue h q" and c: "c \<noteq> NULL" "cqueues h c = Some cq" "cq_queue cq = q"
    and body: "cq_body h c k = Some (r, h')"
  shows "qheap_ok h'" "live_queue h' = live_queue h" "cqueues h' = cqueues h"
    "q_spec (queue_list h) (on_queue q k) = (r, queue_list h')"
proof -
  obtain qd where qd: "queues h q = Some qd"
    using live by (auto simp: live_queue_def)
  have ex: "q_exec xv_queue_push xv_queue_pop queue_size_st h (on_queue q k) = Some (r, h')"
    using body c by (simp add: cq_body_def)
  have "qheap_ok h' \<and> live_queue h' = live_queue h \<and> cqueues h' = cqueues h \<and>
      q_spec (queue_list h) (on_queue q k) = (r, queue_list h')"
  proof (cases k)
    case (CPush x)
    then have p: "xv_queue_push h q x = Some h'" "r = OUnit"
      using ex by (auto simp: Option.bind_eq_Some_conv)
    show ?thesis
      using push_law[OF ok live push_Some_room[OF ok qd p(1)], of x] p CPush by auto
  next
    case CPop
    show ?thesis
    proof (cases "queue_list h q")
      case Nil
      then show ?thesis using ok pop_empty_law[OF ok live] ex CPop by auto
    next
      case (Cons x xs)
      then show ?thesis using pop_cons_law[OF ok live Cons] ex CPop by auto
    qed
  next
    case CSize
    then show ?thesis using ok ex size_law[OF ok live] by (auto simp: queue_size_st_def)
  qed
  then show "qheap_ok h'" "live_queue h' = live_queue h" "cqueues h' = cqueues h"
    "q_spec (queue_list h) (on_queue q k) = (r, queue_list h')"
    by auto
qed

lemma cq_invD:
  assumes "cq_inv c q m s"
  shows "c \<noteq> NULL" "qheap_ok (cq_heap s)" "live_queue (cq_heap s) q"
    "cqueues (cq_heap s) c = Some \<lparr>cq_queue = q, cq_mutex = (\<exists>i. holds (cq_pcs s i))\<rparr>"
    "holds (cq_pcs s i) \<Longrightarrow> holds (cq_pcs s j) \<Longrightarrow> i = j"
    "q_spec_run m (log_ops q (cq_log s)) = (log_outs (cq_log s), queue_list (cq_heap s))"
  using assms by (auto simp: cq_inv_def)

lemma cq_inv_start:
  assumes "cq_ok h" "cqueues h c = Some cq"
  shows "cq_inv c (cq_queue cq) (queue_list h) (cq_start h)"
  using cq_okD[OF assms] assms(2)
  by (cases cq) (auto simp: cq_inv_def cq_start_def log_ops_def log_outs_def)

lemma cq_inv_step:
  assumes "cq_step c s t" and inv: "cq_inv c q m s"
  shows "cq_inv c q m t"
  using assms(1)
proof cases
  case (call i k)
  have "holds (cq_pcs t j) = holds (cq_pcs s j)" for j
    using call by simp
  then show ?thesis
    using inv call by (simp add: cq_inv_def)
next
  case (lock i k h)
  note d = cq_invD[OF inv]
  have free: "\<not> holds (cq_pcs s j)" for j
    using lock(3) d(1,4) by (auto simp: lock_law split: if_splits)
  have h: "h = (cq_heap s)\<lparr>cqueues := (cqueues (cq_heap s))(c \<mapsto> \<lparr>cq_queue = q, cq_mutex = True\<rparr>)\<rparr>"
    using lock(3) d(1,4) by (simp add: lock_law split: if_splits)
  have "holds (cq_pcs t j) \<longleftrightarrow> j = i" for j
    using lock(1) free by simp
  then show ?thesis
    using d lock(1) h by (simp add: cq_inv_def)
next
  case (body i k r h)
  note d = cq_invD[OF inv]
  note b = body_law[OF d(2,3,1,4) _ body(3), simplified]
  have "holds (cq_pcs t j) = holds (cq_pcs s j)" for j
    using body(1,2) by simp
  moreover have "q_spec_run m (log_ops q (cq_log t)) = (log_outs (cq_log t), queue_list (cq_heap t))"
    using d(6) b(4) body(1) by (simp add: log_ops_def log_outs_def q_spec_run_snoc)
  ultimately show ?thesis
    using inv b body(1) by (simp add: cq_inv_def)
next
  case (unlock i k r h)
  note d = cq_invD[OF inv]
  have mine: "holds (cq_pcs s j) \<Longrightarrow> j = i" for j
    using d(5)[of j i] unlock(2) by simp
  have none: "\<not> holds (cq_pcs t j)" for j
    using unlock(1) mine by auto
  have h: "h = (cq_heap s)\<lparr>cqueues := (cqueues (cq_heap s))(c \<mapsto> \<lparr>cq_queue = q, cq_mutex = False\<rparr>)\<rparr>"
    using unlock(3) d(1,4) by (simp add: unlock_law)
  show ?thesis
    using d none unlock(1) h by (simp add: cq_inv_def)
qed

lemma cq_reach_inv:
  assumes "cq_reach c h s" "cq_ok h" "cqueues h c = Some cq"
  shows "cq_inv c (cq_queue cq) (queue_list h) s"
  using assms
  by (induction rule: cq_reach.induct) (auto intro: cq_inv_start cq_inv_step)


subsection \<open>Properties\<close>

text \<open>One concurrent queue, at address 1, for the witnesses.\<close>

definition one_cq :: qheap where
  "one_cq = snd (xv_concurrent_queue_init empty_qheap)"

lemma one_cq_unfold:
  "one_cq = \<lparr>brk = 2, nodes = Map.empty, queues = [2 \<mapsto> \<lparr>q_head = 0, q_tail = 0, q_size = 0\<rparr>],
     cqueues = [1 \<mapsto> \<lparr>cq_queue = 2, cq_mutex = False\<rparr>]\<rparr>"
  by (simp add: one_cq_def xv_concurrent_queue_init_def xv_queue_init_def xv_malloc_def empty_qheap_def numeral_2_eq_2)

lemma one_cq_ok: "cq_ok one_cq" "cqueues one_cq 1 = Some \<lparr>cq_queue = 2, cq_mutex = False\<rparr>"
  "queue_list one_cq = (\<lambda>_. [])" "cq_list one_cq = (\<lambda>_. [])" "live_cq one_cq 1"
proof -
  have e: "cq_ok empty_qheap" "cq_list empty_qheap = (\<lambda>_. [])"
    using empty_qheap_ok by (auto simp: cq_ok_def cq_list_def empty_qheap_def)
  obtain c t where i: "xv_concurrent_queue_init empty_qheap = (c, t)"
    by fastforce
  have t: "one_cq = t" "c = 1"
    using i cq_init_law(5)[OF e(1) i] by (simp_all add: one_cq_def empty_qheap_def)
  show "cq_ok one_cq" "cq_list one_cq = (\<lambda>_. [])" "live_cq one_cq 1"
    using cq_init_law(1,2,3)[OF e(1) i] t e(2) by auto
  show "cqueues one_cq 1 = Some \<lparr>cq_queue = 2, cq_mutex = False\<rparr>"
    by (simp add: one_cq_unfold)
  show "queue_list one_cq = (\<lambda>_. [])"
    by (auto simp: one_cq_unfold queue_list_def queue_nodes_def fun_eq_iff)
qed

text \<open>C7. Linearizability: for any number of threads and every interleaving, the operations that have
  taken effect, in the order of the log, return exactly the results of a sequential FIFO list and
  leave exactly its contents; at most one thread is ever between lock and unlock.\<close>

theorem concurrent_queue_linearizable:
  assumes "cq_ok h" "cqueues h c = Some cq" "cq_reach c h s"
  shows "q_spec_run (queue_list h) (log_ops (cq_queue cq) (cq_log s)) =
           (log_outs (cq_log s), queue_list (cq_heap s)) \<and>
         qheap_ok (cq_heap s) \<and>
         (\<forall>i j. holds (cq_pcs s i) \<longrightarrow> holds (cq_pcs s j) \<longrightarrow> i = j)"
proof -
  note d = cq_invD[OF cq_reach_inv[OF assms(3,1,2)]]
  show ?thesis using d(2,6) d(5) by blast
qed

theorem concurrent_queue_linearizable_witness:
  "\<exists>s. cq_reach 1 one_cq s \<and> log_outs (cq_log s) = [OUnit] \<and>
     q_spec_run (\<lambda>_. []) [QPush 2 5] = ([OUnit], queue_list (cq_heap s))"
proof -
  let ?s0 = "cq_start one_cq"
  let ?s1 = "?s0\<lparr>cq_pcs := (cq_pcs ?s0)(0 := Locking (CPush 5))\<rparr>"
  have 1: "cq_reach 1 one_cq ?s1"
    by (rule cq_reach.step[OF cq_reach.start], rule cq_step.call) (simp add: cq_start_def)
  obtain h2 where h2: "pthread_mutex_lock one_cq 1 = Some h2"
    by (simp add: pthread_mutex_lock_def one_cq_unfold)
  let ?s2 = "?s1\<lparr>cq_heap := h2, cq_pcs := (cq_pcs ?s1)(0 := Critical (CPush 5))\<rparr>"
  have 2: "cq_reach 1 one_cq ?s2"
    by (rule cq_reach.step[OF 1], rule cq_step.lock) (use h2 in \<open>simp_all add: cq_start_def\<close>)
  obtain h3 where h3: "cq_body h2 1 (CPush 5) = Some (OUnit, h3)"
    using h2 by (auto simp: cq_body_def pthread_mutex_lock_def one_cq_unfold xv_queue_push_def
        xv_malloc_def c_int_in_range INT_MAX_def)
  let ?s3 = "?s2\<lparr>cq_heap := h3, cq_pcs := (cq_pcs ?s2)(0 := Unlocking (CPush 5) OUnit),
      cq_log := cq_log ?s2 @ [(0, CPush 5, OUnit)]\<rparr>"
  have 3: "cq_reach 1 one_cq ?s3"
    by (rule cq_reach.step[OF 2], rule cq_step.body) (use h3 in \<open>simp_all add: cq_start_def\<close>)
  have l: "cq_log ?s3 = [(0, CPush 5, OUnit)]"
    by (simp add: cq_start_def)
  have "q_spec_run (\<lambda>_. []) [QPush 2 5] = ([OUnit], queue_list (cq_heap ?s3))"
    using concurrent_queue_linearizable[OF one_cq_ok(1,2) 3]
    unfolding l one_cq_ok(3) log_ops_def log_outs_def by simp
  then show ?thesis
    using 3 l by (intro exI[of _ ?s3]) (simp add: log_outs_def)
qed

text \<open>C30. Progress: the mutex never deadlocks the queue. Whenever some thread is inside a call (and the
  size counter has room), some thread inside a call can take its next step.\<close>

theorem concurrent_queue_progress:
  assumes "cq_ok h" "cqueues h c = Some cq" "cq_reach c h s" "cq_pcs s i \<noteq> Outside"
    and room: "int (length (queue_list (cq_heap s) (cq_queue cq))) < INT_MAX"
  shows "\<exists>j t. cq_pcs s j \<noteq> Outside \<and> cq_step c s t \<and> cq_pcs t j \<noteq> cq_pcs s j"
proof -
  note d = cq_invD[OF cq_reach_inv[OF assms(3,1,2)]]
  show ?thesis
  proof (cases "\<exists>j. holds (cq_pcs s j)")
    case True
    then obtain j where j: "holds (cq_pcs s j)" by blast
    show ?thesis
    proof (cases "cq_pcs s j")
      case (Critical k)
      have "cq_body (cq_heap s) c k =
          q_exec xv_queue_push xv_queue_pop queue_size_st (cq_heap s) (on_queue (cq_queue cq) k)"
        using d(1,4) by (simp add: cq_body_def)
      moreover have "q_op_queue (on_queue (cq_queue cq) k) = cq_queue cq"
        by (cases k) simp_all
      ultimately obtain r h' where b: "cq_body (cq_heap s) c k = Some (r, h')"
        using xq.exec_refines[OF d(2), of "on_queue (cq_queue cq) k"] d(3) room by auto
      have "cq_step c s (s\<lparr>cq_heap := h', cq_pcs := (cq_pcs s)(j := Unlocking k r),
          cq_log := cq_log s @ [(j, k, r)]\<rparr>)"
        by (rule cq_step.body[where h = h', OF Critical b])
      then show ?thesis using Critical by (intro exI[of _ j]) (auto intro!: exI)
    next
      case (Unlocking k r)
      obtain h' where u: "pthread_mutex_unlock (cq_heap s) c = Some h'"
        using unlock_law[OF d(4,1)] by blast
      have "cq_step c s (s\<lparr>cq_heap := h', cq_pcs := (cq_pcs s)(j := Outside)\<rparr>)"
        by (rule cq_step.unlock[OF Unlocking u])
      then show ?thesis using Unlocking by (intro exI[of _ j]) (auto intro!: exI)
    qed (use j in simp_all)
  next
    case False
    then obtain k where k: "cq_pcs s i = Locking k"
      using assms(4) by (cases "cq_pcs s i") (metis holds.simps)+
    obtain h' where l: "pthread_mutex_lock (cq_heap s) c = Some h'"
      using lock_law[OF d(4,1)] False by simp
    have "cq_step c s (s\<lparr>cq_heap := h', cq_pcs := (cq_pcs s)(i := Critical k)\<rparr>)"
      by (rule cq_step.lock[OF k l])
    then show ?thesis using k by (intro exI[of _ i]) (auto intro!: exI)
  qed
qed

theorem concurrent_queue_progress_witness:
  "\<exists>j t. cq_pcs ((cq_start one_cq)\<lparr>cq_pcs := (\<lambda>_. Outside)(3 := Locking CPop)\<rparr>) j \<noteq> Outside \<and>
     cq_step 1 ((cq_start one_cq)\<lparr>cq_pcs := (\<lambda>_. Outside)(3 := Locking CPop)\<rparr>) t \<and>
     cq_pcs t j \<noteq> cq_pcs ((cq_start one_cq)\<lparr>cq_pcs := (\<lambda>_. Outside)(3 := Locking CPop)\<rparr>) j"
proof (rule concurrent_queue_progress[OF one_cq_ok(1,2)])
  have "cq_step 1 (cq_start one_cq)
      ((cq_start one_cq)\<lparr>cq_pcs := (cq_pcs (cq_start one_cq))(3 := Locking CPop)\<rparr>)"
    by (rule cq_step.call) (simp add: cq_start_def)
  then show "cq_reach 1 one_cq ((cq_start one_cq)\<lparr>cq_pcs := (\<lambda>_. Outside)(3 := Locking CPop)\<rparr>)"
    using cq_reach.step[OF cq_reach.start] by (simp add: cq_start_def)
  show "cq_pcs ((cq_start one_cq)\<lparr>cq_pcs := (\<lambda>_. Outside)(3 := Locking CPop)\<rparr>) 3 \<noteq> Outside"
    by simp
qed (simp add: cq_start_def one_cq_ok(3) INT_MAX_def)

text \<open>Whole calls: \<^verbatim>\<open>xv_concurrent_queue_push/pop/size\<close> used by one thread at a time return
  with every mutex released and behave as FIFO lists, each concurrent queue independently.\<close>

theorem concurrent_queue_run_refines:
  assumes "cq_ok s" "\<forall>k \<in> set cs. live_cq s (q_op_queue k)"
    "\<forall>c. int (length (cq_list s c)) + int (length cs) \<le> INT_MAX"
  shows "\<exists>t. q_exec_run xv_concurrent_queue_push xv_concurrent_queue_pop xv_concurrent_queue_size s cs =
       Some (fst (q_spec_run (cq_list s) cs), t) \<and>
     cq_ok t \<and> cq_list t = snd (q_spec_run (cq_list s) cs)"
  using assms by (rule xc.run_refines)

theorem concurrent_queue_run_refines_witness:
  "\<exists>t. q_exec_run xv_concurrent_queue_push xv_concurrent_queue_pop xv_concurrent_queue_size one_cq
       [QPush 1 4, QPush 1 5, QPop 1, QSize 1] = Some ([OUnit, OUnit, OPtr 4, OInt 1], t) \<and>
     cq_ok t \<and> cq_list t 1 = [5]"
  using concurrent_queue_run_refines[of one_cq "[QPush 1 4, QPush 1 5, QPop 1, QSize 1]"] one_cq_ok
  by (auto simp: INT_MAX_def)

end
