(* ===== verification/Xv_Poller.thy ===== *)
theory Xv_Poller
  imports Xv_Concurrent_Queue
begin

section \<open>The epoll poller (\<^verbatim>\<open>src/src/xv_epoll.c\<close>, \<^verbatim>\<open>src/src/xv_poller.h\<close>)\<close>

text \<open>
  The kernel is a parameter: \<open>epoll_ops\<close> holds the three epoll system calls as functions of an
  abstract kernel state of type \<open>'k\<close>, which is the field \<open>kern\<close> of the program state. What
  the man pages say of these calls is stated where it is used: \<open>epoll_ctl_doc\<close> over the interest
  list, \<open>epoll_wait_doc\<close> over the events returned.
\<close>

subsection \<open>Data\<close>

definition EPOLLIN :: u32 where "EPOLLIN = 1"
definition EPOLLOUT :: u32 where "EPOLLOUT = 4"
definition EPOLLERR :: u32 where "EPOLLERR = 8"
definition EPOLLHUP :: u32 where "EPOLLHUP = 16"

definition EPOLL_CTL_ADD :: int where "EPOLL_CTL_ADD = 1"
definition EPOLL_CTL_DEL :: int where "EPOLL_CTL_DEL = 2"
definition EPOLL_CTL_MOD :: int where "EPOLL_CTL_MOD = 3"

named_theorems epoll_defs \<open>the epoll constants, to be unfolded\<close>

declare EPOLLIN_def [epoll_defs] EPOLLOUT_def [epoll_defs] EPOLLERR_def [epoll_defs]
  EPOLLHUP_def [epoll_defs] EPOLL_CTL_ADD_def [epoll_defs] EPOLL_CTL_DEL_def [epoll_defs]
  EPOLL_CTL_MOD_def [epoll_defs]

record epoll_event =
  ev_events :: u32
  ev_fd :: int

text \<open>\<open>epoll_wait\<close> returns \<open>None\<close> for the result \<open>-1\<close>.\<close>

record 'k epoll_ops =
  epoll_create :: "int \<Rightarrow> 'k \<Rightarrow> int \<times> 'k"
  epoll_ctl :: "int \<Rightarrow> int \<Rightarrow> int \<Rightarrow> epoll_event \<Rightarrow> 'k \<Rightarrow> int \<times> 'k"
  epoll_wait :: "int \<Rightarrow> int \<Rightarrow> int \<Rightarrow> 'k \<Rightarrow> epoll_event list option \<times> 'k"

record xv_fired_event_t =
  f_fd :: int
  f_event :: u32

record xv_poller_data_t =
  p_epfd :: int
  p_setsize :: int
  p_events :: "epoll_event option list"

record 'k pheap = qheap +
  kern :: 'k
  pollers :: "addr \<rightharpoonup> xv_poller_data_t"
  fired_arrays :: "addr \<rightharpoonup> xv_fired_event_t option list"

subsection \<open>Operations\<close>

definition xv_epoll_op_to_str :: "int \<Rightarrow> string" where
  "xv_epoll_op_to_str op =
     (if op = EPOLL_CTL_ADD then ''ADD'' else if op = EPOLL_CTL_DEL then ''DEL''
      else if op = EPOLL_CTL_MOD then ''MOD'' else ''ERROR_OP'')"

definition xv_poller_init ::
  "('k, 'y) epoll_ops_scheme \<Rightarrow> ('k, 'z) pheap_scheme \<Rightarrow> int \<Rightarrow> addr \<times> ('k, 'z) pheap_scheme" where
  "xv_poller_init K s setsize =
     (let (data, s) = xv_malloc s;
          (epfd, k) = epoll_create K setsize (kern s)
      in (data, s\<lparr>kern := k, pollers := (pollers s)(data \<mapsto>
           \<lparr>p_epfd = epfd, p_setsize = setsize, p_events = replicate (nat setsize) None\<rparr>)\<rparr>))"

definition xv_poller_destroy :: "('k, 'z) pheap_scheme \<Rightarrow> addr \<Rightarrow> ('k, 'z) pheap_scheme option" where
  "xv_poller_destroy s data = do {
     _ \<leftarrow> deref (pollers s) data;
     h \<leftarrow> xv_free (pollers s) data;
     Some (s\<lparr>pollers := h\<rparr>) }"

definition xv_poller_resize ::
  "('k, 'z) pheap_scheme \<Rightarrow> addr \<Rightarrow> int \<Rightarrow> (int \<times> ('k, 'z) pheap_scheme) option" where
  "xv_poller_resize s data setsize = do {
     d \<leftarrow> deref (pollers s) data;
     Some (XV_OK, s\<lparr>pollers := (pollers s)(data \<mapsto>
       d\<lparr>p_events := xv_realloc None (p_events d) setsize, p_setsize := setsize\<rparr>)\<rparr>) }"

definition epoll_mask :: "u32 \<Rightarrow> u32" where
  "epoll_mask m =
     (let events = 0;
          events = (if has m XV_READ then events OR EPOLLIN else events);
          events = (if has m XV_WRITE then events OR EPOLLOUT else events)
      in events)"

definition xv_poller_modify_event ::
  "('k, 'y) epoll_ops_scheme \<Rightarrow> ('k, 'z) pheap_scheme \<Rightarrow> addr \<Rightarrow> int \<Rightarrow> u32 \<Rightarrow> int \<Rightarrow>
   (int \<times> ('k, 'z) pheap_scheme) option" where
  "xv_poller_modify_event K s data fd m op = do {
     d \<leftarrow> deref (pollers s) data;
     let event = \<lparr>ev_events = epoll_mask m, ev_fd = fd\<rparr>;
     let (ret, k) = epoll_ctl K (p_epfd d) op fd event (kern s);
     let s = s\<lparr>kern := k\<rparr>;
     if ret \<noteq> 0 then Some (XV_ERR, s) else Some (XV_OK, s) }"

definition xv_poller_add_event ::
  "('k, 'y) epoll_ops_scheme \<Rightarrow> ('k, 'z) pheap_scheme \<Rightarrow> addr \<Rightarrow> int \<Rightarrow> u32 \<Rightarrow> u32 \<Rightarrow>
   (int \<times> ('k, 'z) pheap_scheme) option" where
  "xv_poller_add_event K s data fd old_event event =
     (if old_event \<noteq> XV_NONE
      then xv_poller_modify_event K s data fd (event OR old_event) EPOLL_CTL_MOD
      else xv_poller_modify_event K s data fd event EPOLL_CTL_ADD)"

definition xv_poller_del_event ::
  "('k, 'y) epoll_ops_scheme \<Rightarrow> ('k, 'z) pheap_scheme \<Rightarrow> addr \<Rightarrow> int \<Rightarrow> u32 \<Rightarrow> u32 \<Rightarrow>
   (int \<times> ('k, 'z) pheap_scheme) option" where
  "xv_poller_del_event K s data fd old_event event =
     (let m = old_event AND NOT event in
      if m \<noteq> XV_NONE
      then xv_poller_modify_event K s data fd m EPOLL_CTL_MOD
      else xv_poller_modify_event K s data fd event EPOLL_CTL_DEL)"

definition fired_mask :: "u32 \<Rightarrow> u32" where
  "fired_mask events =
     (let event = XV_NONE;
          event = (if has events EPOLLIN then event OR XV_READ else event);
          event = (if has events EPOLLOUT then event OR XV_WRITE else event);
          event = (if has events EPOLLHUP then event OR XV_WRITE else event);
          event = (if has events EPOLLERR then event OR XV_WRITE else event)
      in event)"

text \<open>The transcription loop of \<^verbatim>\<open>xv_poller_poll\<close>: \<open>n\<close> iterations from index \<open>i\<close>.\<close>

fun poll_copy :: "nat \<Rightarrow> int \<Rightarrow> addr \<Rightarrow> addr \<Rightarrow> ('k, 'z) pheap_scheme \<Rightarrow> ('k, 'z) pheap_scheme option" where
  "poll_copy 0 i data fired s = Some s"
| "poll_copy (Suc n) i data fired s = do {
     d \<leftarrow> deref (pollers s) data;
     cell \<leftarrow> arr_get (p_events d) i;
     ev \<leftarrow> cell;
     arr \<leftarrow> deref (fired_arrays s) fired;
     arr \<leftarrow> arr_set arr i (Some \<lparr>f_fd = ev_fd ev, f_event = fired_mask (ev_events ev)\<rparr>);
     poll_copy n (i + 1) data fired (s\<lparr>fired_arrays := (fired_arrays s)(fired \<mapsto> arr)\<rparr>) }"

text \<open>The kernel stores the returned events at the start of \<^verbatim>\<open>data->events\<close>.\<close>

definition xv_poller_poll ::
  "('k, 'y) epoll_ops_scheme \<Rightarrow> ('k, 'z) pheap_scheme \<Rightarrow> addr \<Rightarrow> addr \<Rightarrow> int \<Rightarrow>
   (int \<times> ('k, 'z) pheap_scheme) option" where
  "xv_poller_poll K s data fired timeout_ms = do {
     d \<leftarrow> deref (pollers s) data;
     let (res, k) = epoll_wait K (p_epfd d) (p_setsize d) timeout_ms (kern s);
     let s = s\<lparr>kern := k\<rparr>;
     case res of
       None \<Rightarrow> Some (- 1, s)
     | Some evs \<Rightarrow> do {
         blk \<leftarrow> mem_put (p_events d) 0 (map Some evs);
         let s = s\<lparr>pollers := (pollers s)(data \<mapsto> d\<lparr>p_events := blk\<rparr>)\<rparr>;
         s \<leftarrow> poll_copy (length evs) 0 data fired s;
         Some (int (length evs), s) } }"

definition xv_poller_name :: string where
  "xv_poller_name = ''epoll''"

subsection \<open>What the man pages promise\<close>

text \<open>
  \<open>interest k epfd fd\<close> is the entry of \<open>fd\<close> in the interest list of \<open>epfd\<close>. A successful
  \<open>epoll_ctl\<close> adds a new entry, changes or removes an existing one, and touches no other; a
  failed one changes nothing.
\<close>

definition ctl_effect ::
  "('k \<Rightarrow> int \<Rightarrow> int \<Rightarrow> u32 option) \<Rightarrow> 'k \<Rightarrow> int \<Rightarrow> int \<Rightarrow> int \<Rightarrow> u32 \<Rightarrow> 'k \<Rightarrow> bool" where
  "ctl_effect interest k epfd op fd ev k' \<longleftrightarrow>
     (\<forall>e f. (e, f) \<noteq> (epfd, fd) \<longrightarrow> interest k' e f = interest k e f) \<and>
     (op = EPOLL_CTL_ADD \<longrightarrow> interest k epfd fd = None \<and> interest k' epfd fd = Some ev) \<and>
     (op = EPOLL_CTL_MOD \<longrightarrow> interest k epfd fd \<noteq> None \<and> interest k' epfd fd = Some ev) \<and>
     (op = EPOLL_CTL_DEL \<longrightarrow> interest k epfd fd \<noteq> None \<and> interest k' epfd fd = None)"

definition epoll_ctl_doc :: "('k, 'y) epoll_ops_scheme \<Rightarrow> ('k \<Rightarrow> int \<Rightarrow> int \<Rightarrow> u32 option) \<Rightarrow> bool" where
  "epoll_ctl_doc K interest \<longleftrightarrow> (\<forall>k epfd op fd ev ret k'.
     epoll_ctl K epfd op fd ev k = (ret, k') \<longrightarrow>
       (if ret = 0 then ctl_effect interest k epfd op fd (ev_events ev) k'
        else interest k' = interest k))"

text \<open>\<open>epoll_wait\<close> returns at most \<open>maxevents\<close> events, each for an entry of the interest list, and
  does not change the list.\<close>

definition epoll_wait_doc :: "('k, 'y) epoll_ops_scheme \<Rightarrow> ('k \<Rightarrow> int \<Rightarrow> int \<Rightarrow> u32 option) \<Rightarrow> bool" where
  "epoll_wait_doc K interest \<longleftrightarrow> (\<forall>k epfd n timeout res k'.
     epoll_wait K epfd n timeout k = (res, k') \<longrightarrow>
       interest k' = interest k \<and>
       (\<forall>evs. res = Some evs \<longrightarrow> int (length evs) \<le> n \<and>
          (\<forall>ev \<in> set evs. interest k epfd (ev_fd ev) \<noteq> None)))"

subsection \<open>Masks\<close>

lemma epoll_mask_inject:
  "m \<in> {XV_NONE, XV_READ, XV_WRITE, XV_ALL_EVENT} \<Longrightarrow> m' \<in> {XV_NONE, XV_READ, XV_WRITE, XV_ALL_EVENT} \<Longrightarrow>
   epoll_mask m = epoll_mask m' \<longleftrightarrow> m = m'"
  by (auto simp: epoll_mask_def has_def code_defs epoll_defs)

lemma fired_mask_has:
  "has (fired_mask ev) XV_READ \<longleftrightarrow> has ev EPOLLIN"
  "has (fired_mask ev) XV_WRITE \<longleftrightarrow> has ev EPOLLOUT \<or> has ev EPOLLHUP \<or> has ev EPOLLERR"
  by (simp_all add: fired_mask_def has_def code_defs Let_def)


text \<open>Adding events always requests the union of the masks; the operation is \<open>ADD\<close> exactly when nothing
  was watched. Deleting requests what remains, or removes the descriptor.\<close>

lemma poller_modify_eq:
  assumes "data \<noteq> NULL" "pollers s data = Some d"
    and "epoll_ctl K (p_epfd d) op fd \<lparr>ev_events = epoll_mask m, ev_fd = fd\<rparr> (kern s) = (ret, k)"
  shows "xv_poller_modify_event K s data fd m op = Some (if ret = 0 then XV_OK else XV_ERR, s\<lparr>kern := k\<rparr>)"
  using assms by (simp add: xv_poller_modify_event_def)

lemma poller_add_eq:
  "xv_poller_add_event K s data fd old ev =
     xv_poller_modify_event K s data fd (ev OR old) (if old = XV_NONE then EPOLL_CTL_ADD else EPOLL_CTL_MOD)"
  by (simp add: xv_poller_add_event_def XV_NONE_def)

lemma poller_del_eq:
  "xv_poller_del_event K s data fd old ev =
     (if old AND NOT ev = XV_NONE then xv_poller_modify_event K s data fd ev EPOLL_CTL_DEL
      else xv_poller_modify_event K s data fd (old AND NOT ev) EPOLL_CTL_MOD)"
  by (simp add: xv_poller_del_event_def)

subsection \<open>Polling\<close>

definition fired_of :: "epoll_event \<Rightarrow> xv_fired_event_t" where
  "fired_of ev = \<lparr>f_fd = ev_fd ev, f_event = fired_mask (ev_events ev)\<rparr>"

lemma poll_copy_law:
  assumes "pollers s data = Some d" "data \<noteq> NULL" "fired \<noteq> NULL"
    and "fired_arrays s fired = Some arr" "i + length evs \<le> length arr"
    and "p_events d = pre @ map Some evs @ post" "length pre = i"
  shows "poll_copy (length evs) (int i) data fired s =
     Some (s\<lparr>fired_arrays := (fired_arrays s)(fired \<mapsto>
       take i arr @ map Some (map fired_of evs) @ drop (i + length evs) arr)\<rparr>)"
  using assms
proof (induction evs arbitrary: i arr s pre)
  case Nil
  then show ?case by (simp add: map_upd_triv)
next
  case (Cons ev evs)
  define arr1 where "arr1 = arr[i := Some (fired_of ev)]"
  define s1 where "s1 = s\<lparr>fired_arrays := (fired_arrays s)(fired \<mapsto> arr1)\<rparr>"
  have get: "arr_get (p_events d) (int i) = Some (Some ev)"
    using Cons.prems by (auto simp: arr_get_def nth_append)
  have set: "arr_set arr (int i) (Some (fired_of ev)) = Some arr1"
    using Cons.prems(5) by (simp add: arr_set_def arr1_def)
  have "poll_copy (length evs) (int (Suc i)) data fired s1 =
      Some (s1\<lparr>fired_arrays := (fired_arrays s1)(fired \<mapsto>
        take (Suc i) arr1 @ map Some (map fired_of evs) @ drop (Suc i + length evs) arr1)\<rparr>)"
    using Cons.prems by (intro Cons.IH[of s1 arr1 "Suc i" "pre @ [Some ev]"]) (simp_all add: s1_def arr1_def)
  moreover have "take (Suc i) arr1 = take i arr @ [Some (fired_of ev)]"
    "drop (Suc i + length evs) arr1 = drop (i + length (ev # evs)) arr"
    using Cons.prems(5) by (simp_all add: arr1_def take_Suc_conv_app_nth)
  moreover have "poll_copy (length (ev # evs)) (int i) data fired s =
      poll_copy (length evs) (int (Suc i)) data fired s1"
    using Cons.prems get set by (simp add: s1_def fired_of_def add.commute)
  ultimately show ?case
    by (simp add: s1_def del: fun_upd_apply poll_copy.simps)
qed

text \<open>A poller whose block matches its set size, and the fired array that goes with it.\<close>

definition poller_ok :: "('k, 'z) pheap_scheme \<Rightarrow> addr \<Rightarrow> int \<Rightarrow> bool" where
  "poller_ok s data n \<longleftrightarrow> data \<noteq> NULL \<and>
     (\<exists>d. pollers s data = Some d \<and> p_setsize d = n \<and> length (p_events d) = nat n)"

lemma poller_poll_law:
  assumes d: "pollers s data = Some d" "data \<noteq> NULL" "length (p_events d) = nat (p_setsize d)"
    and fired: "fired \<noteq> NULL" "fired_arrays s fired = Some arr" "length arr = nat (p_setsize d)"
    and wait: "epoll_wait K (p_epfd d) (p_setsize d) timeout (kern s) = (res, k)"
    and n: "\<And>evs. res = Some evs \<Longrightarrow> int (length evs) \<le> p_setsize d"
  shows "xv_poller_poll K s data fired timeout = (case res of
       None \<Rightarrow> Some (- 1, s\<lparr>kern := k\<rparr>)
     | Some evs \<Rightarrow> Some (int (length evs), s\<lparr>kern := k,
         pollers := (pollers s)(data \<mapsto> d\<lparr>p_events := map Some evs @ drop (length evs) (p_events d)\<rparr>),
         fired_arrays := (fired_arrays s)(fired \<mapsto> map Some (map fired_of evs) @ drop (length evs) arr)\<rparr>))"
proof (cases res)
  case None
  then show ?thesis using d wait by (simp add: xv_poller_poll_def)
next
  case (Some evs)
  let ?d = "d\<lparr>p_events := map Some evs @ drop (length evs) (p_events d)\<rparr>"
  let ?s = "s\<lparr>kern := k, pollers := (pollers s)(data \<mapsto> ?d)\<rparr>"
  have len: "length evs \<le> length (p_events d)" "length evs \<le> length arr"
    using n[OF Some] d(3) fired(3) by auto
  have put: "mem_put (p_events d) 0 (map Some evs) = Some (map Some evs @ drop (length evs) (p_events d))"
    using len by (simp add: mem_put_def)
  have "poll_copy (length evs) 0 data fired ?s = Some (?s\<lparr>fired_arrays := (fired_arrays ?s)(fired \<mapsto>
      map Some (map fired_of evs) @ drop (length evs) arr)\<rparr>)"
    using poll_copy_law[of ?s data ?d fired arr 0 evs "[]"] d(2) fired len by simp
  then show ?thesis
    using Some d wait put by (simp add: xv_poller_poll_def)
qed

end
