(* ===== verification/Xv_Loop.thy ===== *)
theory Xv_Loop
  imports Xv_Poller
begin

section \<open>The event loop and its watchers (\<^verbatim>\<open>src/src/xv.c\<close>)\<close>

text \<open>
  A loop owns an array of slots indexed by file descriptor (\<^verbatim>\<open>loop->events\<close>), an array for the
  events of one poll (\<^verbatim>\<open>loop->fired_events\<close>) and a poller. Watchers (\<^verbatim>\<open>xv_io_t\<close>) are
  allocated by their users; a slot points to at most one watcher per direction. A callback is the
  name of a function; \<open>call\<close>, an argument of the polling functions, is the code it names.
\<close>

subsection \<open>Data\<close>

datatype io_cb =
    Common_async_cb
  | On_new_connection
  | On_connection_read
  | On_connection_write
  | User_io_cb nat

record xv_io_t =
  io_fd :: int
  io_event :: u32
  io_cb :: "io_cb option"
  io_userdata :: addr
  io_start :: bool

record xv_event_io_t =
  e_event :: u32
  e_read_io :: addr
  e_write_io :: addr

record xv_loop_t =
  l_poller_data :: addr
  l_events :: addr
  l_fired_events :: addr
  l_setsize :: int
  l_start :: bool

record 'k lheap = "'k pheap" +
  ios :: "addr \<rightharpoonup> xv_io_t"
  loops :: "addr \<rightharpoonup> xv_loop_t"
  event_arrays :: "addr \<rightharpoonup> xv_event_io_t list"

definition empty_slot :: xv_event_io_t where
  "empty_slot = \<lparr>e_event = XV_NONE, e_read_io = NULL, e_write_io = NULL\<rparr>"

subsection \<open>The loop\<close>

definition xv_loop_init ::
  "('k, 'y) epoll_ops_scheme \<Rightarrow> ('k, 'z) lheap_scheme \<Rightarrow> int \<Rightarrow> addr \<times> ('k, 'z) lheap_scheme" where
  "xv_loop_init K s setsize =
     (let (loop, s) = xv_malloc s;
          (data, s) = xv_poller_init K s setsize;
          (events, s) = xv_malloc s;
          s = s\<lparr>event_arrays := (event_arrays s)(events \<mapsto> replicate (nat setsize) empty_slot)\<rparr>;
          (fired, s) = xv_malloc s;
          s = s\<lparr>fired_arrays := (fired_arrays s)(fired \<mapsto> replicate (nat setsize) None)\<rparr>
      in (loop, s\<lparr>loops := (loops s)(loop \<mapsto> \<lparr>l_poller_data = data, l_events = events,
            l_fired_events = fired, l_setsize = setsize, l_start = True\<rparr>)\<rparr>))"

definition xv_loop_destroy :: "('k, 'z) lheap_scheme \<Rightarrow> addr \<Rightarrow> ('k, 'z) lheap_scheme option" where
  "xv_loop_destroy s loop = do {
     l \<leftarrow> deref (loops s) loop;
     s \<leftarrow> xv_poller_destroy s (l_poller_data l);
     ev \<leftarrow> xv_free (event_arrays s) (l_events l);
     fi \<leftarrow> xv_free (fired_arrays s) (l_fired_events l);
     lo \<leftarrow> xv_free (loops s) loop;
     Some (s\<lparr>event_arrays := ev, fired_arrays := fi, loops := lo\<rparr>) }"

text \<open>One half of the dispatch of a fired event: the slot is read again for each half, because the
  first callback may have changed it.\<close>

definition fire_io ::
  "(io_cb \<Rightarrow> addr \<Rightarrow> addr \<Rightarrow> ('k, 'z) lheap_scheme \<Rightarrow> ('k, 'z) lheap_scheme option) \<Rightarrow>
   addr \<Rightarrow> int \<Rightarrow> (xv_event_io_t \<Rightarrow> addr) \<Rightarrow> ('k, 'z) lheap_scheme \<Rightarrow> ('k, 'z) lheap_scheme option" where
  "fire_io call loop fd sel s = do {
     l \<leftarrow> deref (loops s) loop;
     arr \<leftarrow> deref (event_arrays s) (l_events l);
     slot \<leftarrow> arr_get arr fd;
     let p = sel slot;
     if p = NULL then Some s
     else do {
       io \<leftarrow> deref (ios s) p;
       case io_cb io of None \<Rightarrow> Some s | Some cb \<Rightarrow> call cb loop p s } }"

text \<open>The dispatch loop: \<open>n\<close> iterations from index \<open>i\<close>.\<close>

fun fire_events ::
  "(io_cb \<Rightarrow> addr \<Rightarrow> addr \<Rightarrow> ('k, 'z) lheap_scheme \<Rightarrow> ('k, 'z) lheap_scheme option) \<Rightarrow>
   addr \<Rightarrow> nat \<Rightarrow> int \<Rightarrow> ('k, 'z) lheap_scheme \<Rightarrow> ('k, 'z) lheap_scheme option" where
  "fire_events call loop 0 i s = Some s"
| "fire_events call loop (Suc n) i s = do {
     l \<leftarrow> deref (loops s) loop;
     arr \<leftarrow> deref (fired_arrays s) (l_fired_events l);
     cell \<leftarrow> arr_get arr i;
     f \<leftarrow> cell;
     let fd = f_fd f;
     let event = f_event f;
     s \<leftarrow> (if has event XV_READ then fire_io call loop fd e_read_io s else Some s);
     s \<leftarrow> (if has event XV_WRITE then fire_io call loop fd e_write_io s else Some s);
     fire_events call loop n (i + 1) s }"

definition xv_loop_poll ::
  "('k, 'y) epoll_ops_scheme \<Rightarrow>
   (io_cb \<Rightarrow> addr \<Rightarrow> addr \<Rightarrow> ('k, 'z) lheap_scheme \<Rightarrow> ('k, 'z) lheap_scheme option) \<Rightarrow>
   ('k, 'z) lheap_scheme \<Rightarrow> addr \<Rightarrow> int \<Rightarrow> ('k, 'z) lheap_scheme option" where
  "xv_loop_poll K call s loop timeout_ms = do {
     l \<leftarrow> deref (loops s) loop;
     (count, s) \<leftarrow> xv_poller_poll K s (l_poller_data l) (l_fired_events l) timeout_ms;
     fire_events call loop (nat count) 0 s }"

partial_function (option) xv_loop_run_timeout ::
  "('k, 'y) epoll_ops_scheme \<Rightarrow>
   (io_cb \<Rightarrow> addr \<Rightarrow> addr \<Rightarrow> ('k, 'z) lheap_scheme \<Rightarrow> ('k, 'z) lheap_scheme option) \<Rightarrow>
   ('k, 'z) lheap_scheme \<Rightarrow> addr \<Rightarrow> int \<Rightarrow> ('k, 'z) lheap_scheme option" where
  "xv_loop_run_timeout K call s loop timeout_ms = do {
     l \<leftarrow> deref (loops s) loop;
     if l_start l
     then do { s \<leftarrow> xv_loop_poll K call s loop timeout_ms; xv_loop_run_timeout K call s loop timeout_ms }
     else Some s }"

definition xv_loop_run ::
  "('k, 'y) epoll_ops_scheme \<Rightarrow>
   (io_cb \<Rightarrow> addr \<Rightarrow> addr \<Rightarrow> ('k, 'z) lheap_scheme \<Rightarrow> ('k, 'z) lheap_scheme option) \<Rightarrow>
   ('k, 'z) lheap_scheme \<Rightarrow> addr \<Rightarrow> ('k, 'z) lheap_scheme option" where
  "xv_loop_run K call s loop = xv_loop_run_timeout K call s loop (- 1)"

definition xv_loop_run_once ::
  "('k, 'y) epoll_ops_scheme \<Rightarrow>
   (io_cb \<Rightarrow> addr \<Rightarrow> addr \<Rightarrow> ('k, 'z) lheap_scheme \<Rightarrow> ('k, 'z) lheap_scheme option) \<Rightarrow>
   ('k, 'z) lheap_scheme \<Rightarrow> addr \<Rightarrow> ('k, 'z) lheap_scheme option" where
  "xv_loop_run_once K call s loop = xv_loop_poll K call s loop 0"

definition xv_loop_break :: "('k, 'z) lheap_scheme \<Rightarrow> addr \<Rightarrow> ('k, 'z) lheap_scheme option" where
  "xv_loop_break s loop = do {
     l \<leftarrow> deref (loops s) loop;
     Some (s\<lparr>loops := (loops s)(loop \<mapsto> l\<lparr>l_start := False\<rparr>)\<rparr>) }"

text \<open>
  \<^verbatim>\<open>xv_loop_resize\<close>: the cells that \<^verbatim>\<open>realloc\<close> adds are set by the loop that follows it. The second \<^verbatim>\<open>xv_realloc\<close> is applied to \<^verbatim>\<open>loop->events\<close>, so the block
  that \<^verbatim>\<open>loop->events\<close> points to is released again and its space becomes the fired array.
\<close>

definition xv_loop_resize ::
  "('k, 'z) lheap_scheme \<Rightarrow> addr \<Rightarrow> int \<Rightarrow> (int \<times> ('k, 'z) lheap_scheme) option" where
  "xv_loop_resize s loop setsize = do {
     l \<leftarrow> deref (loops s) loop;
     if setsize \<le> l_setsize l then Some (XV_OK, s)
     else do {
       (_, s) \<leftarrow> xv_poller_resize s (l_poller_data l) setsize;
       arr \<leftarrow> deref (event_arrays s) (l_events l);
       h \<leftarrow> xv_free (event_arrays s) (l_events l);
       let (events, s) = xv_malloc s;
       arr \<leftarrow> mem_put (xv_realloc empty_slot arr setsize) (l_setsize l)
                (replicate (nat (setsize - l_setsize l)) empty_slot);
       let s = s\<lparr>event_arrays := h(events \<mapsto> arr)\<rparr>;
       let l = l\<lparr>l_events := events\<rparr>;
       h \<leftarrow> xv_free (event_arrays s) (l_events l);
       let (fired, s) = xv_malloc s;
       let s = s\<lparr>event_arrays := h, fired_arrays := (fired_arrays s)(fired \<mapsto> replicate (nat setsize) None)\<rparr>;
       let l = l\<lparr>l_fired_events := fired, l_setsize := setsize\<rparr>;
       Some (XV_OK, s\<lparr>loops := (loops s)(loop \<mapsto> l)\<rparr>) } }"

text \<open>The part of \<^verbatim>\<open>xv_loop_add_event\<close> after the size check.\<close>

definition loop_add_slot ::
  "('k, 'y) epoll_ops_scheme \<Rightarrow> ('k, 'z) lheap_scheme \<Rightarrow> addr \<Rightarrow> addr \<Rightarrow> (int \<times> ('k, 'z) lheap_scheme) option" where
  "loop_add_slot K s loop iop = do {
     io \<leftarrow> deref (ios s) iop;
     if io_event io \<noteq> XV_READ \<and> io_event io \<noteq> XV_WRITE then Some (XV_ERR, s)
     else do {
       l \<leftarrow> deref (loops s) loop;
       arr \<leftarrow> deref (event_arrays s) (l_events l);
       slot \<leftarrow> arr_get arr (io_fd io);
       let slot = (if has (io_event io) XV_READ then slot\<lparr>e_read_io := iop\<rparr> else slot);
       let slot = (if has (io_event io) XV_WRITE then slot\<lparr>e_write_io := iop\<rparr> else slot);
       let old_event = e_event slot;
       let slot = slot\<lparr>e_event := e_event slot OR io_event io\<rparr>;
       arr \<leftarrow> arr_set arr (io_fd io) slot;
       let s = s\<lparr>event_arrays := (event_arrays s)(l_events l \<mapsto> arr)\<rparr>;
       (ret, s) \<leftarrow> xv_poller_add_event K s (l_poller_data l) (io_fd io) old_event (io_event io);
       if ret = XV_ERR then Some (XV_ERR, s) else Some (XV_OK, s) } }"

definition xv_loop_add_event ::
  "('k, 'y) epoll_ops_scheme \<Rightarrow> ('k, 'z) lheap_scheme \<Rightarrow> addr \<Rightarrow> addr \<Rightarrow> (int \<times> ('k, 'z) lheap_scheme) option" where
  "xv_loop_add_event K s loop iop = do {
     io \<leftarrow> deref (ios s) iop;
     l \<leftarrow> deref (loops s) loop;
     if io_fd io \<ge> l_setsize l
     then do {
       n \<leftarrow> c_int (l_setsize l * 2);
       (ret, s) \<leftarrow> xv_loop_resize s loop n;
       if ret = XV_ERR then Some (XV_ERR, s) else loop_add_slot K s loop iop }
     else loop_add_slot K s loop iop }"

definition xv_loop_del_event ::
  "('k, 'y) epoll_ops_scheme \<Rightarrow> ('k, 'z) lheap_scheme \<Rightarrow> addr \<Rightarrow> addr \<Rightarrow> (int \<times> ('k, 'z) lheap_scheme) option" where
  "xv_loop_del_event K s loop iop = do {
     io \<leftarrow> deref (ios s) iop;
     l \<leftarrow> deref (loops s) loop;
     if io_fd io \<ge> l_setsize l then Some (XV_ERR, s)
     else if io_event io \<noteq> XV_READ \<and> io_event io \<noteq> XV_WRITE then Some (XV_ERR, s)
     else do {
       arr \<leftarrow> deref (event_arrays s) (l_events l);
       slot \<leftarrow> arr_get arr (io_fd io);
       let old_event = e_event slot;
       let slot = slot\<lparr>e_event := e_event slot AND NOT (io_event io)\<rparr>;
       let slot = (if has (io_event io) XV_READ then slot\<lparr>e_read_io := NULL\<rparr>
                   else if has (io_event io) XV_WRITE then slot\<lparr>e_write_io := NULL\<rparr> else slot);
       arr \<leftarrow> arr_set arr (io_fd io) slot;
       let s = s\<lparr>event_arrays := (event_arrays s)(l_events l \<mapsto> arr)\<rparr>;
       xv_poller_del_event K s (l_poller_data l) (io_fd io) old_event (io_event io) } }"

subsection \<open>Watchers\<close>

definition xv_io_get_fd :: "('k, 'z) lheap_scheme \<Rightarrow> addr \<Rightarrow> int option" where
  "xv_io_get_fd s iop = do { io \<leftarrow> deref (ios s) iop; Some (io_fd io) }"

definition xv_io_set_userdata :: "('k, 'z) lheap_scheme \<Rightarrow> addr \<Rightarrow> addr \<Rightarrow> ('k, 'z) lheap_scheme option" where
  "xv_io_set_userdata s iop data = do {
     io \<leftarrow> deref (ios s) iop;
     Some (s\<lparr>ios := (ios s)(iop \<mapsto> io\<lparr>io_userdata := data\<rparr>)\<rparr>) }"

definition xv_io_get_userdata :: "('k, 'z) lheap_scheme \<Rightarrow> addr \<Rightarrow> addr option" where
  "xv_io_get_userdata s iop = do { io \<leftarrow> deref (ios s) iop; Some (io_userdata io) }"

definition xv_io_init ::
  "('k, 'z) lheap_scheme \<Rightarrow> int \<Rightarrow> u32 \<Rightarrow> io_cb option \<Rightarrow> addr \<times> ('k, 'z) lheap_scheme" where
  "xv_io_init s fd event cb =
     (if cb = None then (NULL, s)
      else let (iop, s) = xv_malloc s in
        (iop, s\<lparr>ios := (ios s)(iop \<mapsto> \<lparr>io_fd = fd, io_event = event, io_cb = cb,
           io_userdata = NULL, io_start = False\<rparr>)\<rparr>))"

definition xv_io_start ::
  "('k, 'y) epoll_ops_scheme \<Rightarrow> ('k, 'z) lheap_scheme \<Rightarrow> addr \<Rightarrow> addr \<Rightarrow> (int \<times> ('k, 'z) lheap_scheme) option" where
  "xv_io_start K s loop iop = do {
     io \<leftarrow> deref (ios s) iop;
     if io_start io then Some (XV_ERR, s)
     else xv_loop_add_event K (s\<lparr>ios := (ios s)(iop \<mapsto> io\<lparr>io_start := True\<rparr>)\<rparr>) loop iop }"

definition xv_io_stop ::
  "('k, 'y) epoll_ops_scheme \<Rightarrow> ('k, 'z) lheap_scheme \<Rightarrow> addr \<Rightarrow> addr \<Rightarrow> (int \<times> ('k, 'z) lheap_scheme) option" where
  "xv_io_stop K s loop iop = do {
     io \<leftarrow> deref (ios s) iop;
     if \<not> io_start io then Some (XV_ERR, s)
     else xv_loop_del_event K (s\<lparr>ios := (ios s)(iop \<mapsto> io\<lparr>io_start := False\<rparr>)\<rparr>) loop iop }"

definition xv_io_destroy :: "('k, 'z) lheap_scheme \<Rightarrow> addr \<Rightarrow> (int \<times> ('k, 'z) lheap_scheme) option" where
  "xv_io_destroy s iop = do {
     io \<leftarrow> deref (ios s) iop;
     if io_start io then Some (XV_ERR, s)
     else do { h \<leftarrow> xv_free (ios s) iop; Some (XV_OK, s\<lparr>ios := h\<rparr>) } }"

definition xv_event_to_str :: "u32 \<Rightarrow> string" where
  "xv_event_to_str event =
     (if event = XV_NONE then ''NONE'' else if event = XV_READ then ''READ''
      else if event = XV_WRITE then ''WRITE'' else if event = XV_ALL_EVENT then ''READ & WRITE''
      else ''ERROR_OP'')"


subsection \<open>Invariant\<close>

text \<open>The mask of a slot says exactly which of its two pointers are set.\<close>

definition slot_mask :: "xv_event_io_t \<Rightarrow> u32" where
  "slot_mask slot = (if e_read_io slot \<noteq> NULL then XV_READ else 0) OR
                    (if e_write_io slot \<noteq> NULL then XV_WRITE else 0)"

definition watcher_ok :: "(addr \<rightharpoonup> xv_io_t) \<Rightarrow> int \<Rightarrow> u32 \<Rightarrow> addr \<Rightarrow> bool" where
  "watcher_ok h fd ev p \<longleftrightarrow>
     p \<noteq> NULL \<longrightarrow> (\<exists>io. h p = Some io \<and> io_fd io = fd \<and> io_event io = ev \<and> io_start io)"

definition slot_ok :: "(addr \<rightharpoonup> xv_io_t) \<Rightarrow> int \<Rightarrow> xv_event_io_t \<Rightarrow> bool" where
  "slot_ok h fd slot \<longleftrightarrow> e_event slot = slot_mask slot \<and>
     watcher_ok h fd XV_READ (e_read_io slot) \<and> watcher_ok h fd XV_WRITE (e_write_io slot)"

definition slots_ok :: "(addr \<rightharpoonup> xv_io_t) \<Rightarrow> xv_event_io_t list \<Rightarrow> bool" where
  "slots_ok h arr \<longleftrightarrow> (\<forall>i < length arr. slot_ok h (int i) (arr ! i))"

text \<open>The loop's arrays are live and as long as its set size, the poller agrees, and every slot is
  consistent with the watchers it points to.\<close>

definition loop_repr ::
  "('k, 'z) lheap_scheme \<Rightarrow> addr \<Rightarrow> xv_loop_t \<Rightarrow> xv_poller_data_t \<Rightarrow> xv_event_io_t list \<Rightarrow> bool" where
  "loop_repr s loop l d arr \<longleftrightarrow>
     loop \<noteq> NULL \<and> loops s loop = Some l \<and>
     l_poller_data l \<noteq> NULL \<and> pollers s (l_poller_data l) = Some d \<and>
     p_setsize d = l_setsize l \<and> length (p_events d) = nat (l_setsize l) \<and>
     l_events l \<noteq> NULL \<and> event_arrays s (l_events l) = Some arr \<and> length arr = nat (l_setsize l) \<and>
     l_fired_events l \<noteq> NULL \<and>
     (\<exists>farr. fired_arrays s (l_fired_events l) = Some farr \<and> length farr = nat (l_setsize l)) \<and>
     slots_ok (ios s) arr"

definition loop_ok :: "('k, 'z) lheap_scheme \<Rightarrow> addr \<Rightarrow> bool" where
  "loop_ok s loop \<longleftrightarrow> (\<exists>l d arr. loop_repr s loop l d arr)"

lemma loop_reprD:
  assumes "loop_repr s loop l d arr"
  shows "loop \<noteq> NULL" "loops s loop = Some l" "l_poller_data l \<noteq> NULL"
    "pollers s (l_poller_data l) = Some d" "p_setsize d = l_setsize l"
    "length (p_events d) = nat (l_setsize l)" "l_events l \<noteq> NULL"
    "event_arrays s (l_events l) = Some arr" "length arr = nat (l_setsize l)"
    "l_fired_events l \<noteq> NULL" "slots_ok (ios s) arr"
  using assms by (auto simp: loop_repr_def)

lemma loop_repr_fired:
  assumes "loop_repr s loop l d arr"
  obtains farr where "fired_arrays s (l_fired_events l) = Some farr" "length farr = nat (l_setsize l)"
  using assms by (auto simp: loop_repr_def)

lemma slot_mask_add:
  "p \<noteq> NULL \<Longrightarrow> slot_mask (slot\<lparr>e_read_io := p\<rparr>) = slot_mask slot OR XV_READ"
  "p \<noteq> NULL \<Longrightarrow> slot_mask (slot\<lparr>e_write_io := p\<rparr>) = slot_mask slot OR XV_WRITE"
  by (auto simp: slot_mask_def code_defs)

lemma slot_mask_del:
  "slot_mask (slot\<lparr>e_read_io := NULL\<rparr>) = slot_mask slot AND NOT XV_READ"
  "slot_mask (slot\<lparr>e_write_io := NULL\<rparr>) = slot_mask slot AND NOT XV_WRITE"
  by (auto simp: slot_mask_def code_defs)

lemma slot_mask_event_upd [simp]: "slot_mask (slot\<lparr>e_event := v\<rparr>) = slot_mask slot"
  by (simp add: slot_mask_def)

lemma slot_mask_range: "slot_mask slot \<in> {XV_NONE, XV_READ, XV_WRITE, XV_ALL_EVENT}"
  by (auto simp: slot_mask_def code_defs)

text \<open>The pointer of one direction of a slot.\<close>

definition slot_ptr :: "u32 \<Rightarrow> xv_event_io_t \<Rightarrow> addr" where
  "slot_ptr ev slot = (if ev = XV_READ then e_read_io slot else e_write_io slot)"

definition slot_set :: "u32 \<Rightarrow> addr \<Rightarrow> xv_event_io_t \<Rightarrow> xv_event_io_t" where
  "slot_set ev p slot = (if ev = XV_READ then slot\<lparr>e_read_io := p\<rparr> else slot\<lparr>e_write_io := p\<rparr>)"

text \<open>Starting a watcher: the slot of its descriptor points to it, and the kernel is asked to add the
  descriptor, or to extend its mask.\<close>

lemma start_eq:
  fixes s :: "('k, 'z) lheap_scheme"
  assumes r: "loop_repr s loop l d arr" and io: "ios s iop = Some io" "iop \<noteq> NULL" "\<not> io_start io"
    and fd: "0 \<le> io_fd io" "io_fd io < l_setsize l" and ev: "io_event io = XV_READ \<or> io_event io = XV_WRITE"
    and slot: "slot = arr ! nat (io_fd io)"
    and ctl: "epoll_ctl K (p_epfd d) (if e_event slot = XV_NONE then EPOLL_CTL_ADD else EPOLL_CTL_MOD)
        (io_fd io) \<lparr>ev_events = epoll_mask (io_event io OR e_event slot), ev_fd = io_fd io\<rparr> (kern s) = (ret, k)"
  shows "xv_io_start K s loop iop = Some (if ret = 0 then XV_OK else XV_ERR,
     s\<lparr>ios := (ios s)(iop \<mapsto> io\<lparr>io_start := True\<rparr>), kern := k,
       event_arrays := (event_arrays s)(l_events l \<mapsto> arr[nat (io_fd io) :=
         (slot_set (io_event io) iop slot)\<lparr>e_event := e_event slot OR io_event io\<rparr>])\<rparr>)"
proof -
  note d = loop_reprD[OF r]
  have i: "arr_get arr (io_fd io) = Some slot"
    using d(9) fd slot by (simp add: arr_get_def)
  have set: "arr_set arr (io_fd io) v = Some (arr[nat (io_fd io) := v])" for v
    using d(9) fd by (simp add: arr_set_def)
  have m: "xv_poller_add_event K t (l_poller_data l) (io_fd io) (e_event slot) (io_event io) =
      Some (if ret = 0 then XV_OK else XV_ERR, t\<lparr>kern := k\<rparr>)"
    if "pollers t = pollers s" "kern t = kern s" for t :: "('k, 'z) lheap_scheme"
    unfolding poller_add_eq by (rule poller_modify_eq) (use d ctl that in simp_all)
  from ev show ?thesis
    using d(1,2,7,8) io fd i m
    by (elim disjE) (simp_all add: xv_io_start_def xv_loop_add_event_def loop_add_slot_def set slot_set_def)
qed

text \<open>Stopping a watcher: its direction of the slot is cleared, and the kernel is asked to shrink the
  mask, or to remove the descriptor.\<close>

lemma stop_eq:
  fixes s :: "('k, 'z) lheap_scheme"
  assumes r: "loop_repr s loop l d arr" and io: "ios s iop = Some io" "iop \<noteq> NULL" "io_start io"
    and fd: "0 \<le> io_fd io" "io_fd io < l_setsize l" and ev: "io_event io = XV_READ \<or> io_event io = XV_WRITE"
    and slot: "slot = arr ! nat (io_fd io)" and rest: "rest = e_event slot AND NOT (io_event io)"
    and ctl: "epoll_ctl K (p_epfd d) (if rest = XV_NONE then EPOLL_CTL_DEL else EPOLL_CTL_MOD)
        (io_fd io) \<lparr>ev_events = epoll_mask (if rest = XV_NONE then io_event io else rest),
          ev_fd = io_fd io\<rparr> (kern s) = (ret, k)"
  shows "xv_io_stop K s loop iop = Some (if ret = 0 then XV_OK else XV_ERR,
     s\<lparr>ios := (ios s)(iop \<mapsto> io\<lparr>io_start := False\<rparr>), kern := k,
       event_arrays := (event_arrays s)(l_events l \<mapsto> arr[nat (io_fd io) :=
         slot_set (io_event io) NULL (slot\<lparr>e_event := rest\<rparr>)])\<rparr>)"
proof -
  note d = loop_reprD[OF r]
  have i: "arr_get arr (io_fd io) = Some slot"
    using d(9) fd slot by (simp add: arr_get_def)
  have set: "arr_set arr (io_fd io) v = Some (arr[nat (io_fd io) := v])" for v
    using d(9) fd by (simp add: arr_set_def)
  have m: "xv_poller_del_event K t (l_poller_data l) (io_fd io) (e_event slot) (io_event io) =
      Some (if ret = 0 then XV_OK else XV_ERR, t\<lparr>kern := k\<rparr>)"
    if "pollers t = pollers s" "kern t = kern s" for t :: "('k, 'z) lheap_scheme"
    using poller_modify_eq[of "l_poller_data l" t d K _ "io_fd io" _ ret k] d(3,4) ctl rest that
    by (simp add: poller_del_eq split: if_splits)
  from ev show ?thesis
    using d(1,2,7,8) io fd i rest m
    by (elim disjE) (simp_all add: xv_io_stop_def xv_loop_del_event_def set slot_set_def)
qed


lemma watcher_ok_upd_other:
  "watcher_ok h fd ev p \<Longrightarrow> p \<noteq> iop \<Longrightarrow> watcher_ok (h(iop \<mapsto> x)) fd ev p"
  by (auto simp: watcher_ok_def)

lemma watcher_ok_not_started:
  "watcher_ok h fd ev p \<Longrightarrow> h iop = Some io \<Longrightarrow> \<not> io_start io \<Longrightarrow> iop \<noteq> NULL \<Longrightarrow> p \<noteq> iop"
  by (auto simp: watcher_ok_def)

lemma watcher_ok_same:
  "watcher_ok h fd ev iop \<Longrightarrow> h iop = Some io \<Longrightarrow> iop \<noteq> NULL \<Longrightarrow> io_fd io = fd \<and> io_event io = ev"
  by (auto simp: watcher_ok_def)

lemma slots_ok_nth: "slots_ok h arr \<Longrightarrow> 0 \<le> fd \<Longrightarrow> fd < int (length arr) \<Longrightarrow> slot_ok h fd (arr ! nat fd)"
  unfolding slots_ok_def by (metis int_nat_eq nat_less_iff)

lemma slots_ok_update:
  assumes "slots_ok h arr" "slot_ok h' fd v" "0 \<le> fd" "fd < int (length arr)"
    and "\<And>i. i < length arr \<Longrightarrow> int i \<noteq> fd \<Longrightarrow> slot_ok h (int i) (arr ! i) \<Longrightarrow> slot_ok h' (int i) (arr ! i)"
  shows "slots_ok h' (arr[nat fd := v])"
  unfolding slots_ok_def
proof (intro allI impI)
  fix i assume i: "i < length (arr[nat fd := v])"
  show "slot_ok h' (int i) (arr[nat fd := v] ! i)"
  proof (cases "int i = fd")
    case True
    then show ?thesis using assms(2) i by auto
  next
    case False
    then have "nat fd \<noteq> i" using assms(3) by auto
    then show ?thesis using assms(1,5) i False by (auto simp: slots_ok_def)
  qed
qed

lemma slots_ok_start:
  assumes ok: "slots_ok h arr" and io: "h iop = Some io" "iop \<noteq> NULL" "\<not> io_start io"
    and fd: "0 \<le> io_fd io" "io_fd io < int (length arr)"
    and ev: "io_event io = XV_READ \<or> io_event io = XV_WRITE"
    and slot: "slot = arr ! nat (io_fd io)"
  shows "slots_ok (h(iop \<mapsto> io\<lparr>io_start := True\<rparr>)) (arr[nat (io_fd io) :=
     (slot_set (io_event io) iop slot)\<lparr>e_event := e_event slot OR io_event io\<rparr>])"
proof (rule slots_ok_update[OF ok _ fd])
  have w: "watcher_ok (h(iop \<mapsto> io\<lparr>io_start := True\<rparr>)) f e p" if "watcher_ok h f e p" for f e p
    using that watcher_ok_not_started[of h f e p iop io] io watcher_ok_upd_other[of h f e p iop] by simp
  have s: "slot_ok h (io_fd io) slot"
    using slots_ok_nth[OF ok fd] slot by simp
  have new: "watcher_ok (h(iop \<mapsto> io\<lparr>io_start := True\<rparr>)) (io_fd io) (io_event io) iop"
    by (simp add: watcher_ok_def)
  from ev show "slot_ok (h(iop \<mapsto> io\<lparr>io_start := True\<rparr>)) (io_fd io)
      ((slot_set (io_event io) iop slot)\<lparr>e_event := e_event slot OR io_event io\<rparr>)"
    using s new io(2) by (elim disjE) (auto simp: slot_ok_def slot_set_def slot_mask_add intro: w)
  show "slot_ok (h(iop \<mapsto> io\<lparr>io_start := True\<rparr>)) (int i) (arr ! i)"
    if "slot_ok h (int i) (arr ! i)" for i
    using that by (auto simp: slot_ok_def intro: w)
qed

lemma slots_ok_stop:
  assumes ok: "slots_ok h arr" and io: "h iop = Some io" "iop \<noteq> NULL"
    and fd: "0 \<le> io_fd io" "io_fd io < int (length arr)"
    and ev: "io_event io = XV_READ \<or> io_event io = XV_WRITE"
    and slot: "slot = arr ! nat (io_fd io)"
  shows "slots_ok (h(iop \<mapsto> io\<lparr>io_start := False\<rparr>)) (arr[nat (io_fd io) :=
     slot_set (io_event io) NULL (slot\<lparr>e_event := e_event slot AND NOT (io_event io)\<rparr>)])"
proof (rule slots_ok_update[OF ok _ fd])
  have s: "slot_ok h (io_fd io) slot"
    using slots_ok_nth[OF ok fd] slot by simp
  have other: "watcher_ok (h(iop \<mapsto> io\<lparr>io_start := False\<rparr>)) f e p"
    if "watcher_ok h f e p" "(f, e) \<noteq> (io_fd io, io_event io)" for f e p
    using that watcher_ok_same[of h f e, OF _ io] by (cases "p = iop") (auto intro: watcher_ok_upd_other)
  have null: "watcher_ok g f e NULL" for g f e
    by (simp add: watcher_ok_def)
  from ev show "slot_ok (h(iop \<mapsto> io\<lparr>io_start := False\<rparr>)) (io_fd io)
      (slot_set (io_event io) NULL (slot\<lparr>e_event := e_event slot AND NOT (io_event io)\<rparr>))"
    using s null by (elim disjE) (simp_all add: slot_ok_def slot_set_def slot_mask_del other code_defs)
  show "slot_ok (h(iop \<mapsto> io\<lparr>io_start := False\<rparr>)) (int i) (arr ! i)"
    if "slot_ok h (int i) (arr ! i)" "int i \<noteq> io_fd io" for i
    using that other by (auto simp: slot_ok_def)
qed

subsection \<open>The watch table\<close>

text \<open>
  What a client sees of the loop: the watcher registered for a descriptor and a direction, and for
  each watcher whether it is started. \<open>w_spec\<close> is the specification of \<^verbatim>\<open>xv_io_start\<close> and
  \<^verbatim>\<open>xv_io_stop\<close> on that view, with the code they return when the kernel accepts the change.
\<close>

definition watched :: "('k, 'z) lheap_scheme \<Rightarrow> addr \<Rightarrow> int \<Rightarrow> u32 \<Rightarrow> addr" where
  "watched s loop fd ev = (case loops s loop of None \<Rightarrow> NULL | Some l \<Rightarrow>
     (case event_arrays s (l_events l) of None \<Rightarrow> NULL | Some arr \<Rightarrow>
       if 0 \<le> fd \<and> fd < int (length arr) \<and> ev \<in> {XV_READ, XV_WRITE}
       then slot_ptr ev (arr ! nat fd) else NULL))"

definition loop_size :: "('k, 'z) lheap_scheme \<Rightarrow> addr \<Rightarrow> int" where
  "loop_size s loop = (case loops s loop of None \<Rightarrow> 0 | Some l \<Rightarrow> l_setsize l)"

datatype w_op = WStart addr | WStop addr

fun w_watcher :: "w_op \<Rightarrow> addr" where
  "w_watcher (WStart p) = p"
| "w_watcher (WStop p) = p"

type_synonym w_view = "(addr \<rightharpoonup> xv_io_t) \<times> (int \<Rightarrow> u32 \<Rightarrow> addr)"

definition table_set :: "(int \<Rightarrow> u32 \<Rightarrow> addr) \<Rightarrow> int \<Rightarrow> u32 \<Rightarrow> addr \<Rightarrow> int \<Rightarrow> u32 \<Rightarrow> addr" where
  "table_set T fd ev p = T(fd := (T fd)(ev := p))"

fun w_spec :: "w_view \<Rightarrow> w_op \<Rightarrow> int \<times> w_view" where
  "w_spec (h, T) (WStart p) =
     (let io = the (h p) in if io_start io then (XV_ERR, h, T)
      else (XV_OK, h(p \<mapsto> io\<lparr>io_start := True\<rparr>), table_set T (io_fd io) (io_event io) p))"
| "w_spec (h, T) (WStop p) =
     (let io = the (h p) in if \<not> io_start io then (XV_ERR, h, T)
      else (XV_OK, h(p \<mapsto> io\<lparr>io_start := False\<rparr>), table_set T (io_fd io) (io_event io) NULL))"

definition w_view_of :: "('k, 'z) lheap_scheme \<Rightarrow> addr \<Rightarrow> w_view" where
  "w_view_of s loop = (ios s, watched s loop)"

fun w_exec ::
  "('k, 'y) epoll_ops_scheme \<Rightarrow> addr \<Rightarrow> ('k, 'z) lheap_scheme \<Rightarrow> w_op \<Rightarrow> (int \<times> ('k, 'z) lheap_scheme) option" where
  "w_exec K loop s (WStart p) = xv_io_start K s loop p"
| "w_exec K loop s (WStop p) = xv_io_stop K s loop p"

text \<open>A watcher the loop can hold without growing.\<close>

definition watcher_fits :: "('k, 'z) lheap_scheme \<Rightarrow> addr \<Rightarrow> addr \<Rightarrow> bool" where
  "watcher_fits s loop p \<longleftrightarrow> p \<noteq> NULL \<and> (\<exists>io. ios s p = Some io \<and> 0 \<le> io_fd io \<and>
     io_fd io < loop_size s loop \<and> io_event io \<in> {XV_READ, XV_WRITE})"

text \<open>The kernel's interest list for the loop's epoll descriptor is the image of the watch table.\<close>

definition table_mask :: "(int \<Rightarrow> u32 \<Rightarrow> addr) \<Rightarrow> int \<Rightarrow> u32" where
  "table_mask T fd = (if T fd XV_READ \<noteq> NULL then XV_READ else 0) OR
                     (if T fd XV_WRITE \<noteq> NULL then XV_WRITE else 0)"

definition in_sync :: "('k \<Rightarrow> int \<Rightarrow> int \<Rightarrow> u32 option) \<Rightarrow> ('k, 'z) lheap_scheme \<Rightarrow> addr \<Rightarrow> bool" where
  "in_sync interest s loop \<longleftrightarrow> (\<exists>l d. loops s loop = Some l \<and> pollers s (l_poller_data l) = Some d \<and>
     (\<forall>fd. interest (kern s) (p_epfd d) fd =
        (let m = table_mask (watched s loop) fd in if m = XV_NONE then None else Some (epoll_mask m))))"

lemma loop_size_repr: "loop_repr s loop l d arr \<Longrightarrow> loop_size s loop = l_setsize l"
  by (simp add: loop_size_def loop_reprD)

lemma watched_repr:
  assumes "loop_repr s loop l d arr"
  shows "watched s loop fd ev = (if 0 \<le> fd \<and> fd < l_setsize l \<and> ev \<in> {XV_READ, XV_WRITE}
     then slot_ptr ev (arr ! nat fd) else NULL)"
  using loop_reprD[OF assms] by (auto simp: watched_def)

lemma slot_ptr_set:
  "ev \<in> {XV_READ, XV_WRITE} \<Longrightarrow> ev' \<in> {XV_READ, XV_WRITE} \<Longrightarrow>
   slot_ptr ev (slot_set ev' p slot) = (if ev = ev' then p else slot_ptr ev slot)"
  by (auto simp: slot_ptr_def slot_set_def)

lemma slot_ptr_event_upd [simp]:
  "slot_ptr ev (slot\<lparr>e_event := v\<rparr>) = slot_ptr ev slot"
  "slot_set ev p (slot\<lparr>e_event := v\<rparr>) = (slot_set ev p slot)\<lparr>e_event := v\<rparr>"
  by (simp_all add: slot_ptr_def slot_set_def)

text \<open>Replacing one slot, with one direction set to \<open>p\<close>, is one update of the table.\<close>

lemma loop_repr_update:
  assumes r: "loop_repr s loop l d arr" and ok: "slots_ok h' (arr[nat fd := v])"
    and fd: "0 \<le> fd" "fd < l_setsize l" and ev: "ev \<in> {XV_READ, XV_WRITE}"
    and v: "\<And>e. e \<in> {XV_READ, XV_WRITE} \<Longrightarrow> slot_ptr e v = (if e = ev then p else slot_ptr e (arr ! nat fd))"
    and t: "t = s\<lparr>ios := h', kern := k, event_arrays := (event_arrays s)(l_events l \<mapsto> arr[nat fd := v])\<rparr>"
  shows "loop_repr t loop l d (arr[nat fd := v]) \<and> watched t loop = table_set (watched s loop) fd ev p"
proof -
  have repr: "loop_repr t loop l d (arr[nat fd := v])"
    using r ok unfolding loop_repr_def t by simp
  have "watched t loop f e = table_set (watched s loop) fd ev p f e" for f e
  proof (cases "f = fd")
    case True
    have "nat fd < length arr" using fd loop_reprD(9)[OF r] by simp
    then show ?thesis
      using True fd ev by (cases "e \<in> {XV_READ, XV_WRITE}")
        (auto simp: watched_repr[OF repr] watched_repr[OF r] table_set_def v)
  next
    case False
    then show ?thesis
      using fd by (auto simp: watched_repr[OF repr] watched_repr[OF r] table_set_def)
  qed
  then show ?thesis using repr by (simp add: fun_eq_iff)
qed

lemma table_mask_slot:
  assumes "loop_repr s loop l d arr" "0 \<le> fd" "fd < l_setsize l"
  shows "e_event (arr ! nat fd) = table_mask (watched s loop) fd"
proof -
  have "slot_ok (ios s) fd (arr ! nat fd)"
    by (rule slots_ok_nth) (use loop_reprD[OF assms(1)] assms in simp_all)
  then show ?thesis
    using assms by (simp add: slot_ok_def slot_mask_def table_mask_def watched_repr[OF assms(1)] slot_ptr_def)
qed

lemma table_mask_set:
  "ev \<in> {XV_READ, XV_WRITE} \<Longrightarrow> table_mask (table_set T fd ev p) f =
     (if f \<noteq> fd then table_mask T f else if p \<noteq> NULL then table_mask T fd OR ev else table_mask T fd AND NOT ev)"
  by (auto simp: table_mask_def table_set_def code_defs)

lemma table_mask_or_nonzero: "ev \<in> {XV_READ, XV_WRITE} \<Longrightarrow> table_mask T fd OR ev \<noteq> XV_NONE"
  by (auto simp: table_mask_def code_defs)

text \<open>One accepted \<^verbatim>\<open>epoll_ctl\<close> of the poller moves the interest list with the table.\<close>

lemma in_sync_update:
  assumes doc: "epoll_ctl_doc K interest" and sync: "in_sync interest s loop"
    and l: "loops s loop = Some l" and d: "pollers s (l_poller_data l) = Some d"
    and t: "loops t = loops s" "pollers t = pollers s"
    and tab: "watched t loop = table_set (watched s loop) fd ev p" and ev: "ev \<in> {XV_READ, XV_WRITE}"
    and ctl: "epoll_ctl K (p_epfd d) op fd \<lparr>ev_events = e, ev_fd = fd\<rparr> (kern s) = (0, kern t)"
    and new: "m = table_mask (watched t loop) fd"
    and op: "if m = XV_NONE then op = EPOLL_CTL_DEL
             else e = epoll_mask m \<and> (op = EPOLL_CTL_ADD \<or> op = EPOLL_CTL_MOD)"
  shows "in_sync interest t loop"
proof -
  have eff: "ctl_effect interest (kern s) (p_epfd d) op fd e (kern t)"
    using doc ctl by (fastforce simp: epoll_ctl_doc_def)
  have "interest (kern t) (p_epfd d) f =
      (let m = table_mask (watched t loop) f in if m = XV_NONE then None else Some (epoll_mask m))" for f
  proof (cases "f = fd")
    case True
    then show ?thesis using eff op new by (auto simp: ctl_effect_def split: if_splits)
  next
    case False
    then have "interest (kern t) (p_epfd d) f = interest (kern s) (p_epfd d) f"
      using eff by (simp add: ctl_effect_def)
    then show ?thesis
      using sync l d False tab by (simp add: in_sync_def table_mask_set[OF ev])
  qed
  then show ?thesis using l d t by (simp add: in_sync_def)
qed

text \<open>What no operation on watchers touches.\<close>

definition w_frame :: "('k, 'z) lheap_scheme \<Rightarrow> ('k, 'z) lheap_scheme \<Rightarrow> bool" where
  "w_frame s t \<longleftrightarrow> brk t = brk s \<and> nodes t = nodes s \<and> queues t = queues s \<and> cqueues t = cqueues s \<and>
     pollers t = pollers s \<and> fired_arrays t = fired_arrays s \<and> loops t = loops s \<and> lheap.more t = lheap.more s"

text \<open>The law of one call, for either operation.\<close>

definition w_post ::
  "('k, 'y) epoll_ops_scheme \<Rightarrow> ('k \<Rightarrow> int \<Rightarrow> int \<Rightarrow> u32 option) \<Rightarrow> addr \<Rightarrow> ('k, 'z) lheap_scheme \<Rightarrow> w_op \<Rightarrow>
   int \<Rightarrow> ('k, 'z) lheap_scheme \<Rightarrow> bool" where
  "w_post K interest loop s c ret t \<longleftrightarrow>
     loop_ok t loop \<and> w_frame s t \<and> w_view_of t loop = snd (w_spec (w_view_of s loop) c) \<and>
     (ret = XV_OK \<or> ret = XV_ERR) \<and>
     (epoll_ctl_doc K interest \<longrightarrow> in_sync interest s loop \<longrightarrow> ret = fst (w_spec (w_view_of s loop) c) \<longrightarrow>
        in_sync interest t loop)"

lemma start_law:
  fixes s :: "('k, 'z) lheap_scheme"
  assumes ok: "loop_ok s loop" and fits: "watcher_fits s loop iop"
  shows "\<exists>ret t. xv_io_start K s loop iop = Some (ret, t) \<and> w_post K interest loop s (WStart iop) ret t"
proof -
  obtain l d arr where r: "loop_repr s loop l d arr"
    using ok by (auto simp: loop_ok_def)
  obtain io where io: "ios s iop = Some io" "iop \<noteq> NULL" "0 \<le> io_fd io" "io_fd io < l_setsize l"
    "io_event io \<in> {XV_READ, XV_WRITE}"
    using fits by (auto simp: watcher_fits_def loop_size_repr[OF r])
  show ?thesis
  proof (cases "io_start io")
    case True
    then show ?thesis
      using io ok by (auto simp: xv_io_start_def w_post_def w_frame_def w_view_of_def)
  next
    case False
    define slot where "slot = arr ! nat (io_fd io)"
    define op where "op = (if e_event slot = XV_NONE then EPOLL_CTL_ADD else EPOLL_CTL_MOD)"
    define ev where "ev = \<lparr>ev_events = epoll_mask (io_event io OR e_event slot), ev_fd = io_fd io\<rparr>"
    obtain rc k where ctl: "epoll_ctl K (p_epfd d) op (io_fd io) ev (kern s) = (rc, k)"
      by (cases "epoll_ctl K (p_epfd d) op (io_fd io) ev (kern s)")
    define v where "v = (slot_set (io_event io) iop slot)\<lparr>e_event := e_event slot OR io_event io\<rparr>"
    define t where "t = s\<lparr>ios := (ios s)(iop \<mapsto> io\<lparr>io_start := True\<rparr>), kern := k,
      event_arrays := (event_arrays s)(l_events l \<mapsto> arr[nat (io_fd io) := v])\<rparr>"
    have len: "int (length arr) = l_setsize l" using loop_reprD(9)[OF r] io by simp
    have run: "xv_io_start K s loop iop = Some (if rc = 0 then XV_OK else XV_ERR, t)"
      unfolding t_def v_def
      by (rule start_eq[OF r io(1,2) False io(3,4) _ slot_def]) (use io ctl in \<open>simp_all add: op_def ev_def\<close>)
    have "slots_ok (ios t) (arr[nat (io_fd io) := v])"
      unfolding t_def v_def using slots_ok_start[OF loop_reprD(11)[OF r] io(1,2) False io(3)] io len slot_def by simp
    then have upd: "loop_repr t loop l d (arr[nat (io_fd io) := v]) \<and>
        watched t loop = table_set (watched s loop) (io_fd io) (io_event io) iop"
      by (intro loop_repr_update[OF r _ io(3,4,5), where k = k]) (use io in \<open>auto simp: t_def v_def slot_def slot_ptr_set\<close>)
    have m: "e_event slot = table_mask (watched s loop) (io_fd io)"
      unfolding slot_def by (rule table_mask_slot[OF r io(3,4)])
    have tm: "table_mask (watched t loop) (io_fd io) = io_event io OR e_event slot"
      using upd io m by (simp add: table_mask_set or.commute)
    have nz: "io_event io OR e_event slot \<noteq> XV_NONE"
      using table_mask_or_nonzero[OF io(5)] m by (metis or.commute)
    have tf: "loops t = loops s" "pollers t = pollers s" "kern t = k"
      by (simp_all add: t_def)
    have "in_sync interest t loop" if "epoll_ctl_doc K interest" "in_sync interest s loop" "rc = 0"
      by (rule in_sync_update[OF that(1,2) loop_reprD(2,4)[OF r] tf(1,2) conjunct2[OF upd] io(5) _ tm[symmetric]])
         (use ctl that(3) tf nz in \<open>auto simp: op_def ev_def\<close>)
    then show ?thesis
      using run upd io False
      by (auto simp: w_post_def w_frame_def w_view_of_def loop_ok_def t_def)
  qed
qed

lemma stop_law:
  fixes s :: "('k, 'z) lheap_scheme"
  assumes ok: "loop_ok s loop" and fits: "watcher_fits s loop iop"
  shows "\<exists>ret t. xv_io_stop K s loop iop = Some (ret, t) \<and> w_post K interest loop s (WStop iop) ret t"
proof -
  obtain l d arr where r: "loop_repr s loop l d arr"
    using ok by (auto simp: loop_ok_def)
  obtain io where io: "ios s iop = Some io" "iop \<noteq> NULL" "0 \<le> io_fd io" "io_fd io < l_setsize l"
    "io_event io \<in> {XV_READ, XV_WRITE}"
    using fits by (auto simp: watcher_fits_def loop_size_repr[OF r])
  show ?thesis
  proof (cases "io_start io")
    case False
    then show ?thesis
      using io ok by (auto simp: xv_io_stop_def w_post_def w_frame_def w_view_of_def)
  next
    case True
    define slot where "slot = arr ! nat (io_fd io)"
    define rest where "rest = e_event slot AND NOT (io_event io)"
    define op where "op = (if rest = XV_NONE then EPOLL_CTL_DEL else EPOLL_CTL_MOD)"
    define ev where "ev = \<lparr>ev_events = epoll_mask (if rest = XV_NONE then io_event io else rest), ev_fd = io_fd io\<rparr>"
    obtain rc k where ctl: "epoll_ctl K (p_epfd d) op (io_fd io) ev (kern s) = (rc, k)"
      by (cases "epoll_ctl K (p_epfd d) op (io_fd io) ev (kern s)")
    define v where "v = slot_set (io_event io) NULL (slot\<lparr>e_event := rest\<rparr>)"
    define t where "t = s\<lparr>ios := (ios s)(iop \<mapsto> io\<lparr>io_start := False\<rparr>), kern := k,
      event_arrays := (event_arrays s)(l_events l \<mapsto> arr[nat (io_fd io) := v])\<rparr>"
    have len: "int (length arr) = l_setsize l" using loop_reprD(9)[OF r] io by simp
    have run: "xv_io_stop K s loop iop = Some (if rc = 0 then XV_OK else XV_ERR, t)"
      unfolding t_def v_def
      by (rule stop_eq[OF r io(1,2) True io(3,4) _ slot_def rest_def]) (use io ctl in \<open>simp_all add: op_def ev_def\<close>)
    have "slots_ok (ios t) (arr[nat (io_fd io) := v])"
      unfolding t_def v_def rest_def using slots_ok_stop[OF loop_reprD(11)[OF r] io(1,2,3)] io len slot_def by simp
    then have upd: "loop_repr t loop l d (arr[nat (io_fd io) := v]) \<and>
        watched t loop = table_set (watched s loop) (io_fd io) (io_event io) NULL"
      by (intro loop_repr_update[OF r _ io(3,4,5), where k = k]) (use io in \<open>auto simp: t_def v_def slot_def slot_ptr_set\<close>)
    have m: "e_event slot = table_mask (watched s loop) (io_fd io)"
      unfolding slot_def by (rule table_mask_slot[OF r io(3,4)])
    have tm: "table_mask (watched t loop) (io_fd io) = rest"
      using upd io m by (simp add: table_mask_set rest_def)
    have tf: "loops t = loops s" "pollers t = pollers s" "kern t = k"
      by (simp_all add: t_def)
    have "in_sync interest t loop" if "epoll_ctl_doc K interest" "in_sync interest s loop" "rc = 0"
      by (rule in_sync_update[OF that(1,2) loop_reprD(2,4)[OF r] tf(1,2) conjunct2[OF upd] io(5) _ tm[symmetric]])
         (use ctl that(3) tf in \<open>auto simp: op_def ev_def\<close>)
    then show ?thesis
      using run upd io True
      by (auto simp: w_post_def w_frame_def w_view_of_def loop_ok_def t_def)
  qed
qed

lemma exec_law:
  assumes "loop_ok s loop" "watcher_fits s loop (w_watcher c)"
  shows "\<exists>ret t. w_exec K loop s c = Some (ret, t) \<and> w_post K interest loop s c ret t"
  using assms start_law stop_law by (cases c) simp_all

text \<open>No call changes a descriptor or a direction, so the watchers of a client keep fitting.\<close>

lemma w_post_fits:
  assumes "w_post K interest loop s c ret t" "watcher_fits s loop (w_watcher c)" "watcher_fits s loop p"
  shows "watcher_fits t loop p"
proof (cases c)
  case (WStart q)
  then show ?thesis
    using assms by (auto simp: w_post_def w_frame_def w_view_of_def watcher_fits_def loop_size_def Let_def split: if_splits)
next
  case (WStop q)
  then show ?thesis
    using assms by (auto simp: w_post_def w_frame_def w_view_of_def watcher_fits_def loop_size_def Let_def split: if_splits)
qed

subsection \<open>The interface clients of the loop rely on\<close>

text \<open>Any sequence of calls, run on an implementation and on the specification.\<close>

fun w_run :: "('s \<Rightarrow> w_op \<Rightarrow> (int \<times> 's) option) \<Rightarrow> 's \<Rightarrow> w_op list \<Rightarrow> (int list \<times> 's) option" where
  "w_run exec s [] = Some ([], s)"
| "w_run exec s (c # cs) = do {
     (r, s) \<leftarrow> exec s c;
     (rs, s) \<leftarrow> w_run exec s cs;
     Some (r # rs, s) }"

fun w_spec_run :: "w_view \<Rightarrow> w_op list \<Rightarrow> int list \<times> w_view" where
  "w_spec_run v [] = ([], v)"
| "w_spec_run v (c # cs) =
     (let (r, v) = w_spec v c; (rs, v) = w_spec_run v cs in (r # rs, v))"

locale watcher_registry =
  fixes ok :: "'s \<Rightarrow> bool" and fits :: "'s \<Rightarrow> addr \<Rightarrow> bool" and view :: "'s \<Rightarrow> w_view"
    and synced :: "'s \<Rightarrow> bool" and exec :: "'s \<Rightarrow> w_op \<Rightarrow> (int \<times> 's) option"
  assumes exec_defined: "ok s \<Longrightarrow> fits s (w_watcher c) \<Longrightarrow> \<exists>r t. exec s c = Some (r, t)"
    and exec_ok: "ok s \<Longrightarrow> fits s (w_watcher c) \<Longrightarrow> exec s c = Some (r, t) \<Longrightarrow> ok t"
    and exec_view: "ok s \<Longrightarrow> fits s (w_watcher c) \<Longrightarrow> exec s c = Some (r, t) \<Longrightarrow>
      view t = snd (w_spec (view s) c)"
    and exec_fits: "ok s \<Longrightarrow> fits s (w_watcher c) \<Longrightarrow> exec s c = Some (r, t) \<Longrightarrow> fits s p \<Longrightarrow> fits t p"
    and exec_synced: "ok s \<Longrightarrow> fits s (w_watcher c) \<Longrightarrow> exec s c = Some (r, t) \<Longrightarrow>
      synced s \<Longrightarrow> r = fst (w_spec (view s) c) \<Longrightarrow> synced t"
begin

lemma run_refines:
  assumes "ok s" "\<forall>c \<in> set cs. fits s (w_watcher c)"
  shows "\<exists>rs t. w_run exec s cs = Some (rs, t) \<and> ok t \<and> view t = snd (w_spec_run (view s) cs) \<and>
     (synced s \<longrightarrow> rs = fst (w_spec_run (view s) cs) \<longrightarrow> synced t)"
  using assms
proof (induction cs arbitrary: s)
  case Nil
  then show ?case by simp
next
  case (Cons c cs)
  have fits: "fits s (w_watcher c)" using Cons.prems by simp
  obtain r t where run: "exec s c = Some (r, t)"
    using exec_defined[OF Cons.prems(1) fits] by blast
  note law = Cons.prems(1) fits run
  have "\<forall>c \<in> set cs. fits t (w_watcher c)"
    using Cons.prems(2) exec_fits[OF law] by simp
  then obtain rs u where rest: "w_run exec t cs = Some (rs, u)" "ok u"
      "view u = snd (w_spec_run (view t) cs)"
      "synced t \<longrightarrow> rs = fst (w_spec_run (view t) cs) \<longrightarrow> synced u"
    using Cons.IH[OF exec_ok[OF law]] by blast
  have spec: "w_spec_run (view s) (c # cs) =
      (fst (w_spec (view s) c) # fst (w_spec_run (view t) cs), snd (w_spec_run (view t) cs))"
    using exec_view[OF law] by (simp add: case_prod_beta Let_def)
  show ?case
    unfolding spec using run rest exec_synced[OF law] by simp
qed

end

interpretation wr: watcher_registry
  "\<lambda>s. loop_ok s loop" "\<lambda>s. watcher_fits s loop" "\<lambda>s. w_view_of s loop"
  "\<lambda>s. epoll_ctl_doc K interest \<and> in_sync interest s loop" "w_exec K loop"
  for K :: "('k, 'y) epoll_ops_scheme" and interest and loop
proof unfold_locales
  fix s t :: "('k, 'z) lheap_scheme" and c r p
  assume ok: "loop_ok s loop" "watcher_fits s loop (w_watcher c)"
  show "\<exists>r t. w_exec K loop s c = Some (r, t)"
    using exec_law[OF ok] by blast
  assume "w_exec K loop s c = Some (r, t)"
  then have post: "w_post K interest loop s c r t"
    using exec_law[OF ok, of K interest] by auto
  then show "loop_ok t loop" "w_view_of t loop = snd (w_spec (w_view_of s loop) c)"
    by (simp_all add: w_post_def)
  show "watcher_fits t loop p" if "watcher_fits s loop p"
    by (rule w_post_fits[OF post ok(2) that])
  show "epoll_ctl_doc K interest \<and> in_sync interest t loop"
    if "epoll_ctl_doc K interest \<and> in_sync interest s loop" "r = fst (w_spec (w_view_of s loop) c)"
    using post that by (simp add: w_post_def)
qed

subsection \<open>Creation\<close>

text \<open>A new epoll instance has an empty interest list.\<close>

definition epoll_create_doc :: "('k, 'y) epoll_ops_scheme \<Rightarrow> ('k \<Rightarrow> int \<Rightarrow> int \<Rightarrow> u32 option) \<Rightarrow> bool" where
  "epoll_create_doc K interest \<longleftrightarrow> (\<forall>n k epfd k'. epoll_create K n k = (epfd, k') \<longrightarrow> 0 \<le> epfd \<longrightarrow>
     (\<forall>fd. interest k' epfd fd = None))"

lemma slots_ok_replicate: "slots_ok h (replicate n empty_slot)"
  by (simp add: slots_ok_def slot_ok_def empty_slot_def slot_mask_def watcher_ok_def code_defs)

lemma loop_init_law:
  assumes "xv_loop_init K s n = (loop, t)" "0 \<le> n" "epoll_create K n (kern s) = (epfd, k)"
  shows "loop_ok t loop" "loop_size t loop = n" "watched t loop fd ev = NULL"
    "loop = Suc (brk s)" "brk t = brk s + 4" "ios t = ios s" "kern t = k"
    "epoll_create_doc K interest \<Longrightarrow> 0 \<le> epfd \<Longrightarrow> in_sync interest t loop"
proof -
  define l where "l = \<lparr>l_poller_data = brk s + 2, l_events = brk s + 3, l_fired_events = brk s + 4,
    l_setsize = n, l_start = True\<rparr>"
  define d where "d = \<lparr>p_epfd = epfd, p_setsize = n, p_events = replicate (nat n) (None :: epoll_event option)\<rparr>"
  have t: "loop = Suc (brk s)" "t = s\<lparr>brk := brk s + 4, kern := k, pollers := (pollers s)(brk s + 2 \<mapsto> d),
      event_arrays := (event_arrays s)(brk s + 3 \<mapsto> replicate (nat n) empty_slot),
      fired_arrays := (fired_arrays s)(brk s + 4 \<mapsto> replicate (nat n) None),
      loops := (loops s)(Suc (brk s) \<mapsto> l)\<rparr>"
    using assms(1,3) by (auto simp: xv_loop_init_def xv_malloc_def xv_poller_init_def l_def d_def Let_def eval_nat_numeral)
  have r: "loop_repr t loop l d (replicate (nat n) empty_slot)"
    using assms(2) by (simp add: loop_repr_def t l_def d_def slots_ok_replicate)
  then show "loop_ok t loop" by (auto simp: loop_ok_def)
  show "loop_size t loop = n" using loop_size_repr[OF r] by (simp add: l_def)
  show w: "watched t loop fd ev = NULL" for fd ev
    by (simp add: watched_repr[OF r] l_def slot_ptr_def empty_slot_def)
  show "loop = Suc (brk s)" "brk t = brk s + 4" "ios t = ios s" "kern t = k"
    by (simp_all add: t)
  show "in_sync interest t loop" if "epoll_create_doc K interest" "0 \<le> epfd"
    using that assms(3) loop_reprD[OF r] w
    by (auto simp: in_sync_def table_mask_def epoll_create_doc_def code_defs d_def t)
qed

text \<open>Creating a watcher does not disturb a loop: no slot points to the fresh address.\<close>

lemma loop_ok_ios:
  assumes "loop_ok s loop"
    and "\<And>p io. ios s p = Some io \<Longrightarrow> io_start io \<Longrightarrow>
      \<exists>io'. h p = Some io' \<and> io_fd io' = io_fd io \<and> io_event io' = io_event io \<and> io_start io'"
  shows "loop_ok (s\<lparr>ios := h, brk := b\<rparr>) loop"
proof -
  obtain l d arr where r: "loop_repr s loop l d arr" using assms(1) by (auto simp: loop_ok_def)
  have "watcher_ok h fd ev p" if "watcher_ok (ios s) fd ev p" for fd ev p
    using that assms(2)[of p] by (auto simp: watcher_ok_def)
  then have "slots_ok h arr"
    using loop_reprD(11)[OF r] by (simp add: slots_ok_def slot_ok_def)
  then have "loop_repr (s\<lparr>ios := h, brk := b\<rparr>) loop l d arr"
    using r by (simp add: loop_repr_def)
  then show ?thesis by (auto simp: loop_ok_def)
qed

lemma watched_cong:
  "loops t = loops s \<Longrightarrow> event_arrays t = event_arrays s \<Longrightarrow> watched t loop = watched s loop"
  by (rule ext, rule ext) (simp add: watched_def cong: option.case_cong)

lemma io_init_law:
  assumes ok: "loop_ok s loop" and fresh: "ios s (Suc (brk s)) = None"
    and run: "xv_io_init s fd ev (Some cb) = (p, t)"
  shows "loop_ok t loop" "p = Suc (brk s)" "brk t = Suc (brk s)"
    "ios t = (ios s)(p \<mapsto> \<lparr>io_fd = fd, io_event = ev, io_cb = Some cb, io_userdata = NULL, io_start = False\<rparr>)"
    "watched t loop = watched s loop" "loop_size t loop = loop_size s loop"
    "in_sync interest t loop = in_sync interest s loop"
proof -
  let ?io = "\<lparr>io_fd = fd, io_event = ev, io_cb = Some cb, io_userdata = NULL, io_start = False\<rparr>"
  have t: "p = Suc (brk s)" "t = s\<lparr>ios := (ios s)(Suc (brk s) \<mapsto> ?io), brk := Suc (brk s)\<rparr>"
    using run by (auto simp: xv_io_init_def xv_malloc_def)
  show "loop_ok t loop"
    unfolding t by (rule loop_ok_ios[OF ok]) (use fresh in auto)
  show w: "watched t loop = watched s loop"
    by (rule watched_cong) (simp_all add: t)
  show "in_sync interest t loop = in_sync interest s loop"
    by (simp add: in_sync_def w) (simp add: t)
  show "p = Suc (brk s)" "brk t = Suc (brk s)" "ios t = (ios s)(p \<mapsto> ?io)" "loop_size t loop = loop_size s loop"
    by (simp_all add: t loop_size_def)
qed

subsection \<open>A kernel for the examples\<close>

text \<open>The interest lists as a map, and a list of events waiting to be delivered.\<close>

record sim_kernel =
  k_interest :: "int \<Rightarrow> int \<Rightarrow> u32 option"
  k_ready :: "epoll_event list"

definition sim_ctl ::
  "int \<Rightarrow> int \<Rightarrow> int \<Rightarrow> epoll_event \<Rightarrow> 'z sim_kernel_scheme \<Rightarrow> int \<times> 'z sim_kernel_scheme" where
  "sim_ctl epfd op fd ev k =
     (let T = k_interest k; put = (\<lambda>x. k\<lparr>k_interest := T(epfd := (T epfd)(fd := x))\<rparr>) in
      if op = EPOLL_CTL_ADD \<and> T epfd fd = None \<or> op = EPOLL_CTL_MOD \<and> T epfd fd \<noteq> None
      then (0, put (Some (ev_events ev)))
      else if op = EPOLL_CTL_DEL \<and> T epfd fd \<noteq> None then (0, put None)
      else (- 1, k))"

definition sim_wait ::
  "int \<Rightarrow> int \<Rightarrow> int \<Rightarrow> 'z sim_kernel_scheme \<Rightarrow> epoll_event list option \<times> 'z sim_kernel_scheme" where
  "sim_wait epfd n timeout k =
     (if n \<le> 0 then (None, k)
      else (Some (take (nat n) (filter (\<lambda>ev. k_interest k epfd (ev_fd ev) \<noteq> None) (k_ready k))), k))"

definition sim_ops :: "'z sim_kernel_scheme epoll_ops" where
  "sim_ops = \<lparr>epoll_create = (\<lambda>n k. (3, k\<lparr>k_interest := (k_interest k)(3 := (\<lambda>_. None))\<rparr>)),
     epoll_ctl = sim_ctl, epoll_wait = sim_wait\<rparr>"

lemma sim_ctl_doc: "epoll_ctl_doc sim_ops k_interest"
  by (auto simp: epoll_ctl_doc_def ctl_effect_def sim_ops_def sim_ctl_def Let_def epoll_defs split: if_splits)

lemma sim_create_doc: "epoll_create_doc sim_ops k_interest"
  by (auto simp: epoll_create_doc_def sim_ops_def)

lemma sim_wait_doc: "epoll_wait_doc sim_ops k_interest"
proof -
  have "sim_wait epfd n timeout k = (res, k') \<Longrightarrow> k' = k \<and>
      (\<forall>evs. res = Some evs \<longrightarrow> int (length evs) \<le> n \<and> (\<forall>ev \<in> set evs. k_interest k epfd (ev_fd ev) \<noteq> None))"
    for epfd n timeout k res k'
    by (auto simp: sim_wait_def split: if_splits dest: in_set_takeD)
  then show ?thesis
    by (force simp: epoll_wait_doc_def sim_ops_def)
qed

text \<open>A loop of four slots with three watchers, all stopped: two for reading and one for writing.\<close>

definition lheap_empty :: "sim_kernel lheap" where
  "lheap_empty = \<lparr>brk = 0, nodes = Map.empty, queues = Map.empty, cqueues = Map.empty,
     kern = \<lparr>k_interest = (\<lambda>_ _. None), k_ready = []\<rparr>, pollers = Map.empty, fired_arrays = Map.empty,
     ios = Map.empty, loops = Map.empty, event_arrays = Map.empty\<rparr>"

definition ex_loop :: "sim_kernel lheap" where
  "ex_loop =
     (let (_, s) = xv_loop_init sim_ops lheap_empty 4;
          (_, s) = xv_io_init s 0 XV_READ (Some (User_io_cb 10));
          (_, s) = xv_io_init s 2 XV_READ (Some (User_io_cb 11));
          (_, s) = xv_io_init s 2 XV_WRITE (Some (User_io_cb 12)) in s)"

lemma ex_loop_facts:
  "loop_ok ex_loop 1" "loop_size ex_loop 1 = 4" "watched ex_loop 1 fd ev = NULL"
  "in_sync k_interest ex_loop 1"
  "ios ex_loop 5 = Some \<lparr>io_fd = 0, io_event = XV_READ, io_cb = Some (User_io_cb 10), io_userdata = NULL, io_start = False\<rparr>"
  "ios ex_loop 6 = Some \<lparr>io_fd = 2, io_event = XV_READ, io_cb = Some (User_io_cb 11), io_userdata = NULL, io_start = False\<rparr>"
  "ios ex_loop 7 = Some \<lparr>io_fd = 2, io_event = XV_WRITE, io_cb = Some (User_io_cb 12), io_userdata = NULL, io_start = False\<rparr>"
proof -
  obtain p0 s0 where s0: "xv_loop_init sim_ops lheap_empty 4 = (p0, s0)" by fastforce
  obtain p1 s1 where s1: "xv_io_init s0 0 XV_READ (Some (User_io_cb 10)) = (p1, s1)" by fastforce
  obtain p2 s2 where s2: "xv_io_init s1 2 XV_READ (Some (User_io_cb 11)) = (p2, s2)" by fastforce
  obtain p3 s3 where s3: "xv_io_init s2 2 XV_WRITE (Some (User_io_cb 12)) = (p3, s3)" by fastforce
  have ex: "ex_loop = s3" by (simp add: ex_loop_def s0 s1 s2 s3)
  have "epoll_create sim_ops 4 (kern lheap_empty) =
      (3, (kern lheap_empty)\<lparr>k_interest := (k_interest (kern lheap_empty))(3 := (\<lambda>_. None))\<rparr>)"
    by (simp add: sim_ops_def)
  note i0 = loop_init_law[OF s0 _ this, simplified]
  have z: "p0 = 1" "brk s0 = 4" "ios s0 = Map.empty"
    using i0(4,5,6) by (simp_all add: lheap_empty_def)
  note i1 = io_init_law[OF i0(1) _ s1, simplified z, simplified]
  note i2 = io_init_law[OF i1(1) _ s2, simplified i1(2,3,4), simplified]
  note i3 = io_init_law[OF i2(1) _ s3, simplified i2(2,3,4), simplified]
  show "loop_ok ex_loop 1" using i3(1) ex z by simp
  show "loop_size ex_loop 1 = 4" "watched ex_loop 1 fd ev = NULL"
    using i3 i2 i1 i0 ex z by simp_all
  have "in_sync k_interest s0 p0" by (rule i0(8)[OF sim_create_doc])
  then show "in_sync k_interest ex_loop 1"
    using i3(7) i2(7) i1(7) ex z by simp
  show "ios ex_loop 5 = Some \<lparr>io_fd = 0, io_event = XV_READ, io_cb = Some (User_io_cb 10), io_userdata = NULL, io_start = False\<rparr>"
    "ios ex_loop 6 = Some \<lparr>io_fd = 2, io_event = XV_READ, io_cb = Some (User_io_cb 11), io_userdata = NULL, io_start = False\<rparr>"
    "ios ex_loop 7 = Some \<lparr>io_fd = 2, io_event = XV_WRITE, io_cb = Some (User_io_cb 12), io_userdata = NULL, io_start = False\<rparr>"
    using i3(2,4) i2(2,4) i1(2,4) ex by simp_all
qed

lemma ex_loop_fresh: "brk ex_loop = 7" "ios ex_loop 8 = None"
  by (simp_all add: ex_loop_def xv_loop_init_def xv_poller_init_def xv_io_init_def xv_malloc_def lheap_empty_def
      sim_ops_def Let_def)

subsection \<open>Starting and stopping watchers\<close>

text \<open>C5. Refinement of the watch table: any sequence of \<^verbatim>\<open>xv_io_start\<close> and \<^verbatim>\<open>xv_io_stop\<close> calls on
  watchers that fit a loop runs without undefined behaviour, keeps the loop's invariant and leaves
  exactly the table and the started flags of the specification, whatever \<^verbatim>\<open>epoll_ctl\<close> answers. If
  every call returned the code of the specification, the kernel's interest list is still the image
  of the table: every watched descriptor is registered with exactly the union of its directions.\<close>

theorem watcher_calls_refine:
  assumes "loop_ok s loop" "\<forall>c \<in> set cs. watcher_fits s loop (w_watcher c)"
  shows "\<exists>rs t. w_run (w_exec K loop) s cs = Some (rs, t) \<and> loop_ok t loop \<and>
     (ios t, watched t loop) = snd (w_spec_run (ios s, watched s loop) cs) \<and>
     (epoll_ctl_doc K interest \<and> in_sync interest s loop \<longrightarrow>
      rs = fst (w_spec_run (ios s, watched s loop) cs) \<longrightarrow> in_sync interest t loop)"
  using wr.run_refines[OF assms, of K interest] unfolding w_view_of_def by blast

theorem watcher_calls_refine_witness:
  "\<exists>rs t. w_run (w_exec sim_ops 1) ex_loop [WStart 6, WStart 7, WStart 6, WStop 6, WStart 5] = Some (rs, t) \<and>
     loop_ok t 1 \<and> ios t 6 = ios ex_loop 6 \<and> watched t 1 2 XV_WRITE = 7 \<and> watched t 1 2 XV_READ = NULL \<and>
     watched t 1 0 XV_READ = 5 \<and>
     (rs = [XV_OK, XV_OK, XV_ERR, XV_OK, XV_OK] \<longrightarrow> in_sync k_interest t 1)"
proof -
  let ?cs = "[WStart 6, WStart 7, WStart 6, WStop 6, WStart 5]"
  have fits: "\<forall>c \<in> set ?cs. watcher_fits ex_loop 1 (w_watcher c)"
    using ex_loop_facts by (simp add: watcher_fits_def)
  define sp where "sp = w_spec_run (ios ex_loop, watched ex_loop 1) ?cs"
  have spec: "fst sp = [XV_OK, XV_OK, XV_ERR, XV_OK, XV_OK]" "fst (snd sp) 6 = ios ex_loop 6"
    "snd (snd sp) 2 XV_WRITE = 7" "snd (snd sp) 2 XV_READ = NULL" "snd (snd sp) 0 XV_READ = 5"
    using ex_loop_facts by (simp_all add: sp_def table_set_def)
  from watcher_calls_refine[OF ex_loop_facts(1) fits, of sim_ops k_interest, folded sp_def] obtain rs t where
    run: "w_run (w_exec sim_ops 1) ex_loop ?cs = Some (rs, t)" "loop_ok t 1"
    and v: "(ios t, watched t 1) = snd sp"
    and sync: "epoll_ctl_doc (sim_ops :: sim_kernel epoll_ops) k_interest \<and> in_sync k_interest ex_loop 1 \<longrightarrow>
      rs = fst sp \<longrightarrow> in_sync k_interest t 1"
    by blast
  have doc: "epoll_ctl_doc (sim_ops :: sim_kernel epoll_ops) k_interest" by (rule sim_ctl_doc)
  have "ios t = fst (snd sp)" "watched t 1 = snd (snd sp)" by (simp_all flip: v)
  then show ?thesis
    using run sync spec doc ex_loop_facts(4) by (intro exI[of _ rs] exI[of _ t]) (simp del: One_nat_def w_run.simps)
qed

text \<open>A watcher whose descriptor is not below the loop's set size: \<^verbatim>\<open>xv_loop_resize\<close> releases
  \<^verbatim>\<open>loop->events\<close> a second time (it reallocates it as the fired array), so the slot access that
  follows is undefined for every such descriptor; an event mask other than one direction is refused
  instead.\<close>

theorem start_beyond_setsize_undefined:
  assumes io: "ios s p = Some io" "p \<noteq> NULL" "\<not> io_start io" "loop_size s loop \<le> io_fd io"
    and ok: "loop_ok s loop" and ev: "io_event io \<in> {XV_READ, XV_WRITE}"
  shows "xv_io_start K s loop p = None"
proof -
  obtain l d arr where r: "loop_repr s loop l d arr" using ok by (auto simp: loop_ok_def)
  define s1 where "s1 = s\<lparr>ios := (ios s)(p \<mapsto> io\<lparr>io_start := True\<rparr>)\<rparr>"
  have fd: "l_setsize l \<le> io_fd io" using io(4) loop_size_repr[OF r] by simp
  have add: "ret = XV_OK \<and> loop_add_slot K t loop p = None" if res: "xv_loop_resize s1 loop n = Some (ret, t)" for n ret t
  proof -
    have t: "ret = XV_OK" "ios t p = Some (io\<lparr>io_start := True\<rparr>)"
      "\<exists>l'. loops t loop = Some l' \<and> (event_arrays t (l_events l') = None \<or>
         l' = l \<and> event_arrays t (l_events l') = Some arr)"
      using res loop_reprD[OF r]
      by (auto simp: xv_loop_resize_def s1_def xv_poller_resize_def xv_malloc_def Let_def
          xv_free_def bind_eq_Some_conv split: if_splits option.splits)
    have "arr_get arr (io_fd io) = None"
      using fd loop_reprD(9)[OF r] by (auto simp: arr_get_def)
    then show ?thesis
      using t io(2) ev loop_reprD(1)[OF r] by (auto simp: loop_add_slot_def deref_def)
  qed
  have "xv_loop_add_event K s1 loop p = do { n \<leftarrow> c_int (l_setsize l * 2); (ret, t) \<leftarrow> xv_loop_resize s1 loop n;
      if ret = XV_ERR then Some (XV_ERR, t) else loop_add_slot K t loop p }"
    using io(2) fd loop_reprD(1,2)[OF r] by (simp add: xv_loop_add_event_def s1_def)
  also have "\<dots> = None"
    by (auto split: bind_splits dest: add)
  finally have "xv_loop_add_event K s1 loop p = None" .
  then show ?thesis
    using io by (simp add: xv_io_start_def s1_def)
qed

text \<open>A reader for descriptor 9 in a loop of four slots.\<close>

theorem start_beyond_setsize_undefined_witness:
  "let (p, s) = xv_io_init ex_loop 9 XV_READ (Some (User_io_cb 13)) in
   p = 8 \<and> loop_size s 1 = 4 \<and> xv_io_start sim_ops s 1 p = None"
proof -
  obtain p s where s: "xv_io_init ex_loop 9 XV_READ (Some (User_io_cb 13)) = (p, s)" by fastforce
  note i = io_init_law[OF ex_loop_facts(1) _ s]
  have "ios s p = Some \<lparr>io_fd = 9, io_event = XV_READ, io_cb = Some (User_io_cb 13), io_userdata = NULL, io_start = False\<rparr>"
    using i ex_loop_fresh by simp
  then have "xv_io_start sim_ops s 1 p = None"
    by (rule start_beyond_setsize_undefined) (use i ex_loop_facts ex_loop_fresh in simp_all)
  then show ?thesis using s i ex_loop_facts ex_loop_fresh by simp
qed

text \<open>A rejected start: when the kernel refuses the registration, \<^verbatim>\<open>xv_io_start\<close> returns \<open>XV_ERR\<close>
  but the watcher stays marked as started and stays in the table although the kernel does not know
  it; it can then neither be started again nor be destroyed.\<close>

theorem failed_start_keeps_registration:
  assumes ok: "loop_ok s loop" and fits: "watcher_fits s loop p"
    and io: "ios s p = Some io" "\<not> io_start io" and doc: "epoll_ctl_doc K interest"
    and fail: "xv_io_start K s loop p = Some (XV_ERR, t)"
  shows "interest (kern t) = interest (kern s) \<and> watched t loop (io_fd io) (io_event io) = p \<and>
    xv_io_start K t loop p = Some (XV_ERR, t) \<and> xv_io_destroy t p = Some (XV_ERR, t)"
proof -
  obtain l d arr where r: "loop_repr s loop l d arr" using ok by (auto simp: loop_ok_def)
  have fd: "p \<noteq> NULL" "0 \<le> io_fd io" "io_fd io < l_setsize l" "io_event io = XV_READ \<or> io_event io = XV_WRITE"
    using fits io by (auto simp: watcher_fits_def loop_size_repr[OF r])
  define op where "op = (if e_event (arr ! nat (io_fd io)) = XV_NONE then EPOLL_CTL_ADD else EPOLL_CTL_MOD)"
  define ev where "ev = \<lparr>ev_events = epoll_mask (io_event io OR e_event (arr ! nat (io_fd io))), ev_fd = io_fd io\<rparr>"
  obtain rc k where ctl: "epoll_ctl K (p_epfd d) op (io_fd io) ev (kern s) = (rc, k)"
    by (cases "epoll_ctl K (p_epfd d) op (io_fd io) ev (kern s)")
  have "rc \<noteq> 0 \<and> kern t = k"
    using start_eq[OF r io(1) fd(1) io(2) fd(2,3,4) refl ctl[unfolded op_def ev_def]] fail
    by (auto split: if_splits)
  then have k: "interest (kern t) = interest (kern s)"
    using doc ctl by (auto simp: epoll_ctl_doc_def split: if_splits)
  have view: "w_view_of t loop = snd (w_spec (w_view_of s loop) (WStart p))"
    using start_law[OF ok fits, of K interest] fail by (auto simp: w_post_def)
  then have "ios t p = Some (io\<lparr>io_start := True\<rparr>)" "watched t loop (io_fd io) (io_event io) = p"
    using io by (simp_all add: w_view_of_def table_set_def)
  then show ?thesis
    using k fd(1) by (simp add: xv_io_start_def xv_io_destroy_def)
qed

text \<open>A kernel that refuses every registration.\<close>

definition full_ops :: "sim_kernel epoll_ops" where
  "full_ops = sim_ops\<lparr>epoll_ctl := (\<lambda>_ _ _ _ k. (- 1, k))\<rparr>"

theorem failed_start_keeps_registration_witness:
  "\<exists>t. xv_io_start full_ops ex_loop 1 6 = Some (XV_ERR, t) \<and> watched t 1 2 XV_READ = 6 \<and>
     k_interest (kern t) = k_interest (kern ex_loop) \<and> xv_io_destroy t 6 = Some (XV_ERR, t)"
proof -
  have fits: "watcher_fits ex_loop 1 6"
    using ex_loop_facts by (simp add: watcher_fits_def)
  obtain l d arr where r: "loop_repr ex_loop 1 l d arr" using ex_loop_facts(1) by (auto simp: loop_ok_def)
  have size: "l_setsize l = 4" using loop_size_repr[OF r] ex_loop_facts(2) by simp
  note facts = ex_loop_facts(6)
  have "\<exists>t. xv_io_start full_ops ex_loop 1 6 = Some (XV_ERR, t)"
    using start_eq[OF r facts, of "arr ! 2" full_ops "- 1"] size by (simp add: full_ops_def)
  then obtain t where t: "xv_io_start full_ops ex_loop 1 6 = Some (XV_ERR, t)" by blast
  have "epoll_ctl_doc full_ops k_interest" by (auto simp: epoll_ctl_doc_def full_ops_def)
  from failed_start_keeps_registration[OF ex_loop_facts(1) fits facts _ this t] show ?thesis
    using t by (intro exI[of _ t]) simp
qed

end
