(* ===== verification/Xv_Socket.thy ===== *)
theory Xv_Socket
  imports Xv_Loop
begin

section \<open>Sockets (\<^verbatim>\<open>src/src/xv_socket.c\<close>)\<close>

text \<open>
  The remaining system calls the library uses, as functions of the abstract kernel state, and the
  wrappers of \<^verbatim>\<open>xv_socket.c\<close> over them. A wrapper that retries on \<open>EINTR\<close> is a loop that need not
  end; it is defined with \<^verbatim>\<open>None\<close> for a run that never returns.
\<close>

subsection \<open>System calls\<close>

datatype errno = EINTR | EAGAIN | EOTHER

datatype sockopt = SO_REUSEADDR | TCP_NODELAY

type_synonym u16 = "16 word"

record sockaddr_in =
  sin_port :: u16
  sin_addr :: u32

record 'k sys_ops = "'k epoll_ops" +
  sys_close :: "int \<Rightarrow> 'k \<Rightarrow> int \<times> 'k"
  sys_socket :: "'k \<Rightarrow> int \<times> 'k"
  sys_setsockopt :: "int \<Rightarrow> sockopt \<Rightarrow> 'k \<Rightarrow> int \<times> 'k"
  sys_getfl :: "int \<Rightarrow> 'k \<Rightarrow> int \<times> 'k"
  sys_setfl :: "int \<Rightarrow> int \<Rightarrow> 'k \<Rightarrow> int \<times> 'k"
  inet_pton :: "string \<Rightarrow> int \<times> u32"
  inet_ntop :: "u32 \<Rightarrow> string"
  sys_connect :: "int \<Rightarrow> sockaddr_in \<Rightarrow> 'k \<Rightarrow> int \<times> 'k"
  sys_bind :: "int \<Rightarrow> sockaddr_in \<Rightarrow> 'k \<Rightarrow> int \<times> 'k"
  sys_listen :: "int \<Rightarrow> int \<Rightarrow> 'k \<Rightarrow> int \<times> 'k"
  sys_accept :: "int \<Rightarrow> 'k \<Rightarrow> (errno + int \<times> sockaddr_in) \<times> 'k"
  sys_read :: "int \<Rightarrow> int \<Rightarrow> 'k \<Rightarrow> (errno + byte list) \<times> 'k"
  sys_write :: "int \<Rightarrow> byte list \<Rightarrow> 'k \<Rightarrow> (errno + int) \<times> 'k"
  sys_eventfd :: "'k \<Rightarrow> int \<times> 'k"
  eventfd_read :: "int \<Rightarrow> 'k \<Rightarrow> int \<times> 'k"
  eventfd_write :: "int \<Rightarrow> 64 word \<Rightarrow> 'k \<Rightarrow> int \<times> 'k"
  strerror_fills :: bool

definition O_NONBLOCK :: int where
  "O_NONBLOCK = 2048"

definition INADDR_ANY :: u32 where
  "INADDR_ANY = 0"

text \<open>Byte order: a 16-bit value with its two bytes exchanged; \<^verbatim>\<open>htons\<close> truncates its argument.\<close>

definition swap16 :: "u16 \<Rightarrow> u16" where
  "swap16 w = push_bit 8 w OR drop_bit 8 w"

definition htons :: "int \<Rightarrow> u16" where
  "htons n = swap16 (word_of_int n)"

definition ntohs :: "u16 \<Rightarrow> int" where
  "ntohs w = uint (swap16 w)"

subsection \<open>Wrappers\<close>

definition xv_close :: "('k, 'y) sys_ops_scheme \<Rightarrow> int \<Rightarrow> 'k \<Rightarrow> int \<times> 'k" where
  "xv_close K fd k = sys_close K fd k"

text \<open>
  The macro \<^verbatim>\<open>xv_log_errno_error\<close> prints a local array that \<^verbatim>\<open>strerror_r\<close> has been called on. \<^verbatim>\<open>xv_socket.c\<close> defines
  \<^verbatim>\<open>_GNU_SOURCE\<close>, which selects a \<^verbatim>\<open>strerror_r\<close> that may return another string and leave the array unassigned, as glibc's does;
  then an unassigned array is printed, which is undefined. \<open>strerror_fills\<close> says that the C library fills the array. The message is
  printed at the highest level, so no setting filters it out. What the function goes on to return is passed along.
\<close>

definition xv_log_errno_error :: "('k, 'y) sys_ops_scheme \<Rightarrow> 'a \<Rightarrow> 'a option" where
  "xv_log_errno_error K x = (if strerror_fills K then Some x else None)"

lemma log_errno_fills [simp]: "strerror_fills K \<Longrightarrow> xv_log_errno_error K x = Some x"
  by (simp add: xv_log_errno_error_def)

definition xv_tcp_reuse_addr :: "('k, 'y) sys_ops_scheme \<Rightarrow> int \<Rightarrow> 'k \<Rightarrow> (int \<times> 'k) option" where
  "xv_tcp_reuse_addr K fd k =
     (let (ret, k) = sys_setsockopt K fd SO_REUSEADDR k in
      if ret < 0 then xv_log_errno_error K (XV_ERR, k) else Some (XV_OK, k))"

definition xv_socket :: "('k, 'y) sys_ops_scheme \<Rightarrow> 'k \<Rightarrow> (int \<times> 'k) option" where
  "xv_socket K k =
     (let (sock, k) = sys_socket K k in
      if sock < 0 then xv_log_errno_error K (XV_ERR, k)
      else do {
        (ret, k) \<leftarrow> xv_tcp_reuse_addr K sock k;
        if ret = XV_ERR then (let (_, k) = xv_close K sock k in Some (XV_ERR, k))
        else Some (sock, k) })"

definition xv_nonblock :: "('k, 'y) sys_ops_scheme \<Rightarrow> int \<Rightarrow> 'k \<Rightarrow> (int \<times> 'k) option" where
  "xv_nonblock K fd k =
     (let (flags, k) = sys_getfl K fd k in
      if flags < 0 then xv_log_errno_error K (XV_ERR, k)
      else let (ret, k) = sys_setfl K fd (flags OR O_NONBLOCK) k in
        if ret < 0 then xv_log_errno_error K (XV_ERR, k) else Some (XV_OK, k))"

definition xv_tcp_nodelay :: "('k, 'y) sys_ops_scheme \<Rightarrow> int \<Rightarrow> 'k \<Rightarrow> (int \<times> 'k) option" where
  "xv_tcp_nodelay K fd k =
     (let (ret, k) = sys_setsockopt K fd TCP_NODELAY k in
      if ret = - 1 then xv_log_errno_error K (XV_ERR, k) else Some (XV_OK, k))"

text \<open>The address block: zeroed, then the port, then the address if \<^verbatim>\<open>inet_pton\<close> wrote one (result 1).\<close>

definition fill_sockaddr :: "('k, 'y) sys_ops_scheme \<Rightarrow> string \<Rightarrow> int \<Rightarrow> int \<times> sockaddr_in" where
  "fill_sockaddr K addr port =
     (let (ret, a) = inet_pton K addr in
      (ret, \<lparr>sin_port = htons port, sin_addr = (if ret = 1 then a else 0)\<rparr>))"

definition xv_tcp_generic_connect ::
  "('k, 'y) sys_ops_scheme \<Rightarrow> string \<Rightarrow> int \<Rightarrow> bool \<Rightarrow> 'k \<Rightarrow> (int \<times> 'k) option" where
  "xv_tcp_generic_connect K addr port nonblock k = do {
     (sock, k) \<leftarrow> xv_socket K k;
     if sock = XV_ERR then Some (XV_ERR, k)
     else do {
       (nb, k) \<leftarrow> (if nonblock then xv_nonblock K sock k else Some (XV_OK, k));
       if nb = XV_ERR then (let (_, k) = xv_close K sock k in Some (XV_ERR, k))
       else let (ret, sa) = fill_sockaddr K addr port in
         if ret < 0 then xv_log_errno_error K (XV_ERR, k)
         else let (ret, k) = sys_connect K sock sa k in
           if ret < 0 then xv_log_errno_error K (XV_ERR, k) else Some (sock, k) } }"

definition xv_tcp_connect :: "('k, 'y) sys_ops_scheme \<Rightarrow> string \<Rightarrow> int \<Rightarrow> 'k \<Rightarrow> (int \<times> 'k) option" where
  "xv_tcp_connect K addr port k = xv_tcp_generic_connect K addr port False k"

definition xv_tcp_nonblock_connect :: "('k, 'y) sys_ops_scheme \<Rightarrow> string \<Rightarrow> int \<Rightarrow> 'k \<Rightarrow> (int \<times> 'k) option" where
  "xv_tcp_nonblock_connect K addr port k = xv_tcp_generic_connect K addr port True k"

definition xv_tcp_listen :: "('k, 'y) sys_ops_scheme \<Rightarrow> string \<Rightarrow> int \<Rightarrow> int \<Rightarrow> 'k \<Rightarrow> (int \<times> 'k) option" where
  "xv_tcp_listen K addr port backlog k = do {
     (sock, k) \<leftarrow> xv_socket K k;
     if sock = XV_ERR then Some (XV_ERR, k)
     else let (ret, sa) = fill_sockaddr K addr port in
       if ret < 0 then xv_log_errno_error K (XV_ERR, k)
       else let (ret, k) = sys_bind K sock sa k in
         if ret < 0 then xv_log_errno_error K (XV_ERR, k)
         else let (ret, k) = sys_listen K sock backlog k in
           if ret < 0 then xv_log_errno_error K (XV_ERR, k) else Some (sock, k) }"

text \<open>\<^verbatim>\<open>client_ip\<close> and \<^verbatim>\<open>port\<close> are results; a null pointer is \<open>None\<close>. \<^verbatim>\<open>inet_ntop\<close> leaves the
  buffer as it was when the text and its terminator do not fit.\<close>

partial_function (option) accept_retry ::
  "('k, 'y) sys_ops_scheme \<Rightarrow> int \<Rightarrow> 'k \<Rightarrow> ((errno + int \<times> sockaddr_in) \<times> 'k) option" where
  "accept_retry K fd k =
     (let (res, k) = sys_accept K fd k in
      if res = Inl EINTR then accept_retry K fd k else Some (res, k))"

definition xv_tcp_accept ::
  "('k, 'y) sys_ops_scheme \<Rightarrow> int \<Rightarrow> string option \<Rightarrow> int \<Rightarrow> int option \<Rightarrow> 'k \<Rightarrow>
   (int \<times> string option \<times> int option \<times> 'k) option" where
  "xv_tcp_accept K fd client_ip client_ip_len port k = do {
     (res, k) \<leftarrow> accept_retry K fd k;
     case res of
       Inl e \<Rightarrow> xv_log_errno_error K (XV_ERR, client_ip, port, k)
     | Inr (cfd, sa) \<Rightarrow>
         let text = inet_ntop K (sin_addr sa);
             client_ip = map_option (\<lambda>old. if int (length text) < client_ip_len then text else old) client_ip;
             port = map_option (\<lambda>_. ntohs (sin_port sa)) port
         in Some (cfd, client_ip, port, k) }"

text \<open>
  \<^verbatim>\<open>xv_block_read\<close> fills the caller's block from its start; the bytes stored so far are \<open>got\<close>. A
  remaining count below zero reaches \<^verbatim>\<open>read\<close> as a huge size and is undefined.
\<close>

partial_function (option) block_read_loop ::
  "('k, 'y) sys_ops_scheme \<Rightarrow> int \<Rightarrow> int \<Rightarrow> int \<Rightarrow> byte list \<Rightarrow> 'k \<Rightarrow> (int \<times> byte list \<times> 'k) option" where
  "block_read_loop K fd count nread got k =
     (if nread = count then Some (nread, got, k)
      else if count - nread < 0 then None
      else let (res, k) = sys_read K fd (count - nread) k in
        case res of
          Inl e \<Rightarrow> if e = EINTR then block_read_loop K fd count nread got k else Some (- 1, got, k)
        | Inr bs \<Rightarrow>
            if bs = [] then Some (nread, got, k)
            else do {
              n \<leftarrow> c_int (nread + int (length bs));
              block_read_loop K fd count n (got @ bs) k })"

definition xv_block_read ::
  "('k, 'y) sys_ops_scheme \<Rightarrow> int \<Rightarrow> int \<Rightarrow> 'k \<Rightarrow> (int \<times> byte list \<times> 'k) option" where
  "xv_block_read K fd count k = block_read_loop K fd count 0 [] k"

text \<open>\<^verbatim>\<open>xv_block_write\<close> passes the first \<^verbatim>\<open>count - nwritten\<close> bytes of what is left of the block.\<close>

partial_function (option) block_write_loop ::
  "('k, 'y) sys_ops_scheme \<Rightarrow> int \<Rightarrow> byte list \<Rightarrow> int \<Rightarrow> int \<Rightarrow> 'k \<Rightarrow> (int \<times> 'k) option" where
  "block_write_loop K fd buf count nwritten k =
     (if nwritten = count then Some (nwritten, k)
      else do {
        bs \<leftarrow> mem_get buf nwritten (count - nwritten);
        let (res, k) = sys_write K fd bs k;
        case res of
          Inl e \<Rightarrow> if e = EINTR then block_write_loop K fd buf count nwritten k else Some (- 1, k)
        | Inr ret \<Rightarrow>
            if ret = 0 then Some (nwritten, k)
            else do {
              n \<leftarrow> c_int (nwritten + ret);
              block_write_loop K fd buf count n k } })"

definition xv_block_write ::
  "('k, 'y) sys_ops_scheme \<Rightarrow> int \<Rightarrow> byte list \<Rightarrow> int \<Rightarrow> 'k \<Rightarrow> (int \<times> 'k) option" where
  "xv_block_write K fd buf count k = block_write_loop K fd buf count 0 k"

lemma ntohs_htons: "0 \<le> port \<Longrightarrow> port < 65536 \<Longrightarrow> ntohs (htons port) = port"
proof -
  assume p: "0 \<le> port" "port < 65536"
  have "swap16 (swap16 w) = w" for w :: u16
    by (rule bit_word_eqI) (auto simp: swap16_def bit_simps)
  then show ?thesis
    using p by (simp add: ntohs_def htons_def uint_word_of_int take_bit_eq_mod)
qed

subsection \<open>What the man pages promise of streams\<close>

text \<open>
  \<open>input k fd\<close> is what the peer will have sent on \<open>fd\<close> before the end of the stream, \<open>output k fd\<close> what
  has been written to it, and \<open>intr k\<close> bounds the signals still to come, which is what makes retrying
  on \<open>EINTR\<close> end.
\<close>

definition read_doc ::
  "('k, 'y) sys_ops_scheme \<Rightarrow> ('k \<Rightarrow> int \<Rightarrow> byte list) \<Rightarrow> ('k \<Rightarrow> nat) \<Rightarrow> bool" where
  "read_doc K input intr \<longleftrightarrow> (\<forall>fd n k res k'. 0 < n \<longrightarrow> sys_read K fd n k = (res, k') \<longrightarrow>
     (case res of
        Inl e \<Rightarrow> input k' fd = input k fd \<and> (e = EINTR \<longrightarrow> intr k' < intr k)
      | Inr bs \<Rightarrow> int (length bs) \<le> n \<and> input k fd = bs @ input k' fd \<and> (bs = [] \<longrightarrow> input k fd = []) \<and>
          intr k' \<le> intr k))"

definition write_doc ::
  "('k, 'y) sys_ops_scheme \<Rightarrow> ('k \<Rightarrow> int \<Rightarrow> byte list) \<Rightarrow> ('k \<Rightarrow> nat) \<Rightarrow> bool" where
  "write_doc K output intr \<longleftrightarrow> (\<forall>fd bs k res k'. sys_write K fd bs k = (res, k') \<longrightarrow>
     (case res of
        Inl e \<Rightarrow> output k' fd = output k fd \<and> (e = EINTR \<longrightarrow> intr k' < intr k)
      | Inr ret \<Rightarrow> 0 \<le> ret \<and> ret \<le> int (length bs) \<and> output k' fd = output k fd @ take (nat ret) bs \<and>
          intr k' \<le> intr k))"

lemma block_read_loop_law:
  assumes doc: "read_doc K input intr"
    and n: "0 \<le> nread" "nread \<le> count" "count \<le> INT_MAX"
  shows "\<exists>ret bs k'. block_read_loop K fd count nread got k = Some (ret, got @ bs, k') \<and>
     input k fd = bs @ input k' fd \<and> nread + int (length bs) \<le> count \<and>
     (ret = - 1 \<or> ret = nread + int (length bs) \<and> (ret = count \<or> input k' fd = []))"
  using n
proof (induction "nat (count - nread) + intr k" arbitrary: nread got k rule: less_induct)
  case less
  show ?case
  proof (cases "nread = count")
    case True
    then show ?thesis by (subst block_read_loop.simps) auto
  next
    case False
    obtain res k1 where r: "sys_read K fd (count - nread) k = (res, k1)"
      by (cases "sys_read K fd (count - nread) k")
    have pos: "0 < count - nread" using False less.prems by simp
    note d = doc[unfolded read_doc_def, rule_format, OF pos r]
    show ?thesis
    proof (cases res)
      case (Inl e)
      show ?thesis
      proof (cases "e = EINTR")
        case True
        have eq: "block_read_loop K fd count nread got k = block_read_loop K fd count nread got k1"
          using False pos r Inl True by (subst block_read_loop.simps) simp
        show ?thesis
          unfolding eq using less.hyps[of nread k1 got] d Inl True less.prems by simp
      next
        case False
        then show ?thesis
          using \<open>nread \<noteq> count\<close> pos r Inl d by (subst block_read_loop.simps) auto
      qed
    next
      case (Inr bs)
      show ?thesis
      proof (cases "bs = []")
        case True
        then show ?thesis
          using False pos r Inr d less.prems by (subst block_read_loop.simps) auto
      next
        case ne: False
        have len: "0 < int (length bs)" "int (length bs) \<le> count - nread" "input k fd = bs @ input k1 fd" "intr k1 \<le> intr k"
          using d Inr ne by simp_all
        have c: "c_int (nread + int (length bs)) = Some (nread + int (length bs))"
          using len less.prems by (intro c_int_in_range) simp_all
        have eq: "block_read_loop K fd count nread got k =
            block_read_loop K fd count (nread + int (length bs)) (got @ bs) k1"
          using False pos r Inr ne c by (subst block_read_loop.simps) simp
        have "nat (count - (nread + int (length bs))) + intr k1 < nat (count - nread) + intr k"
          using len pos by (intro add_less_le_mono nat_mono_iff[THEN iffD2]) simp_all
        then obtain ret cs k2 where "block_read_loop K fd count (nread + int (length bs)) (got @ bs) k1 = Some (ret, (got @ bs) @ cs, k2)"
          "input k1 fd = cs @ input k2 fd" "nread + int (length bs) + int (length cs) \<le> count"
          "ret = - 1 \<or> ret = nread + int (length bs) + int (length cs) \<and> (ret = count \<or> input k2 fd = [])"
          using less.hyps[of "nread + int (length bs)" k1 "got @ bs"] len less.prems by (auto simp: algebra_simps)
        then show ?thesis
          unfolding eq using len
          by (intro exI[of _ ret] exI[of _ "bs @ cs"] exI[of _ k2]) (simp add: add.assoc)
      qed
    qed
  qed
qed

lemma block_write_loop_law:
  assumes doc: "write_doc K output intr"
    and n: "0 \<le> nw" "nw \<le> count" "count \<le> int (length buf)" "count \<le> INT_MAX"
  shows "\<exists>ret n k'. block_write_loop K fd buf count nw k = Some (ret, k') \<and>
     nw + int n \<le> count \<and> output k' fd = output k fd @ take n (drop (nat nw) buf) \<and>
     (ret = - 1 \<or> ret = nw + int n)"
  using n
proof (induction "nat (count - nw) + intr k" arbitrary: nw k rule: less_induct)
  case less
  show ?case
  proof (cases "nw = count")
    case True
    then show ?thesis by (subst block_write_loop.simps) (auto intro!: exI[of _ 0])
  next
    case False
    define bs where "bs = take (nat (count - nw)) (drop (nat nw) buf)"
    have get: "mem_get buf nw (count - nw) = Some bs"
      using less.prems by (simp add: mem_get_def bs_def)
    obtain res k1 where r: "sys_write K fd bs k = (res, k1)"
      by (cases "sys_write K fd bs k")
    note d = doc[unfolded write_doc_def, rule_format, OF r]
    have len: "int (length bs) \<le> count - nw" using less.prems by (simp add: bs_def)
    show ?thesis
    proof (cases res)
      case (Inl e)
      show ?thesis
      proof (cases "e = EINTR")
        case True
        have eq: "block_write_loop K fd buf count nw k = block_write_loop K fd buf count nw k1"
          using False get r Inl True by (subst block_write_loop.simps) simp
        show ?thesis
          unfolding eq using less.hyps[of nw k1] d Inl True less.prems by simp
      next
        case False
        then show ?thesis
          using \<open>nw \<noteq> count\<close> get r Inl d less.prems by (subst block_write_loop.simps) (auto intro!: exI[of _ 0])
      qed
    next
      case (Inr w)
      have w: "0 \<le> w" "w \<le> int (length bs)" "output k1 fd = output k fd @ take (nat w) bs" "intr k1 \<le> intr k"
        using d Inr by simp_all
      show ?thesis
      proof (cases "w = 0")
        case True
        then show ?thesis
          using False get r Inr w less.prems by (subst block_write_loop.simps) (auto intro!: exI[of _ 0])
      next
        case ne: False
        have c: "c_int (nw + w) = Some (nw + w)"
          using w len less.prems by (intro c_int_in_range) simp_all
        have eq: "block_write_loop K fd buf count nw k = block_write_loop K fd buf count (nw + w) k1"
          using False get r Inr ne c by (subst block_write_loop.simps) simp
        have "nat (count - (nw + w)) + intr k1 < nat (count - nw) + intr k"
          using w ne len by (intro add_less_le_mono nat_mono_iff[THEN iffD2]) simp_all
        then obtain ret n k2 where rest: "block_write_loop K fd buf count (nw + w) k1 = Some (ret, k2)"
          "nw + w + int n \<le> count" "output k2 fd = output k1 fd @ take n (drop (nat (nw + w)) buf)"
          "ret = - 1 \<or> ret = nw + w + int n"
          using less.hyps[of "nw + w" k1] w len less.prems by auto
        have "nat w \<le> nat (count - nw)" "nat (nw + w) = nat w + nat nw"
          using w len less.prems(1) by simp_all
        then have "take (nat w) bs = take (nat w) (drop (nat nw) buf)"
          "drop (nat (nw + w)) buf = drop (nat w) (drop (nat nw) buf)"
          by (simp_all add: bs_def min_absorb1)
        then have "take (nat w) bs @ take n (drop (nat (nw + w)) buf) = take (nat w + n) (drop (nat nw) buf)"
          by (simp only: take_add)
        then show ?thesis
          unfolding eq using rest w by (intro exI[of _ ret] exI[of _ "nat w + n"] exI[of _ k2]) (simp add: add.assoc)
      qed
    qed
  qed
qed

subsection \<open>An operating system for the examples\<close>

text \<open>Descriptors are handed out in order; reads and writes are cut into chunks and interrupted a given
  number of times; eventfd counters are natural numbers; binding can be made to fail.\<close>

record sim_os = sim_kernel +
  os_open :: "int list"
  os_in :: "int \<Rightarrow> byte list"
  os_out :: "int \<Rightarrow> byte list"
  os_intr :: nat
  os_chunk :: nat
  os_counter :: "(int \<times> nat) list"
  os_taken :: "u16 list"

definition os_read :: "int \<Rightarrow> int \<Rightarrow> sim_os \<Rightarrow> (errno + byte list) \<times> sim_os" where
  "os_read fd n k =
     (if 0 < os_intr k then (Inl EINTR, k\<lparr>os_intr := os_intr k - 1\<rparr>)
      else let n = min (nat n) (Suc (os_chunk k)) in
        (Inr (take n (os_in k fd)), k\<lparr>os_in := (os_in k)(fd := drop n (os_in k fd))\<rparr>))"

definition os_write :: "int \<Rightarrow> byte list \<Rightarrow> sim_os \<Rightarrow> (errno + int) \<times> sim_os" where
  "os_write fd bs k =
     (if 0 < os_intr k then (Inl EINTR, k\<lparr>os_intr := os_intr k - 1\<rparr>)
      else let n = min (length bs) (Suc (os_chunk k)) in
        (Inr (int n), k\<lparr>os_out := (os_out k)(fd := os_out k fd @ take n bs)\<rparr>))"

definition os_new_fd :: "sim_os \<Rightarrow> int \<times> sim_os" where
  "os_new_fd k = (let fd = foldr max (map fst (os_counter k) @ os_open k) 3 + 1 in (fd, k\<lparr>os_open := fd # os_open k\<rparr>))"

definition sim_sys :: "sim_os sys_ops" where
  "sim_sys = \<lparr>epoll_create = epoll_create sim_ops, epoll_ctl = sim_ctl, epoll_wait = sim_wait,
     sys_close = (\<lambda>fd k. (0, k\<lparr>os_open := removeAll fd (os_open k)\<rparr>)),
     sys_socket = os_new_fd,
     sys_setsockopt = (\<lambda>fd opt k. (0, k)),
     sys_getfl = (\<lambda>fd k. (2, k)),
     sys_setfl = (\<lambda>fd fl k. (0, k)),
     inet_pton = (\<lambda>a. if a = ''127.0.0.1'' then (1, 16777343) else if a = ''0.0.0.0'' then (1, 0) else (0, 0)),
     inet_ntop = (\<lambda>a. if a = 16777343 then ''127.0.0.1'' else ''0.0.0.0''),
     sys_connect = (\<lambda>fd sa k. (0, k)),
     sys_bind = (\<lambda>fd sa k. if sin_port sa \<in> set (os_taken k) then (- 1, k)
       else (0, k\<lparr>os_taken := sin_port sa # os_taken k\<rparr>)),
     sys_listen = (\<lambda>fd n k. (0, k)),
     sys_accept = (\<lambda>fd k. (Inl EAGAIN, k)),
     sys_read = os_read, sys_write = os_write,
     sys_eventfd = (\<lambda>k. let (fd, k) = os_new_fd k in (fd, k\<lparr>os_counter := (fd, 0) # os_counter k\<rparr>)),
     eventfd_read = (\<lambda>fd k. case map_of (os_counter k) fd of
         None \<Rightarrow> (- 1, k) | Some c \<Rightarrow> if c = 0 then (- 1, k) else (0, k\<lparr>os_counter := (fd, 0) # os_counter k\<rparr>)),
     eventfd_write = (\<lambda>fd n k. case map_of (os_counter k) fd of
         None \<Rightarrow> (- 1, k) | Some c \<Rightarrow> if c + unat n < 2 ^ 64 - 1
           then (0, k\<lparr>os_counter := (fd, c + unat n) # os_counter k\<rparr>) else (- 1, k)),
     strerror_fills = True\<rparr>"

definition os_start :: sim_os where
  "os_start = \<lparr>k_interest = (\<lambda>_ _. None), k_ready = [], os_open = [0, 1, 2],
     os_in = (\<lambda>fd. if fd = 5 then [1, 2, 3, 4, 5] else []), os_out = (\<lambda>_. []), os_intr = 2, os_chunk = 1,
     os_counter = [], os_taken = [htons 80]\<rparr>"

lemma sim_read_doc: "read_doc sim_sys os_in os_intr"
  by (auto simp: read_doc_def sim_sys_def os_read_def Let_def split: if_splits)

lemma sim_write_doc: "write_doc sim_sys os_out os_intr"
  by (auto simp: write_doc_def sim_sys_def os_write_def Let_def split: if_splits)

subsection \<open>Blocking transfers\<close>



text \<open>\<^verbatim>\<open>xv_block_write\<close> returns, and what it has sent is a prefix of the caller's block, in order and
  without gap or repetition; a result other than \<open>-1\<close> is the length of that prefix.\<close>

theorem xv_block_write_stream:
  assumes "write_doc K output intr" "0 \<le> count" "count \<le> int (length buf)" "count \<le> INT_MAX"
  shows "\<exists>ret n k'. xv_block_write K fd buf count k = Some (ret, k') \<and> int n \<le> count \<and>
     output k' fd = output k fd @ take n buf \<and> (ret = - 1 \<or> ret = int n)"
  using block_write_loop_law[OF assms(1) order_refl assms(2,3,4), of fd k] by (simp add: xv_block_write_def)

theorem xv_block_write_stream_witness:
  "\<exists>ret n k'. xv_block_write sim_sys 6 [7, 8, 9] 3 os_start = Some (ret, k') \<and> int n \<le> 3 \<and>
     os_out k' 6 = take n [7, 8, 9] \<and> (ret = - 1 \<or> ret = int n)"
  using xv_block_write_stream[OF sim_write_doc, of 3 "[7, 8, 9]" 6 os_start] by (simp add: os_start_def INT_MAX_def)

subsection \<open>Descriptors\<close>

text \<open>\<open>opened k\<close> is the set of open descriptors: \<^verbatim>\<open>socket\<close> adds a new one, \<^verbatim>\<open>close\<close> removes one, and
  the other calls change none.\<close>

definition fd_doc :: "('k, 'y) sys_ops_scheme \<Rightarrow> ('k \<Rightarrow> int set) \<Rightarrow> bool" where
  "fd_doc K opened \<longleftrightarrow> (\<forall>k r k'.
     (sys_socket K k = (r, k') \<longrightarrow>
        (if r < 0 then opened k' = opened k else r \<notin> opened k \<and> opened k' = insert r (opened k))) \<and>
     (\<forall>fd. sys_close K fd k = (r, k') \<longrightarrow> opened k' = opened k - {fd}) \<and>
     (\<forall>fd opt. sys_setsockopt K fd opt k = (r, k') \<longrightarrow> opened k' = opened k) \<and>
     (\<forall>fd. sys_getfl K fd k = (r, k') \<longrightarrow> opened k' = opened k) \<and>
     (\<forall>fd fl. sys_setfl K fd fl k = (r, k') \<longrightarrow> opened k' = opened k) \<and>
     (\<forall>fd sa. sys_connect K fd sa k = (r, k') \<longrightarrow> opened k' = opened k) \<and>
     (\<forall>fd sa. sys_bind K fd sa k = (r, k') \<longrightarrow> opened k' = opened k) \<and>
     (\<forall>fd n. sys_listen K fd n k = (r, k') \<longrightarrow> opened k' = opened k))"

lemma fd_docD:
  assumes "fd_doc K opened"
  shows "sys_socket K k = (r, k') \<Longrightarrow>
      if r < 0 then opened k' = opened k else r \<notin> opened k \<and> opened k' = insert r (opened k)"
    "sys_close K fd k = (r, k') \<Longrightarrow> opened k' = opened k - {fd}"
    "sys_setsockopt K fd opt k = (r, k') \<Longrightarrow> opened k' = opened k"
    "sys_getfl K fd k = (r, k') \<Longrightarrow> opened k' = opened k"
    "sys_setfl K fd fl k = (r, k') \<Longrightarrow> opened k' = opened k"
    "sys_connect K fd sa k = (r, k') \<Longrightarrow> opened k' = opened k"
    "sys_bind K fd sa k = (r, k') \<Longrightarrow> opened k' = opened k"
    "sys_listen K fd n k = (r, k') \<Longrightarrow> opened k' = opened k"
  by (insert assms, unfold fd_doc_def) iprover+

lemma xv_socket_fds:
  assumes doc: "fd_doc K opened" and run: "xv_socket K k = Some (sock, k')"
  shows "if sock = XV_ERR then opened k' = opened k else 0 \<le> sock \<and> sock \<notin> opened k \<and> opened k' = insert sock (opened k)"
proof -
  obtain fd k1 where s: "sys_socket K k = (fd, k1)" by (cases "sys_socket K k")
  obtain r k2 where o: "sys_setsockopt K fd SO_REUSEADDR k1 = (r, k2)" by (cases "sys_setsockopt K fd SO_REUSEADDR k1")
  obtain c k3 where cl: "sys_close K fd k2 = (c, k3)" by (cases "sys_close K fd k2")
  note d = fd_docD(1)[OF doc s] fd_docD(3)[OF doc o] fd_docD(2)[OF doc cl]
  show ?thesis
    using run d by (auto simp: xv_socket_def s o cl xv_tcp_reuse_addr_def xv_log_errno_error_def xv_close_def XV_ERR_def XV_OK_def split: if_splits)
qed

text \<open>With a \<^verbatim>\<open>strerror_r\<close> that fills its array the wrappers are defined whatever the kernel answers.\<close>

lemma wrappers_return:
  assumes "strerror_fills K"
  shows "\<exists>sock k'. xv_socket K k = Some (sock, k')" "\<exists>r k'. xv_nonblock K fd k = Some (r, k')" "\<exists>r k'. xv_tcp_nodelay K fd k = Some (r, k')"
  using assms by (simp_all add: xv_socket_def xv_tcp_reuse_addr_def xv_nonblock_def xv_tcp_nodelay_def Let_def split: prod.split)

lemma xv_nonblock_fds: "fd_doc K opened \<Longrightarrow> xv_nonblock K fd k = Some (r, k') \<Longrightarrow> opened k' = opened k"
  by (auto simp: xv_nonblock_def xv_log_errno_error_def Let_def split: prod.splits if_splits dest: fd_docD(4,5))

text \<open>C40. \<^verbatim>\<open>xv_tcp_listen\<close> and \<^verbatim>\<open>xv_tcp_connect\<close> return, if \<^verbatim>\<open>strerror_r\<close> fills its array: the new socket exactly when
  the socket could be made, \<^verbatim>\<open>inet_pton\<close> did not report an error and \<^verbatim>\<open>bind\<close> and \<^verbatim>\<open>listen\<close>, or \<^verbatim>\<open>connect\<close>, succeeded, and
  \<open>XV_ERR\<close> in all other cases. A failure to make the socket leaves the open descriptors as they were; but after every
  other failure the socket is still open, and the caller has no way to close it.\<close>

theorem failed_connection_leaks_socket:
  assumes doc: "fd_doc K opened" and str: "strerror_fills K" and sock: "xv_socket K k = Some (sock, k1)"
    and fill: "fill_sockaddr K addr port = (pr, sa)"
  shows "\<exists>ret k' ret' k''. xv_tcp_listen K addr port backlog k = Some (ret, k') \<and> xv_tcp_connect K addr port k = Some (ret', k'') \<and>
     (if sock = XV_ERR then ret = XV_ERR \<and> ret' = XV_ERR \<and> opened k' = opened k \<and> opened k'' = opened k
      else 0 \<le> sock \<and> sock \<notin> opened k \<and> opened k' = insert sock (opened k) \<and> opened k'' = insert sock (opened k) \<and>
        ret = (if 0 \<le> pr \<and> (case sys_bind K sock sa k1 of (b, k2) \<Rightarrow> 0 \<le> b \<and> 0 \<le> fst (sys_listen K sock backlog k2)) then sock else XV_ERR) \<and>
        ret' = (if 0 \<le> pr \<and> 0 \<le> fst (sys_connect K sock sa k1) then sock else XV_ERR))"
proof -
  obtain b k2 where b: "sys_bind K sock sa k1 = (b, k2)" by (cases "sys_bind K sock sa k1")
  obtain l k3 where l: "sys_listen K sock backlog k2 = (l, k3)" by (cases "sys_listen K sock backlog k2")
  obtain c k4 where c: "sys_connect K sock sa k1 = (c, k4)" by (cases "sys_connect K sock sa k1")
  note fds = xv_socket_fds[OF doc sock] fd_docD(7)[OF doc b] fd_docD(8)[OF doc l] fd_docD(6)[OF doc c]
  have "xv_tcp_listen K addr port backlog k = Some (if sock = XV_ERR then (XV_ERR, k1) else if pr < 0 then (XV_ERR, k1)
      else if b < 0 then (XV_ERR, k2) else if l < 0 then (XV_ERR, k3) else (sock, k3))"
    using str by (simp add: xv_tcp_listen_def sock fill b l)
  moreover have "xv_tcp_connect K addr port k = Some (if sock = XV_ERR then (XV_ERR, k1) else if pr < 0 then (XV_ERR, k1)
      else if c < 0 then (XV_ERR, k4) else (sock, k4))"
    using str by (simp add: xv_tcp_connect_def xv_tcp_generic_connect_def sock fill c XV_OK_def XV_ERR_def)
  ultimately show ?thesis using fds by (auto simp: b l c XV_ERR_def)
qed

lemma fresh_fd:
  "x \<in> set xs \<Longrightarrow> x \<noteq> foldr max xs (3 :: int) + 1" "(foldr max xs (3 :: int) + 1 < 0) = False"
proof -
  have "x \<le> foldr max xs (3 :: int)" if "x \<in> set xs" for x xs
    using that by (induction xs) (auto simp: max.coboundedI2)
  then show "x \<in> set xs \<Longrightarrow> x \<noteq> foldr max xs (3 :: int) + 1" by fastforce
  show "(foldr max xs (3 :: int) + 1 < 0) = False"
    by (induction xs) auto
qed

lemma sim_fd_doc: "fd_doc sim_sys (\<lambda>k. set (os_open k))"
proof -
  have "foldr max (map fst cs @ xs) (3 :: int) + 1 \<notin> set xs" for cs :: "(int \<times> nat) list" and xs
    using fresh_fd(1)[of _ "map fst cs @ xs"] by auto
  then show ?thesis
    using fresh_fd(2) by (auto simp: fd_doc_def sim_sys_def os_new_fd_def Let_def simp del: foldr_append split: if_splits)
qed

theorem failed_connection_leaks_socket_witness:
  "\<exists>k k'. xv_tcp_listen sim_sys ''127.0.0.1'' 80 16 os_start = Some (XV_ERR, k) \<and> 4 \<notin> set (os_open os_start) \<and>
     set (os_open k) = insert 4 (set (os_open os_start)) \<and> xv_tcp_connect sim_sys ''127.0.0.1'' 80 os_start = Some (4, k')"
proof -
  have sock: "xv_socket sim_sys os_start = Some (4, snd (os_new_fd os_start))"
    by (simp add: xv_socket_def sim_sys_def os_new_fd_def os_start_def xv_tcp_reuse_addr_def XV_OK_def XV_ERR_def)
  have fill: "fill_sockaddr sim_sys ''127.0.0.1'' 80 = (1, \<lparr>sin_port = htons 80, sin_addr = 16777343\<rparr>)"
    by (simp add: fill_sockaddr_def sim_sys_def)
  have k: "fst (sys_bind sim_sys 4 \<lparr>sin_port = htons 80, sin_addr = 16777343\<rparr> (snd (os_new_fd os_start))) = - 1"
    "fst (sys_connect sim_sys 4 \<lparr>sin_port = htons 80, sin_addr = 16777343\<rparr> (snd (os_new_fd os_start))) = 0" "strerror_fills sim_sys"
    by (simp_all add: sim_sys_def os_start_def os_new_fd_def)
  show ?thesis
    using failed_connection_leaks_socket[OF sim_fd_doc k(3) sock fill, of 16] k(1,2) by (auto simp: XV_ERR_def split: prod.splits)
qed

text \<open>Addresses: \<^verbatim>\<open>inet_pton\<close> reports an unparsable address with the result 0, but only negative
  results are treated as errors, so listening on such an address is listening on \<^verbatim>\<open>0.0.0.0\<close>, all
  interfaces, and likewise for connecting.\<close>

theorem unparsable_address_is_any:
  assumes "inet_pton K addr = (0, a)" "inet_pton K ''0.0.0.0'' = (1, INADDR_ANY)"
  shows "xv_tcp_listen K addr port backlog k = xv_tcp_listen K ''0.0.0.0'' port backlog k \<and>
    xv_tcp_generic_connect K addr port nonblock k = xv_tcp_generic_connect K ''0.0.0.0'' port nonblock k"
proof -
  let ?sa = "\<lparr>sin_port = htons port, sin_addr = INADDR_ANY\<rparr>"
  have fill: "fill_sockaddr K addr port = (0, ?sa)" "fill_sockaddr K ''0.0.0.0'' port = (1, ?sa)"
    using assms by (simp_all add: fill_sockaddr_def INADDR_ANY_def)
  have pos: "((0 :: int) < 0) = False" "((1 :: int) < 0) = False" by simp_all
  show ?thesis
    unfolding xv_tcp_listen_def xv_tcp_generic_connect_def fill Let_def prod.case pos if_False by simp
qed

theorem unparsable_address_is_any_witness:
  "xv_tcp_listen sim_sys ''localhost'' 8080 16 os_start = xv_tcp_listen sim_sys ''0.0.0.0'' 8080 16 os_start \<and>
   map_option fst (xv_tcp_listen sim_sys ''localhost'' 8080 16 os_start) = Some 4"
proof -
  have "map_option fst (xv_tcp_listen sim_sys ''0.0.0.0'' 8080 16 os_start) = Some 4"
    by (simp add: xv_tcp_listen_def xv_socket_def xv_tcp_reuse_addr_def fill_sockaddr_def sim_sys_def os_new_fd_def
        os_start_def XV_ERR_def XV_OK_def htons_def swap16_def)
  then show ?thesis
    using unparsable_address_is_any[of sim_sys "''localhost''" 0 8080 16 os_start False] by (simp add: sim_sys_def INADDR_ANY_def)
qed

end
