(* ===== verification/Xv_Dispatch.thy ===== *)
theory Xv_Dispatch
  imports Xv_Loop
begin

section \<open>Dispatch and running of the event loop\<close>

text \<open>
  What \<^verbatim>\<open>xv_loop_poll\<close>, \<^verbatim>\<open>xv_loop_run\<close>, \<^verbatim>\<open>xv_loop_break\<close> and \<^verbatim>\<open>xv_loop_destroy\<close> of
  \<^verbatim>\<open>src/src/xv.c\<close> promise: which callbacks a round invokes and in which order, that a round cannot
  fault, when the loop returns, and what destroying it releases.
\<close>

subsection \<open>Specification of one round\<close>

text \<open>
  The specification of one round: the events in the order the kernel returned them, the reader before
  the writer, each looked up in the table as the previous callback left it. Errors and hang-ups go to
  the writer only.
\<close>

definition fire ::
  "(io_cb \<Rightarrow> addr \<Rightarrow> addr \<Rightarrow> ('k, 'z) lheap_scheme \<Rightarrow> ('k, 'z) lheap_scheme option) \<Rightarrow>
   addr \<Rightarrow> addr \<Rightarrow> ('k, 'z) lheap_scheme \<Rightarrow> ('k, 'z) lheap_scheme option" where
  "fire call loop p s =
     (if p = NULL then Some s
      else case io_cb (the (ios s p)) of None \<Rightarrow> Some s | Some cb \<Rightarrow> call cb loop p s)"

fun dispatch ::
  "(io_cb \<Rightarrow> addr \<Rightarrow> addr \<Rightarrow> ('k, 'z) lheap_scheme \<Rightarrow> ('k, 'z) lheap_scheme option) \<Rightarrow>
   addr \<Rightarrow> epoll_event list \<Rightarrow> ('k, 'z) lheap_scheme \<Rightarrow> ('k, 'z) lheap_scheme option" where
  "dispatch call loop [] s = Some s"
| "dispatch call loop (ev # evs) s = do {
     s \<leftarrow> (if has (ev_events ev) EPOLLIN then fire call loop (watched s loop (ev_fd ev) XV_READ) s else Some s);
     s \<leftarrow> (if has (ev_events ev) EPOLLOUT \<or> has (ev_events ev) EPOLLHUP \<or> has (ev_events ev) EPOLLERR
          then fire call loop (watched s loop (ev_fd ev) XV_WRITE) s else Some s);
     dispatch call loop evs s }"

definition fired_cells :: "('k, 'z) lheap_scheme \<Rightarrow> addr \<Rightarrow> xv_fired_event_t option list option" where
  "fired_cells s loop = (case loops s loop of None \<Rightarrow> None | Some l \<Rightarrow> fired_arrays s (l_fired_events l))"

text \<open>What callbacks must respect: they may start, stop, create and destroy watchers and break the loop,
  but not resize it or poll it recursively.\<close>

definition callbacks_keep ::
  "(io_cb \<Rightarrow> addr \<Rightarrow> addr \<Rightarrow> ('k, 'z) lheap_scheme \<Rightarrow> ('k, 'z) lheap_scheme option) \<Rightarrow> addr \<Rightarrow> bool" where
  "callbacks_keep call loop \<longleftrightarrow> (\<forall>cb p s t. loop_ok s loop \<longrightarrow> call cb loop p s = Some t \<longrightarrow>
     loop_ok t loop \<and> loop_size t loop = loop_size s loop \<and> fired_cells t loop = fired_cells s loop)"

text \<open>Callbacks that return when invoked on a started watcher that names them.\<close>

definition callbacks_return ::
  "(io_cb \<Rightarrow> addr \<Rightarrow> addr \<Rightarrow> ('k, 'z) lheap_scheme \<Rightarrow> ('k, 'z) lheap_scheme option) \<Rightarrow> addr \<Rightarrow> bool" where
  "callbacks_return call loop \<longleftrightarrow> (\<forall>cb p s io. loop_ok s loop \<longrightarrow> ios s p = Some io \<longrightarrow>
     io_cb io = Some cb \<longrightarrow> io_start io \<longrightarrow> call cb loop p s \<noteq> None)"

lemma watched_started:
  assumes "loop_ok s loop" "watched s loop fd ev = p" "p \<noteq> NULL"
  shows "\<exists>io. ios s p = Some io \<and> io_fd io = fd \<and> io_event io = ev \<and> io_start io"
proof -
  obtain l d arr where r: "loop_repr s loop l d arr" using assms(1) by (auto simp: loop_ok_def)
  have fd: "0 \<le> fd" "fd < l_setsize l" "ev \<in> {XV_READ, XV_WRITE}" "slot_ptr ev (arr ! nat fd) = p"
    using assms(2,3) by (auto simp: watched_repr[OF r] split: if_splits)
  have "slot_ok (ios s) fd (arr ! nat fd)"
    by (rule slots_ok_nth) (use loop_reprD[OF r] fd in simp_all)
  then show ?thesis
    using fd assms(3) by (auto simp: slot_ok_def watcher_ok_def slot_ptr_def split: if_splits)
qed

lemma fire_io_eq:
  assumes ok: "loop_ok s loop" and fd: "0 \<le> fd" "fd < loop_size s loop"
  shows "fire_io call loop fd e_read_io s = fire call loop (watched s loop fd XV_READ) s"
    "fire_io call loop fd e_write_io s = fire call loop (watched s loop fd XV_WRITE) s"
proof -
  obtain l d arr where r: "loop_repr s loop l d arr" using ok by (auto simp: loop_ok_def)
  have get: "arr_get arr fd = Some (arr ! nat fd)"
    using fd loop_reprD(9)[OF r] by (simp add: arr_get_def loop_size_repr[OF r])
  have w: "watched s loop fd ev = slot_ptr ev (arr ! nat fd)" if "ev \<in> {XV_READ, XV_WRITE}" for ev
    using that fd by (simp add: watched_repr[OF r] loop_size_repr[OF r])
  note st = watched_started[OF ok refl, of fd]
  show "fire_io call loop fd e_read_io s = fire call loop (watched s loop fd XV_READ) s"
    using loop_reprD(1,2,7,8)[OF r] get st[of XV_READ] w[of XV_READ]
    by (auto simp: fire_io_def fire_def slot_ptr_def)
  show "fire_io call loop fd e_write_io s = fire call loop (watched s loop fd XV_WRITE) s"
    using loop_reprD(1,2,7,8)[OF r] get st[of XV_WRITE] w[of XV_WRITE]
    by (auto simp: fire_io_def fire_def slot_ptr_def)
qed

lemma fire_keeps:
  assumes "callbacks_keep call loop" "loop_ok s loop" "fire call loop p s = Some t"
  shows "loop_ok t loop \<and> loop_size t loop = loop_size s loop \<and> fired_cells t loop = fired_cells s loop"
  using assms by (auto simp: fire_def callbacks_keep_def split: if_splits option.splits)

lemma fire_returns:
  assumes "callbacks_return call loop" "loop_ok s loop" "p = watched s loop fd ev"
  shows "fire call loop p s \<noteq> None"
  using assms watched_started[OF assms(2) assms(3)[symmetric]]
  by (auto simp: fire_def callbacks_return_def split: option.splits)

text \<open>The loop over the fired array is the dispatch of the events it was filled with.\<close>

lemma fire_events_dispatch:
  assumes keep: "callbacks_keep call loop" and ok: "loop_ok s loop"
    and cells: "fired_cells s loop = Some arr" "\<And>j. j < length evs \<Longrightarrow> i + j < length arr \<and> arr ! (i + j) = Some (fired_of (evs ! j))"
    and fd: "\<And>ev. ev \<in> set evs \<Longrightarrow> 0 \<le> ev_fd ev \<and> ev_fd ev < loop_size s loop"
  shows "fire_events call loop (length evs) (int i) s = dispatch call loop evs s"
  using ok cells fd
proof (induction evs arbitrary: s i)
  case Nil
  then show ?case by simp
next
  case (Cons ev evs)
  obtain l d ar where r: "loop_repr s loop l d ar" using Cons.prems(1) by (auto simp: loop_ok_def)
  have f: "fired_arrays s (l_fired_events l) = Some arr"
    using Cons.prems(2) loop_reprD(2)[OF r] by (simp add: fired_cells_def)
  have get: "arr_get arr (int i) = Some (Some (fired_of ev))"
    using Cons.prems(3)[of 0] by (simp add: arr_get_def)
  have step: "fire_events call loop (length (ev # evs)) (int i) s = do {
      s \<leftarrow> (if has (ev_events ev) EPOLLIN then fire_io call loop (ev_fd ev) e_read_io s else Some s);
      s \<leftarrow> (if has (ev_events ev) EPOLLOUT \<or> has (ev_events ev) EPOLLHUP \<or> has (ev_events ev) EPOLLERR
           then fire_io call loop (ev_fd ev) e_write_io s else Some s);
      fire_events call loop (length evs) (int (Suc i)) s }"
    using loop_reprD(1,2,10)[OF r] f get by (simp add: fired_of_def fired_mask_has add.commute Let_def)
  have fdb: "0 \<le> ev_fd ev" "ev_fd ev < loop_size s loop" using Cons.prems(4)[of ev] by simp_all
  have rest: "fire_events call loop (length evs) (int (Suc i)) u = dispatch call loop evs u"
    if "loop_ok u loop \<and> loop_size u loop = loop_size s loop \<and> fired_cells u loop = fired_cells s loop" for u
    by (rule Cons.IH) (use that Cons.prems(2,4) Cons.prems(3)[of "Suc _"] in auto)
  let ?P = "\<lambda>u. loop_ok u loop \<and> loop_size u loop = loop_size s loop \<and> fired_cells u loop = fired_cells s loop"
  have keeps: "?P v" if "(if b then fire call loop p u else Some u) = Some v" "?P u" for b p u v
    using that fire_keeps[OF keep, of u p v] by (cases b) auto
  have eq: "fire_io call loop (ev_fd ev) e_read_io u = fire call loop (watched u loop (ev_fd ev) XV_READ) u"
    "fire_io call loop (ev_fd ev) e_write_io u = fire call loop (watched u loop (ev_fd ev) XV_WRITE) u" if "?P u" for u
    using that fdb fire_io_eq[of u loop "ev_fd ev" call] by simp_all
  have P: "?P s" using Cons.prems(1) by simp
  show ?case
    unfolding step dispatch.simps eq[OF P]
  proof (rule Option.bind_cong[OF refl], rule Option.bind_cong)
    fix u assume "(if has (ev_events ev) EPOLLIN then fire call loop (watched s loop (ev_fd ev) XV_READ) s else Some s) = Some u"
    then have u: "?P u" by (rule keeps[OF _ P])
    show "(if has (ev_events ev) EPOLLOUT \<or> has (ev_events ev) EPOLLHUP \<or> has (ev_events ev) EPOLLERR
        then fire_io call loop (ev_fd ev) e_write_io u else Some u) =
      (if has (ev_events ev) EPOLLOUT \<or> has (ev_events ev) EPOLLHUP \<or> has (ev_events ev) EPOLLERR
        then fire call loop (watched u loop (ev_fd ev) XV_WRITE) u else Some u)"
      by (simp add: eq[OF u])
    show "fire_events call loop (length evs) (int (Suc i)) v = dispatch call loop evs v"
      if "(if has (ev_events ev) EPOLLOUT \<or> has (ev_events ev) EPOLLHUP \<or> has (ev_events ev) EPOLLERR
        then fire call loop (watched u loop (ev_fd ev) XV_WRITE) u else Some u) = Some v" for v
      by (rule rest[OF keeps[OF that u]])
  qed
qed

lemma dispatch_safe:
  assumes "callbacks_keep call loop" "callbacks_return call loop" "loop_ok s loop"
  shows "\<exists>t. dispatch call loop evs s = Some t \<and> loop_ok t loop \<and> loop_size t loop = loop_size s loop"
  using assms(3)
proof (induction evs arbitrary: s)
  case Nil
  then show ?case by simp
next
  case (Cons ev evs)
  have one: "\<exists>v. (if b then fire call loop (watched u loop (ev_fd ev) e) u else Some u) = Some v \<and>
      loop_ok v loop \<and> loop_size v loop = loop_size u loop" if "loop_ok u loop" for b e u
    using fire_returns[OF assms(2) that refl, of "ev_fd ev" e] fire_keeps[OF assms(1) that, of _] that
    by (cases b) auto
  obtain u where u: "(if has (ev_events ev) EPOLLIN then fire call loop (watched s loop (ev_fd ev) XV_READ) s else Some s) = Some u"
    "loop_ok u loop" "loop_size u loop = loop_size s loop"
    using one[OF Cons.prems] by blast
  obtain v where v: "(if has (ev_events ev) EPOLLOUT \<or> has (ev_events ev) EPOLLHUP \<or> has (ev_events ev) EPOLLERR
      then fire call loop (watched u loop (ev_fd ev) XV_WRITE) u else Some u) = Some v"
    "loop_ok v loop" "loop_size v loop = loop_size u loop"
    using one[OF u(2)] by blast
  show ?case using Cons.IH[OF v(2)] u v by simp
qed

text \<open>The state in which the first callback of a round runs.\<close>

definition after_wait ::
  "xv_loop_t \<Rightarrow> 'k \<Rightarrow> epoll_event list \<Rightarrow> ('k, 'z) lheap_scheme \<Rightarrow> ('k, 'z) lheap_scheme" where
  "after_wait l k evs s =
     (let d = the (pollers s (l_poller_data l)); arr = the (fired_arrays s (l_fired_events l)) in
      s\<lparr>kern := k,
        pollers := (pollers s)(l_poller_data l \<mapsto>
          d\<lparr>p_events := map Some evs @ drop (length evs) (p_events d)\<rparr>),
        fired_arrays := (fired_arrays s)(l_fired_events l \<mapsto>
          map Some (map fired_of evs) @ drop (length evs) arr)\<rparr>)"

lemma after_wait_ok:
  assumes r: "loop_repr s loop l d arr" and n: "int (length evs) \<le> l_setsize l"
  shows "loop_ok (after_wait l k evs s) loop" "loop_size (after_wait l k evs s) loop = loop_size s loop"
    "\<exists>cells. fired_cells (after_wait l k evs s) loop = Some (map Some (map fired_of evs) @ cells)"
proof -
  obtain farr where f: "fired_arrays s (l_fired_events l) = Some farr" "length farr = nat (l_setsize l)"
    by (rule loop_repr_fired[OF r])
  have n': "length evs \<le> nat (l_setsize l)" using n by simp
  show "loop_ok (after_wait l k evs s) loop"
    using r f n' unfolding loop_ok_def loop_repr_def after_wait_def Let_def by auto
  show "loop_size (after_wait l k evs s) loop = loop_size s loop"
    by (simp add: after_wait_def Let_def loop_size_def)
  show "\<exists>cells. fired_cells (after_wait l k evs s) loop = Some (map Some (map fired_of evs) @ cells)"
    using loop_reprD(2)[OF r] by (simp add: after_wait_def Let_def fired_cells_def)
qed

lemma sync_fd_range:
  assumes r: "loop_repr s loop l d arr" and sync: "in_sync interest s loop"
    and fd: "interest (kern s) (p_epfd d) fd \<noteq> None"
  shows "0 \<le> fd" "fd < loop_size s loop"
proof -
  have "table_mask (watched s loop) fd \<noteq> XV_NONE"
    using sync fd loop_reprD[OF r] by (auto simp: in_sync_def Let_def split: if_splits)
  then have "watched s loop fd XV_READ \<noteq> NULL \<or> watched s loop fd XV_WRITE \<noteq> NULL"
    by (auto simp: table_mask_def code_defs split: if_splits)
  then show "0 \<le> fd" "fd < loop_size s loop"
    by (auto simp: watched_repr[OF r] loop_size_repr[OF r] split: if_splits)
qed

lemma poll_law:
  assumes keep: "callbacks_keep call loop" and r: "loop_repr s loop l d arr" and sync: "in_sync interest s loop"
    and doc: "epoll_wait_doc K interest"
    and wait: "epoll_wait K (p_epfd d) (l_setsize l) timeout (kern s) = (res, k)"
  shows "xv_loop_poll K call s loop timeout = (case res of
       None \<Rightarrow> Some (s\<lparr>kern := k\<rparr>)
     | Some evs \<Rightarrow> dispatch call loop evs (after_wait l k evs s))"
    and "res = Some evs \<Longrightarrow> int (length evs) \<le> l_setsize l"
proof -
  note d = loop_reprD[OF r]
  obtain farr where f: "fired_arrays s (l_fired_events l) = Some farr" "length farr = nat (l_setsize l)"
    by (rule loop_repr_fired[OF r])
  have ev: "int (length evs) \<le> l_setsize l \<and> (\<forall>ev \<in> set evs. interest (kern s) (p_epfd d) (ev_fd ev) \<noteq> None)"
    if "res = Some evs" for evs
    using doc wait that unfolding epoll_wait_doc_def by blast
  then show "res = Some evs \<Longrightarrow> int (length evs) \<le> l_setsize l" by blast
  note poll = poller_poll_law[of s "l_poller_data l" d "l_fired_events l" farr K timeout res k]
  show "xv_loop_poll K call s loop timeout = (case res of
       None \<Rightarrow> Some (s\<lparr>kern := k\<rparr>)
     | Some evs \<Rightarrow> dispatch call loop evs (after_wait l k evs s))"
  proof (cases res)
    case None
    then show ?thesis using poll d f wait ev by (simp add: xv_loop_poll_def)
  next
    case (Some evs)
    obtain cells where cells: "fired_cells (after_wait l k evs s) loop = Some (map Some (map fired_of evs) @ cells)"
      using after_wait_ok(3)[OF r] ev[OF Some] by blast
    have "xv_loop_poll K call s loop timeout = fire_events call loop (length evs) (int 0) (after_wait l k evs s)"
      using poll d f wait ev Some by (simp add: xv_loop_poll_def after_wait_def Let_def)
    also have "\<dots> = dispatch call loop evs (after_wait l k evs s)"
      using ev[OF Some] sync_fd_range[OF r sync] after_wait_ok(1,2)[OF r]
      by (intro fire_events_dispatch[OF keep _ cells]) (auto simp: nth_append)
    finally show ?thesis using Some by simp
  qed
qed

subsection \<open>A round of the loop\<close>

text \<open>C19. Dispatch: with the table and the kernel in agreement, a round of \<^verbatim>\<open>xv_loop_poll\<close> changes nothing
  but the kernel when \<^verbatim>\<open>epoll_wait\<close> fails, and otherwise invokes exactly the callbacks of the
  specification: for each event the kernel returned, in order, the registered reader if the event is
  \<open>EPOLLIN\<close>, then the registered writer if it is \<open>EPOLLOUT\<close>, \<open>EPOLLHUP\<close> or \<open>EPOLLERR\<close>, each looked
  up in the table as the earlier callbacks left it.\<close>

theorem xv_loop_poll_dispatches:
  assumes "loop_ok s loop" "in_sync interest s loop" "epoll_wait_doc K interest" "callbacks_keep call loop"
    and "loops s loop = Some l" "pollers s (l_poller_data l) = Some d"
  shows "xv_loop_poll K call s loop timeout =
     (case epoll_wait K (p_epfd d) (l_setsize l) timeout (kern s) of
        (None, k) \<Rightarrow> Some (s\<lparr>kern := k\<rparr>)
      | (Some evs, k) \<Rightarrow> dispatch call loop evs (after_wait l k evs s))"
proof -
  obtain arr where r: "loop_repr s loop l d arr"
    using assms(1,5,6) by (auto simp: loop_ok_def loop_repr_def)
  obtain res k where w: "epoll_wait K (p_epfd d) (l_setsize l) timeout (kern s) = (res, k)"
    by (cases "epoll_wait K (p_epfd d) (l_setsize l) timeout (kern s)")
  show ?thesis
    using poll_law(1)[OF assms(4) r assms(2,3) w] w by (cases res) simp_all
qed

text \<open>A round is safe: if callbacks respect the loop and return when invoked on a started watcher
  that names them, \<^verbatim>\<open>xv_loop_poll\<close> neither faults nor breaks the invariant, whatever events the
  kernel delivers and whatever watchers the callbacks start, stop or destroy on the way.\<close>

theorem xv_loop_poll_safe:
  assumes "loop_ok s loop" "in_sync interest s loop" "epoll_wait_doc K interest"
    and "callbacks_keep call loop" "callbacks_return call loop"
  shows "\<exists>t. xv_loop_poll K call s loop timeout = Some t \<and> loop_ok t loop \<and> loop_size t loop = loop_size s loop"
proof -
  obtain l d arr where r: "loop_repr s loop l d arr" using assms(1) by (auto simp: loop_ok_def)
  obtain res k where w: "epoll_wait K (p_epfd d) (l_setsize l) timeout (kern s) = (res, k)"
    by (cases "epoll_wait K (p_epfd d) (l_setsize l) timeout (kern s)")
  note poll = poll_law[OF assms(4) r assms(2,3) w]
  show ?thesis
  proof (cases res)
    case None
    have "loop_repr (s\<lparr>kern := k\<rparr>) loop l d arr" using r by (simp add: loop_repr_def)
    then show ?thesis using poll(1) None by (auto simp: loop_ok_def loop_size_def)
  next
    case (Some evs)
    show ?thesis
      using dispatch_safe[OF assms(4,5) after_wait_ok(1)[OF r poll(2)[OF Some]], of evs k]
        after_wait_ok(2)[OF r poll(2)[OF Some], of k] poll(1) Some by simp
  qed
qed

text \<open>The callback of the examples: \<open>User_io_cb 11\<close> breaks the loop, every other one stops its watcher.\<close>

definition ex_call :: "io_cb \<Rightarrow> addr \<Rightarrow> addr \<Rightarrow> sim_kernel lheap \<Rightarrow> sim_kernel lheap option" where
  "ex_call cb loop p s =
     (if cb = User_io_cb 11 then xv_loop_break s loop
      else if watcher_fits s loop p then map_option snd (xv_io_stop sim_ops s loop p) else Some s)"

lemma break_keeps:
  assumes "loop_ok s loop" "xv_loop_break s loop = Some t"
  shows "loop_ok t loop \<and> loop_size t loop = loop_size s loop \<and> fired_cells t loop = fired_cells s loop"
proof -
  obtain l d arr where r: "loop_repr s loop l d arr" using assms(1) by (auto simp: loop_ok_def)
  have t: "t = s\<lparr>loops := (loops s)(loop \<mapsto> l\<lparr>l_start := False\<rparr>)\<rparr>"
    using assms(2) loop_reprD(1,2)[OF r] by (simp add: xv_loop_break_def)
  have "loop_repr t loop (l\<lparr>l_start := False\<rparr>) d arr" using r by (simp add: t loop_repr_def)
  then show ?thesis
    using loop_reprD(2)[OF r] by (auto simp: loop_ok_def t loop_size_def fired_cells_def)
qed

lemma stop_keeps:
  assumes "loop_ok s loop" "watcher_fits s loop p" "xv_io_stop K s loop p = Some (r, t)"
  shows "loop_ok t loop \<and> loop_size t loop = loop_size s loop \<and> fired_cells t loop = fired_cells s loop"
proof -
  have "w_post K (\<lambda>_ _ _. None) loop s (WStop p) r t"
    using stop_law[OF assms(1,2), of K] assms(3) by fastforce
  then show ?thesis by (simp add: w_post_def w_frame_def loop_size_def fired_cells_def cong: option.case_cong)
qed

lemma ex_call_keep: "callbacks_keep ex_call loop"
  unfolding callbacks_keep_def ex_call_def
  by (auto split: if_splits dest: break_keeps stop_keeps)

lemma ex_call_return: "callbacks_return ex_call loop"
proof -
  have "ex_call cb loop p s \<noteq> None" if ok: "loop_ok s loop" for cb p s
  proof -
    obtain l d arr where r: "loop_repr s loop l d arr" using ok by (auto simp: loop_ok_def)
    show ?thesis
      using stop_law[OF ok, of p sim_ops "\<lambda>_ _ _. None"] loop_reprD(1,2)[OF r]
      by (auto simp: ex_call_def xv_loop_break_def)
  qed
  then show ?thesis by (simp add: callbacks_return_def)
qed

text \<open>The loop of the examples with the two watchers of descriptor 2 started, and both directions ready.\<close>

definition ex_l :: xv_loop_t where
  "ex_l = \<lparr>l_poller_data = 2, l_events = 3, l_fired_events = 4, l_setsize = 4, l_start = True\<rparr>"

definition ex_d :: xv_poller_data_t where
  "ex_d = \<lparr>p_epfd = 3, p_setsize = 4, p_events = replicate 4 None\<rparr>"

definition ex_ready :: "sim_kernel lheap" where
  "ex_ready = \<lparr>brk = 7, nodes = Map.empty, queues = Map.empty, cqueues = Map.empty,
     kern = \<lparr>k_interest = (\<lambda>e f. if e = 3 \<and> f = 2 then Some 5 else None),
       k_ready = [\<lparr>ev_events = EPOLLIN OR EPOLLOUT, ev_fd = 2\<rparr>]\<rparr>,
     pollers = [2 \<mapsto> ex_d],
     fired_arrays = [4 \<mapsto> replicate 4 None],
     ios = [6 \<mapsto> \<lparr>io_fd = 2, io_event = XV_READ, io_cb = Some (User_io_cb 11), io_userdata = NULL, io_start = True\<rparr>,
            7 \<mapsto> \<lparr>io_fd = 2, io_event = XV_WRITE, io_cb = Some (User_io_cb 12), io_userdata = NULL, io_start = True\<rparr>],
     loops = [1 \<mapsto> ex_l],
     event_arrays = [3 \<mapsto> [empty_slot, empty_slot,
       \<lparr>e_event = XV_ALL_EVENT, e_read_io = 6, e_write_io = 7\<rparr>, empty_slot]]\<rparr>"

lemma ex_ready_fields:
  "loops ex_ready 1 = Some ex_l" "pollers ex_ready (l_poller_data ex_l) = Some ex_d"
  "kern ex_ready = \<lparr>k_interest = (\<lambda>e f. if e = 3 \<and> f = 2 then Some 5 else None),
     k_ready = [\<lparr>ev_events = EPOLLIN OR EPOLLOUT, ev_fd = 2\<rparr>]\<rparr>"
  by (simp_all add: ex_ready_def ex_l_def)

lemma ex_ready_ok: "loop_ok ex_ready 1"
proof -
  have "loop_repr ex_ready 1 ex_l ex_d
    [empty_slot, empty_slot, \<lparr>e_event = XV_ALL_EVENT, e_read_io = 6, e_write_io = 7\<rparr>, empty_slot]"
    by (simp add: loop_repr_def ex_ready_def slots_ok_def less_Suc_eq all_conj_distrib slot_ok_def ex_l_def ex_d_def
        watcher_ok_def empty_slot_def slot_mask_def XV_ALL_EVENT_def XV_NONE_def)
  then show ?thesis by (auto simp: loop_ok_def)
qed

lemma ex_ready_watched:
  "watched ex_ready 1 fd ev = (if fd = 2 \<and> ev = XV_READ then 6 else if fd = 2 \<and> ev = XV_WRITE then 7 else NULL)"
proof -
  consider "fd < 0 \<or> 4 \<le> fd" | "fd = 0" | "fd = 1" | "fd = 2" | "fd = 3" by linarith
  then show ?thesis
    by cases (auto simp: watched_def ex_ready_def ex_l_def slot_ptr_def empty_slot_def)
qed

lemma ex_ready_sync: "in_sync k_interest ex_ready 1"
proof -
  have "table_mask (watched ex_ready 1) fd = (if fd = 2 then XV_ALL_EVENT else XV_NONE)" for fd
    by (simp add: table_mask_def ex_ready_watched XV_ALL_EVENT_def XV_NONE_def del: One_nat_def)
  then show ?thesis
    unfolding in_sync_def using ex_ready_fields
    by (intro exI[of _ ex_l] exI[of _ ex_d]) (simp add: ex_d_def epoll_mask_def code_defs epoll_defs has_def)
qed

lemma ex_ready_wait:
  "epoll_wait sim_ops (p_epfd ex_d) (l_setsize ex_l) timeout (kern ex_ready) =
     (Some [\<lparr>ev_events = EPOLLIN OR EPOLLOUT, ev_fd = 2\<rparr>], kern ex_ready)"
  by (simp add: sim_ops_def sim_wait_def ex_ready_fields ex_d_def ex_l_def)

text \<open>Both callbacks of descriptor 2 run, the reader first: it breaks the loop, and the writer stops itself.\<close>

theorem xv_loop_poll_dispatches_witness:
  "xv_loop_poll sim_ops ex_call ex_ready 1 (- 1) =
     dispatch ex_call 1 [\<lparr>ev_events = EPOLLIN OR EPOLLOUT, ev_fd = 2\<rparr>]
       (after_wait ex_l (kern ex_ready) [\<lparr>ev_events = EPOLLIN OR EPOLLOUT, ev_fd = 2\<rparr>] ex_ready)"
  using xv_loop_poll_dispatches[OF ex_ready_ok ex_ready_sync sim_wait_doc ex_call_keep ex_ready_fields(1,2), of "- 1"]
  by (simp add: ex_ready_wait)

theorem xv_loop_poll_safe_witness:
  "\<exists>t. xv_loop_poll sim_ops ex_call ex_ready 1 (- 1) = Some t \<and> loop_ok t 1 \<and> loop_size t 1 = 4"
  using xv_loop_poll_safe[OF ex_ready_ok ex_ready_sync sim_wait_doc ex_call_keep ex_call_return, of "- 1"] ex_ready_fields(1)
  by (simp add: loop_size_def[of ex_ready] ex_l_def)

subsection \<open>Running\<close>

text \<open>A number of rounds, and whether the loop's start flag is set.\<close>

fun polls ::
  "('k, 'y) epoll_ops_scheme \<Rightarrow>
   (io_cb \<Rightarrow> addr \<Rightarrow> addr \<Rightarrow> ('k, 'z) lheap_scheme \<Rightarrow> ('k, 'z) lheap_scheme option) \<Rightarrow>
   addr \<Rightarrow> int \<Rightarrow> nat \<Rightarrow> ('k, 'z) lheap_scheme \<Rightarrow> ('k, 'z) lheap_scheme option" where
  "polls K call loop timeout 0 s = Some s"
| "polls K call loop timeout (Suc n) s = do { s \<leftarrow> xv_loop_poll K call s loop timeout; polls K call loop timeout n s }"

definition started :: "('k, 'z) lheap_scheme \<Rightarrow> addr \<Rightarrow> bool" where
  "started s loop \<longleftrightarrow> (\<exists>l. deref (loops s) loop = Some l \<and> l_start l)"

definition stopped :: "('k, 'z) lheap_scheme \<Rightarrow> addr \<Rightarrow> bool" where
  "stopped s loop \<longleftrightarrow> (\<exists>l. deref (loops s) loop = Some l \<and> \<not> l_start l)"

lemma run_timeout_returned:
  assumes "xv_loop_run_timeout K call s loop timeout = Some t"
  shows "\<exists>n. polls K call loop timeout n s = Some t \<and> stopped t loop \<and>
     (\<forall>m < n. \<exists>u. polls K call loop timeout m s = Some u \<and> started u loop)"
proof (rule xv_loop_run_timeout.raw_induct[OF _ assms], goal_cases)
  case (1 run K call s loop timeout t)
  from 1(2) obtain l where l: "deref (loops s) loop = Some l" by (auto simp: bind_eq_Some_conv)
  show ?case
  proof (cases "l_start l")
    case False
    then show ?thesis using 1(2) l by (intro exI[of _ 0]) (simp add: stopped_def)
  next
    case True
    obtain u where u: "xv_loop_poll K call s loop timeout = Some u" "run K call u loop timeout = Some t"
      using 1(2) l True by (auto simp: bind_eq_Some_conv)
    obtain n where n: "polls K call loop timeout n u = Some t" "stopped t loop"
      "\<forall>m < n. \<exists>v. polls K call loop timeout m u = Some v \<and> started v loop"
      using 1(1)[OF u(2)] by blast
    have "\<exists>v. polls K call loop timeout m s = Some v \<and> started v loop" if "m < Suc n" for m
      using that n(3) u(1) l True by (cases m) (auto simp: started_def)
    then show ?thesis using n u by (intro exI[of _ "Suc n"]) simp
  qed
qed

lemma run_timeout_return:
  "polls K call loop timeout n s = Some t \<Longrightarrow> stopped t loop \<Longrightarrow>
   \<forall>m < n. \<exists>u. polls K call loop timeout m s = Some u \<and> started u loop \<Longrightarrow>
   xv_loop_run_timeout K call s loop timeout = Some t"
proof (induction n arbitrary: s)
  case 0
  then show ?case by (subst xv_loop_run_timeout.simps) (auto simp: stopped_def)
next
  case (Suc n)
  obtain u where u: "xv_loop_poll K call s loop timeout = Some u" "polls K call loop timeout n u = Some t"
    using Suc.prems(1) by (auto simp: bind_eq_Some_conv)
  have "\<forall>m < n. \<exists>v. polls K call loop timeout m u = Some v \<and> started v loop"
  proof (intro allI impI)
    fix m assume "m < n"
    then show "\<exists>v. polls K call loop timeout m u = Some v \<and> started v loop"
      using Suc.prems(3)[rule_format, of "Suc m"] u(1) by simp
  qed
  then have "xv_loop_run_timeout K call u loop timeout = Some t"
    by (rule Suc.IH[OF u(2) Suc.prems(2)])
  moreover have "started s loop" using Suc.prems(3)[rule_format, of 0] by simp
  ultimately show ?case
    using u(1) by (subst xv_loop_run_timeout.simps) (auto simp: started_def)
qed

text \<open>\<^verbatim>\<open>xv_loop_run\<close> and \<^verbatim>\<open>xv_loop_run_timeout\<close> return exactly when some number of rounds runs
  without a fault and leaves the start flag cleared for the first time, and then in the state after
  those rounds; a flag that is cleared in the middle of a round takes effect when the round ends.\<close>

theorem xv_loop_run_returns_iff:
  "(xv_loop_run K call s loop = Some t \<longleftrightarrow>
     (\<exists>n. polls K call loop (- 1) n s = Some t \<and> stopped t loop \<and>
       (\<forall>m. m \<ge> n \<or> (\<exists>u. polls K call loop (- 1) m s = Some u \<and> started u loop)))) \<and>
   (xv_loop_run_timeout K call s loop timeout = Some t \<longleftrightarrow>
     (\<exists>n. polls K call loop timeout n s = Some t \<and> stopped t loop \<and>
       (\<forall>m. m \<ge> n \<or> (\<exists>u. polls K call loop timeout m s = Some u \<and> started u loop))))"
  unfolding xv_loop_run_def
  using run_timeout_returned[of K call s loop _ t] run_timeout_return[of K call loop _ _ s t]
  by (metis linorder_not_less)

subsection \<open>Destruction\<close>

lemma loop_destroy_law:
  assumes "loop_ok s loop" "loops s loop = Some l"
  shows "xv_loop_destroy s loop = Some (s\<lparr>pollers := (pollers s)(l_poller_data l := None),
     event_arrays := (event_arrays s)(l_events l := None),
     fired_arrays := (fired_arrays s)(l_fired_events l := None), loops := (loops s)(loop := None)\<rparr>)"
  using assms by (auto simp: loop_ok_def loop_repr_def xv_loop_destroy_def xv_poller_destroy_def xv_free_def)

text \<open>Life cycle: from any heap with no object above the break, creating a loop and destroying it
  is defined and gives back every block that \<^verbatim>\<open>xv_loop_init\<close> allocated, and destroying it twice is
  undefined; but the kernel state is the one that \<^verbatim>\<open>epoll_create\<close> left, with the epoll descriptor
  still open.\<close>

theorem xv_loop_lifecycle:
  assumes fresh: "\<forall>p > brk s. pollers s p = None \<and> event_arrays s p = None \<and> fired_arrays s p = None \<and> loops s p = None"
    and n: "0 \<le> n" and init: "xv_loop_init K s n = (loop, t)"
  shows "\<exists>u. xv_loop_destroy t loop = Some u \<and>
     u = s\<lparr>brk := brk t, kern := snd (epoll_create K n (kern s))\<rparr> \<and> xv_loop_destroy u loop = None"
proof -
  obtain epfd k where c: "epoll_create K n (kern s) = (epfd, k)" by (cases "epoll_create K n (kern s)")
  note law = loop_init_law[OF init n c]
  define l where "l = \<lparr>l_poller_data = brk s + 2, l_events = brk s + 3, l_fired_events = brk s + 4,
    l_setsize = n, l_start = True\<rparr>"
  define d where "d = \<lparr>p_epfd = epfd, p_setsize = n, p_events = replicate (nat n) (None :: epoll_event option)\<rparr>"
  have t: "t = s\<lparr>brk := brk s + 4, kern := k, pollers := (pollers s)(brk s + 2 \<mapsto> d),
      event_arrays := (event_arrays s)(brk s + 3 \<mapsto> replicate (nat n) empty_slot),
      fired_arrays := (fired_arrays s)(brk s + 4 \<mapsto> replicate (nat n) None),
      loops := (loops s)(Suc (brk s) \<mapsto> l)\<rparr>"
    using init c by (auto simp: xv_loop_init_def xv_malloc_def xv_poller_init_def l_def d_def Let_def eval_nat_numeral)
  have none: "(pollers s)(brk s + 2 := None) = pollers s" "(event_arrays s)(brk s + 3 := None) = event_arrays s"
    "(fired_arrays s)(brk s + 4 := None) = fired_arrays s" "(loops s)(Suc (brk s) := None) = loops s"
    using fresh by (auto intro!: fun_upd_idem)
  have "loops t loop = Some l" using law(4) by (simp add: t)
  note des = loop_destroy_law[OF law(1) this]
  have "xv_loop_destroy t loop = Some (s\<lparr>brk := brk t, kern := k\<rparr>)"
    unfolding des using law(4) none by (simp add: t l_def del: fun_upd_apply)
  moreover have "xv_loop_destroy (s\<lparr>brk := brk t, kern := k\<rparr>) loop = None"
    using fresh law(4) by (simp add: xv_loop_destroy_def deref_def)
  ultimately show ?thesis using c by simp
qed

theorem xv_loop_lifecycle_witness:
  "\<exists>u. xv_loop_destroy (snd (xv_loop_init sim_ops lheap_empty 4)) 1 = Some u \<and> loops u = Map.empty \<and>
     kern u = snd (epoll_create sim_ops 4 (kern lheap_empty)) \<and> xv_loop_destroy u 1 = None"
proof -
  have i: "xv_loop_init sim_ops lheap_empty 4 = (1, snd (xv_loop_init sim_ops lheap_empty 4))"
    by (simp add: xv_loop_init_def xv_malloc_def lheap_empty_def case_prod_beta Let_def)
  show ?thesis
    using xv_loop_lifecycle[OF _ _ i] by (auto simp: lheap_empty_def)
qed

end
