(* ===== verification/Xv_Async.thy ===== *)
theory Xv_Async
  imports Xv_Socket Xv_Dispatch
begin

section \<open>Asynchronous notification (\<^verbatim>\<open>src/src/xv_async.c\<close>)\<close>

text \<open>
  An async object lets any thread wake the loop that owns it: an eventfd, and a reader on it whose
  callback drains the counter and calls the user's function. The Linux branch of the file is the one
  modelled; the other branch is empty in the source.
\<close>

subsection \<open>Data and operations\<close>

datatype async_cb =
    Worker_async_cb
  | Io_thread_add_conn_cb
  | Io_thread_return_message_cb
  | User_async_cb nat

record xv_async_t =
  as_evfd :: int
  as_cb :: "async_cb option"
  as_userdata :: addr
  as_read_io :: addr

record 'k aheap = "'k lheap" +
  asyncs :: "addr \<rightharpoonup> xv_async_t"

definition xv_async_set_userdata :: "('k, 'z) aheap_scheme \<Rightarrow> addr \<Rightarrow> addr \<Rightarrow> ('k, 'z) aheap_scheme option" where
  "xv_async_set_userdata s async data = do {
     a \<leftarrow> deref (asyncs s) async;
     Some (s\<lparr>asyncs := (asyncs s)(async \<mapsto> a\<lparr>as_userdata := data\<rparr>)\<rparr>) }"

definition xv_async_get_userdata :: "('k, 'z) aheap_scheme \<Rightarrow> addr \<Rightarrow> addr option" where
  "xv_async_get_userdata s async = do { a \<leftarrow> deref (asyncs s) async; Some (as_userdata a) }"

text \<open>The reader's callback. \<open>acall\<close> is the code the callbacks of async objects name.\<close>

definition common_async_cb ::
  "('k, 'y) sys_ops_scheme \<Rightarrow>
   (async_cb \<Rightarrow> addr \<Rightarrow> addr \<Rightarrow> ('k, 'z) aheap_scheme \<Rightarrow> ('k, 'z) aheap_scheme option) \<Rightarrow>
   addr \<Rightarrow> addr \<Rightarrow> ('k, 'z) aheap_scheme \<Rightarrow> ('k, 'z) aheap_scheme option" where
  "common_async_cb K acall loop io s = do {
     fd \<leftarrow> xv_io_get_fd s io;
     let (ret, k) = eventfd_read K fd (kern s);
     let s = s\<lparr>kern := k\<rparr>;
     async \<leftarrow> xv_io_get_userdata s io;
     a \<leftarrow> deref (asyncs s) async;
     case as_cb a of None \<Rightarrow> Some s | Some cb \<Rightarrow> acall cb loop async s }"

definition xv_async_init ::
  "('k, 'y) sys_ops_scheme \<Rightarrow> ('k, 'z) aheap_scheme \<Rightarrow> async_cb option \<Rightarrow> (addr \<times> ('k, 'z) aheap_scheme) option" where
  "xv_async_init K s cb =
     (if cb = None then Some (NULL, s)
      else do {
        let (async, s) = xv_malloc s;
        let (evfd, k) = sys_eventfd K (kern s);
        let s = s\<lparr>kern := k\<rparr>;
        if evfd < 0 then Some (NULL, s)
        else do {
          let (io, s) = xv_io_init s evfd XV_READ (Some Common_async_cb);
          let s = s\<lparr>asyncs := (asyncs s)(async \<mapsto>
            \<lparr>as_evfd = evfd, as_cb = cb, as_userdata = NULL, as_read_io = io\<rparr>)\<rparr>;
          s \<leftarrow> xv_io_set_userdata s io async;
          Some (async, s) } })"

definition xv_async_start ::
  "('k, 'y) sys_ops_scheme \<Rightarrow> ('k, 'z) aheap_scheme \<Rightarrow> addr \<Rightarrow> addr \<Rightarrow> (int \<times> ('k, 'z) aheap_scheme) option" where
  "xv_async_start K s loop async = do {
     a \<leftarrow> deref (asyncs s) async;
     xv_io_start K s loop (as_read_io a) }"

definition xv_async_stop ::
  "('k, 'y) sys_ops_scheme \<Rightarrow> ('k, 'z) aheap_scheme \<Rightarrow> addr \<Rightarrow> addr \<Rightarrow> (int \<times> ('k, 'z) aheap_scheme) option" where
  "xv_async_stop K s loop async = do {
     a \<leftarrow> deref (asyncs s) async;
     xv_io_stop K s loop (as_read_io a) }"

definition xv_async_send ::
  "('k, 'y) sys_ops_scheme \<Rightarrow> ('k, 'z) aheap_scheme \<Rightarrow> addr \<Rightarrow> (int \<times> ('k, 'z) aheap_scheme) option" where
  "xv_async_send K s async = do {
     a \<leftarrow> deref (asyncs s) async;
     let (ret, k) = eventfd_write K (as_evfd a) 1 (kern s);
     let s = s\<lparr>kern := k\<rparr>;
     if ret < 0 then Some (XV_ERR, s) else Some (XV_OK, s) }"

definition xv_async_destroy ::
  "('k, 'y) sys_ops_scheme \<Rightarrow> ('k, 'z) aheap_scheme \<Rightarrow> addr \<Rightarrow> (int \<times> ('k, 'z) aheap_scheme) option" where
  "xv_async_destroy K s async = do {
     a \<leftarrow> deref (asyncs s) async;
     (ret, s) \<leftarrow> xv_io_destroy s (as_read_io a);
     if ret \<noteq> XV_OK then Some (ret, s)
     else do {
       let (_, k) = sys_close K (as_evfd a) (kern s);
       h \<leftarrow> xv_free (asyncs s) async;
       Some (XV_OK, s\<lparr>kern := k, asyncs := h\<rparr>) } }"

subsection \<open>What eventfd(2) promises\<close>

text \<open>
  \<open>counter k fd\<close> is the counter of an eventfd, \<open>None\<close> for any other descriptor. The descriptors are
  non-blocking: a write that would overflow the counter and a read of zero fail without effect.
\<close>

definition eventfd_doc :: "('k, 'y) sys_ops_scheme \<Rightarrow> ('k \<Rightarrow> int \<Rightarrow> nat option) \<Rightarrow> bool" where
  "eventfd_doc K counter \<longleftrightarrow> (\<forall>k ret k'.
     (sys_eventfd K k = (ret, k') \<longrightarrow>
        counter k' = (if ret < 0 then counter k else (counter k)(ret \<mapsto> 0)) \<and> (0 \<le> ret \<longrightarrow> counter k ret = None)) \<and>
     (\<forall>fd c n. counter k fd = Some c \<longrightarrow> eventfd_write K fd n k = (ret, k') \<longrightarrow>
        (if c + unat n < 2 ^ 64 - 1 then 0 \<le> ret \<and> counter k' = (counter k)(fd \<mapsto> c + unat n)
         else ret < 0 \<and> counter k' = counter k)) \<and>
     (\<forall>fd c. counter k fd = Some c \<longrightarrow> eventfd_read K fd k = (ret, k') \<longrightarrow>
        (if 0 < c then 0 \<le> ret \<and> counter k' = (counter k)(fd \<mapsto> 0) else ret < 0 \<and> counter k' = counter k)))"

lemma eventfd_writeD:
  assumes "eventfd_doc K counter" "counter k fd = Some c" "eventfd_write K fd n k = (ret, k')"
  shows "if c + unat n < 2 ^ 64 - 1 then 0 \<le> ret \<and> counter k' = (counter k)(fd \<mapsto> c + unat n)
     else ret < 0 \<and> counter k' = counter k"
  using assms unfolding eventfd_doc_def by iprover

lemma eventfd_readD:
  assumes "eventfd_doc K counter" "counter k fd = Some c" "eventfd_read K fd k = (ret, k')"
  shows "if 0 < c then 0 \<le> ret \<and> counter k' = (counter k)(fd \<mapsto> 0) else ret < 0 \<and> counter k' = counter k"
  using assms unfolding eventfd_doc_def by iprover

lemma eventfd_newD:
  assumes "eventfd_doc K counter" "sys_eventfd K k = (ret, k')"
  shows "counter k' = (if ret < 0 then counter k else (counter k)(ret \<mapsto> 0))" "0 \<le> ret \<Longrightarrow> counter k ret = None"
  using assms unfolding eventfd_doc_def by iprover+

subsection \<open>Life cycle\<close>

lemma async_init_eq:
  assumes "xv_async_init K s (Some cb) = Some (async, t)" "async \<noteq> NULL"
  shows "\<exists>evfd k. sys_eventfd K (kern s) = (evfd, k) \<and> 0 \<le> evfd \<and> async = Suc (brk s) \<and>
     t = s\<lparr>brk := Suc (Suc (brk s)), kern := k,
       ios := (ios s)(Suc (Suc (brk s)) \<mapsto> \<lparr>io_fd = evfd, io_event = XV_READ, io_cb = Some Common_async_cb,
         io_userdata = async, io_start = False\<rparr>),
       asyncs := (asyncs s)(async \<mapsto> \<lparr>as_evfd = evfd, as_cb = Some cb, as_userdata = NULL,
         as_read_io = Suc (Suc (brk s))\<rparr>)\<rparr>"
proof -
  obtain evfd k where e: "sys_eventfd K (kern s) = (evfd, k)" by (cases "sys_eventfd K (kern s)")
  show ?thesis
    using assms e
    by (auto simp: xv_async_init_def xv_malloc_def xv_io_init_def xv_io_set_userdata_def Let_def split: if_splits)
qed

lemma async_destroy_eq:
  assumes "asyncs s async = Some a" "async \<noteq> NULL" "ios s (as_read_io a) = Some io" "as_read_io a \<noteq> NULL" "\<not> io_start io"
  shows "xv_async_destroy K s async = Some (XV_OK, s\<lparr>ios := (ios s)(as_read_io a := None),
     kern := snd (sys_close K (as_evfd a) (kern s)), asyncs := (asyncs s)(async := None)\<rparr>)"
  using assms by (simp add: xv_async_destroy_def xv_io_destroy_def xv_free_def case_prod_beta Let_def)

text \<open>Life cycle of an async object: when \<^verbatim>\<open>eventfd\<close> succeeds, the reader that \<^verbatim>\<open>xv_async_init\<close>
  creates, run by the loop whatever the kernel has done meanwhile, drains the eventfd and then calls
  the user's callback with the async object itself; destroying the object while its reader is not
  started closes the eventfd and gives back both blocks, and while it is started it is refused and
  changes nothing.\<close>

theorem xv_async_lifecycle:
  assumes init: "xv_async_init K s (Some cb) = Some (async, t)" "async \<noteq> NULL"
    and fresh: "\<forall>p > brk s. ios s p = None \<and> asyncs s p = None"
  shows "\<exists>a. asyncs t async = Some a \<and>
     (\<forall>acall loop k. common_async_cb K acall loop (as_read_io a) (t\<lparr>kern := k\<rparr>) =
        acall cb loop async (t\<lparr>kern := snd (eventfd_read K (as_evfd a) k)\<rparr>)) \<and>
     xv_async_destroy K t async =
        Some (XV_OK, s\<lparr>brk := brk t, kern := snd (sys_close K (as_evfd a) (kern t))\<rparr>) \<and>
     (\<forall>u io. ios u (as_read_io a) = Some io \<longrightarrow> io_start io \<longrightarrow> asyncs u async = Some a \<longrightarrow>
        xv_async_destroy K u async = Some (XV_ERR, u))"
proof -
  obtain evfd k where e: "async = Suc (brk s)"
    "t = s\<lparr>brk := Suc (Suc (brk s)), kern := k,
       ios := (ios s)(Suc (Suc (brk s)) \<mapsto> \<lparr>io_fd = evfd, io_event = XV_READ, io_cb = Some Common_async_cb,
         io_userdata = async, io_start = False\<rparr>),
       asyncs := (asyncs s)(async \<mapsto> \<lparr>as_evfd = evfd, as_cb = Some cb, as_userdata = NULL,
         as_read_io = Suc (Suc (brk s))\<rparr>)\<rparr>"
    using async_init_eq[OF init] by blast
  define a where "a = \<lparr>as_evfd = evfd, as_cb = Some cb, as_userdata = NULL, as_read_io = Suc (Suc (brk s))\<rparr>"
  have a: "asyncs t async = Some a" by (simp add: e a_def)
  have "(ios s)(Suc (Suc (brk s)) := None) = ios s" "(asyncs s)(async := None) = asyncs s"
    using fresh e(1) by (auto intro!: fun_upd_idem)
  then have "xv_async_destroy K t async =
      Some (XV_OK, s\<lparr>brk := brk t, kern := snd (sys_close K (as_evfd a) (kern t))\<rparr>)"
    using async_destroy_eq[OF a init(2), of "\<lparr>io_fd = evfd, io_event = XV_READ, io_cb = Some Common_async_cb,
         io_userdata = async, io_start = False\<rparr>" K]
    by (simp add: e a_def)
  moreover have "common_async_cb K acall loop (as_read_io a) (t\<lparr>kern := k\<rparr>) =
      acall cb loop async (t\<lparr>kern := snd (eventfd_read K (as_evfd a) k)\<rparr>)" for acall loop k
    by (simp add: common_async_cb_def xv_io_get_fd_def xv_io_get_userdata_def e a_def case_prod_beta Let_def)
  moreover have "xv_async_destroy K u async = Some (XV_ERR, u)"
    if "ios u (as_read_io a) = Some io" "io_start io" "asyncs u async = Some a" for u io
    using that e(1) by (simp add: xv_async_destroy_def xv_io_destroy_def a_def)
  ultimately show ?thesis using a by blast
qed

text \<open>The state of the examples, on the simulated operating system.\<close>

definition aheap_empty :: "sim_os aheap" where
  "aheap_empty = \<lparr>brk = 0, nodes = Map.empty, queues = Map.empty, cqueues = Map.empty, kern = os_start,
     pollers = Map.empty, fired_arrays = Map.empty, ios = Map.empty, loops = Map.empty,
     event_arrays = Map.empty, asyncs = Map.empty\<rparr>"

theorem xv_async_lifecycle_witness:
  "\<exists>t a. xv_async_init sim_sys aheap_empty (Some Worker_async_cb) = Some (1, t) \<and> asyncs t 1 = Some a \<and>
     (\<exists>u. xv_async_destroy sim_sys t 1 = Some (XV_OK, u) \<and> ios u = Map.empty \<and> asyncs u = Map.empty)"
proof -
  have "\<exists>t. xv_async_init sim_sys aheap_empty (Some Worker_async_cb) = Some (1, t)"
    by (simp add: xv_async_init_def xv_malloc_def aheap_empty_def sim_sys_def os_new_fd_def os_start_def
        xv_io_init_def xv_io_set_userdata_def Let_def)
  then obtain t where t: "xv_async_init sim_sys aheap_empty (Some Worker_async_cb) = Some (1, t)" by blast
  show ?thesis using t xv_async_lifecycle[OF t] by (auto simp: aheap_empty_def)
qed

end
