(* ===== verification/Xv_Mailbox.thy ===== *)
theory Xv_Mailbox
  imports Xv_Async
begin

section \<open>Queues with a wake-up: the hand-over between threads\<close>

text \<open>
  Three hand-overs of the library have the same shape: tasks to a worker (\<^verbatim>\<open>xv_th_pool.c\<close>,
  \<^verbatim>\<open>xv_worker_thread_push_task\<close> and \<^verbatim>\<open>worker_async_cb\<close>), new connections to an I/O thread
  and finished messages back to it (\<^verbatim>\<open>xv_service.c\<close>, \<^verbatim>\<open>io_thread_add_conn_cb\<close> and
  \<^verbatim>\<open>io_thread_return_message_cb\<close>). A producer pushes onto a concurrent queue and then sends on an
  async object; the consumer sleeps in \<^verbatim>\<open>epoll_wait\<close> until the eventfd is readable, reads it, and
  pops while the queue's size is positive. The theory models the threads of this protocol as steps
  of whole calls and proves that no item and no wake-up is lost; the \<open>mailbox\<close> locale states what
  the protocol needs of the queue and of the async object, and the interpretation discharges it for
  \<^verbatim>\<open>xv_concurrent_queue_t\<close> and \<^verbatim>\<open>xv_async_t\<close>.
\<close>

subsection \<open>The protocol\<close>

record 's mbox_ops =
  mb_push :: "'s \<Rightarrow> addr \<Rightarrow> 's option"
  mb_send :: "'s \<Rightarrow> (int \<times> 's) option"
  mb_ready :: "'s \<Rightarrow> bool"
  mb_clear :: "'s \<Rightarrow> 's option"
  mb_size :: "'s \<Rightarrow> (int \<times> 's) option"
  mb_pop :: "'s \<Rightarrow> (addr \<times> 's) option"

datatype producer_pc = P_Idle | P_Pushed

datatype consumer_pc = C_Wait | C_Test | C_Pop

record 's mbox_sys =
  mb_state :: 's
  mb_producers :: "tid \<Rightarrow> producer_pc"
  mb_consumer :: consumer_pc
  mb_sent :: "addr list"
  mb_got :: "addr list"

text \<open>
  \<open>push\<close> and \<open>send\<close> are the two calls of a producer; \<open>wake\<close> is the poll that reports the readable
  eventfd and the \<^verbatim>\<open>eventfd_read\<close> of \<^verbatim>\<open>common_async_cb\<close>; \<open>more\<close> and \<open>stop\<close> are the loop test
  of the consumer and \<open>pop\<close> its body. \<open>mb_sent\<close> and \<open>mb_got\<close> record the items handed in and out.
\<close>

inductive mbox_step :: "'s mbox_ops \<Rightarrow> 's mbox_sys \<Rightarrow> 's mbox_sys \<Rightarrow> bool" for M where
  push: "mb_producers s i = P_Idle \<Longrightarrow> mb_push M (mb_state s) x = Some h \<Longrightarrow>
     mbox_step M s (s\<lparr>mb_state := h, mb_producers := (mb_producers s)(i := P_Pushed), mb_sent := mb_sent s @ [x]\<rparr>)"
| send: "mb_producers s i = P_Pushed \<Longrightarrow> mb_send M (mb_state s) = Some (r, h) \<Longrightarrow>
     mbox_step M s (s\<lparr>mb_state := h, mb_producers := (mb_producers s)(i := P_Idle)\<rparr>)"
| wake: "mb_consumer s = C_Wait \<Longrightarrow> mb_ready M (mb_state s) \<Longrightarrow> mb_clear M (mb_state s) = Some h \<Longrightarrow>
     mbox_step M s (s\<lparr>mb_state := h, mb_consumer := C_Test\<rparr>)"
| more: "mb_consumer s = C_Test \<Longrightarrow> mb_size M (mb_state s) = Some (n, h) \<Longrightarrow> 0 < n \<Longrightarrow>
     mbox_step M s (s\<lparr>mb_state := h, mb_consumer := C_Pop\<rparr>)"
| stop: "mb_consumer s = C_Test \<Longrightarrow> mb_size M (mb_state s) = Some (n, h) \<Longrightarrow> n \<le> 0 \<Longrightarrow>
     mbox_step M s (s\<lparr>mb_state := h, mb_consumer := C_Wait\<rparr>)"
| pop: "mb_consumer s = C_Pop \<Longrightarrow> mb_pop M (mb_state s) = Some (x, h) \<Longrightarrow>
     mbox_step M s (s\<lparr>mb_state := h, mb_consumer := C_Test, mb_got := mb_got s @ [x]\<rparr>)"

definition mbox_start :: "'s \<Rightarrow> 's mbox_sys" where
  "mbox_start h = \<lparr>mb_state = h, mb_producers = (\<lambda>_. P_Idle), mb_consumer = C_Wait, mb_sent = [], mb_got = []\<rparr>"

inductive mbox_reach :: "'s mbox_ops \<Rightarrow> 's \<Rightarrow> 's mbox_sys \<Rightarrow> bool" for M h where
  start: "mbox_reach M h (mbox_start h)"
| step: "mbox_reach M h s \<Longrightarrow> mbox_step M s t \<Longrightarrow> mbox_reach M h t"

text \<open>Steps of the consumer alone.\<close>

inductive consumer_steps :: "'s mbox_ops \<Rightarrow> 's mbox_sys \<Rightarrow> 's mbox_sys \<Rightarrow> bool" for M where
  none: "consumer_steps M s s"
| step: "mbox_step M s t \<Longrightarrow> mb_producers t = mb_producers s \<Longrightarrow> mb_sent t = mb_sent s \<Longrightarrow>
     consumer_steps M t u \<Longrightarrow> consumer_steps M s u"

subsection \<open>What the protocol needs\<close>

text \<open>Items are delivered in order, and a sleeping consumer with work has been or will be signalled.\<close>

definition mbox_inv ::
  "'s mbox_ops \<Rightarrow> ('s \<Rightarrow> bool) \<Rightarrow> ('s \<Rightarrow> addr list) \<Rightarrow> 's mbox_sys \<Rightarrow> bool" where
  "mbox_inv M ok items s \<longleftrightarrow> ok (mb_state s) \<and> mb_sent s = mb_got s @ items (mb_state s) \<and>
     (mb_consumer s = C_Wait \<longrightarrow> items (mb_state s) \<noteq> [] \<longrightarrow>
        mb_ready M (mb_state s) \<or> (\<exists>i. mb_producers s i = P_Pushed)) \<and>
     (mb_consumer s = C_Pop \<longrightarrow> items (mb_state s) \<noteq> [])"

locale mailbox =
  fixes M :: "'s mbox_ops" and ok :: "'s \<Rightarrow> bool" and items :: "'s \<Rightarrow> addr list"
  assumes push_law: "ok s \<Longrightarrow> mb_push M s x = Some t \<Longrightarrow>
      ok t \<and> items t = items s @ [x] \<and> mb_ready M t = mb_ready M s"
    and send_law: "ok s \<Longrightarrow> mb_send M s = Some (r, t) \<Longrightarrow> ok t \<and> items t = items s \<and> mb_ready M t"
    and clear_law: "ok s \<Longrightarrow> mb_ready M s \<Longrightarrow> \<exists>t. mb_clear M s = Some t \<and> ok t \<and> items t = items s"
    and size_law: "ok s \<Longrightarrow> mb_size M s = Some (int (length (items s)), s)"
    and pop_law: "ok s \<Longrightarrow> items s = x # xs \<Longrightarrow>
      \<exists>t. mb_pop M s = Some (x, t) \<and> ok t \<and> items t = xs \<and> mb_ready M t = mb_ready M s"
begin

lemma inv_step: "mbox_step M s t \<Longrightarrow> mbox_inv M ok items s \<Longrightarrow> mbox_inv M ok items t"
proof (induction rule: mbox_step.induct)
  case (push s i x h)
  then have "ok h \<and> items h = items (mb_state s) @ [x] \<and> mb_ready M h = mb_ready M (mb_state s)"
    using push_law[of "mb_state s" x h] by (simp add: mbox_inv_def)
  then show ?case using push(3) by (auto simp: mbox_inv_def)
next
  case (send s i r h)
  then have "ok h \<and> items h = items (mb_state s) \<and> mb_ready M h"
    using send_law[of "mb_state s" r h] by (simp add: mbox_inv_def)
  then show ?case using send(3) by (auto simp: mbox_inv_def)
next
  case (wake s h)
  then have "ok h \<and> items h = items (mb_state s)"
    using clear_law[of "mb_state s"] by (auto simp: mbox_inv_def)
  then show ?case using wake(4) by (auto simp: mbox_inv_def)
next
  case (more s n h)
  then have "h = mb_state s \<and> n = int (length (items (mb_state s)))"
    using size_law[of "mb_state s"] by (simp add: mbox_inv_def)
  then show ?case using more(3,4) by (auto simp: mbox_inv_def)
next
  case (stop s n h)
  then have "h = mb_state s \<and> n = int (length (items (mb_state s)))"
    using size_law[of "mb_state s"] by (simp add: mbox_inv_def)
  then show ?case using stop(3,4) by (auto simp: mbox_inv_def)
next
  case (pop s x h)
  then obtain y ys where y: "items (mb_state s) = y # ys" "ok (mb_state s)"
    by (auto simp: mbox_inv_def neq_Nil_conv)
  then have "x = y \<and> ok h \<and> items h = ys"
    using pop_law[OF y(2,1)] pop(2) by auto
  then show ?case using pop(1,3) y by (auto simp: mbox_inv_def)
qed

lemma reach_inv:
  assumes "ok h" "items h = []" "mbox_reach M h s"
  shows "mbox_inv M ok items s"
  using assms(3)
proof (induction rule: mbox_reach.induct)
  case start
  then show ?case using assms(1,2) by (simp add: mbox_inv_def mbox_start_def)
next
  case (step s t)
  then show ?case using inv_step by blast
qed

text \<open>From a loop test the consumer alone empties the queue and goes back to sleep.\<close>

lemma drain:
  assumes "mbox_inv M ok items s" "mb_consumer s = C_Test"
  shows "\<exists>t. consumer_steps M s t \<and> mbox_inv M ok items t \<and> mb_consumer t = C_Wait \<and> items (mb_state t) = [] \<and>
     mb_sent t = mb_sent s \<and> mb_producers t = mb_producers s"
  using assms
proof (induction "items (mb_state s)" arbitrary: s)
  case Nil
  let ?t = "s\<lparr>mb_state := mb_state s, mb_consumer := C_Wait\<rparr>"
  have st: "mbox_step M s ?t"
    by (rule mbox_step.stop) (use Nil size_law in \<open>auto simp: mbox_inv_def\<close>)
  have "consumer_steps M s ?t"
    by (rule consumer_steps.step[OF st _ _ consumer_steps.none]) simp_all
  moreover have "mbox_inv M ok items ?t" by (rule inv_step[OF st Nil.prems(1)])
  ultimately show ?case using Nil.hyps by (intro exI[of _ ?t]) simp
next
  case (Cons x xs)
  have ok: "ok (mb_state s)" using Cons.prems by (simp add: mbox_inv_def)
  obtain h where h: "mb_pop M (mb_state s) = Some (x, h)" "ok h" "items h = xs"
    using pop_law[OF ok Cons.hyps(2)[symmetric]] by blast
  define t where "t = s\<lparr>mb_state := mb_state s, mb_consumer := C_Pop\<rparr>"
  define u where "u = t\<lparr>mb_state := h, mb_consumer := C_Test, mb_got := mb_got t @ [x]\<rparr>"
  have st: "mbox_step M s t"
    unfolding t_def by (rule mbox_step.more[OF Cons.prems(2) size_law[OF ok]]) (use Cons.hyps(2)[symmetric] in simp)
  have su: "mbox_step M t u"
    unfolding u_def by (rule mbox_step.pop) (use h in \<open>simp_all add: t_def\<close>)
  have iu: "mbox_inv M ok items u" using inv_step[OF su inv_step[OF st Cons.prems(1)]] .
  obtain v where v: "consumer_steps M u v" "mbox_inv M ok items v" "mb_consumer v = C_Wait" "items (mb_state v) = []"
    "mb_sent v = mb_sent u" "mb_producers v = mb_producers u"
    using Cons.hyps(1)[of u] iu h by (auto simp: u_def)
  have "consumer_steps M s v"
    by (rule consumer_steps.step[OF st _ _ consumer_steps.step[OF su _ _ v(1)]]) (simp_all add: t_def u_def)
  then show ?case using v by (intro exI[of _ v]) (simp add: t_def u_def)
qed

lemma deliver:
  assumes inv: "mbox_inv M ok items s" and idle: "\<forall>i. mb_producers s i = P_Idle"
  shows "\<exists>t. consumer_steps M s t \<and> mb_got t = mb_sent s \<and> mb_consumer t = C_Wait \<and> mbox_inv M ok items t"
proof -
  have fin: "\<exists>t. consumer_steps M s t \<and> mb_got t = mb_sent s \<and> mb_consumer t = C_Wait \<and> mbox_inv M ok items t"
    if u: "mb_sent u = mb_sent s" "mbox_inv M ok items u" "mb_consumer u = C_Test"
      and tr: "\<And>t. consumer_steps M u t \<Longrightarrow> consumer_steps M s t" for u
  proof -
    obtain t where t: "consumer_steps M u t" "mbox_inv M ok items t" "mb_consumer t = C_Wait" "items (mb_state t) = []" "mb_sent t = mb_sent u"
      using drain[OF u(2,3)] by blast
    then have "mb_got t = mb_sent s" using u(1) by (simp add: mbox_inv_def)
    then show ?thesis using t tr by blast
  qed
  show ?thesis
  proof (cases "mb_consumer s")
    case C_Test
    show ?thesis by (rule fin[of s]) (use C_Test inv in auto)
  next
    case C_Pop
    then obtain x xs where x: "items (mb_state s) = x # xs" "ok (mb_state s)"
      using inv by (auto simp: mbox_inv_def neq_Nil_conv)
    obtain h where h: "mb_pop M (mb_state s) = Some (x, h)" using pop_law[OF x(2,1)] by blast
    let ?u = "s\<lparr>mb_state := h, mb_consumer := C_Test, mb_got := mb_got s @ [x]\<rparr>"
    have st: "mbox_step M s ?u" by (rule mbox_step.pop[OF C_Pop h])
    show ?thesis
      by (rule fin[of ?u]) (use inv_step[OF st inv] in \<open>auto intro!: consumer_steps.step[OF st]\<close>)
  next
    case C_Wait
    show ?thesis
    proof (cases "items (mb_state s) = []")
      case True
      then show ?thesis
        using C_Wait inv by (intro exI[of _ s]) (auto simp: mbox_inv_def intro: consumer_steps.none)
    next
      case False
      then have r: "mb_ready M (mb_state s)" "ok (mb_state s)"
        using C_Wait inv idle by (auto simp: mbox_inv_def)
      obtain h where h: "mb_clear M (mb_state s) = Some h" using clear_law[OF r(2,1)] by blast
      let ?u = "s\<lparr>mb_state := h, mb_consumer := C_Test\<rparr>"
      have st: "mbox_step M s ?u" by (rule mbox_step.wake[OF C_Wait r(1) h])
      show ?thesis
        by (rule fin[of ?u]) (use inv_step[OF st inv] in \<open>auto intro!: consumer_steps.step[OF st]\<close>)
    qed
  qed
qed

end

subsection \<open>The mailbox of a concurrent queue and an async object\<close>

text \<open>\<open>counter\<close> gives the eventfd counters of the kernel; a positive one makes the descriptor readable.\<close>

definition eventfd_ready :: "('k \<Rightarrow> int \<Rightarrow> nat option) \<Rightarrow> ('k, 'z) aheap_scheme \<Rightarrow> addr \<Rightarrow> bool" where
  "eventfd_ready counter s a =
     (case asyncs s a of None \<Rightarrow> False | Some x \<Rightarrow>
       (case counter (kern s) (as_evfd x) of None \<Rightarrow> False | Some n \<Rightarrow> 0 < n))"

definition eventfd_clear ::
  "('k, 'y) sys_ops_scheme \<Rightarrow> ('k, 'z) aheap_scheme \<Rightarrow> addr \<Rightarrow> ('k, 'z) aheap_scheme option" where
  "eventfd_clear K s a = do {
     x \<leftarrow> deref (asyncs s) a;
     let (ret, k) = eventfd_read K (as_evfd x) (kern s);
     Some (s\<lparr>kern := k\<rparr>) }"

definition xv_mbox ::
  "('k, 'y) sys_ops_scheme \<Rightarrow> ('k \<Rightarrow> int \<Rightarrow> nat option) \<Rightarrow> addr \<Rightarrow> addr \<Rightarrow> ('k, 'z) aheap_scheme mbox_ops" where
  "xv_mbox K counter c a =
     \<lparr>mb_push = (\<lambda>s x. xv_concurrent_queue_push s c x), mb_send = (\<lambda>s. xv_async_send K s a),
      mb_ready = (\<lambda>s. eventfd_ready counter s a), mb_clear = (\<lambda>s. eventfd_clear K s a),
      mb_size = (\<lambda>s. xv_concurrent_queue_size s c), mb_pop = (\<lambda>s. xv_concurrent_queue_pop s c)\<rparr>"

definition async_ok :: "('k \<Rightarrow> int \<Rightarrow> nat option) \<Rightarrow> ('k, 'z) aheap_scheme \<Rightarrow> addr \<Rightarrow> bool" where
  "async_ok counter s a \<longleftrightarrow> a \<noteq> NULL \<and>
     (\<exists>x. asyncs s a = Some x \<and> counter (kern s) (as_evfd x) \<noteq> None)"

definition mbox_ok ::
  "('k, 'y) sys_ops_scheme \<Rightarrow> ('k \<Rightarrow> int \<Rightarrow> nat option) \<Rightarrow> addr \<Rightarrow> addr \<Rightarrow> ('k, 'z) aheap_scheme \<Rightarrow> bool" where
  "mbox_ok K counter c a s \<longleftrightarrow> eventfd_doc K counter \<and> cq_ok s \<and> live_cq s c \<and> async_ok counter s a"

lemma cq_cong:
  assumes "brk t = brk s" "nodes t = nodes s" "queues t = queues s" "cqueues t = cqueues s"
  shows "cq_ok t = cq_ok s" "cq_list t = cq_list s" "live_cq t = live_cq s"
proof -
  have q: "qheap_ok t = qheap_ok s" "queue_list t = queue_list s" "live_queue t = live_queue s"
    by (rule qheap_cong; use assms in simp)+
  show "cq_ok t = cq_ok s" using q assms by (simp add: cq_ok_def)
  show "cq_list t = cq_list s" using q assms by (intro ext) (simp add: cq_list_def cong: option.case_cong)
  show "live_cq t = live_cq s" using assms by (intro ext) (simp add: live_cq_def)
qed

lemma cq_kern [simp]:
  fixes s :: "('k, 'z) aheap_scheme"
  shows "cq_ok (s\<lparr>kern := k\<rparr>) = cq_ok s" "cq_list (s\<lparr>kern := k\<rparr>) = cq_list s" "live_cq (s\<lparr>kern := k\<rparr>) = live_cq s"
  by (rule cq_cong; simp)+

lemma more_fields:
  fixes s t :: "('k, 'z) aheap_scheme"
  assumes "qheap.more t = qheap.more s"
  shows "kern t = kern s" "asyncs t = asyncs s" "loops t = loops s" "ios t = ios s" "aheap.more t = aheap.more s"
    "pollers t = pollers s" "fired_arrays t = fired_arrays s" "event_arrays t = event_arrays s"
  using assms by (cases s; cases t; simp)+

lemma async_cong:
  fixes s t :: "('k, 'z) aheap_scheme"
  assumes "kern t = kern s" "asyncs t = asyncs s"
  shows "async_ok counter t a = async_ok counter s a" "eventfd_ready counter t a = eventfd_ready counter s a"
  using assms by (simp_all add: async_ok_def eventfd_ready_def cong: option.case_cong)

lemma cq_push_room:
  assumes ok: "cq_ok s" and live: "live_cq s c" and push: "xv_concurrent_queue_push s c x = Some t"
  shows "int (length (cq_list s c)) < INT_MAX"
proof -
  obtain cq s1 where l: "cqueues s c = Some cq" "c \<noteq> NULL" "pthread_mutex_lock s c = Some s1"
    "s1 = s\<lparr>cqueues := (cqueues s)(c \<mapsto> cq\<lparr>cq_mutex := True\<rparr>)\<rparr>"
    "qheap_ok s1" "live_queue s1 (cq_queue cq)" "queue_list s1 (cq_queue cq) = cq_list s c"
    by (rule locked_cq[OF ok live])
  obtain qd where qd: "queues s1 (cq_queue cq) = Some qd" using l(6) by (auto simp: live_queue_def)
  have "xv_queue_push s1 (cq_queue cq) x \<noteq> None"
    using push l(2,3,4) by (auto simp: xv_concurrent_queue_push_def Option.bind_eq_Some_conv)
  then show ?thesis using push_Some_room[OF l(5) qd] l(7) by auto
qed

lemma send_mbox_law:
  assumes doc: "eventfd_doc K counter" and ok: "async_ok counter s a"
  shows "\<exists>r k. xv_async_send K s a = Some (r, s\<lparr>kern := k\<rparr>) \<and> async_ok counter (s\<lparr>kern := k\<rparr>) a \<and>
     eventfd_ready counter (s\<lparr>kern := k\<rparr>) a"
proof -
  obtain x n where x: "asyncs s a = Some x" "counter (kern s) (as_evfd x) = Some n" "a \<noteq> NULL"
    using ok by (auto simp: async_ok_def)
  obtain r k where w: "eventfd_write K (as_evfd x) 1 (kern s) = (r, k)"
    by (cases "eventfd_write K (as_evfd x) 1 (kern s)")
  have c: "\<exists>m. counter k (as_evfd x) = Some m \<and> 0 < m"
    using eventfd_writeD[OF doc x(2) w] x(2) by (auto split: if_splits)
  have "\<exists>r. xv_async_send K s a = Some (r, s\<lparr>kern := k\<rparr>)"
    using x(1,3) w by (simp add: xv_async_send_def Let_def)
  then obtain r' where "xv_async_send K s a = Some (r', s\<lparr>kern := k\<rparr>)" by blast
  then show ?thesis
    using c x by (intro exI[of _ r'] exI[of _ k]) (auto simp: async_ok_def eventfd_ready_def)
qed

lemma clear_mbox_law:
  assumes doc: "eventfd_doc K counter" and ok: "async_ok counter s a"
  shows "\<exists>k. eventfd_clear K s a = Some (s\<lparr>kern := k\<rparr>) \<and> async_ok counter (s\<lparr>kern := k\<rparr>) a"
proof -
  obtain x n where x: "asyncs s a = Some x" "counter (kern s) (as_evfd x) = Some n" "a \<noteq> NULL"
    using ok by (auto simp: async_ok_def)
  obtain r k where w: "eventfd_read K (as_evfd x) (kern s) = (r, k)"
    by (cases "eventfd_read K (as_evfd x) (kern s)")
  have "counter k (as_evfd x) \<noteq> None"
    using eventfd_readD[OF doc x(2) w] x(2) by (auto split: if_splits)
  then show ?thesis using x w by (auto simp: eventfd_clear_def async_ok_def)
qed

text \<open>Every hand-over pushes onto the queue of a thread and sends on its async object. The only system call is
  one write to an eventfd, and all other mailboxes stay usable.\<close>

definition woken :: "('k, 'y) sys_ops_scheme \<Rightarrow> 'k \<Rightarrow> 'k \<Rightarrow> bool" where
  "woken K k k' \<longleftrightarrow> (\<exists>fd. k' = snd (eventfd_write K fd 1 k))"

lemma send_keeps_asyncs:
  fixes s :: "('k, 'z) aheap_scheme"
  assumes doc: "eventfd_doc K counter" and ok: "async_ok counter s a" and send: "xv_async_send K s a = Some (r, s\<lparr>kern := k\<rparr>)"
  shows "woken K (kern s) k" "async_ok counter s a' \<Longrightarrow> async_ok counter (s\<lparr>kern := k\<rparr>) a'"
proof -
  obtain x n where x: "asyncs s a = Some x" "counter (kern s) (as_evfd x) = Some n" "a \<noteq> NULL"
    using ok by (auto simp: async_ok_def)
  obtain r' k' where w: "eventfd_write K (as_evfd x) 1 (kern s) = (r', k')"
    by (cases "eventfd_write K (as_evfd x) 1 (kern s)")
  have "k' = k"
    using send x w by (cases s) (auto simp: xv_async_send_def Let_def split: if_splits)
  then show "woken K (kern s) k" "async_ok counter s a' \<Longrightarrow> async_ok counter (s\<lparr>kern := k\<rparr>) a'"
    using eventfd_writeD[OF doc x(2) w] w by (auto simp: woken_def async_ok_def split: if_splits intro: exI[of _ "as_evfd x"])
qed

lemma hand_over_law:
  fixes s :: "('k, 'z) aheap_scheme"
  assumes mb: "mbox_ok K ctr q a s" and room: "int (length (cq_list s q)) < INT_MAX"
  obtains u r k where "xv_concurrent_queue_push s q x = Some u" "qheap.more u = qheap.more s"
    "xv_async_send K u a = Some (r, u\<lparr>kern := k\<rparr>)" "cq_list (u\<lparr>kern := k\<rparr>) = (cq_list s)(q := cq_list s q @ [x])"
    "eventfd_ready ctr (u\<lparr>kern := k\<rparr>) a" "woken K (kern s) k"
    "\<And>q' a'. mbox_ok K ctr q' a' s \<Longrightarrow> mbox_ok K ctr q' a' (u\<lparr>kern := k\<rparr>)"
proof -
  have d: "eventfd_doc K ctr" "cq_ok s" "live_cq s q" "async_ok ctr s a" using mb by (simp_all add: mbox_ok_def)
  obtain u where u: "xv_concurrent_queue_push s q x = Some u" "cq_ok u" "live_cq u = live_cq s"
    "cq_list u = (cq_list s)(q := cq_list s q @ [x])" "qheap.more u = qheap.more s"
    using cq_push_law[OF d(2,3) room, of x] by blast
  note f = more_fields(1,2)[OF u(5)] and a = async_cong(1)[OF more_fields(1,2)[OF u(5)]]
  obtain r k where k: "xv_async_send K u a = Some (r, u\<lparr>kern := k\<rparr>)" "eventfd_ready ctr (u\<lparr>kern := k\<rparr>) a"
    using send_mbox_law[OF d(1), of u a] d(4) a by blast
  note w = send_keeps_asyncs[OF d(1) d(4)[folded a] k(1)]
  show thesis
    by (rule that[OF u(1,5) k(1) _ k(2)]) (use u(2-4) w a f in \<open>auto simp: mbox_ok_def\<close>)
qed

interpretation xm: mailbox "xv_mbox K counter c a" "mbox_ok K counter c a" "\<lambda>s. cq_list s c"
  for K :: "('k, 'y) sys_ops_scheme" and counter c a
proof unfold_locales
  fix s t :: "('k, 'z) aheap_scheme" and x r xs
  assume ok: "mbox_ok K counter c a s"
  note d = ok[unfolded mbox_ok_def]
  show "mbox_ok K counter c a t \<and> cq_list t c = cq_list s c @ [x] \<and>
      mb_ready (xv_mbox K counter c a) t = mb_ready (xv_mbox K counter c a) s"
    if "mb_push (xv_mbox K counter c a) s x = Some t"
  proof -
    have p: "xv_concurrent_queue_push s c x = Some t" using that by (simp add: xv_mbox_def)
    have t: "cq_ok t" "live_cq t = live_cq s" "cq_list t = (cq_list s)(c := cq_list s c @ [x])" "qheap.more t = qheap.more s"
      using cq_push_law[of s c x] cq_push_room[of s c x t] d p by auto
    show ?thesis
      using t d async_cong[OF more_fields(1,2)[OF t(4)]] by (simp add: mbox_ok_def xv_mbox_def)
  qed
  show "mbox_ok K counter c a t \<and> cq_list t c = cq_list s c \<and> mb_ready (xv_mbox K counter c a) t"
    if "mb_send (xv_mbox K counter c a) s = Some (r, t)"
    using that d send_mbox_law[of K counter s a] by (auto simp: xv_mbox_def mbox_ok_def)
  show "\<exists>t. mb_clear (xv_mbox K counter c a) s = Some t \<and> mbox_ok K counter c a t \<and> cq_list t c = cq_list s c"
    using d clear_mbox_law[of K counter s a] by (auto simp: xv_mbox_def mbox_ok_def)
  show "mb_size (xv_mbox K counter c a) s = Some (int (length (cq_list s c)), s)"
    using d cq_size_law[of s c] by (simp add: xv_mbox_def)
  show "\<exists>t. mb_pop (xv_mbox K counter c a) s = Some (x, t) \<and> mbox_ok K counter c a t \<and> cq_list t c = xs \<and>
      mb_ready (xv_mbox K counter c a) t = mb_ready (xv_mbox K counter c a) s" if cons: "cq_list s c = x # xs"
  proof -
    obtain t where t: "xv_concurrent_queue_pop s c = Some (x, t)" "cq_ok t" "live_cq t = live_cq s"
      "cq_list t = (cq_list s)(c := xs)" "qheap.more t = qheap.more s"
      using cq_pop_cons_law[of s c x xs] d cons by auto
    then show ?thesis
      using d async_cong[OF more_fields(1,2)[OF t(5)]] by (simp add: mbox_ok_def xv_mbox_def)
  qed
qed

subsection \<open>An example mailbox\<close>

definition sim_counter :: "sim_os \<Rightarrow> int \<Rightarrow> nat option" where
  "sim_counter k = map_of (os_counter k)"

lemma sim_eventfd_doc: "eventfd_doc sim_sys sim_counter"
proof -
  have "map_of cs (foldr max (map fst cs @ xs) (3 :: int) + 1) = None" for cs :: "(int \<times> nat) list" and xs
    using fresh_fd(1)[of _ "map fst cs @ xs"] by (auto simp: map_of_eq_None_iff)
  then show ?thesis
    using fresh_fd(2)
    by (auto simp: eventfd_doc_def sim_counter_def sim_sys_def os_new_fd_def Let_def simp del: foldr_append
        split: if_splits)
qed

text \<open>An async object at address 3 on the eventfd 4, and an empty concurrent queue at address 4.\<close>

definition ex_async :: "sim_os aheap" where
  "ex_async = \<lparr>brk = 3, nodes = Map.empty, queues = Map.empty, cqueues = Map.empty,
     kern = os_start\<lparr>os_open := [4], os_counter := [(4, 0)]\<rparr>, pollers = Map.empty, fired_arrays = Map.empty,
     ios = Map.empty, loops = Map.empty, event_arrays = Map.empty,
     asyncs = [3 \<mapsto> \<lparr>as_evfd = 4, as_cb = Some (User_async_cb 0), as_userdata = NULL, as_read_io = NULL\<rparr>]\<rparr>"

definition ex_mbox :: "sim_os aheap" where
  "ex_mbox = snd (xv_concurrent_queue_init ex_async)"

lemma ex_mbox_ok: "mbox_ok sim_sys sim_counter 4 3 ex_mbox" "cq_list ex_mbox 4 = []"
proof -
  obtain c where i: "xv_concurrent_queue_init ex_async = (c, ex_mbox)"
    by (cases "xv_concurrent_queue_init ex_async") (simp add: ex_mbox_def)
  have ok: "cq_ok ex_async" by (simp add: cq_ok_def qheap_ok_def queue_nodes_def ex_async_def)
  note law = cq_init_law[OF ok i]
  have c: "c = 4" using law(5) by (simp add: ex_async_def)
  show "cq_list ex_mbox 4 = []" using law(2) c by simp
  have "async_ok sim_counter ex_mbox 3"
    unfolding async_cong(1)[OF more_fields(1,2)[OF law(6)]]
    by (simp add: async_ok_def ex_async_def sim_counter_def)
  then show "mbox_ok sim_sys sim_counter 4 3 ex_mbox"
    using law(1,3) c sim_eventfd_doc by (simp add: mbox_ok_def)
qed

lemma ex_mbox_run:
  "\<exists>s. mbox_reach (xv_mbox sim_sys sim_counter 4 3) ex_mbox s \<and> mb_sent s = [7] \<and> mb_got s = [] \<and>
     mb_consumer s = C_Wait \<and> (\<forall>i. mb_producers s i = P_Idle)"
proof -
  let ?M = "xv_mbox sim_sys sim_counter 4 3 :: sim_os aheap mbox_ops"
  note ok = ex_mbox_ok(1)[unfolded mbox_ok_def]
  obtain h where h: "xv_concurrent_queue_push ex_mbox 4 7 = Some h"
    using cq_push_law[of ex_mbox 4 7] ok ex_mbox_ok(2) by (auto simp: INT_MAX_def)
  define s1 where "s1 = (mbox_start ex_mbox)\<lparr>mb_state := h,
    mb_producers := (mb_producers (mbox_start ex_mbox))(1 := P_Pushed), mb_sent := mb_sent (mbox_start ex_mbox) @ [7]\<rparr>"
  have st1: "mbox_step ?M (mbox_start ex_mbox) s1"
    unfolding s1_def by (rule mbox_step.push) (use h in \<open>simp_all add: mbox_start_def xv_mbox_def\<close>)
  have r1: "mbox_reach ?M ex_mbox s1" by (rule mbox_reach.step[OF mbox_reach.start st1])
  have "mbox_ok sim_sys sim_counter 4 3 h"
    using xm.reach_inv[OF ex_mbox_ok r1] by (simp add: mbox_inv_def s1_def)
  then obtain r k where k: "xv_async_send sim_sys h 3 = Some (r, h\<lparr>kern := k\<rparr>)"
    using send_mbox_law[of sim_sys sim_counter h 3] by (auto simp: mbox_ok_def)
  define s2 where "s2 = s1\<lparr>mb_state := h\<lparr>kern := k\<rparr>, mb_producers := (mb_producers s1)(1 := P_Idle)\<rparr>"
  have "mbox_step ?M s1 s2"
    unfolding s2_def by (rule mbox_step.send) (use k in \<open>simp_all add: s1_def xv_mbox_def\<close>)
  then have "mbox_reach ?M ex_mbox s2" by (rule mbox_reach.step[OF r1])
  then show ?thesis
    by (intro exI[of _ s2]) (simp add: s2_def s1_def mbox_start_def)
qed

subsection \<open>No item and no wake-up is lost\<close>

text \<open>C6. Hand-over: for any number of producers and every interleaving, the items the consumer has
  received followed by those still queued are exactly the items handed in, in that order; and a
  consumer that sleeps while items are queued has its eventfd readable, unless some producer is still
  between its push and its send.\<close>

theorem mailbox_no_loss:
  assumes "mbox_ok K counter c a h" "cq_list h c = []" "mbox_reach (xv_mbox K counter c a) h s"
  shows "mb_sent s = mb_got s @ cq_list (mb_state s) c \<and>
    (mb_consumer s = C_Wait \<and> (\<forall>i. mb_producers s i = P_Idle) \<longrightarrow> cq_list (mb_state s) c \<noteq> [] \<longrightarrow>
       eventfd_ready counter (mb_state s) a)"
  using xm.reach_inv[OF assms] by (auto simp: mbox_inv_def xv_mbox_def)

theorem mailbox_no_loss_witness:
  "\<exists>s. mbox_reach (xv_mbox sim_sys sim_counter 4 3) ex_mbox s \<and> cq_list (mb_state s) 4 = [7] \<and>
     eventfd_ready sim_counter (mb_state s) 3"
proof -
  obtain s where s: "mbox_reach (xv_mbox sim_sys sim_counter 4 3) ex_mbox s" "mb_sent s = [7]" "mb_got s = []"
    "mb_consumer s = C_Wait" "\<forall>i. mb_producers s i = P_Idle"
    using ex_mbox_run by blast
  then show ?thesis using mailbox_no_loss[OF ex_mbox_ok s(1)] by (intro exI[of _ s]) simp
qed

text \<open>C8. Delivery: from every reachable state in which no producer is inside a call, steps of the
  consumer alone reach a state in which it has received every item handed in and sleeps again.\<close>

theorem mailbox_delivers:
  assumes "mbox_ok K counter c a h" "cq_list h c = []" "mbox_reach (xv_mbox K counter c a) h s"
    and "\<forall>i. mb_producers s i = P_Idle"
  shows "\<exists>t. consumer_steps (xv_mbox K counter c a) s t \<and> mb_got t = mb_sent s \<and> mb_consumer t = C_Wait \<and>
    cq_list (mb_state t) c = []"
proof -
  obtain t where t: "consumer_steps (xv_mbox K counter c a) s t" "mb_got t = mb_sent s" "mb_consumer t = C_Wait"
    "mbox_inv (xv_mbox K counter c a) (mbox_ok K counter c a) (\<lambda>s. cq_list s c) t"
    using xm.deliver[OF xm.reach_inv[OF assms(1,2,3)] assms(4)] by blast
  have "mb_sent u = mb_sent s" if "consumer_steps (xv_mbox K counter c a) s u" for u
    using that by (induction rule: consumer_steps.induct) simp_all
  then show ?thesis
    using t by (auto simp: mbox_inv_def intro!: exI[of _ t])
qed

theorem mailbox_delivers_witness:
  "\<exists>s t. mbox_reach (xv_mbox sim_sys sim_counter 4 3) ex_mbox s \<and> mb_got s = [] \<and>
     consumer_steps (xv_mbox sim_sys sim_counter 4 3) s t \<and> mb_got t = [7]"
proof -
  obtain s where s: "mbox_reach (xv_mbox sim_sys sim_counter 4 3) ex_mbox s" "mb_sent s = [7]" "mb_got s = []"
    "\<forall>i. mb_producers s i = P_Idle"
    using ex_mbox_run by blast
  then show ?thesis using mailbox_delivers[OF ex_mbox_ok s(1,4)] by auto
qed

end
