(* ===== verification/Xv_Pool.thy ===== *)
theory Xv_Pool
  imports Xv_Mailbox
begin

section \<open>Worker threads and the thread pool (\<^verbatim>\<open>src/src/xv_th_pool.c\<close>)\<close>

text \<open>
  A worker owns a loop, an async object and a concurrent queue of tasks; a pool is an array of
  workers. \<open>run\<close> is the code the callbacks of tasks name. Creating and joining threads are
  parameters: \<open>pth_join\<close> returns the state as it is when the joined thread has ended, so it contains
  everything the other threads did meanwhile.
\<close>

subsection \<open>Data\<close>

datatype task_cb = Thread_pool_task_cb | User_task_cb nat

datatype thread_entry = Worker_entry | Io_thread_entry

record xv_task_t =
  t_cb :: "task_cb option"
  t_args :: addr

text \<open>The thread id is \<open>None\<close> until \<^verbatim>\<open>pthread_create\<close> has stored it.\<close>

record xv_worker_thread_t =
  w_task_queue :: addr
  w_loop :: addr
  w_async :: addr
  w_id :: "tid option"
  w_start :: bool

record xv_thread_pool_t =
  tp_threads :: addr
  tp_thread_count :: int
  tp_start :: bool

record 'k wheap = "'k aheap" +
  tasks :: "addr \<rightharpoonup> xv_task_t"
  workers :: "addr \<rightharpoonup> xv_worker_thread_t"
  pools :: "addr \<rightharpoonup> xv_thread_pool_t"
  thread_arrays :: "addr \<rightharpoonup> addr option list"

record 's pthread_ops =
  pth_create :: "thread_entry \<Rightarrow> addr \<Rightarrow> 's \<Rightarrow> int \<times> tid \<times> 's"
  pth_join :: "tid \<Rightarrow> 's \<Rightarrow> (int \<times> 's) option"

subsection \<open>Worker threads\<close>

text \<open>The loop of \<^verbatim>\<open>worker_async_cb\<close>.\<close>

partial_function (option) worker_drain ::
  "(task_cb \<Rightarrow> addr \<Rightarrow> ('k, 'z) wheap_scheme \<Rightarrow> ('k, 'z) wheap_scheme option) \<Rightarrow>
   addr \<Rightarrow> ('k, 'z) wheap_scheme \<Rightarrow> ('k, 'z) wheap_scheme option" where
  "worker_drain run thread s = do {
     w \<leftarrow> deref (workers s) thread;
     (n, s) \<leftarrow> xv_concurrent_queue_size s (w_task_queue w);
     if 0 < n
     then do {
       (task, s) \<leftarrow> xv_concurrent_queue_pop s (w_task_queue w);
       s \<leftarrow> (if task = NULL then Some s
            else do {
              t \<leftarrow> deref (tasks s) task;
              case t_cb t of
                None \<Rightarrow> Some s
              | Some cb \<Rightarrow> do {
                  s \<leftarrow> run cb (t_args t) s;
                  h \<leftarrow> xv_free (tasks s) task;
                  Some (s\<lparr>tasks := h\<rparr>) } });
       worker_drain run thread s }
     else Some s }"

definition worker_async_cb ::
  "(task_cb \<Rightarrow> addr \<Rightarrow> ('k, 'z) wheap_scheme \<Rightarrow> ('k, 'z) wheap_scheme option) \<Rightarrow>
   addr \<Rightarrow> addr \<Rightarrow> ('k, 'z) wheap_scheme \<Rightarrow> ('k, 'z) wheap_scheme option" where
  "worker_async_cb run loop async s = do {
     thread \<leftarrow> xv_async_get_userdata s async;
     s \<leftarrow> worker_drain run thread s;
     w \<leftarrow> deref (workers s) thread;
     if \<not> w_start w then xv_loop_break s loop else Some s }"

partial_function (option) worker_entry ::
  "('k, 'y) sys_ops_scheme \<Rightarrow>
   (io_cb \<Rightarrow> addr \<Rightarrow> addr \<Rightarrow> ('k, 'z) wheap_scheme \<Rightarrow> ('k, 'z) wheap_scheme option) \<Rightarrow>
   addr \<Rightarrow> ('k, 'z) wheap_scheme \<Rightarrow> ('k, 'z) wheap_scheme option" where
  "worker_entry K call thread s = do {
     w \<leftarrow> deref (workers s) thread;
     if w_start w
     then do { s \<leftarrow> xv_loop_run K call s (w_loop w); worker_entry K call thread s }
     else Some s }"

definition xv_worker_thread_init ::
  "('k, 'y) sys_ops_scheme \<Rightarrow> ('k, 'z) wheap_scheme \<Rightarrow> (addr \<times> ('k, 'z) wheap_scheme) option" where
  "xv_worker_thread_init K s = do {
     let (thread, s) = xv_malloc s;
     let (queue, s) = xv_concurrent_queue_init s;
     let (loop, s) = xv_loop_init K s 1024;
     (async, s) \<leftarrow> xv_async_init K s (Some Worker_async_cb);
     s \<leftarrow> xv_async_set_userdata s async thread;
     Some (thread, s\<lparr>workers := (workers s)(thread \<mapsto>
       \<lparr>w_task_queue = queue, w_loop = loop, w_async = async, w_id = None, w_start = False\<rparr>)\<rparr>) }"

definition xv_worker_thread_stop ::
  "('k, 'z) wheap_scheme \<Rightarrow> addr \<Rightarrow> (int \<times> ('k, 'z) wheap_scheme) option" where
  "xv_worker_thread_stop s thread = do {
     w \<leftarrow> deref (workers s) thread;
     Some (XV_OK, s\<lparr>workers := (workers s)(thread \<mapsto> w\<lparr>w_start := False\<rparr>)\<rparr>) }"

text \<open>The queue of a destroyed worker is destroyed with \<^verbatim>\<open>xv_free\<close> as its callback.\<close>

definition free_task :: "addr \<Rightarrow> ('k, 'z) wheap_scheme \<Rightarrow> ('k, 'z) wheap_scheme option" where
  "free_task p s = do { h \<leftarrow> xv_free (tasks s) p; Some (s\<lparr>tasks := h\<rparr>) }"

definition xv_worker_thread_destroy ::
  "('k, 'y) sys_ops_scheme \<Rightarrow> ('k, 'z) wheap_scheme pthread_ops \<Rightarrow> ('k, 'z) wheap_scheme \<Rightarrow> addr \<Rightarrow>
   ('k, 'z) wheap_scheme option" where
  "xv_worker_thread_destroy K P s thread = do {
     (_, s) \<leftarrow> xv_worker_thread_stop s thread;
     w \<leftarrow> deref (workers s) thread;
     (_, s) \<leftarrow> xv_async_send K s (w_async w);
     w \<leftarrow> deref (workers s) thread;
     id \<leftarrow> w_id w;
     (_, s) \<leftarrow> pth_join P id s;
     w \<leftarrow> deref (workers s) thread;
     (_, s) \<leftarrow> xv_async_stop K s (w_loop w) (w_async w);
     (_, s) \<leftarrow> xv_async_destroy K s (w_async w);
     s \<leftarrow> xv_loop_destroy s (w_loop w);
     s \<leftarrow> xv_concurrent_queue_destroy s (w_task_queue w) (Some free_task);
     h \<leftarrow> xv_free (workers s) thread;
     Some (s\<lparr>workers := h\<rparr>) }"

definition xv_worker_thread_start ::
  "('k, 'y) sys_ops_scheme \<Rightarrow> ('k, 'z) wheap_scheme pthread_ops \<Rightarrow> ('k, 'z) wheap_scheme \<Rightarrow> addr \<Rightarrow>
   (int \<times> ('k, 'z) wheap_scheme) option" where
  "xv_worker_thread_start K P s thread = do {
     w \<leftarrow> deref (workers s) thread;
     if w_start w then Some (XV_ERR, s)
     else do {
       let s = s\<lparr>workers := (workers s)(thread \<mapsto> w\<lparr>w_start := True\<rparr>)\<rparr>;
       (ret, s) \<leftarrow> xv_async_start K s (w_loop w) (w_async w);
       if ret \<noteq> XV_OK then Some (XV_ERR, s)
       else do {
         let (ret, id, s) = pth_create P Worker_entry thread s;
         if ret \<noteq> 0 then Some (XV_ERR, s)
         else do {
           w \<leftarrow> deref (workers s) thread;
           Some (XV_OK, s\<lparr>workers := (workers s)(thread \<mapsto> w\<lparr>w_id := Some id\<rparr>)\<rparr>) } } } }"

definition xv_worker_thread_push_task ::
  "('k, 'y) sys_ops_scheme \<Rightarrow> ('k, 'z) wheap_scheme \<Rightarrow> addr \<Rightarrow> task_cb option \<Rightarrow> addr \<Rightarrow>
   (int \<times> ('k, 'z) wheap_scheme) option" where
  "xv_worker_thread_push_task K s thread cb args = do {
     let (task, s) = xv_malloc s;
     let s = s\<lparr>tasks := (tasks s)(task \<mapsto> \<lparr>t_cb = cb, t_args = args\<rparr>)\<rparr>;
     w \<leftarrow> deref (workers s) thread;
     s \<leftarrow> xv_concurrent_queue_push s (w_task_queue w) task;
     (_, s) \<leftarrow> xv_async_send K s (w_async w);
     Some (XV_OK, s) }"

definition xv_worker_thread_task_count ::
  "('k, 'z) wheap_scheme \<Rightarrow> addr \<Rightarrow> (int \<times> ('k, 'z) wheap_scheme) option" where
  "xv_worker_thread_task_count s thread = do {
     w \<leftarrow> deref (workers s) thread;
     xv_concurrent_queue_size s (w_task_queue w) }"

subsection \<open>The pool\<close>

text \<open>\<open>threads[i]\<close>, with an index outside the array and a cell never assigned undefined.\<close>

definition pool_thread :: "('k, 'z) wheap_scheme \<Rightarrow> xv_thread_pool_t \<Rightarrow> int \<Rightarrow> addr option" where
  "pool_thread s p i = do {
     arr \<leftarrow> deref (thread_arrays s) (tp_threads p);
     cell \<leftarrow> arr_get arr i;
     cell }"

text \<open>The loop of \<^verbatim>\<open>xv_thread_pool_init\<close>, then the loops over the workers of a pool.\<close>

fun pool_init_loop ::
  "('k, 'y) sys_ops_scheme \<Rightarrow> addr \<Rightarrow> nat \<Rightarrow> int \<Rightarrow> ('k, 'z) wheap_scheme \<Rightarrow> ('k, 'z) wheap_scheme option" where
  "pool_init_loop K threads 0 i s = Some s"
| "pool_init_loop K threads (Suc n) i s = do {
     (thread, s) \<leftarrow> xv_worker_thread_init K s;
     arr \<leftarrow> deref (thread_arrays s) threads;
     arr \<leftarrow> arr_set arr i (Some thread);
     pool_init_loop K threads n (i + 1) (s\<lparr>thread_arrays := (thread_arrays s)(threads \<mapsto> arr)\<rparr>) }"

fun pool_iter ::
  "(('k, 'z) wheap_scheme \<Rightarrow> addr \<Rightarrow> ('k, 'z) wheap_scheme option) \<Rightarrow> addr \<Rightarrow> nat \<Rightarrow> int \<Rightarrow>
   ('k, 'z) wheap_scheme \<Rightarrow> ('k, 'z) wheap_scheme option" where
  "pool_iter f pool 0 i s = Some s"
| "pool_iter f pool (Suc n) i s = do {
     p \<leftarrow> deref (pools s) pool;
     thread \<leftarrow> pool_thread s p i;
     s \<leftarrow> f s thread;
     pool_iter f pool n (i + 1) s }"

definition xv_thread_pool_init ::
  "('k, 'y) sys_ops_scheme \<Rightarrow> ('k, 'z) wheap_scheme \<Rightarrow> int \<Rightarrow> (addr \<times> ('k, 'z) wheap_scheme) option" where
  "xv_thread_pool_init K s thread_count = do {
     let (pool, s) = xv_malloc s;
     let (threads, s) = xv_malloc s;
     let s = s\<lparr>thread_arrays := (thread_arrays s)(threads \<mapsto> replicate (nat thread_count) None)\<rparr>;
     s \<leftarrow> pool_init_loop K threads (nat thread_count) 0 s;
     Some (pool, s\<lparr>pools := (pools s)(pool \<mapsto>
       \<lparr>tp_threads = threads, tp_thread_count = thread_count, tp_start = False\<rparr>)\<rparr>) }"

definition xv_thread_pool_stop ::
  "('k, 'z) wheap_scheme \<Rightarrow> addr \<Rightarrow> (int \<times> ('k, 'z) wheap_scheme) option" where
  "xv_thread_pool_stop s pool = do {
     p \<leftarrow> deref (pools s) pool;
     s \<leftarrow> pool_iter (\<lambda>s thread. map_option snd (xv_worker_thread_stop s thread)) pool (nat (tp_thread_count p)) 0 s;
     Some (XV_OK, s) }"

definition xv_thread_pool_start ::
  "('k, 'y) sys_ops_scheme \<Rightarrow> ('k, 'z) wheap_scheme pthread_ops \<Rightarrow> ('k, 'z) wheap_scheme \<Rightarrow> addr \<Rightarrow>
   (int \<times> ('k, 'z) wheap_scheme) option" where
  "xv_thread_pool_start K P s pool = do {
     p \<leftarrow> deref (pools s) pool;
     if tp_start p then Some (XV_ERR, s)
     else do {
       s \<leftarrow> pool_iter (\<lambda>s thread. map_option snd (xv_worker_thread_start K P s thread)) pool
              (nat (tp_thread_count p)) 0 s;
       Some (XV_OK, s) } }"

definition xv_thread_pool_destroy ::
  "('k, 'y) sys_ops_scheme \<Rightarrow> ('k, 'z) wheap_scheme pthread_ops \<Rightarrow> ('k, 'z) wheap_scheme \<Rightarrow> addr \<Rightarrow>
   ('k, 'z) wheap_scheme option" where
  "xv_thread_pool_destroy K P s pool = do {
     (_, s) \<leftarrow> xv_thread_pool_stop s pool;
     p \<leftarrow> deref (pools s) pool;
     s \<leftarrow> pool_iter (xv_worker_thread_destroy K P) pool (nat (tp_thread_count p)) 0 s;
     p \<leftarrow> deref (pools s) pool;
     ta \<leftarrow> xv_free (thread_arrays s) (tp_threads p);
     h \<leftarrow> xv_free (pools s) pool;
     Some (s\<lparr>thread_arrays := ta, pools := h\<rparr>) }"

definition xv_thread_pool_push_task ::
  "('k, 'y) sys_ops_scheme \<Rightarrow> ('k, 'z) wheap_scheme \<Rightarrow> addr \<Rightarrow> task_cb option \<Rightarrow> addr \<Rightarrow> int \<Rightarrow>
   (int \<times> ('k, 'z) wheap_scheme) option" where
  "xv_thread_pool_push_task K s pool cb args hashcode = do {
     p \<leftarrow> deref (pools s) pool;
     index \<leftarrow> c_mod hashcode (tp_thread_count p);
     thread \<leftarrow> pool_thread s p index;
     xv_worker_thread_push_task K s thread cb args }"

fun pool_count_loop ::
  "addr \<Rightarrow> nat \<Rightarrow> int \<Rightarrow> int \<Rightarrow> ('k, 'z) wheap_scheme \<Rightarrow> (int \<times> ('k, 'z) wheap_scheme) option" where
  "pool_count_loop pool 0 i count s = Some (count, s)"
| "pool_count_loop pool (Suc n) i count s = do {
     p \<leftarrow> deref (pools s) pool;
     thread \<leftarrow> pool_thread s p i;
     (c, s) \<leftarrow> xv_worker_thread_task_count s thread;
     count \<leftarrow> c_int (count + c);
     pool_count_loop pool n (i + 1) count s }"

definition xv_thread_pool_task_count ::
  "('k, 'z) wheap_scheme \<Rightarrow> addr \<Rightarrow> (int \<times> ('k, 'z) wheap_scheme) option" where
  "xv_thread_pool_task_count s pool = do {
     p \<leftarrow> deref (pools s) pool;
     pool_count_loop pool (nat (tp_thread_count p)) 0 0 s }"

subsection \<open>Frames\<close>

text \<open>Allocating elsewhere keeps the queues.\<close>

lemma cq_brk_mono:
  assumes b: "brk s \<le> brk t" and h: "nodes t = nodes s" "queues t = queues s" "cqueues t = cqueues s"
  shows "cq_ok s \<Longrightarrow> cq_ok t" "cq_list t = cq_list s" "live_cq t = live_cq s"
proof -
  note q = queue_nodes_cong[OF h(1,2)] qheap_cong(1,2)[OF h(1,2)]
  show "cq_ok t" if ok: "cq_ok s"
  proof -
    have repr: "queue_repr t = queue_repr s" by (intro ext) (simp add: queue_repr_def h)
    have "qheap_ok s" using ok by (simp add: cq_ok_def)
    then have "qheap_ok t"
      unfolding qheap_ok_def q(1) h repr using b by (blast intro: order_trans)
    then show ?thesis
      using ok b unfolding cq_ok_def q(3) h by (blast intro: order_trans)
  qed
  show "cq_list t = cq_list s" by (rule ext) (simp add: cq_list_def q h cong: option.case_cong)
  show "live_cq t = live_cq s" by (rule ext) (simp add: live_cq_def h)
qed

lemma more_wheap:
  fixes s t :: "('k, 'z) wheap_scheme"
  assumes "qheap.more t = qheap.more s"
  shows "tasks t = tasks s" "workers t = workers s" "pools t = pools s" "thread_arrays t = thread_arrays s"
    "wheap.more t = wheap.more s" "kern t = kern s" "asyncs t = asyncs s" "loops t = loops s"
  using assms by (cases s; cases t; simp)+

subsection \<open>Pushing tasks\<close>

definition worker_ok ::
  "('k, 'y) sys_ops_scheme \<Rightarrow> ('k \<Rightarrow> int \<Rightarrow> nat option) \<Rightarrow> ('k, 'z) wheap_scheme \<Rightarrow> addr \<Rightarrow> xv_worker_thread_t \<Rightarrow> bool" where
  "worker_ok K counter s th w \<longleftrightarrow>
     th \<noteq> NULL \<and> workers s th = Some w \<and> mbox_ok K counter (w_task_queue w) (w_async w) s"

definition pool_ok ::
  "('k, 'y) sys_ops_scheme \<Rightarrow> ('k \<Rightarrow> int \<Rightarrow> nat option) \<Rightarrow> ('k, 'z) wheap_scheme \<Rightarrow> addr \<Rightarrow> addr list \<Rightarrow> bool" where
  "pool_ok K counter s pool ths \<longleftrightarrow> pool \<noteq> NULL \<and>
     (\<exists>p. pools s pool = Some p \<and> tp_thread_count p = int (length ths) \<and> tp_threads p \<noteq> NULL \<and>
        thread_arrays s (tp_threads p) = Some (map Some ths)) \<and>
     (\<forall>th \<in> set ths. \<exists>w. worker_ok K counter s th w)"

lemma pool_thread_ok:
  assumes "pool_ok K counter s pool ths" "pools s pool = Some p"
  shows "pool_thread s p i = (if 0 \<le> i \<and> i < int (length ths) then Some (ths ! nat i) else None)"
  using assms by (auto simp: pool_ok_def pool_thread_def arr_get_def)

text \<open>A mailbox survives allocation and changes to the fields of the pool.\<close>

lemma mbox_ok_frame:
  fixes s t :: "('k, 'z) wheap_scheme"
  assumes "mbox_ok K counter c a s" "brk s \<le> brk t" "nodes t = nodes s" "queues t = queues s" "cqueues t = cqueues s"
    "kern t = kern s" "asyncs t = asyncs s"
  shows "mbox_ok K counter c a t" "cq_list t = cq_list s"
  using assms cq_brk_mono[OF assms(2,3,4,5)] async_cong(1)[OF assms(6,7)] by (simp_all add: mbox_ok_def)

lemma pool_ok_frame:
  fixes s t :: "('k, 'z) wheap_scheme"
  assumes "pool_ok K counter s pool ths" "brk s \<le> brk t" "nodes t = nodes s" "queues t = queues s" "cqueues t = cqueues s"
    "kern t = kern s" "asyncs t = asyncs s" "workers t = workers s" "pools t = pools s" "thread_arrays t = thread_arrays s"
  shows "pool_ok K counter t pool ths"
  using assms(1) mbox_ok_frame(1)[OF _ assms(2-7)] unfolding pool_ok_def worker_ok_def assms(8-10) by blast

lemma worker_push_law:
  fixes s :: "('k, 'z) wheap_scheme"
  assumes ok: "worker_ok K counter s th w" and room: "int (length (cq_list s (w_task_queue w))) < INT_MAX"
  shows "\<exists>t. xv_worker_thread_push_task K s th cb args = Some (XV_OK, t) \<and>
     tasks t = (tasks s)(Suc (brk s) \<mapsto> \<lparr>t_cb = cb, t_args = args\<rparr>) \<and>
     cq_list t = (cq_list s)(w_task_queue w := cq_list s (w_task_queue w) @ [Suc (brk s)]) \<and>
     eventfd_ready counter t (w_async w) \<and>
     (\<exists>k. woken K (kern s) k \<and> qheap.more t = qheap.more (s\<lparr>kern := k, tasks := tasks t\<rparr>)) \<and>
     (\<forall>q a. mbox_ok K counter q a s \<longrightarrow> mbox_ok K counter q a t)"
proof -
  let ?q = "w_task_queue w" and ?a = "w_async w"
  define s1 where "s1 = s\<lparr>brk := Suc (brk s), tasks := (tasks s)(Suc (brk s) \<mapsto> \<lparr>t_cb = cb, t_args = args\<rparr>)\<rparr>"
  have w: "th \<noteq> NULL" "workers s th = Some w" "mbox_ok K counter ?q ?a s"
    using ok by (simp_all add: worker_ok_def)
  have m: "mbox_ok K counter q a s1" if "mbox_ok K counter q a s" for q a
    by (rule mbox_ok_frame(1)[OF that]) (simp_all add: s1_def)
  have l: "cq_list s1 = cq_list s" by (rule cq_brk_mono) (simp_all add: s1_def)
  obtain u r k where u: "xv_concurrent_queue_push s1 ?q (Suc (brk s)) = Some u" "qheap.more u = qheap.more s1"
    "xv_async_send K u ?a = Some (r, u\<lparr>kern := k\<rparr>)" "cq_list (u\<lparr>kern := k\<rparr>) = (cq_list s)(?q := cq_list s ?q @ [Suc (brk s)])"
    "eventfd_ready counter (u\<lparr>kern := k\<rparr>) ?a" "woken K (kern s1) k"
    "\<And>q a. mbox_ok K counter q a s1 \<Longrightarrow> mbox_ok K counter q a (u\<lparr>kern := k\<rparr>)"
    using hand_over_law[OF m[OF w(3)], of "Suc (brk s)"] room unfolding l by blast
  have run: "xv_worker_thread_push_task K s th cb args = Some (XV_OK, u\<lparr>kern := k\<rparr>)"
    using w u(1,3) by (simp add: xv_worker_thread_push_task_def xv_malloc_def s1_def)
  have fr: "tasks u = tasks s1" "qheap.more (u\<lparr>kern := k\<rparr>) = qheap.more (s\<lparr>kern := k, tasks := tasks u\<rparr>)"
    using u(2) by (cases s; cases u; simp add: s1_def)+
  show ?thesis
    using run u(4,5,6,7) m fr by (intro exI[of _ "u\<lparr>kern := k\<rparr>"]) (auto simp: s1_def)
qed

text \<open>The pool of the examples: workers 7 and 8, with queues 13 and 15 and async objects 1 and 2.\<close>

definition ex_worker :: "addr \<Rightarrow> addr \<Rightarrow> xv_worker_thread_t" where
  "ex_worker q a = \<lparr>w_task_queue = q, w_loop = 11, w_async = a, w_id = None, w_start = False\<rparr>"

definition ex_pool0 :: "'u \<Rightarrow> (sim_os, 'u) wheap_scheme" where
  "ex_pool0 u = \<lparr>brk = 12, nodes = Map.empty, queues = Map.empty, cqueues = Map.empty,
     kern = os_start\<lparr>os_open := [4, 5], os_counter := [(4, 0), (5, 0)]\<rparr>, pollers = Map.empty,
     fired_arrays = Map.empty, ios = Map.empty,
     loops = [11 \<mapsto> \<lparr>l_poller_data = NULL, l_events = NULL, l_fired_events = NULL, l_setsize = 0, l_start = True\<rparr>],
     event_arrays = Map.empty,
     asyncs = [1 \<mapsto> \<lparr>as_evfd = 4, as_cb = Some Worker_async_cb, as_userdata = 7, as_read_io = NULL\<rparr>,
               2 \<mapsto> \<lparr>as_evfd = 5, as_cb = Some Worker_async_cb, as_userdata = 8, as_read_io = NULL\<rparr>],
     tasks = Map.empty, workers = [7 \<mapsto> ex_worker 13 1, 8 \<mapsto> ex_worker 15 2],
     pools = [9 \<mapsto> \<lparr>tp_threads = 10, tp_thread_count = 2, tp_start = False\<rparr>],
     thread_arrays = [10 \<mapsto> [Some 7, Some 8]], \<dots> = u\<rparr>"

definition ex_pool :: "'u \<Rightarrow> (sim_os, 'u) wheap_scheme" where
  "ex_pool u = snd (xv_concurrent_queue_init (snd (xv_concurrent_queue_init (ex_pool0 u))))"

lemma ex_pool_facts:
  "qheap.more (ex_pool u) = qheap.more (ex_pool0 u)" "brk (ex_pool u) = 16" "cq_ok (ex_pool u)" "live_cq (ex_pool u) 13" "live_cq (ex_pool u) 15"
  "cq_list (ex_pool u) 13 = []" "cq_list (ex_pool u) 15 = []"
proof -
  obtain c1 s1 where i1: "xv_concurrent_queue_init (ex_pool0 u) = (c1, s1)" by fastforce
  obtain c2 s2 where i2: "xv_concurrent_queue_init s1 = (c2, s2)" by fastforce
  have ex: "ex_pool u = s2" by (simp add: ex_pool_def i1 i2)
  have "cq_ok (ex_pool0 u)" by (simp add: cq_ok_def qheap_ok_def queue_nodes_def ex_pool0_def)
  note l1 = cq_init_law[OF this i1]
  note l2 = cq_init_law[OF l1(1) i2]
  have c: "c1 = 13" "c2 = 15" using l1(5,7) l2(5) by (simp_all add: ex_pool0_def)
  show "qheap.more (ex_pool u) = qheap.more (ex_pool0 u)" "brk (ex_pool u) = 16" "cq_ok (ex_pool u)" "live_cq (ex_pool u) 13" "live_cq (ex_pool u) 15"
    "cq_list (ex_pool u) 13 = []" "cq_list (ex_pool u) 15 = []"
    using l1 l2 c by (simp_all add: ex ex_pool0_def)
qed

lemmas ex_pool_more = more_wheap[OF ex_pool_facts(1)]

lemma ex_pool_ok: "pool_ok sim_sys sim_counter (ex_pool u) 9 [7, 8]"
proof -
  have a: "async_ok sim_counter (ex_pool u) 1" "async_ok sim_counter (ex_pool u) 2"
    by (simp_all add: async_ok_def ex_pool_more) (simp_all add: ex_pool0_def sim_counter_def)
  have "worker_ok sim_sys sim_counter (ex_pool u) 7 (ex_worker 13 1)" "worker_ok sim_sys sim_counter (ex_pool u) 8 (ex_worker 15 2)"
    using a sim_eventfd_doc
    by (simp_all add: worker_ok_def mbox_ok_def ex_worker_def ex_pool_more ex_pool_facts)
       (simp_all add: ex_pool0_def ex_worker_def)
  then show ?thesis
    by (auto simp: pool_ok_def ex_pool_more) (simp_all add: ex_pool0_def)
qed

lemma pool_push_law:
  fixes s :: "('k, 'z) wheap_scheme"
  assumes pool: "pool_ok K counter s pool ths" "ths \<noteq> []" and hash: "0 \<le> hashcode" "hashcode \<le> INT_MAX"
    and th: "th = ths ! nat (hashcode mod int (length ths))" "workers s th = Some w"
    and room: "int (length (cq_list s (w_task_queue w))) < INT_MAX"
  shows "\<exists>t. xv_thread_pool_push_task K s pool cb args hashcode = Some (XV_OK, t) \<and>
     tasks t = (tasks s)(Suc (brk s) \<mapsto> \<lparr>t_cb = cb, t_args = args\<rparr>) \<and>
     cq_list t = (cq_list s)(w_task_queue w := cq_list s (w_task_queue w) @ [Suc (brk s)]) \<and>
     eventfd_ready counter t (w_async w) \<and>
     (\<exists>k. woken K (kern s) k \<and> qheap.more t = qheap.more (s\<lparr>kern := k, tasks := tasks t\<rparr>)) \<and>
     (\<forall>q a. mbox_ok K counter q a s \<longrightarrow> mbox_ok K counter q a t)"
proof -
  obtain p where p: "pool \<noteq> NULL" "pools s pool = Some p" "tp_thread_count p = int (length ths)"
    using pool(1) by (auto simp: pool_ok_def)
  define i where "i = hashcode mod int (length ths)"
  have i: "0 \<le> i" "i < int (length ths)" using pool(2) by (simp_all add: i_def)
  have "i \<le> hashcode" unfolding i_def using hash(1) by (rule zmod_le_nonneg_dividend)
  then have m: "c_mod hashcode (tp_thread_count p) = Some i"
    using p(3) pool(2) hash i by (simp add: c_mod_def smod_nonneg c_int_in_range i_def)
  have "th \<in> set ths" using th(1) i by (simp add: i_def)
  then have "worker_ok K counter s th w"
    using pool(1) th(2) by (auto simp: pool_ok_def worker_ok_def)
  then show ?thesis
    using worker_push_law[OF _ room, of K counter th cb args] p m pool_thread_ok[OF pool(1) p(2), of i] i th(1)
    by (auto simp: xv_thread_pool_push_task_def i_def)
qed

text \<open>C22. \<^verbatim>\<open>xv_thread_pool_push_task\<close> with a non-negative hash code returns \<open>XV_OK\<close>, appends one new task
  with the given callback and arguments to the queue of worker \<open>hashcode mod thread_count\<close> and to no
  other, and leaves that worker's eventfd readable, so equal hash codes are served by one worker in the
  order of the calls.\<close>

theorem xv_thread_pool_push_task_routes:
  fixes s :: "('k, 'z) wheap_scheme"
  assumes pool: "pool_ok K counter s pool ths" "ths \<noteq> []" and hash: "0 \<le> hashcode" "hashcode \<le> INT_MAX"
    and th: "th = ths ! nat (hashcode mod int (length ths))" "workers s th = Some w"
    and room: "int (length (cq_list s (w_task_queue w))) < INT_MAX"
  shows "\<exists>t. xv_thread_pool_push_task K s pool cb args hashcode = Some (XV_OK, t) \<and>
     tasks t = (tasks s)(Suc (brk s) \<mapsto> \<lparr>t_cb = cb, t_args = args\<rparr>) \<and>
     cq_list t = (cq_list s)(w_task_queue w := cq_list s (w_task_queue w) @ [Suc (brk s)]) \<and>
     eventfd_ready counter t (w_async w)"
  using pool_push_law[OF assms] by blast

theorem xv_thread_pool_push_task_routes_witness:
  "\<exists>t. xv_thread_pool_push_task sim_sys (ex_pool ()) 9 (Some (User_task_cb 3)) 99 5 = Some (XV_OK, t) \<and>
     tasks t 17 = Some \<lparr>t_cb = Some (User_task_cb 3), t_args = 99\<rparr> \<and> cq_list t 15 = [17] \<and> cq_list t 13 = [] \<and>
     eventfd_ready sim_counter t 2"
proof -
  have w: "workers (ex_pool ()) ([7, 8] ! nat (5 mod int (length [7 :: addr, 8]))) = Some (ex_worker 15 2)"
    by (simp add: ex_pool_more) (simp add: ex_pool0_def)
  show ?thesis
    using xv_thread_pool_push_task_routes[OF ex_pool_ok _ _ _ refl w, of "Some (User_task_cb 3)" 99]
    by (auto simp: INT_MAX_def ex_worker_def ex_pool_facts)
qed

text \<open>Hash codes of either sign: \<^verbatim>\<open>%\<close> truncates towards zero, so a negative hash code that is not a
  multiple of the thread count gives a negative index and an access before the start of the array, and
  a pool without threads divides by zero.\<close>

theorem xv_thread_pool_push_task_undefined:
  assumes pool: "pool_ok K counter s pool ths"
    and bad: "ths = [] \<or> hashcode < 0 \<and> \<not> int (length ths) dvd hashcode"
  shows "xv_thread_pool_push_task K s pool cb args hashcode = None"
proof -
  obtain p where p: "pool \<noteq> NULL" "pools s pool = Some p" "tp_thread_count p = int (length ths)"
    using pool by (auto simp: pool_ok_def)
  show ?thesis
  proof (cases "ths = []")
    case True
    then show ?thesis using p by (simp add: xv_thread_pool_push_task_def c_mod_def)
  next
    case False
    then have h: "hashcode < 0" "\<not> int (length ths) dvd hashcode" "0 < int (length ths)" using bad by auto
    have "hashcode smod int (length ths) = - ((- hashcode) mod int (length ths))"
      using h by (simp add: signed_modulo_int_def signed_divide_int_def sgn_if minus_mult_div_eq_mod[symmetric] algebra_simps)
    moreover have "(- hashcode) mod int (length ths) > 0"
      using h by (metis dvd_minus_iff dvd_eq_mod_eq_0 pos_mod_sign order_le_less)
    ultimately have neg: "hashcode smod int (length ths) < 0" by simp
    show ?thesis
      using p neg pool_thread_ok[OF pool p(2)]
      by (auto simp: xv_thread_pool_push_task_def c_mod_def c_int_def split: bind_splits)
  qed
qed

theorem xv_thread_pool_push_task_undefined_witness:
  "xv_thread_pool_push_task sim_sys (ex_pool ()) 9 (Some (User_task_cb 3)) 99 (- 1) = None"
  using xv_thread_pool_push_task_undefined[OF ex_pool_ok, of "- 1"] by simp

subsection \<open>Running tasks\<close>

text \<open>Tasks that act on the part of the state that belongs to the user, through \<open>f\<close>, and may look at the loops while they run.\<close>

definition user_run ::
  "(task_cb \<Rightarrow> addr \<Rightarrow> (addr \<rightharpoonup> xv_loop_t) \<Rightarrow> 'z \<Rightarrow> 'z) \<Rightarrow> task_cb \<Rightarrow> addr \<Rightarrow> ('k, 'z) wheap_scheme \<Rightarrow> ('k, 'z) wheap_scheme option" where
  "user_run f cb args s = Some (wheap.more_update (f cb args (loops s)) s)"

text \<open>The effect of one task, and what remains of the task objects.\<close>

definition task_effect :: "(task_cb \<Rightarrow> addr \<Rightarrow> (addr \<rightharpoonup> xv_loop_t) \<Rightarrow> 'z \<Rightarrow> 'z) \<Rightarrow> (addr \<rightharpoonup> xv_loop_t) \<Rightarrow> xv_task_t \<Rightarrow> 'z \<Rightarrow> 'z" where
  "task_effect f h t u = (case t_cb t of None \<Rightarrow> u | Some cb \<Rightarrow> f cb (t_args t) h u)"

definition tasks_after :: "(addr \<rightharpoonup> xv_task_t) \<Rightarrow> addr list \<Rightarrow> addr \<rightharpoonup> xv_task_t" where
  "tasks_after h ps = (\<lambda>p. if p \<in> set ps \<and> t_cb (the (h p)) \<noteq> None then None else h p)"

lemma cq_user [simp]:
  fixes s :: "('k, 'z) wheap_scheme"
  shows "cq_ok (wheap.more_update g s) = cq_ok s" "cq_list (wheap.more_update g s) = cq_list s"
    "live_cq (wheap.more_update g s) = live_cq s"
    "cq_ok (s\<lparr>tasks := h\<rparr>) = cq_ok s" "cq_list (s\<lparr>tasks := h\<rparr>) = cq_list s" "live_cq (s\<lparr>tasks := h\<rparr>) = live_cq s"
  by (rule cq_cong; simp)+

lemma worker_drain_law:
  fixes s :: "('k, 'z) wheap_scheme"
  assumes th: "th \<noteq> NULL" "workers s th = Some w" and ok: "cq_ok s" "live_cq s (w_task_queue w)"
    and ps: "cq_list s (w_task_queue w) = ps" "distinct ps" "\<forall>p \<in> set ps. p \<noteq> NULL \<and> tasks s p \<noteq> None"
  shows "\<exists>t. worker_drain (user_run f) th s = Some t \<and> cq_list t (w_task_queue w) = [] \<and> cq_ok t \<and>
     live_cq t = live_cq s \<and> tasks t = tasks_after (tasks s) ps \<and> workers t = workers s \<and> loops t = loops s \<and>
     wheap.more t = fold (\<lambda>p. task_effect f (loops s) (the (tasks s p))) ps (wheap.more s)"
  using assms
proof (induction ps arbitrary: s)
  case Nil
  then show ?case
    using cq_size_law[of s "w_task_queue w"]
    by (subst worker_drain.simps) (simp add: tasks_after_def)
next
  case (Cons p ps)
  let ?q = "w_task_queue w"
  obtain t where t: "tasks s p = Some t" "p \<noteq> NULL" using Cons.prems(7) by auto
  obtain s1 where s1: "xv_concurrent_queue_pop s ?q = Some (p, s1)" "cq_ok s1" "live_cq s1 = live_cq s"
    "cq_list s1 = (cq_list s)(?q := ps)" "qheap.more s1 = qheap.more s"
    using cq_pop_cons_law[OF Cons.prems(3,4,5)] by blast
  note f1 = more_wheap[OF s1(5)]
  define s2 where "s2 = (case t_cb t of None \<Rightarrow> s1
    | Some cb \<Rightarrow> (wheap.more_update (f cb (t_args t) (loops s)) s1)\<lparr>tasks := (tasks s1)(p := None)\<rparr>)"
  have run: "worker_drain (user_run f) th s = worker_drain (user_run f) th s2"
    using cq_size_law[OF Cons.prems(3,4)] Cons.prems(1,2,5) s1(1) t f1
    by (subst worker_drain.simps) (auto simp: s2_def user_run_def xv_free_def split: option.split)
  have s2: "workers s2 = workers s" "cq_ok s2" "live_cq s2 = live_cq s" "cq_list s2 ?q = ps" "loops s2 = loops s"
    "tasks s2 = (if t_cb t = None then tasks s else (tasks s)(p := None))"
    "wheap.more s2 = task_effect f (loops s) t (wheap.more s)"
    using s1 f1 by (auto simp: s2_def task_effect_def split: option.split)
  have same: "tasks s2 x = tasks s x" if "x \<in> set ps" for x
    using that Cons.prems(6) s2(6) by auto
  obtain u where u: "worker_drain (user_run f) th s2 = Some u" "cq_list u ?q = []" "cq_ok u" "live_cq u = live_cq s2"
    "tasks u = tasks_after (tasks s2) ps" "workers u = workers s2" "loops u = loops s2"
    "wheap.more u = fold (\<lambda>p. task_effect f (loops s2) (the (tasks s2 p))) ps (wheap.more s2)"
    using Cons.IH[of s2] Cons.prems(1,2,4,6,7) s2 same by auto
  have "tasks_after (tasks s2) ps = tasks_after (tasks s) (p # ps)"
    using Cons.prems(6) s2(6) t(1) same by (auto simp: tasks_after_def fun_eq_iff)
  moreover have "fold (\<lambda>p. task_effect f (loops s) (the (tasks s2 p))) ps x = fold (\<lambda>p. task_effect f (loops s) (the (tasks s p))) ps x" for x
    by (rule fold_cong) (simp_all add: same)
  ultimately show ?case
    using run u s2 t(1) by (intro exI[of _ u]) simp
qed

text \<open>C21. A woken worker runs everything: for tasks that act on the user's data only and may look at the loops,
  \<^verbatim>\<open>worker_async_cb\<close> returns, the queue is empty, the tasks ran once each in the order they were pushed, every one of them while
  the loop was still as before the call, and every task that has a callback has been released; tasks
  without a callback are dropped from the queue but never released. If the worker was asked to stop,
  its loop is broken, after all of them have run.\<close>

theorem worker_async_cb_runs_all:
  fixes s :: "('k, 'z) wheap_scheme"
  assumes a: "a \<noteq> NULL" "asyncs s a = Some x" "as_userdata x = th" and th: "th \<noteq> NULL" "workers s th = Some w"
    and loop: "loop \<noteq> NULL" "loops s loop = Some l" and ok: "cq_ok s" "live_cq s (w_task_queue w)"
    and ps: "cq_list s (w_task_queue w) = ps" "distinct ps" "\<forall>p \<in> set ps. p \<noteq> NULL \<and> tasks s p \<noteq> None"
  shows "\<exists>t. worker_async_cb (user_run f) loop a s = Some t \<and> cq_list t (w_task_queue w) = [] \<and>
     wheap.more t = fold (\<lambda>p. task_effect f (loops s) (the (tasks s p))) ps (wheap.more s) \<and>
     tasks t = tasks_after (tasks s) ps \<and>
     loops t = (if w_start w then loops s else (loops s)(loop \<mapsto> l\<lparr>l_start := False\<rparr>))"
proof -
  obtain t where t: "worker_drain (user_run f) th s = Some t" "cq_list t (w_task_queue w) = []"
    "tasks t = tasks_after (tasks s) ps" "workers t = workers s" "loops t = loops s"
    "wheap.more t = fold (\<lambda>p. task_effect f (loops s) (the (tasks s p))) ps (wheap.more s)"
    using worker_drain_law[OF th ok ps, of f] by blast
  define u where "u = (if w_start w then t else t\<lparr>loops := (loops t)(loop \<mapsto> l\<lparr>l_start := False\<rparr>)\<rparr>)"
  have "worker_async_cb (user_run f) loop a s = Some u"
    using a th t loop by (simp add: worker_async_cb_def xv_async_get_userdata_def xv_loop_break_def u_def)
  moreover have "cq_list u = cq_list t" by (rule cq_cong) (simp_all add: u_def)
  ultimately show ?thesis using t by (intro exI[of _ u]) (simp add: u_def)
qed

text \<open>The user state of the example is the list of calls made, each with the flag of the loop at that time.\<close>

theorem worker_async_cb_runs_all_witness:
  "\<exists>(s :: (sim_os, (task_cb \<times> addr \<times> bool option) list) wheap_scheme) t. cq_list s 13 = [17] \<and> wheap.more s = [] \<and>
     worker_async_cb (user_run (\<lambda>cb args h log. log @ [(cb, args, map_option l_start (h 11))])) 11 1 s = Some t \<and>
     cq_list t 13 = [] \<and> wheap.more t = [(User_task_cb 3, 99, Some True)] \<and> tasks t 17 = None \<and>
     map_option l_start (loops t 11) = Some False"
proof -
  let ?f = "\<lambda>cb args h log. log @ [(cb, args, map_option l_start (h (11 :: nat)))]"
  define s0 where "s0 = ex_pool ([] :: (task_cb \<times> addr \<times> bool option) list)"
  have w: "worker_ok sim_sys sim_counter s0 7 (ex_worker 13 1)"
    using ex_pool_ok[of "[] :: (task_cb \<times> addr \<times> bool option) list"]
    by (auto simp: s0_def pool_ok_def worker_ok_def ex_pool_more ex_pool0_def)
  have s0: "cq_list s0 13 = []" "brk s0 = 16" "tasks s0 = Map.empty" "wheap.more s0 = []"
    "asyncs s0 1 = Some \<lparr>as_evfd = 4, as_cb = Some Worker_async_cb, as_userdata = 7, as_read_io = NULL\<rparr>"
    "loops s0 11 = Some \<lparr>l_poller_data = NULL, l_events = NULL, l_fired_events = NULL, l_setsize = 0, l_start = True\<rparr>"
    by (simp_all add: s0_def ex_pool_facts ex_pool_more) (simp_all add: ex_pool0_def)
  obtain s :: "(sim_os, (task_cb \<times> addr \<times> bool option) list) wheap_scheme" and k where p: "tasks s = [17 \<mapsto> \<lparr>t_cb = Some (User_task_cb 3), t_args = 99\<rparr>]"
    "cq_list s = (cq_list s0)(13 := [17])" "\<forall>q a. mbox_ok sim_sys sim_counter q a s0 \<longrightarrow> mbox_ok sim_sys sim_counter q a s"
    "qheap.more s = qheap.more (s0\<lparr>kern := k, tasks := tasks s\<rparr>)"
    using worker_push_law[OF w, of "Some (User_task_cb 3)" 99] s0 by (auto simp: ex_worker_def INT_MAX_def)
  note f = more_wheap[OF p(4)]
  have s: "tasks s = [17 \<mapsto> \<lparr>t_cb = Some (User_task_cb 3), t_args = 99\<rparr>]" "cq_list s 13 = [17]"
    "worker_ok sim_sys sim_counter s 7 (ex_worker 13 1)" "wheap.more s = []" "asyncs s = asyncs s0" "loops s = loops s0"
    using p(1-3) f s0(4) w by (simp_all add: worker_ok_def)
  have ok: "workers s 7 = Some (ex_worker 13 1)" "cq_ok s" "live_cq s (w_task_queue (ex_worker 13 1))"
    "cq_list s (w_task_queue (ex_worker 13 1)) = [17]"
    using s(2,3) by (simp_all add: worker_ok_def mbox_ok_def ex_worker_def)
  have a: "asyncs s 1 = Some \<lparr>as_evfd = 4, as_cb = Some Worker_async_cb, as_userdata = 7, as_read_io = NULL\<rparr>"
    and l: "loops s 11 = Some \<lparr>l_poller_data = NULL, l_events = NULL, l_fired_events = NULL, l_setsize = 0, l_start = True\<rparr>"
    using s(5,6) s0(5,6) by simp_all
  obtain t where "worker_async_cb (user_run ?f) 11 1 s = Some t" "cq_list t 13 = []" "wheap.more t = [(User_task_cb 3, 99, Some True)]"
    "tasks t = tasks_after (tasks s) [17]" "map_option l_start (loops t 11) = Some False"
    using worker_async_cb_runs_all[OF _ a _ _ ok(1) _ l ok(2,3,4), of ?f] s(1,4) l
    by (auto simp: ex_worker_def task_effect_def)
  then show ?thesis
    using s(1,2,4) by (intro exI[of _ s] exI[of _ t]) (simp add: tasks_after_def)
qed

subsection \<open>Starting and stopping\<close>

text \<open>Starting a watcher touches nothing outside the loop's own part of the state.\<close>

lemma loop_resize_more: "xv_loop_resize s loop n = Some (r, t) \<Longrightarrow> lheap.more t = lheap.more s"
  by (auto simp: xv_loop_resize_def xv_poller_resize_def xv_malloc_def Let_def Option.bind_eq_Some_conv split: if_splits)

lemma poller_add_more:
  fixes s t :: "('k, 'z) lheap_scheme"
  shows "xv_poller_add_event K s data fd old ev = Some (r, t) \<Longrightarrow> lheap.more t = lheap.more s"
  by (auto simp: poller_add_eq xv_poller_modify_event_def Let_def case_prod_beta Option.bind_eq_Some_conv split: if_splits)

lemma add_slot_more: "loop_add_slot K s loop p = Some (r, t) \<Longrightarrow> lheap.more t = lheap.more s"
  unfolding loop_add_slot_def Let_def
  by (auto elim!: bind_SomeE split: if_split_asm prod.splits dest!: poller_add_more)

lemma io_start_more: "xv_io_start K s loop p = Some (r, t) \<Longrightarrow> lheap.more t = lheap.more s"
  unfolding xv_io_start_def xv_loop_add_event_def
  by (auto elim!: bind_SomeE split: if_split_asm prod.splits dest!: loop_resize_more add_slot_more)

lemma more_wheap_l:
  fixes s t :: "('k, 'z) wheap_scheme"
  assumes "lheap.more t = lheap.more s"
  shows "tasks t = tasks s" "workers t = workers s" "pools t = pools s" "thread_arrays t = thread_arrays s" "asyncs t = asyncs s"
  using assms by (cases s; cases t; simp)+

text \<open>Creating a thread may change the rest of the state, but not the pool object.\<close>

definition create_keeps_pools :: "('k, 'z) wheap_scheme pthread_ops \<Rightarrow> bool" where
  "create_keeps_pools P \<longleftrightarrow> (\<forall>e arg s r id t. pth_create P e arg s = (r, id, t) \<longrightarrow> pools t = pools s)"

lemma worker_start_pools:
  assumes P: "create_keeps_pools P" and run: "xv_worker_thread_start K P s th = Some (r, t)"
  shows "pools t = pools s"
proof -
  have c: "pth_create P e arg u = (x, y, v) \<Longrightarrow> pools v = pools u" for e arg u x y v
    using P unfolding create_keeps_pools_def by blast
  show ?thesis
    using run unfolding xv_worker_thread_start_def xv_async_start_def Let_def
    by (auto elim!: bind_SomeE split: if_split_asm prod.splits dest!: c io_start_more more_wheap_l(3))
qed

lemma pool_iter_pools:
  assumes "\<And>s th t. f s th = Some t \<Longrightarrow> pools t = pools s" "pool_iter f pool n i s = Some t"
  shows "pools t = pools s"
  using assms(2)
proof (induction n arbitrary: i s)
  case 0
  then show ?case by simp
next
  case (Suc n)
  then show ?case using assms(1) by (auto simp: Option.bind_eq_Some_conv)
qed

text \<open>\<^verbatim>\<open>xv_thread_pool_start\<close> never records that the pool was started: whenever it returns on a fresh
  pool it reports \<open>XV_OK\<close>, even if the start of a worker failed, the start flag is still clear, and so a
  second call is never refused.\<close>

theorem xv_thread_pool_start_not_recorded:
  assumes P: "create_keeps_pools P" and pool: "pool \<noteq> NULL" "pools s pool = Some p" "\<not> tp_start p"
    and run: "xv_thread_pool_start K P s pool = Some (r, t)"
  shows "r = XV_OK \<and> pools t pool = Some p \<and>
    (\<forall>r' u. xv_thread_pool_start K P t pool = Some (r', u) \<longrightarrow> r' = XV_OK)"
proof -
  have it: "map_option snd (xv_worker_thread_start K P s th) = Some t \<Longrightarrow> pools t = pools s" for s th t
    by (auto dest: worker_start_pools[OF P])
  have r: "r = XV_OK" and it2: "pool_iter (\<lambda>s th. map_option snd (xv_worker_thread_start K P s th)) pool
      (nat (tp_thread_count p)) 0 s = Some t"
    using run pool by (auto simp: xv_thread_pool_start_def Option.bind_eq_Some_conv)
  have "pools t = pools s" by (rule pool_iter_pools[OF it it2])
  then show ?thesis
    using r pool by (auto simp: xv_thread_pool_start_def Option.bind_eq_Some_conv)
qed

text \<open>A thread library for the examples, and a pool whose workers already run: each start is refused.\<close>

definition ex_pth :: "sim_os wheap pthread_ops" where
  "ex_pth = \<lparr>pth_create = (\<lambda>_ _ s. (0, 1, s)), pth_join = (\<lambda>_ s. Some (0, s))\<rparr>"

definition ex_running :: "sim_os wheap" where
  "ex_running = (ex_pool ())\<lparr>workers := [7 \<mapsto> (ex_worker 13 1)\<lparr>w_start := True\<rparr>, 8 \<mapsto> (ex_worker 15 2)\<lparr>w_start := True\<rparr>]\<rparr>"

theorem xv_thread_pool_start_not_recorded_witness:
  "xv_worker_thread_start sim_sys ex_pth ex_running 7 = Some (XV_ERR, ex_running) \<and>
   xv_thread_pool_start sim_sys ex_pth ex_running 9 = Some (XV_OK, ex_running) \<and>
   map_option tp_start (pools ex_running 9) = Some False"
proof -
  have P: "create_keeps_pools ex_pth" by (simp add: create_keeps_pools_def ex_pth_def)
  have f: "pools ex_running 9 = Some \<lparr>tp_threads = 10, tp_thread_count = 2, tp_start = False\<rparr>"
    "thread_arrays ex_running 10 = Some [Some 7, Some 8]"
    "workers ex_running 7 = Some ((ex_worker 13 1)\<lparr>w_start := True\<rparr>)" "workers ex_running 8 = Some ((ex_worker 15 2)\<lparr>w_start := True\<rparr>)"
    by (simp_all add: ex_running_def ex_pool_more) (simp_all add: ex_pool0_def)
  have w: "xv_worker_thread_start sim_sys ex_pth ex_running 7 = Some (XV_ERR, ex_running)"
    "xv_worker_thread_start sim_sys ex_pth ex_running 8 = Some (XV_ERR, ex_running)"
    by (simp_all add: xv_worker_thread_start_def f)
  have run: "xv_thread_pool_start sim_sys ex_pth ex_running 9 = Some (XV_OK, ex_running)"
    by (simp add: xv_thread_pool_start_def f pool_thread_def arr_get_def w numeral_2_eq_2)
  show ?thesis
    using xv_thread_pool_start_not_recorded[OF P _ f(1) _ run] w run by simp
qed

text \<open>\<^verbatim>\<open>xv_worker_thread_destroy\<close> on a worker that was never started joins a thread whose id was never
  assigned; so does destroying a pool of such workers.\<close>

theorem destroy_unstarted_worker_undefined:
  assumes w: "worker_ok K counter s th w" "w_id w = None"
  shows "xv_worker_thread_destroy K P s th = None"
proof -
  define s1 where "s1 = s\<lparr>workers := (workers s)(th \<mapsto> w\<lparr>w_start := False\<rparr>)\<rparr>"
  have th: "th \<noteq> NULL" "workers s th = Some w" "eventfd_doc K counter" "async_ok counter s (w_async w)"
    using w by (simp_all add: worker_ok_def mbox_ok_def)
  have "async_ok counter s1 (w_async w)"
    using th(4) by (simp add: async_ok_def s1_def)
  then obtain r k where "xv_async_send K s1 (w_async w) = Some (r, s1\<lparr>kern := k\<rparr>)"
    using send_mbox_law[OF th(3)] by blast
  then show ?thesis
    using th w(2) by (simp add: xv_worker_thread_destroy_def xv_worker_thread_stop_def s1_def)
qed

theorem destroy_unstarted_worker_undefined_witness:
  "xv_worker_thread_destroy sim_sys ex_pth (ex_pool ()) 7 = None"
proof -
  have "workers (ex_pool ()) 7 = Some (ex_worker 13 1)"
    by (simp add: ex_pool_more) (simp add: ex_pool0_def)
  then have "worker_ok sim_sys sim_counter (ex_pool ()) 7 (ex_worker 13 1)"
    using ex_pool_ok[of "()"] by (auto simp: pool_ok_def worker_ok_def)
  then show ?thesis
    by (rule destroy_unstarted_worker_undefined) (simp add: ex_worker_def)
qed

end
