(* ===== verification/Xv_Buffer.thy ===== *)
theory Xv_Buffer
  imports Xv_Prelude
begin

section \<open>The byte buffer (\<^verbatim>\<open>src/src/xv_buffer.c\<close>)\<close>

text \<open>
  \<open>xv_buffer_t\<close> is the struct of \<^verbatim>\<open>xv_buffer.h\<close>; its block is a list of cells, \<open>None\<close>
  for a byte that was never written. One definition per function of the file follows, then the
  invariant of the header's diagram, the abstraction \<open>readable\<close> (the readable bytes) and the
  laws of every operation over it.
\<close>

subsection \<open>Data and operations\<close>

record xv_buffer_t =
  b_buf :: "byte option list"
  b_size :: int
  b_read_idx :: int
  b_write_idx :: int

definition XV_BUFFER_MOVE_CHECK_SIZE :: int where
  "XV_BUFFER_MOVE_CHECK_SIZE = 1024 * 2"

definition xv_buffer_init :: "int \<Rightarrow> xv_buffer_t" where
  "xv_buffer_init sz =
     \<lparr>b_buf = replicate (nat sz) None, b_size = sz, b_read_idx = 0, b_write_idx = 0\<rparr>"

definition xv_buffer_clear :: "xv_buffer_t \<Rightarrow> xv_buffer_t" where
  "xv_buffer_clear b = b\<lparr>b_read_idx := 0, b_write_idx := 0\<rparr>"

definition xv_buffer_readable_size :: "xv_buffer_t \<Rightarrow> int option" where
  "xv_buffer_readable_size b = c_int (b_write_idx b - b_read_idx b)"

definition xv_buffer_writeable_size :: "xv_buffer_t \<Rightarrow> int option" where
  "xv_buffer_writeable_size b = c_int (b_size b - b_write_idx b)"

definition xv_buffer_try_move :: "xv_buffer_t \<Rightarrow> xv_buffer_t option" where
  "xv_buffer_try_move b = do {
     nread \<leftarrow> xv_buffer_readable_size b;
     let b = (if nread = 0 then b\<lparr>b_read_idx := 0, b_write_idx := 0\<rparr> else b);
     if b_size b sdiv 2 < b_read_idx b \<and> XV_BUFFER_MOVE_CHECK_SIZE < b_read_idx b
     then do {
       nread \<leftarrow> xv_buffer_readable_size b;
       buf \<leftarrow> memmove (b_buf b) 0 (b_read_idx b) nread;
       Some (b\<lparr>b_buf := buf, b_read_idx := 0, b_write_idx := nread\<rparr>) }
     else Some b }"

definition xv_buffer_ensure_writeable_size :: "xv_buffer_t \<Rightarrow> int \<Rightarrow> xv_buffer_t option" where
  "xv_buffer_ensure_writeable_size b valid_size = do {
     w \<leftarrow> xv_buffer_writeable_size b;
     if w < valid_size
     then do {
       new_size \<leftarrow> c_int (b_size b + valid_size);
       Some (b\<lparr>b_buf := xv_realloc None (b_buf b) new_size, b_size := new_size\<rparr>) }
     else Some b }"

text \<open>The two functions that return a pointer return its offset into the block.\<close>

definition xv_buffer_read_begin :: "xv_buffer_t \<Rightarrow> int" where
  "xv_buffer_read_begin b = b_read_idx b"

definition xv_buffer_write_begin :: "xv_buffer_t \<Rightarrow> int" where
  "xv_buffer_write_begin b = b_write_idx b"

definition xv_buffer_incr_read_index :: "xv_buffer_t \<Rightarrow> int \<Rightarrow> xv_buffer_t option" where
  "xv_buffer_incr_read_index b n = do {
     i \<leftarrow> c_int (b_read_idx b + n);
     xv_buffer_try_move (b\<lparr>b_read_idx := i\<rparr>) }"

definition xv_buffer_incr_write_index :: "xv_buffer_t \<Rightarrow> int \<Rightarrow> xv_buffer_t option" where
  "xv_buffer_incr_write_index b n = do {
     i \<leftarrow> c_int (b_write_idx b + n);
     Some (b\<lparr>b_write_idx := i\<rparr>) }"

text \<open>The bytes copied to \<^verbatim>\<open>dst\<close> are returned beside the count.\<close>

definition xv_buffer_read_data ::
  "xv_buffer_t \<Rightarrow> int \<Rightarrow> (int \<times> byte option list \<times> xv_buffer_t) option" where
  "xv_buffer_read_data b len = do {
     nread \<leftarrow> xv_buffer_readable_size b;
     let len = (if len > nread then nread else len);
     dst \<leftarrow> mem_get (b_buf b) (b_read_idx b) len;
     i \<leftarrow> c_int (b_read_idx b + len);
     b \<leftarrow> xv_buffer_try_move (b\<lparr>b_read_idx := i\<rparr>);
     Some (len, dst, b) }"

definition xv_buffer_write_data ::
  "xv_buffer_t \<Rightarrow> byte list \<Rightarrow> int \<Rightarrow> (int \<times> xv_buffer_t) option" where
  "xv_buffer_write_data b src len = do {
     b \<leftarrow> xv_buffer_ensure_writeable_size b len;
     xs \<leftarrow> mem_get (map Some src) 0 len;
     buf \<leftarrow> mem_put (b_buf b) (b_write_idx b) xs;
     i \<leftarrow> c_int (b_write_idx b + len);
     Some (len, b\<lparr>b_buf := buf, b_write_idx := i\<rparr>) }"

subsection \<open>Invariant and abstraction\<close>

text \<open>The diagram of \<^verbatim>\<open>xv_buffer.h\<close>: \<open>0 <= read_idx <= write_idx <= size\<close>, on a block of
  \<open>size\<close> bytes.\<close>

definition buffer_wf :: "xv_buffer_t \<Rightarrow> bool" where
  "buffer_wf b \<longleftrightarrow>
     0 \<le> b_read_idx b \<and> b_read_idx b \<le> b_write_idx b \<and> b_write_idx b \<le> b_size b \<and>
     b_size b \<le> INT_MAX \<and> int (length (b_buf b)) = b_size b"

definition readable :: "xv_buffer_t \<Rightarrow> byte option list" where
  "readable b = take (nat (b_write_idx b - b_read_idx b)) (drop (nat (b_read_idx b)) (b_buf b))"

lemma buffer_wfD:
  assumes "buffer_wf b"
  shows "0 \<le> b_read_idx b" "b_read_idx b \<le> b_write_idx b" "b_write_idx b \<le> b_size b"
    "b_size b \<le> INT_MAX" "int (length (b_buf b)) = b_size b" "0 \<le> b_size b"
    "length (b_buf b) = nat (b_size b)"
  using assms by (auto simp: buffer_wf_def)

lemma length_readable: "buffer_wf b \<Longrightarrow> int (length (readable b)) = b_write_idx b - b_read_idx b"
  using buffer_wfD[of b] by (simp add: readable_def)


lemma readable_alt:
  "buffer_wf b \<Longrightarrow> readable b = drop (nat (b_read_idx b)) (take (nat (b_write_idx b)) (b_buf b))"
  using buffer_wfD[of b] by (simp add: readable_def drop_take nat_diff_distrib')

lemma buffer_sizes:
  assumes "buffer_wf b"
  shows "xv_buffer_readable_size b = Some (int (length (readable b)))"
    and "xv_buffer_writeable_size b = Some (b_size b - b_write_idx b)"
  using assms buffer_wfD[OF assms] length_readable[OF assms]
  by (simp_all add: xv_buffer_readable_size_def xv_buffer_writeable_size_def c_int_in_range)

lemma buffer_wf_init: "0 \<le> n \<Longrightarrow> n \<le> INT_MAX \<Longrightarrow> buffer_wf (xv_buffer_init n)"
  by (simp add: buffer_wf_def xv_buffer_init_def)

lemma readable_init [simp]: "readable (xv_buffer_init n) = []"
  by (simp add: readable_def xv_buffer_init_def)

lemma buffer_wf_clear: "buffer_wf b \<Longrightarrow> buffer_wf (xv_buffer_clear b)"
  by (auto simp: buffer_wf_def xv_buffer_clear_def)

lemma readable_clear [simp]: "readable (xv_buffer_clear b) = []"
  by (simp add: readable_def xv_buffer_clear_def)

text \<open>Compaction: the bytes are moved to the front of the block, the readable content stays.\<close>

lemma memmove_front:
  assumes "buffer_wf b"
  shows "memmove (b_buf b) 0 (b_read_idx b) (b_write_idx b - b_read_idx b) =
           Some (readable b @ drop (length (readable b)) (b_buf b))"
proof -
  have "mem_get (b_buf b) (b_read_idx b) (b_write_idx b - b_read_idx b) = Some (readable b)"
    using buffer_wfD[OF assms] by (simp add: mem_get_Some_iff readable_def)
  moreover have "int (length (readable b)) \<le> int (length (b_buf b))"
    using buffer_wfD[OF assms] length_readable[OF assms] by simp
  ultimately show ?thesis
    by (simp add: memmove_def mem_put_Some_iff)
qed

lemma readable_front:
  "readable (b\<lparr>b_buf := xs @ ys, b_read_idx := 0, b_write_idx := int (length xs)\<rparr>) = xs"
  by (simp add: readable_def)

lemma readable_empty: "readable (b\<lparr>b_read_idx := 0, b_write_idx := 0\<rparr>) = []"
  by (simp add: readable_def)

definition compact :: "xv_buffer_t \<Rightarrow> bool" where
  "compact b \<longleftrightarrow> \<not> (b_size b sdiv 2 < b_read_idx b \<and> XV_BUFFER_MOVE_CHECK_SIZE < b_read_idx b)"

lemma try_move_cases:
  assumes wf: "buffer_wf b"
  shows "xv_buffer_try_move b = Some (
     if readable b = [] then b\<lparr>b_read_idx := 0, b_write_idx := 0\<rparr>
     else if compact b then b
     else b\<lparr>b_buf := readable b @ drop (length (readable b)) (b_buf b),
            b_read_idx := 0, b_write_idx := int (length (readable b))\<rparr>)"
proof -
  note d = buffer_wfD[OF wf] length_readable[OF wf] buffer_sizes[OF wf]
  have sd: "0 \<le> b_size b sdiv 2"
    using d by (simp add: sdiv_nonneg)
  have mv: "memmove (b_buf b) 0 (b_read_idx b) (int (length (readable b))) =
      Some (readable b @ drop (length (readable b)) (b_buf b))"
    using memmove_front[OF wf] d by simp
  show ?thesis
  proof (cases "readable b = []")
    case True
    then show ?thesis
      using sd d(9) by (simp add: xv_buffer_try_move_def)
  next
    case False
    then show ?thesis
      using d(9) mv by (simp add: xv_buffer_try_move_def compact_def)
  qed
qed

lemma try_move_law:
  assumes wf: "buffer_wf b"
  obtains b' where "xv_buffer_try_move b = Some b'" "buffer_wf b'" "readable b' = readable b"
    "b_size b' = b_size b" "compact b'"
proof -
  define b' where "b' = (if readable b = [] then b\<lparr>b_read_idx := 0, b_write_idx := 0\<rparr>
     else if compact b then b
     else b\<lparr>b_buf := readable b @ drop (length (readable b)) (b_buf b),
            b_read_idx := 0, b_write_idx := int (length (readable b))\<rparr>)"
  note d = buffer_wfD[OF wf] length_readable[OF wf]
  have sd: "0 \<le> b_size b sdiv 2"
    using d by (simp add: sdiv_nonneg)
  have eq: "xv_buffer_try_move b = Some b'"
    using try_move_cases[OF wf] by (simp add: b'_def)
  have "buffer_wf b'"
    using wf d by (auto simp: b'_def buffer_wf_def)
  moreover have "readable b' = readable b"
    by (auto simp: b'_def readable_front readable_empty)
  moreover have "b_size b' = b_size b"
    by (simp add: b'_def)
  moreover have "compact b'"
    using sd by (auto simp: b'_def compact_def XV_BUFFER_MOVE_CHECK_SIZE_def)
  ultimately show thesis
    using that eq by blast
qed


subsection \<open>The laws of the operations\<close>

lemma xv_realloc_grow:
  "length blk \<le> nat n \<Longrightarrow> xv_realloc fill blk n = blk @ replicate (nat n - length blk) fill"
  by (simp add: xv_realloc_def)

lemma take_drop_append_left:
  "r + k \<le> length xs \<Longrightarrow> take k (drop r (xs @ ys)) = take k (drop r xs)"
  by simp

lemma ensure_writeable_law:
  assumes wf: "buffer_wf b" and n: "0 \<le> n" "b_size b + n \<le> INT_MAX"
  obtains b' where "xv_buffer_ensure_writeable_size b n = Some b'" "buffer_wf b'"
    "readable b' = readable b" "n \<le> b_size b' - b_write_idx b'"
    "b_read_idx b' = b_read_idx b" "b_write_idx b' = b_write_idx b"
    "b_size b \<le> b_size b'" "b_size b' \<le> b_size b + n"
proof (cases "b_size b - b_write_idx b < n")
  case True
  note d = buffer_wfD[OF wf]
  define b' where "b' = b\<lparr>b_buf := xv_realloc None (b_buf b) (b_size b + n), b_size := b_size b + n\<rparr>"
  have eq: "xv_buffer_ensure_writeable_size b n = Some b'"
    using True n d buffer_sizes[OF wf]
    by (simp add: xv_buffer_ensure_writeable_size_def b'_def c_int_in_range)
  have "buffer_wf b'"
    using d n by (simp add: buffer_wf_def b'_def)
  moreover have "readable b' = readable b"
    using d n by (simp add: readable_def b'_def xv_realloc_grow)
  ultimately show thesis
    using True d n by (intro that[OF eq]) (simp_all add: b'_def)
next
  case False
  then have "xv_buffer_ensure_writeable_size b n = Some b"
    using buffer_sizes[OF wf] by (simp add: xv_buffer_ensure_writeable_size_def)
  then show thesis
    by (rule that) (use wf False n in simp_all)
qed

lemma incr_read_law:
  assumes wf: "buffer_wf b" and n: "0 \<le> n" "n \<le> int (length (readable b))"
  obtains b' where "xv_buffer_incr_read_index b n = Some b'" "buffer_wf b'"
    "readable b' = drop (nat n) (readable b)" "b_size b' = b_size b" "compact b'"
proof -
  note d = buffer_wfD[OF wf] length_readable[OF wf]
  let ?b = "b\<lparr>b_read_idx := b_read_idx b + n\<rparr>"
  have wf': "buffer_wf ?b" and sz: "b_size ?b = b_size b"
    using wf d n by (simp_all add: buffer_wf_def)
  have rd: "readable ?b = drop (nat n) (readable b)"
    unfolding readable_alt[OF wf] readable_alt[OF wf'] using d n
    by (simp add: nat_add_distrib add.commute)
  have "c_int (b_read_idx b + n) = Some (b_read_idx b + n)"
    using d n by (simp add: c_int_in_range)
  then have "xv_buffer_incr_read_index b n = xv_buffer_try_move ?b"
    by (simp add: xv_buffer_incr_read_index_def)
  with try_move_law[OF wf'] that show thesis
    by (metis rd sz)
qed

text \<open>Bytes stored at the write position and then committed are appended to the readable ones:
  what \<^verbatim>\<open>xv_buffer_write_data\<close> does, and what \<^verbatim>\<open>on_connection_read\<close> does with \<^verbatim>\<open>read(2)\<close>.\<close>

lemma commit_law:
  assumes wf: "buffer_wf b" and room: "int (length xs) \<le> b_size b - b_write_idx b"
  obtains blk b' where "mem_put (b_buf b) (b_write_idx b) xs = Some blk"
    "xv_buffer_incr_write_index (b\<lparr>b_buf := blk\<rparr>) (int (length xs)) = Some b'"
    "b' = b\<lparr>b_buf := blk, b_write_idx := b_write_idx b + int (length xs)\<rparr>"
    "buffer_wf b'" "readable b' = readable b @ xs"
proof -
  note d = buffer_wfD[OF wf]
  define blk where "blk = take (nat (b_write_idx b)) (b_buf b) @ xs @
      drop (nat (b_write_idx b) + length xs) (b_buf b)"
  define b' where "b' = b\<lparr>b_buf := blk, b_write_idx := b_write_idx b + int (length xs)\<rparr>"
  have put: "mem_put (b_buf b) (b_write_idx b) xs = Some blk"
    using d room by (simp add: mem_put_def blk_def)
  moreover have "xv_buffer_incr_write_index (b\<lparr>b_buf := blk\<rparr>) (int (length xs)) = Some b'"
    using d room by (simp add: xv_buffer_incr_write_index_def b'_def c_int_in_range)
  moreover have wf': "buffer_wf b'"
    using wf d room mem_put_length[OF put] by (simp add: buffer_wf_def b'_def)
  moreover have "readable b' = readable b @ xs"
  proof -
    have w: "nat (b_write_idx b + int (length xs)) = nat (b_write_idx b) + length xs"
      "nat (b_write_idx b) \<le> length (b_buf b)" "nat (b_read_idx b) \<le> nat (b_write_idx b)"
      using d by auto
    show ?thesis
      unfolding readable_alt[OF wf] readable_alt[OF wf'] using w by (simp add: b'_def blk_def)
  qed
  ultimately show thesis
    using b'_def by (intro that)
qed

lemma write_data_law:
  assumes wf: "buffer_wf b" and n: "b_size b + int (length xs) \<le> INT_MAX"
  obtains b' where "xv_buffer_write_data b xs (int (length xs)) = Some (int (length xs), b')"
    "buffer_wf b'" "readable b' = readable b @ map Some xs"
    "b_size b' \<le> b_size b + int (length xs)" "b_size b \<le> b_size b'"
proof -
  obtain b1 where b1: "xv_buffer_ensure_writeable_size b (int (length xs)) = Some b1" "buffer_wf b1"
    "readable b1 = readable b" "int (length xs) \<le> b_size b1 - b_write_idx b1"
    "b_size b \<le> b_size b1" "b_size b1 \<le> b_size b + int (length xs)"
    by (rule ensure_writeable_law[OF wf _ n]) (simp, blast)
  obtain blk b' where b': "mem_put (b_buf b1) (b_write_idx b1) (map Some xs) = Some blk"
    "b' = b1\<lparr>b_buf := blk, b_write_idx := b_write_idx b1 + int (length xs)\<rparr>"
    "buffer_wf b'" "readable b' = readable b1 @ map Some xs"
    by (rule commit_law[OF b1(2), of "map Some xs"]) (use b1(4) in simp, simp)
  have "xv_buffer_write_data b xs (int (length xs)) = Some (int (length xs), b')"
    using b1 b' buffer_wfD[OF b1(2)]
    by (simp add: xv_buffer_write_data_def mem_get_def c_int_in_range)
  then show thesis
    by (rule that) (use b1 b' in simp_all)
qed

lemma read_data_law:
  assumes wf: "buffer_wf b" and n: "0 \<le> n"
  obtains b' where
    "xv_buffer_read_data b n =
       Some (min n (int (length (readable b))), take (nat n) (readable b), b')"
    "buffer_wf b'" "readable b' = drop (nat n) (readable b)" "b_size b' = b_size b" "compact b'"
proof -
  note d = buffer_wfD[OF wf] length_readable[OF wf]
  define m where "m = min n (int (length (readable b)))"
  have m: "0 \<le> m" "m \<le> int (length (readable b))"
    using n by (simp_all add: m_def)
  obtain b' where b': "xv_buffer_incr_read_index b m = Some b'" "buffer_wf b'"
    "readable b' = drop (nat m) (readable b)" "b_size b' = b_size b" "compact b'"
    using incr_read_law[OF wf m] .
  have get: "mem_get (b_buf b) (b_read_idx b) m = Some (take (nat m) (readable b))"
    using d m by (simp add: mem_get_def readable_def min_absorb2 min_absorb1)
  have len: "(if int (length (readable b)) < n then int (length (readable b)) else n) = m"
    by (simp add: m_def)
  have "xv_buffer_read_data b n = Some (m, take (nat m) (readable b), b')"
    using get b'(1) buffer_sizes(1)[OF wf]
    by (auto simp: xv_buffer_read_data_def xv_buffer_incr_read_index_def len
        Option.bind_eq_Some_conv)
  moreover have "take (nat m) (readable b) = take (nat n) (readable b)"
    "drop (nat m) (readable b) = drop (nat n) (readable b)"
    by (auto simp: m_def min_def)
  ultimately show thesis
    by (intro that) (use b' in \<open>simp_all add: m_def\<close>)
qed


lemma compact_bound:
  assumes "buffer_wf b" "compact b"
  shows "b_read_idx b \<le> max (b_size b div 2) XV_BUFFER_MOVE_CHECK_SIZE"
  using assms buffer_wfD[OF assms(1)] by (auto simp: compact_def sdiv_nonneg)

subsection \<open>The buffer as a byte channel\<close>

text \<open>
  The interface the connection code relies on: bytes that are put into the channel come out of it
  in the same order, whatever the sizes of the single transfers, as long as the channel does not
  outgrow its limit. \<open>chan_run\<close> is a client that mixes puts and gets freely.
\<close>

datatype chan_op = Put "byte list" | Get nat

fun chan_put_bytes :: "chan_op list \<Rightarrow> byte list" where
  "chan_put_bytes [] = []"
| "chan_put_bytes (Put xs # ops) = xs @ chan_put_bytes ops"
| "chan_put_bytes (Get n # ops) = chan_put_bytes ops"

fun chan_run ::
  "('b \<Rightarrow> byte list \<Rightarrow> 'b option) \<Rightarrow> ('b \<Rightarrow> nat \<Rightarrow> (byte option list \<times> 'b) option) \<Rightarrow>
   'b \<Rightarrow> chan_op list \<Rightarrow> (byte option list \<times> 'b) option" where
  "chan_run put get b [] = Some ([], b)"
| "chan_run put get b (Put xs # ops) = do { b \<leftarrow> put b xs; chan_run put get b ops }"
| "chan_run put get b (Get n # ops) = do {
     (out, b) \<leftarrow> get b n;
     (outs, b) \<leftarrow> chan_run put get b ops;
     Some (out @ outs, b) }"

locale byte_channel =
  fixes ok :: "'b \<Rightarrow> bool"
    and content :: "'b \<Rightarrow> byte option list"
    and cap :: "'b \<Rightarrow> int"
    and limit :: int
    and put :: "'b \<Rightarrow> byte list \<Rightarrow> 'b option"
    and get :: "'b \<Rightarrow> nat \<Rightarrow> (byte option list \<times> 'b) option"
  assumes put_law: "ok b \<Longrightarrow> cap b + int (length xs) \<le> limit \<Longrightarrow>
      \<exists>b'. put b xs = Some b' \<and> ok b' \<and> content b' = content b @ map Some xs \<and>
           cap b' \<le> cap b + int (length xs)"
    and get_law: "ok b \<Longrightarrow>
      \<exists>b'. get b n = Some (take n (content b), b') \<and> ok b' \<and> content b' = drop n (content b) \<and>
           cap b' = cap b"
begin

lemma stream:
  "ok b \<Longrightarrow> cap b + int (length (chan_put_bytes ops)) \<le> limit \<Longrightarrow>
   \<exists>out b'. chan_run put get b ops = Some (out, b') \<and> ok b' \<and>
     out @ content b' = content b @ map Some (chan_put_bytes ops)"
proof (induction ops arbitrary: b)
  case Nil
  then show ?case by simp
next
  case (Cons c ops)
  show ?case
  proof (cases c)
    case (Put xs)
    then have "cap b + int (length xs) \<le> limit"
      using Cons.prems by simp
    then obtain b1 where b1: "put b xs = Some b1" "ok b1" "content b1 = content b @ map Some xs"
      "cap b1 \<le> cap b + int (length xs)"
      using put_law Cons.prems(1) by blast
    then show ?thesis
      using Cons.IH[OF b1(2)] Cons.prems(2) Put by auto
  next
    case (Get n)
    obtain b1 where b1: "get b n = Some (take n (content b), b1)" "ok b1"
      "content b1 = drop n (content b)" "cap b1 = cap b"
      using get_law Cons.prems(1) by blast
    obtain out b2 where b2: "chan_run put get b1 ops = Some (out, b2)" "ok b2"
      "out @ content b2 = content b1 @ map Some (chan_put_bytes ops)"
      using Cons.IH[OF b1(2)] Cons.prems(2) b1(4) Get by auto
    have "(take n (content b) @ out) @ content b2 = content b @ map Some (chan_put_bytes ops)"
      using b1(3) b2(3) by (metis append.assoc append_take_drop_id)
    then show ?thesis
      using b1 b2 Get by simp
  qed
qed

end

definition buffer_put :: "xv_buffer_t \<Rightarrow> byte list \<Rightarrow> xv_buffer_t option" where
  "buffer_put b xs = map_option snd (xv_buffer_write_data b xs (int (length xs)))"

definition buffer_get :: "xv_buffer_t \<Rightarrow> nat \<Rightarrow> (byte option list \<times> xv_buffer_t) option" where
  "buffer_get b n = map_option snd (xv_buffer_read_data b (int n))"

interpretation xb: byte_channel buffer_wf readable b_size INT_MAX buffer_put buffer_get
proof unfold_locales
  fix b and xs :: "byte list"
  assume "buffer_wf b" "b_size b + int (length xs) \<le> INT_MAX"
  then show "\<exists>b'. buffer_put b xs = Some b' \<and> buffer_wf b' \<and>
      readable b' = readable b @ map Some xs \<and> b_size b' \<le> b_size b + int (length xs)"
    by (rule write_data_law) (simp add: buffer_put_def)
next
  fix b and n :: nat
  assume wf: "buffer_wf b"
  show "\<exists>b'. buffer_get b n = Some (take n (readable b), b') \<and> buffer_wf b' \<and>
      readable b' = drop n (readable b) \<and> b_size b' = b_size b"
    by (rule read_data_law[OF wf, of "int n"]) (simp_all add: buffer_get_def)
qed

subsection \<open>A connection's calls as a refinement of a byte list\<close>

text \<open>
  The calls libxv and its users make on a buffer; \<open>BFill\<close> is the sequence of
  \<^verbatim>\<open>on_connection_read\<close>: reserve \<open>n\<close> bytes, let the kernel store at most that many at
  \<^verbatim>\<open>xv_buffer_write_begin\<close>, commit them.
\<close>

datatype buf_call =
    BClear
  | BEnsure int
  | BWrite "byte list"
  | BFill int "byte list"
  | BRead int
  | BConsume int

definition xv_buffer_fill :: "xv_buffer_t \<Rightarrow> int \<Rightarrow> byte list \<Rightarrow> xv_buffer_t option" where
  "xv_buffer_fill b n xs = do {
     b \<leftarrow> xv_buffer_ensure_writeable_size b n;
     blk \<leftarrow> mem_put (b_buf b) (xv_buffer_write_begin b) (map Some xs);
     xv_buffer_incr_write_index (b\<lparr>b_buf := blk\<rparr>) (int (length xs)) }"

fun buf_step :: "xv_buffer_t \<Rightarrow> buf_call \<Rightarrow> xv_buffer_t option" where
  "buf_step b BClear = Some (xv_buffer_clear b)"
| "buf_step b (BEnsure n) = xv_buffer_ensure_writeable_size b n"
| "buf_step b (BWrite xs) = do { (_, b) \<leftarrow> xv_buffer_write_data b xs (int (length xs)); Some b }"
| "buf_step b (BFill n xs) = xv_buffer_fill b n xs"
| "buf_step b (BRead n) = do { (_, _, b) \<leftarrow> xv_buffer_read_data b n; Some b }"
| "buf_step b (BConsume n) = xv_buffer_incr_read_index b n"

fun buf_call_ok :: "xv_buffer_t \<Rightarrow> buf_call \<Rightarrow> bool" where
  "buf_call_ok b BClear = True"
| "buf_call_ok b (BEnsure n) = (0 \<le> n \<and> b_size b + n \<le> INT_MAX)"
| "buf_call_ok b (BWrite xs) = (b_size b + int (length xs) \<le> INT_MAX)"
| "buf_call_ok b (BFill n xs) = (int (length xs) \<le> n \<and> b_size b + n \<le> INT_MAX)"
| "buf_call_ok b (BRead n) = (0 \<le> n)"
| "buf_call_ok b (BConsume n) = (0 \<le> n \<and> n \<le> int (length (readable b)))"

text \<open>The specification: what each call does to the list of readable bytes.\<close>

fun bytes_step :: "byte option list \<Rightarrow> buf_call \<Rightarrow> byte option list" where
  "bytes_step q BClear = []"
| "bytes_step q (BEnsure n) = q"
| "bytes_step q (BWrite xs) = q @ map Some xs"
| "bytes_step q (BFill n xs) = q @ map Some xs"
| "bytes_step q (BRead n) = drop (nat n) q"
| "bytes_step q (BConsume n) = drop (nat n) q"

lemma fill_law:
  assumes wf: "buffer_wf b" and n: "int (length xs) \<le> n" "b_size b + n \<le> INT_MAX"
  obtains b' where "xv_buffer_fill b n xs = Some b'" "buffer_wf b'"
    "readable b' = readable b @ map Some xs" "b_size b' \<le> b_size b + n" "b_size b \<le> b_size b'"
proof -
  obtain b1 where b1: "xv_buffer_ensure_writeable_size b n = Some b1" "buffer_wf b1"
    "readable b1 = readable b" "n \<le> b_size b1 - b_write_idx b1"
    "b_size b \<le> b_size b1" "b_size b1 \<le> b_size b + n"
    by (rule ensure_writeable_law[OF wf _ n(2)]) (use n(1) in linarith, blast)
  obtain blk b' where b': "mem_put (b_buf b1) (b_write_idx b1) (map Some xs) = Some blk"
    "xv_buffer_incr_write_index (b1\<lparr>b_buf := blk\<rparr>) (int (length xs)) = Some b'"
    "b' = b1\<lparr>b_buf := blk, b_write_idx := b_write_idx b1 + int (length xs)\<rparr>"
    "buffer_wf b'" "readable b' = readable b1 @ map Some xs"
    by (rule commit_law[OF b1(2), of "map Some xs"]) (use b1(4) n(1) in simp, simp)
  have "xv_buffer_fill b n xs = Some b'"
    using b1 b' by (simp add: xv_buffer_fill_def xv_buffer_write_begin_def)
  then show thesis
    by (rule that) (use b1 b' in simp_all)
qed


subsection \<open>Properties\<close>

text \<open>C1. Refinement: on a buffer that satisfies the header's index order, every call of the API
  within its precondition runs without undefined behaviour (no out-of-block access, no signed
  overflow), keeps the index order, and changes the readable bytes exactly as the byte-list
  specification says; growing and compaction are invisible to the reader.\<close>

theorem buffer_call_refines:
  assumes wf: "buffer_wf b" and ok: "buf_call_ok b c"
  shows "\<exists>b'. buf_step b c = Some b' \<and> buffer_wf b' \<and> readable b' = bytes_step (readable b) c"
proof (cases c)
  case BClear
  then show ?thesis by (simp add: buffer_wf_clear[OF wf])
next
  case (BEnsure n)
  with ok have "0 \<le> n" "b_size b + n \<le> INT_MAX" by simp_all
  with wf show ?thesis by (rule ensure_writeable_law) (simp add: BEnsure)
next
  case (BWrite xs)
  with ok have "b_size b + int (length xs) \<le> INT_MAX" by simp
  with wf show ?thesis by (rule write_data_law) (simp add: BWrite)
next
  case (BFill n xs)
  with ok have "int (length xs) \<le> n" "b_size b + n \<le> INT_MAX" by simp_all
  with wf show ?thesis by (rule fill_law) (simp add: BFill)
next
  case (BRead n)
  with ok have "0 \<le> n" by simp
  with wf show ?thesis by (rule read_data_law) (simp add: BRead)
next
  case (BConsume n)
  with ok have "0 \<le> n" "n \<le> int (length (readable b))" by simp_all
  with wf show ?thesis by (rule incr_read_law) (simp add: BConsume)
qed

theorem buffer_call_refines_witness:
  "\<exists>b'. buf_step (xv_buffer_init 1) (BWrite [104, 105]) = Some b' \<and> buffer_wf b' \<and>
     readable b' = [Some 104, Some 105]"
proof -
  have "buffer_wf (xv_buffer_init 1)" "buf_call_ok (xv_buffer_init 1) (BWrite [104, 105])"
    by (simp_all add: buffer_wf_init INT_MAX_def xv_buffer_init_def buffer_wf_def)
  from buffer_call_refines[OF this] show ?thesis by simp
qed

text \<open>C29. Round trip: however a client splits its writes and reads, the bytes it has read so far
  followed by the bytes still readable are exactly the bytes that were readable at the start
  followed by everything written, in order; the run never faults while the total stays within
  \<^verbatim>\<open>INT_MAX\<close>.\<close>

theorem buffer_stream:
  assumes "buffer_wf b" "b_size b + int (length (chan_put_bytes ops)) \<le> INT_MAX"
  shows "\<exists>out b'. chan_run buffer_put buffer_get b ops = Some (out, b') \<and> buffer_wf b' \<and>
     out @ readable b' = readable b @ map Some (chan_put_bytes ops)"
  using assms by (rule xb.stream)

theorem buffer_stream_witness:
  "\<exists>out b'. chan_run buffer_put buffer_get (xv_buffer_init 4)
       [Put [1, 2, 3], Get 2, Put [4, 5, 6], Get 3] = Some (out, b') \<and> buffer_wf b' \<and>
     out @ readable b' = map Some [1, 2, 3, 4, 5, 6]"
proof -
  have "buffer_wf (xv_buffer_init 4)"
    "b_size (xv_buffer_init 4) +
       int (length (chan_put_bytes [Put [1, 2, 3], Get 2, Put [4, 5, 6], Get 3])) \<le> INT_MAX"
    by (simp_all add: buffer_wf_def INT_MAX_def xv_buffer_init_def)
  from buffer_stream[OF this] show ?thesis by simp
qed

text \<open>\<^verbatim>\<open>xv_buffer_read_data\<close>: a non-negative length reads the first \<open>min len readable\<close> bytes,
  removes exactly them and never changes the capacity; a negative length reaches
  \<^verbatim>\<open>memcpy\<close> as a huge size and is undefined.\<close>

theorem xv_buffer_read_data_spec:
  assumes wf: "buffer_wf b"
  shows "case xv_buffer_read_data b len of
      None \<Rightarrow> len < 0
    | Some (n, dst, b') \<Rightarrow> 0 \<le> len \<and> n = min len (int (length (readable b))) \<and>
        dst = take (nat len) (readable b) \<and> readable b' = drop (nat len) (readable b) \<and>
        buffer_wf b' \<and> b_size b' = b_size b"
proof (cases "0 \<le> len")
  case True
  with wf show ?thesis by (rule read_data_law) (simp add: True)
next
  case False
  then show ?thesis
    using buffer_sizes(1)[OF wf] by (simp add: xv_buffer_read_data_def mem_get_def)
qed

theorem xv_buffer_read_data_spec_witness:
  "case xv_buffer_read_data
      \<lparr>b_buf = [None, Some 7, Some 8, Some 9, None], b_size = 5, b_read_idx = 1, b_write_idx = 4\<rparr> 2 of
      None \<Rightarrow> False
    | Some (n, dst, b') \<Rightarrow> n = 2 \<and> dst = [Some 7, Some 8] \<and> readable b' = [Some 9] \<and> buffer_wf b'"
proof -
  let ?b = "\<lparr>b_buf = [None, Some 7, Some 8, Some 9, None], b_size = 5, b_read_idx = 1, b_write_idx = 4\<rparr>"
  have "buffer_wf ?b" and r: "readable ?b = [Some 7, Some 8, Some 9]"
    by (simp_all add: buffer_wf_def INT_MAX_def readable_def)
  from xv_buffer_read_data_spec[OF this(1), of 2] show ?thesis
    by (auto simp: r split: option.splits)
qed

text \<open>C31. Bounds of \<^verbatim>\<open>xv_buffer_ensure_writeable_size\<close>: it is undefined (signed overflow of
  \<open>size + valid_size\<close>) exactly when the buffer must grow and the sum exceeds \<^verbatim>\<open>INT_MAX\<close>;
  otherwise at least the requested bytes are writeable afterwards.\<close>

theorem xv_buffer_ensure_writeable_bounds:
  assumes wf: "buffer_wf b"
  shows "case xv_buffer_ensure_writeable_size b n of
      None \<Rightarrow> b_size b - b_write_idx b < n \<and> INT_MAX < b_size b + n
    | Some b' \<Rightarrow> (b_size b - b_write_idx b < n \<longrightarrow> b_size b + n \<le> INT_MAX) \<and>
        n \<le> b_size b' - b_write_idx b' \<and> readable b' = readable b"
proof (cases "b_size b - b_write_idx b < n")
  case grow: True
  show ?thesis
  proof (cases "b_size b + n \<le> INT_MAX")
    case True
    have "0 \<le> n" using grow buffer_wfD[OF wf] by linarith
    from wf this True show ?thesis by (rule ensure_writeable_law) (simp add: True)
  next
    case False
    with grow show ?thesis
      using buffer_sizes(2)[OF wf]
      by (simp add: xv_buffer_ensure_writeable_size_def c_int_def)
  qed
next
  case False
  then show ?thesis
    using buffer_sizes(2)[OF wf] by (simp add: xv_buffer_ensure_writeable_size_def)
qed

theorem xv_buffer_ensure_writeable_bounds_witness:
  "case xv_buffer_ensure_writeable_size (xv_buffer_init 8192) 2147483647 of
      None \<Rightarrow> True | Some b' \<Rightarrow> False"
  using xv_buffer_ensure_writeable_bounds[of "xv_buffer_init 8192" 2147483647]
    buffer_wf_init[of 8192]
  by (simp add: INT_MAX_def xv_buffer_init_def split: option.splits)

text \<open>Space bound: consuming bytes never leaves a dead prefix longer than half the block and
  \<open>XV_BUFFER_MOVE_CHECK_SIZE\<close> (2048) bytes, so a long-lived connection does not grow its buffer
  because of data it has already read.\<close>

theorem xv_buffer_incr_read_index_compacts:
  assumes wf: "buffer_wf b" and n: "0 \<le> n" "n \<le> int (length (readable b))"
  shows "\<exists>b'. xv_buffer_incr_read_index b n = Some b' \<and>
     b_read_idx b' \<le> max (b_size b' div 2) 2048 \<and> b_size b' = b_size b \<and>
     readable b' = drop (nat n) (readable b)"
proof -
  obtain b' where b': "xv_buffer_incr_read_index b n = Some b'" "buffer_wf b'"
    "readable b' = drop (nat n) (readable b)" "b_size b' = b_size b" "compact b'"
    by (rule incr_read_law[OF wf n])
  then show ?thesis
    using compact_bound[OF b'(2,5)] by (simp add: XV_BUFFER_MOVE_CHECK_SIZE_def)
qed

theorem xv_buffer_incr_read_index_compacts_witness:
  "\<exists>b'. xv_buffer_incr_read_index
       \<lparr>b_buf = replicate 4096 (Some 0), b_size = 4096, b_read_idx = 0, b_write_idx = 4096\<rparr> 3000 = Some b' \<and>
     b_read_idx b' \<le> 2048 \<and> readable b' = replicate 1096 (Some 0)"
proof -
  let ?b = "\<lparr>b_buf = replicate 4096 (Some 0), b_size = 4096, b_read_idx = 0, b_write_idx = 4096\<rparr> :: xv_buffer_t"
  have wf: "buffer_wf ?b" and r: "readable ?b = replicate 4096 (Some 0)"
    by (simp_all add: buffer_wf_def INT_MAX_def readable_def)
  from xv_buffer_incr_read_index_compacts[OF wf, of 3000] show ?thesis
    by (auto simp: r)
qed

end
