(* ===== verification/Xv_Atomic.thy ===== *)
theory Xv_Atomic
  imports Xv_Prelude "HOL-Library.Multiset"
begin

section \<open>Atomic counters (\<^verbatim>\<open>src/src/xv_atomic.h\<close>)\<close>

text \<open>
  The counter is a 32-bit two's complement value; the \<^verbatim>\<open>__sync\<close> builtins wrap on overflow and
  are indivisible, so a concurrent execution is some sequence of these operations.
\<close>

record xv_atomic_t =
  counter :: u32

definition xv_atomic_get :: "xv_atomic_t \<Rightarrow> int" where
  "xv_atomic_get a = sint (counter a)"

definition xv_atomic_set :: "xv_atomic_t \<Rightarrow> int \<Rightarrow> xv_atomic_t" where
  "xv_atomic_set a v = a\<lparr>counter := word_of_int v\<rparr>"

definition xv_atomic_add :: "xv_atomic_t \<Rightarrow> int \<Rightarrow> int \<times> xv_atomic_t" where
  "xv_atomic_add a v = (let c = counter a + word_of_int v in (sint c, a\<lparr>counter := c\<rparr>))"

definition xv_atomic_sub :: "xv_atomic_t \<Rightarrow> int \<Rightarrow> int \<times> xv_atomic_t" where
  "xv_atomic_sub a v = (let c = counter a - word_of_int v in (sint c, a\<lparr>counter := c\<rparr>))"

definition xv_atomic_incr :: "xv_atomic_t \<Rightarrow> int \<times> xv_atomic_t" where
  "xv_atomic_incr a = xv_atomic_add a 1"

definition xv_atomic_decr :: "xv_atomic_t \<Rightarrow> int \<times> xv_atomic_t" where
  "xv_atomic_decr a = xv_atomic_sub a 1"

subsection \<open>Runs of read-modify-write operations\<close>

datatype atomic_op = AAdd int | ASub int | AIncr | ADecr

fun atomic_exec :: "xv_atomic_t \<Rightarrow> atomic_op \<Rightarrow> int \<times> xv_atomic_t" where
  "atomic_exec a (AAdd v) = xv_atomic_add a v"
| "atomic_exec a (ASub v) = xv_atomic_sub a v"
| "atomic_exec a AIncr = xv_atomic_incr a"
| "atomic_exec a ADecr = xv_atomic_decr a"

fun atomic_run :: "xv_atomic_t \<Rightarrow> atomic_op list \<Rightarrow> xv_atomic_t" where
  "atomic_run a [] = a"
| "atomic_run a (x # xs) = atomic_run (snd (atomic_exec a x)) xs"

fun atomic_delta :: "atomic_op \<Rightarrow> int" where
  "atomic_delta (AAdd v) = v"
| "atomic_delta (ASub v) = - v"
| "atomic_delta AIncr = 1"
| "atomic_delta ADecr = - 1"

lemmas atomic_defs = xv_atomic_get_def xv_atomic_set_def xv_atomic_add_def xv_atomic_sub_def
  xv_atomic_incr_def xv_atomic_decr_def

lemma atomic_exec_counter:
  "snd (atomic_exec a x) = a\<lparr>counter := counter a + word_of_int (atomic_delta x)\<rparr>"
  by (cases x) (simp_all add: atomic_defs Let_def)

lemma atomic_run_counter:
  "atomic_run a xs = a\<lparr>counter := counter a + word_of_int (sum_list (map atomic_delta xs))\<rparr>"
  by (induction xs arbitrary: a) (simp_all add: atomic_exec_counter add.assoc)

lemma sint_word_of_int_range: "INT_MIN \<le> x \<Longrightarrow> x \<le> INT_MAX \<Longrightarrow> sint (word_of_int x :: u32) = x"
  by (simp add: sint_sbintrunc' signed_take_bit_int_eq_self INT_MIN_def INT_MAX_def)

lemma atomic_exec_returns: "fst (atomic_exec a x) = xv_atomic_get (snd (atomic_exec a x))"
  by (cases x) (simp_all add: atomic_defs Let_def)

text \<open>Atomic updates commute: the final counter, wrap-around included, depends only on which
  operations were performed, not on the order in which threads interleaved them; each operation
  returns the value it has just stored.\<close>

theorem atomic_interleaving_irrelevant:
  assumes "mset xs = mset ys"
  shows "atomic_run a xs = atomic_run a ys \<and>
    (\<forall>x b. fst (atomic_exec b x) = xv_atomic_get (snd (atomic_exec b x)))"
proof -
  have "sum_list (map atomic_delta xs) = sum_list (map atomic_delta ys)"
    using assms by (metis mset_map sum_mset_sum_list)
  then show ?thesis
    by (simp add: atomic_run_counter atomic_exec_returns)
qed

theorem atomic_interleaving_irrelevant_witness:
  "atomic_run (xv_atomic_set \<lparr>counter = 0\<rparr> 1) [AIncr, ADecr, AAdd 5] =
   atomic_run (xv_atomic_set \<lparr>counter = 0\<rparr> 1) [AAdd 5, AIncr, ADecr]"
  using atomic_interleaving_irrelevant[of "[AIncr, ADecr, AAdd 5]" "[AAdd 5, AIncr, ADecr]"] by simp

text \<open>Within the \<^verbatim>\<open>int\<close> range the counter counts: after \<open>xv_atomic_set(v)\<close> and any operations
  whose total stays in range, \<open>xv_atomic_get\<close> is \<open>v\<close> plus the sum of the increments minus the
  decrements, whatever the intermediate values were.\<close>

theorem atomic_run_counts:
  assumes "INT_MIN \<le> v + sum_list (map atomic_delta xs)" "v + sum_list (map atomic_delta xs) \<le> INT_MAX"
  shows "xv_atomic_get (atomic_run (xv_atomic_set a v) xs) = v + sum_list (map atomic_delta xs)"
proof -
  have "counter (atomic_run (xv_atomic_set a v) xs) = word_of_int (v + sum_list (map atomic_delta xs))"
    by (simp add: atomic_run_counter xv_atomic_set_def)
  then show ?thesis
    using sint_word_of_int_range[OF assms] by (simp add: xv_atomic_get_def)
qed

theorem atomic_run_counts_witness:
  "xv_atomic_get (atomic_run (xv_atomic_set \<lparr>counter = 0\<rparr> 1) [AIncr, AIncr, ADecr]) = 2"
  using atomic_run_counts[of 1 "[AIncr, AIncr, ADecr]" "\<lparr>counter = 0\<rparr>"]
  by (simp add: INT_MIN_def INT_MAX_def)

end
