(* ===== verification/Xv_Connection.thy ===== *)
theory Xv_Connection
  imports Xv_Pool Xv_Buffer Xv_Atomic
begin

section \<open>Connections, listeners, messages and I/O threads (\<^verbatim>\<open>src/src/xv_service.c\<close>)\<close>

text \<open>
  The objects of the service layer and the operations on each of them, in the order of the source.
  A connection, a message and a service are blocks of the heap like every other object, so that a
  pointer kept after its block was released is seen. The functions of \<^verbatim>\<open>xv_service_handle_t\<close> are names;
  what they do is a parameter. Buffers live in the heap here, each as one block together with its bytes.
\<close>

subsection \<open>Data\<close>

text \<open>The user's functions for one listening port; \<open>None\<close> for a null pointer.\<close>

record xv_service_handle_t =
  h_decode :: "nat option"
  h_encode :: "nat option"
  h_process :: "nat option"
  h_packet_cleanup :: "nat option"
  h_on_send_failed :: "nat option"
  h_on_connect :: "nat option"
  h_on_disconnect :: "nat option"

record 's user_ops =
  u_decode :: "nat \<Rightarrow> addr \<Rightarrow> 's \<Rightarrow> (int \<times> addr \<times> 's) option"
  u_encode :: "nat \<Rightarrow> addr \<Rightarrow> addr \<Rightarrow> 's \<Rightarrow> (int \<times> 's) option"
  u_process :: "nat \<Rightarrow> addr \<Rightarrow> 's \<Rightarrow> (int \<times> 's) option"
  u_packet_cleanup :: "nat \<Rightarrow> addr \<Rightarrow> 's \<Rightarrow> 's option"
  u_on_connect :: "nat \<Rightarrow> addr \<Rightarrow> 's \<Rightarrow> 's option"
  u_on_disconnect :: "nat \<Rightarrow> addr \<Rightarrow> 's \<Rightarrow> 's option"

text \<open>A callback that is absent, or only looks at what it is given: it returns and leaves the state of the library as it is.\<close>

definition callback_silent :: "(nat \<Rightarrow> addr \<Rightarrow> 's \<Rightarrow> 's option) \<Rightarrow> nat option \<Rightarrow> bool" where
  "callback_silent call cb \<longleftrightarrow> (\<forall>f p s. cb = Some f \<longrightarrow> call f p s = Some s)"

lemma callback_silent_run:
  "callback_silent call cb \<Longrightarrow> (case cb of None \<Rightarrow> Some s | Some f \<Rightarrow> call f p s) = Some s"
  by (cases cb) (simp_all add: callback_silent_def)

lemma callback_silent_none [simp]: "callback_silent call None"
  by (simp add: callback_silent_def)

record xv_service_config_t =
  io_thread_count :: int
  worker_thread_count :: int
  tcp_nodealy :: bool
  io_affinity_enable :: bool

datatype xv_connection_status_t = XV_CONN_OPEN | XV_CONN_CLOSED

text \<open>\<^verbatim>\<open>conn->handle\<close> points at the \<^verbatim>\<open>handle\<close> inside a listener; the model keeps the listener's address.\<close>

record xv_connection_t =
  c_addr :: string
  c_port :: int
  c_fd :: int
  c_read_io :: addr
  c_write_io :: addr
  c_read_buffer :: addr
  c_write_buffer :: addr
  c_handle :: addr
  c_io_thread :: addr
  c_status :: xv_connection_status_t
  c_ref_count :: xv_atomic_t

text \<open>\<^verbatim>\<open>xv_listener_init\<close> leaves the link unassigned.\<close>

record xv_listener_t =
  ls_addr :: string
  ls_port :: int
  ls_fd :: int
  ls_io :: addr
  ls_handle :: xv_service_handle_t
  ls_io_thread :: addr
  ls_next :: "addr option"

record xv_message_t =
  m_conn :: addr
  m_request :: addr
  m_response :: addr

record xv_io_thread_t =
  it_idx :: int
  it_id :: "tid option"
  it_loop :: addr
  it_service :: addr
  it_async_add_conn :: addr
  it_conn_queue :: addr
  it_async_return_message :: addr
  it_message_queue :: addr

text \<open>The table of connections is an array of pointers; a cell is \<open>None\<close> until it is first assigned.\<close>

record xv_service_t =
  sv_config :: xv_service_config_t
  sv_io_threads :: addr
  sv_worker_threads :: addr
  sv_listeners :: addr
  sv_conn_setsize :: int
  sv_connections :: addr
  sv_conn_count :: xv_atomic_t
  sv_start :: bool

record xv_service_pool_task_t =
  pt_cb :: "nat option"
  pt_message :: addr

record 'k sheap = "'k wheap" +
  buffers :: "addr \<rightharpoonup> xv_buffer_t"
  connections :: "addr \<rightharpoonup> xv_connection_t"
  listeners :: "addr \<rightharpoonup> xv_listener_t"
  messages :: "addr \<rightharpoonup> xv_message_t"
  pool_tasks :: "addr \<rightharpoonup> xv_service_pool_task_t"
  io_threads :: "addr \<rightharpoonup> xv_io_thread_t"
  io_thread_arrays :: "addr \<rightharpoonup> addr option list"
  conn_arrays :: "addr \<rightharpoonup> addr option list"
  services :: "addr \<rightharpoonup> xv_service_t"

definition XV_DEFAULT_LOOP_SIZE :: int where "XV_DEFAULT_LOOP_SIZE = 1024"
definition XV_DEFAULT_BUFFRT_SIZE :: int where "XV_DEFAULT_BUFFRT_SIZE = 8192"
definition XV_DEFAULT_READ_SIZE :: int where "XV_DEFAULT_READ_SIZE = 4096"
definition XV_ADDR_LEN :: nat where "XV_ADDR_LEN = 32"

subsection \<open>Buffers in the heap\<close>

definition buffer_alloc :: "('k, 'z) sheap_scheme \<Rightarrow> int \<Rightarrow> addr \<times> ('k, 'z) sheap_scheme" where
  "buffer_alloc s n =
     (let (b, s) = xv_malloc s in (b, s\<lparr>buffers := (buffers s)(b \<mapsto> xv_buffer_init n)\<rparr>))"

definition xv_buffer_destroy :: "('k, 'z) sheap_scheme \<Rightarrow> addr \<Rightarrow> ('k, 'z) sheap_scheme option" where
  "xv_buffer_destroy s b = do {
     _ \<leftarrow> deref (buffers s) b;
     h \<leftarrow> xv_free (buffers s) b;
     Some (s\<lparr>buffers := h\<rparr>) }"

text \<open>A call of a buffer operation through a pointer.\<close>

definition buffer_upd ::
  "('k, 'z) sheap_scheme \<Rightarrow> addr \<Rightarrow> (xv_buffer_t \<Rightarrow> xv_buffer_t option) \<Rightarrow> ('k, 'z) sheap_scheme option" where
  "buffer_upd s b f = do {
     x \<leftarrow> deref (buffers s) b;
     y \<leftarrow> f x;
     Some (s\<lparr>buffers := (buffers s)(b \<mapsto> y)\<rparr>) }"

subsection \<open>Connections\<close>

text \<open>\<^verbatim>\<open>strncpy(dst, src, XV_ADDR_LEN)\<close>: without a terminator when the text has 32 characters or more.\<close>

definition copy_addr :: "string \<Rightarrow> string" where
  "copy_addr addr = take XV_ADDR_LEN addr"

definition xv_connection_init ::
  "('k, 'z) sheap_scheme \<Rightarrow> string \<Rightarrow> int \<Rightarrow> int \<Rightarrow> addr \<Rightarrow> io_cb option \<Rightarrow> io_cb option \<Rightarrow>
   (addr \<times> ('k, 'z) sheap_scheme) option" where
  "xv_connection_init s addr port fd handle read_cb write_cb = do {
     let (conn, s) = xv_malloc s;
     let (read_io, s) = xv_io_init s fd XV_READ read_cb;
     s \<leftarrow> xv_io_set_userdata s read_io conn;
     let (write_io, s) = xv_io_init s fd XV_WRITE write_cb;
     s \<leftarrow> xv_io_set_userdata s write_io conn;
     let (read_buffer, s) = buffer_alloc s XV_DEFAULT_BUFFRT_SIZE;
     let (write_buffer, s) = buffer_alloc s XV_DEFAULT_BUFFRT_SIZE;
     Some (conn, s\<lparr>connections := (connections s)(conn \<mapsto>
       \<lparr>c_addr = copy_addr addr, c_port = port, c_fd = fd, c_read_io = read_io, c_write_io = write_io,
        c_read_buffer = read_buffer, c_write_buffer = write_buffer, c_handle = handle,
        c_io_thread = NULL, c_status = XV_CONN_OPEN,
        c_ref_count = xv_atomic_set \<lparr>counter = 0\<rparr> 1\<rparr>)\<rparr>) }"

definition xv_connection_stop ::
  "('k, 'y) sys_ops_scheme \<Rightarrow> ('k, 'z) sheap_scheme \<Rightarrow> addr \<Rightarrow> addr \<Rightarrow> ('k, 'z) sheap_scheme option" where
  "xv_connection_stop K s loop conn = do {
     c \<leftarrow> deref (connections s) conn;
     (_, s) \<leftarrow> xv_io_stop K s loop (c_read_io c);
     c \<leftarrow> deref (connections s) conn;
     (_, s) \<leftarrow> xv_io_stop K s loop (c_write_io c);
     Some s }"

text \<open>A watcher that is still started is not released; the result of \<^verbatim>\<open>xv_io_destroy\<close> is ignored.\<close>

definition xv_connection_destroy :: "('k, 'z) sheap_scheme \<Rightarrow> addr \<Rightarrow> ('k, 'z) sheap_scheme option" where
  "xv_connection_destroy s conn = do {
     c \<leftarrow> deref (connections s) conn;
     (_, s) \<leftarrow> xv_io_destroy s (c_read_io c);
     (_, s) \<leftarrow> xv_io_destroy s (c_write_io c);
     s \<leftarrow> xv_buffer_destroy s (c_read_buffer c);
     s \<leftarrow> xv_buffer_destroy s (c_write_buffer c);
     h \<leftarrow> xv_free (connections s) conn;
     Some (s\<lparr>connections := h\<rparr>) }"

definition xv_connection_get_addr :: "('k, 'z) sheap_scheme \<Rightarrow> addr \<Rightarrow> string option" where
  "xv_connection_get_addr s conn = do { c \<leftarrow> deref (connections s) conn; Some (c_addr c) }"

definition xv_connection_get_port :: "('k, 'z) sheap_scheme \<Rightarrow> addr \<Rightarrow> int option" where
  "xv_connection_get_port s conn = do { c \<leftarrow> deref (connections s) conn; Some (c_port c) }"

definition xv_connection_get_fd :: "('k, 'z) sheap_scheme \<Rightarrow> addr \<Rightarrow> int option" where
  "xv_connection_get_fd s conn = do { c \<leftarrow> deref (connections s) conn; Some (c_fd c) }"

definition xv_connection_incr_ref :: "('k, 'z) sheap_scheme \<Rightarrow> addr \<Rightarrow> ('k, 'z) sheap_scheme option" where
  "xv_connection_incr_ref s conn = do {
     c \<leftarrow> deref (connections s) conn;
     Some (s\<lparr>connections := (connections s)(conn \<mapsto> c\<lparr>c_ref_count := snd (xv_atomic_incr (c_ref_count c))\<rparr>)\<rparr>) }"

definition xv_connection_decr_ref :: "('k, 'z) sheap_scheme \<Rightarrow> addr \<Rightarrow> ('k, 'z) sheap_scheme option" where
  "xv_connection_decr_ref s conn = do {
     c \<leftarrow> deref (connections s) conn;
     Some (s\<lparr>connections := (connections s)(conn \<mapsto> c\<lparr>c_ref_count := snd (xv_atomic_decr (c_ref_count c))\<rparr>)\<rparr>) }"

subsection \<open>Listeners\<close>

definition xv_listener_init ::
  "('k, 'z) sheap_scheme \<Rightarrow> string \<Rightarrow> int \<Rightarrow> int \<Rightarrow> xv_service_handle_t \<Rightarrow> io_cb option \<Rightarrow>
   (addr \<times> ('k, 'z) sheap_scheme) option" where
  "xv_listener_init s addr port fd handle new_conn_cb = do {
     let (listener, s) = xv_malloc s;
     let (io, s) = xv_io_init s fd XV_READ new_conn_cb;
     let s = s\<lparr>listeners := (listeners s)(listener \<mapsto>
       \<lparr>ls_addr = copy_addr addr, ls_port = port, ls_fd = fd, ls_io = io, ls_handle = handle,
        ls_io_thread = NULL, ls_next = None\<rparr>)\<rparr>;
     s \<leftarrow> xv_io_set_userdata s io listener;
     Some (listener, s) }"

definition xv_listener_stop ::
  "('k, 'y) sys_ops_scheme \<Rightarrow> ('k, 'z) sheap_scheme \<Rightarrow> addr \<Rightarrow> addr \<Rightarrow> ('k, 'z) sheap_scheme option" where
  "xv_listener_stop K s loop listener = do {
     l \<leftarrow> deref (listeners s) listener;
     (_, s) \<leftarrow> xv_io_stop K s loop (ls_io l);
     l \<leftarrow> deref (listeners s) listener;
     Some (s\<lparr>kern := snd (xv_close K (ls_fd l) (kern s))\<rparr>) }"

definition xv_listener_destroy :: "('k, 'z) sheap_scheme \<Rightarrow> addr \<Rightarrow> ('k, 'z) sheap_scheme option" where
  "xv_listener_destroy s listener = do {
     l \<leftarrow> deref (listeners s) listener;
     (_, s) \<leftarrow> xv_io_destroy s (ls_io l);
     h \<leftarrow> xv_free (listeners s) listener;
     Some (s\<lparr>listeners := h\<rparr>) }"

text \<open>\<^verbatim>\<open>*handle\<close>: undefined once the listener that holds it has been released.\<close>

definition handle_at :: "('k, 'z) sheap_scheme \<Rightarrow> addr \<Rightarrow> xv_service_handle_t option" where
  "handle_at s handle = do { l \<leftarrow> deref (listeners s) handle; Some (ls_handle l) }"

subsection \<open>Messages\<close>

definition xv_message_init :: "('k, 'z) sheap_scheme \<Rightarrow> addr \<Rightarrow> (addr \<times> ('k, 'z) sheap_scheme) option" where
  "xv_message_init s conn = do {
     let (message, s) = xv_malloc s;
     s \<leftarrow> xv_connection_incr_ref s conn;
     Some (message, s\<lparr>messages := (messages s)(message \<mapsto>
       \<lparr>m_conn = conn, m_request = NULL, m_response = NULL\<rparr>)\<rparr>) }"

definition xv_message_get_connection :: "('k, 'z) sheap_scheme \<Rightarrow> addr \<Rightarrow> addr option" where
  "xv_message_get_connection s message = do { m \<leftarrow> deref (messages s) message; Some (m_conn m) }"

definition xv_message_get_request :: "('k, 'z) sheap_scheme \<Rightarrow> addr \<Rightarrow> addr option" where
  "xv_message_get_request s message = do { m \<leftarrow> deref (messages s) message; Some (m_request m) }"

definition xv_message_get_response :: "('k, 'z) sheap_scheme \<Rightarrow> addr \<Rightarrow> addr option" where
  "xv_message_get_response s message = do { m \<leftarrow> deref (messages s) message; Some (m_response m) }"

definition xv_message_set_request ::
  "('k, 'z) sheap_scheme \<Rightarrow> addr \<Rightarrow> addr \<Rightarrow> ('k, 'z) sheap_scheme option" where
  "xv_message_set_request s message request = do {
     m \<leftarrow> deref (messages s) message;
     Some (s\<lparr>messages := (messages s)(message \<mapsto> m\<lparr>m_request := request\<rparr>)\<rparr>) }"

definition xv_message_set_response ::
  "('k, 'z) sheap_scheme \<Rightarrow> addr \<Rightarrow> addr \<Rightarrow> ('k, 'z) sheap_scheme option" where
  "xv_message_set_response s message response = do {
     m \<leftarrow> deref (messages s) message;
     Some (s\<lparr>messages := (messages s)(message \<mapsto> m\<lparr>m_response := response\<rparr>)\<rparr>) }"

text \<open>The two packets are cleaned up through the user's function; the message is read again for each.\<close>

definition cleanup_packet ::
  "('k, 'z) sheap_scheme user_ops \<Rightarrow> nat \<Rightarrow> (xv_message_t \<Rightarrow> addr) \<Rightarrow> addr \<Rightarrow> ('k, 'z) sheap_scheme \<Rightarrow>
   ('k, 'z) sheap_scheme option" where
  "cleanup_packet U f sel message s = do {
     m \<leftarrow> deref (messages s) message;
     if sel m = NULL then Some s else u_packet_cleanup U f (sel m) s }"

definition xv_message_destroy ::
  "('k, 'z) sheap_scheme user_ops \<Rightarrow> ('k, 'z) sheap_scheme \<Rightarrow> addr \<Rightarrow> nat option \<Rightarrow>
   ('k, 'z) sheap_scheme option" where
  "xv_message_destroy U s message packet_cleanup = do {
     s \<leftarrow> (case packet_cleanup of
            None \<Rightarrow> Some s
          | Some f \<Rightarrow> do { s \<leftarrow> cleanup_packet U f m_request message s;
                          cleanup_packet U f m_response message s });
     m \<leftarrow> deref (messages s) message;
     s \<leftarrow> xv_connection_decr_ref s (m_conn m);
     h \<leftarrow> xv_free (messages s) message;
     Some (s\<lparr>messages := h\<rparr>) }"

subsection \<open>I/O threads\<close>

definition xv_io_thread_init ::
  "('k, 'y) sys_ops_scheme \<Rightarrow> ('k, 'z) sheap_scheme \<Rightarrow> int \<Rightarrow> addr \<Rightarrow> (addr \<times> ('k, 'z) sheap_scheme) option" where
  "xv_io_thread_init K s i service = do {
     let (io_thread, s) = xv_malloc s;
     let (loop, s) = xv_loop_init K s XV_DEFAULT_LOOP_SIZE;
     let (conn_queue, s) = xv_concurrent_queue_init s;
     (async_add_conn, s) \<leftarrow> xv_async_init K s (Some Io_thread_add_conn_cb);
     s \<leftarrow> xv_async_set_userdata s async_add_conn io_thread;
     let (message_queue, s) = xv_concurrent_queue_init s;
     (async_return_message, s) \<leftarrow> xv_async_init K s (Some Io_thread_return_message_cb);
     s \<leftarrow> xv_async_set_userdata s async_return_message io_thread;
     Some (io_thread, s\<lparr>io_threads := (io_threads s)(io_thread \<mapsto>
       \<lparr>it_idx = i, it_id = None, it_loop = loop, it_service = service,
        it_async_add_conn = async_add_conn, it_conn_queue = conn_queue,
        it_async_return_message = async_return_message, it_message_queue = message_queue\<rparr>)\<rparr>) }"

definition xv_io_thread_stop ::
  "('k, 'y) sys_ops_scheme \<Rightarrow> ('k, 'z) sheap_scheme \<Rightarrow> addr \<Rightarrow> ('k, 'z) sheap_scheme option" where
  "xv_io_thread_stop K s io_thread = do {
     t \<leftarrow> deref (io_threads s) io_thread;
     (_, s) \<leftarrow> xv_async_stop K s (it_loop t) (it_async_add_conn t);
     t \<leftarrow> deref (io_threads s) io_thread;
     (_, s) \<leftarrow> xv_async_stop K s (it_loop t) (it_async_return_message t);
     t \<leftarrow> deref (io_threads s) io_thread;
     xv_loop_break s (it_loop t) }"

text \<open>
  The connections still waiting in the first queue are destroyed. The messages in the second one are
  handed to \<^verbatim>\<open>xv_message_destroy\<close> through a cast to a function of one argument; calling a function of
  two arguments that way is undefined.
\<close>

definition xv_io_thread_destroy ::
  "('k, 'y) sys_ops_scheme \<Rightarrow> ('k, 'z) sheap_scheme \<Rightarrow> addr \<Rightarrow> ('k, 'z) sheap_scheme option" where
  "xv_io_thread_destroy K s io_thread = do {
     t \<leftarrow> deref (io_threads s) io_thread;
     s \<leftarrow> xv_concurrent_queue_destroy s (it_conn_queue t) (Some (\<lambda>p s. xv_connection_destroy s p));
     (_, s) \<leftarrow> xv_async_destroy K s (it_async_add_conn t);
     s \<leftarrow> xv_concurrent_queue_destroy s (it_message_queue t) (Some (\<lambda>p s. None));
     (_, s) \<leftarrow> xv_async_destroy K s (it_async_return_message t);
     s \<leftarrow> xv_loop_destroy s (it_loop t);
     h \<leftarrow> xv_free (io_threads s) io_thread;
     Some (s\<lparr>io_threads := h\<rparr>) }"

subsection \<open>The service's table of connections\<close>

text \<open>
  The cells that \<^verbatim>\<open>xv_realloc\<close> adds are not assigned. The byte count of the array is an \<^verbatim>\<open>int\<close>: above
  \<open>INT_MAX\<close> it turns negative, no such block can be allocated, and the store that follows has no target.
\<close>

definition xv_service_add_connection ::
  "('k, 'z) sheap_scheme \<Rightarrow> addr \<Rightarrow> addr \<Rightarrow> ('k, 'z) sheap_scheme option" where
  "xv_service_add_connection s service conn = do {
     c \<leftarrow> deref (connections s) conn;
     sv \<leftarrow> deref (services s) service;
     (sv, s) \<leftarrow>
       (if c_fd c > sv_conn_setsize sv
        then do {
          n \<leftarrow> c_int (sv_conn_setsize sv * 2);
          _ \<leftarrow> c_int (8 * n);
          arr \<leftarrow> deref (conn_arrays s) (sv_connections sv);
          h \<leftarrow> xv_free (conn_arrays s) (sv_connections sv);
          let (p, s) = xv_malloc s;
          Some (sv\<lparr>sv_conn_setsize := n, sv_connections := p\<rparr>,
                s\<lparr>conn_arrays := h(p \<mapsto> xv_realloc None arr n)\<rparr>) }
        else Some (sv, s));
     arr \<leftarrow> deref (conn_arrays s) (sv_connections sv);
     arr \<leftarrow> arr_set arr (c_fd c) (Some conn);
     let sv = sv\<lparr>sv_conn_count := snd (xv_atomic_incr (sv_conn_count sv))\<rparr>;
     Some (s\<lparr>conn_arrays := (conn_arrays s)(sv_connections sv \<mapsto> arr), services := (services s)(service \<mapsto> sv)\<rparr>) }"

definition xv_service_del_connection ::
  "('k, 'z) sheap_scheme \<Rightarrow> addr \<Rightarrow> addr \<Rightarrow> (int \<times> ('k, 'z) sheap_scheme) option" where
  "xv_service_del_connection s service conn = do {
     c \<leftarrow> deref (connections s) conn;
     sv \<leftarrow> deref (services s) service;
     if c_fd c < 0 \<or> c_fd c \<ge> sv_conn_setsize sv then Some (XV_ERR, s)
     else do {
       arr \<leftarrow> deref (conn_arrays s) (sv_connections sv);
       arr \<leftarrow> arr_set arr (c_fd c) (Some NULL);
       let sv = sv\<lparr>sv_conn_count := snd (xv_atomic_decr (sv_conn_count sv))\<rparr>;
       Some (XV_OK, s\<lparr>conn_arrays := (conn_arrays s)(sv_connections sv \<mapsto> arr),
         services := (services s)(service \<mapsto> sv)\<rparr>) } }"

subsection \<open>Closing a connection\<close>

definition xv_connection_close ::
  "('k, 'y) sys_ops_scheme \<Rightarrow> ('k, 'z) sheap_scheme user_ops \<Rightarrow> ('k, 'z) sheap_scheme \<Rightarrow> addr \<Rightarrow>
   ('k, 'z) sheap_scheme option" where
  "xv_connection_close K U s conn = do {
     c \<leftarrow> deref (connections s) conn;
     s \<leftarrow>
       (if c_status c \<noteq> XV_CONN_CLOSED
        then do {
          let s = s\<lparr>connections := (connections s)(conn \<mapsto> c\<lparr>c_status := XV_CONN_CLOSED\<rparr>)\<rparr>;
          h \<leftarrow> handle_at s (c_handle c);
          s \<leftarrow> (case h_on_disconnect h of None \<Rightarrow> Some s | Some f \<Rightarrow> u_on_disconnect U f conn s);
          c \<leftarrow> deref (connections s) conn;
          t \<leftarrow> deref (io_threads s) (c_io_thread c);
          xv_connection_stop K s (it_loop t) conn }
        else Some s);
     c \<leftarrow> deref (connections s) conn;
     if xv_atomic_get (c_ref_count c) > 1 then Some s
     else do {
       t \<leftarrow> deref (io_threads s) (c_io_thread c);
       (_, s) \<leftarrow> xv_service_del_connection s (it_service t) conn;
       let s = s\<lparr>kern := snd (xv_close K (c_fd c) (kern s))\<rparr>;
       xv_connection_destroy s conn } }"

end
