(* ===== verification/Xv_Handlers.thy ===== *)
theory Xv_Handlers
  imports Xv_Connection
begin

section \<open>The event handlers of the service (\<^verbatim>\<open>src/src/xv_service.c\<close>)\<close>

text \<open>
  What an I/O thread does when its loop reports a descriptor, when another thread hands it a
  connection or a message, and what a worker does with a request: one definition per function of the
  source. \<open>K\<close> is the operating system, \<open>U\<close> the user's functions. At the end the three kinds of function
  pointers are tied to these definitions.
\<close>

subsection \<open>Handing messages to an I/O thread\<close>

text \<open>The error log of the first branch prints a constant text, so \<^verbatim>\<open>conn\<close> may be null there.\<close>

definition xv_service_send_message ::
  "('k, 'y) sys_ops_scheme \<Rightarrow> ('k, 'z) sheap_scheme \<Rightarrow> addr \<Rightarrow> addr \<Rightarrow> (int \<times> ('k, 'z) sheap_scheme) option" where
  "xv_service_send_message K s conn package =
     (if conn = NULL then Some (XV_ERR, s)
      else do {
        c \<leftarrow> deref (connections s) conn;
        if c_status c = XV_CONN_CLOSED then Some (XV_ERR, s)
        else do {
          (message, s) \<leftarrow> xv_message_init s conn;
          s \<leftarrow> xv_message_set_response s message package;
          c \<leftarrow> deref (connections s) conn;
          t \<leftarrow> deref (io_threads s) (c_io_thread c);
          s \<leftarrow> xv_concurrent_queue_push s (it_message_queue t) message;
          (_, s) \<leftarrow> xv_async_send K s (it_async_return_message t);
          Some (XV_OK, s) } })"

text \<open>The job a worker runs for the service.\<close>

definition thread_pool_task_cb ::
  "('k, 'y) sys_ops_scheme \<Rightarrow> ('k, 'z) sheap_scheme user_ops \<Rightarrow> addr \<Rightarrow> ('k, 'z) sheap_scheme \<Rightarrow>
   ('k, 'z) sheap_scheme option" where
  "thread_pool_task_cb K U task s = do {
     p \<leftarrow> deref (pool_tasks s) task;
     s \<leftarrow> (case pt_cb p of
            None \<Rightarrow> Some s
          | Some f \<Rightarrow> if pt_message p = NULL then Some s
                      else map_option snd (u_process U f (pt_message p) s));
     p \<leftarrow> deref (pool_tasks s) task;
     conn \<leftarrow> xv_message_get_connection s (pt_message p);
     c \<leftarrow> deref (connections s) conn;
     t \<leftarrow> deref (io_threads s) (c_io_thread c);
     s \<leftarrow> xv_concurrent_queue_push s (it_message_queue t) (pt_message p);
     (_, s) \<leftarrow> xv_async_send K s (it_async_return_message t);
     h \<leftarrow> xv_free (pool_tasks s) task;
     Some (s\<lparr>pool_tasks := h\<rparr>) }"

subsection \<open>Writing responses\<close>

text \<open>The bytes passed to \<^verbatim>\<open>write\<close>: \<open>n\<close> bytes from the read index on, all of them written before.\<close>

definition pending_bytes :: "xv_buffer_t \<Rightarrow> int \<Rightarrow> byte list option" where
  "pending_bytes b n = do {
     cells \<leftarrow> mem_get (b_buf b) (xv_buffer_read_begin b) n;
     if None \<in> set cells then None else Some (map the cells) }"

text \<open>\<^verbatim>\<open>int nwritten = write(...)\<close>, with \<^verbatim>\<open>errno\<close> beside the -1 of a failed call.\<close>

definition do_write ::
  "('k, 'y) sys_ops_scheme \<Rightarrow> ('k, 'z) sheap_scheme \<Rightarrow> int \<Rightarrow> byte list \<Rightarrow>
   int \<times> errno option \<times> ('k, 'z) sheap_scheme" where
  "do_write K s fd bs =
     (let (res, k) = sys_write K fd bs (kern s); s = s\<lparr>kern := k\<rparr> in
      case res of Inl e \<Rightarrow> (- 1, Some e, s) | Inr n \<Rightarrow> (n, None, s))"

definition retryable :: "errno option \<Rightarrow> bool" where
  "retryable e \<longleftrightarrow> e = Some EAGAIN \<or> e = Some EINTR"

text \<open>The debug line of the first branch reads \<^verbatim>\<open>handle->encode\<close>, so the handle is read on every path.\<close>

definition process_message ::
  "('k, 'y) sys_ops_scheme \<Rightarrow> ('k, 'z) sheap_scheme user_ops \<Rightarrow> addr \<Rightarrow> addr \<Rightarrow> addr \<Rightarrow> addr \<Rightarrow>
   ('k, 'z) sheap_scheme \<Rightarrow> ('k, 'z) sheap_scheme option" where
  "process_message K U loop message conn handle s = do {
     response \<leftarrow> xv_message_get_response s message;
     h \<leftarrow> handle_at s handle;
     case h_encode h of
       None \<Rightarrow> Some s
     | Some encode \<Rightarrow>
         if response = NULL then Some s
         else do {
           c \<leftarrow> deref (connections s) conn;
           (_, s) \<leftarrow> u_encode U encode (c_write_buffer c) response s;
           c \<leftarrow> deref (connections s) conn;
           b \<leftarrow> deref (buffers s) (c_write_buffer c);
           want_write_size \<leftarrow> xv_buffer_readable_size b;
           if want_write_size = 0 then Some s
           else do {
             bs \<leftarrow> pending_bytes b want_write_size;
             let (nwritten, errno, s) = do_write K s (c_fd c) bs;
             if nwritten = - 1 \<and> \<not> retryable errno then xv_connection_close K U s conn
             else do {
               s \<leftarrow> (if nwritten > 0
                    then buffer_upd s (c_write_buffer c) (\<lambda>b. xv_buffer_incr_read_index b nwritten)
                    else Some s);
               if nwritten < want_write_size \<and> c_status c = XV_CONN_OPEN
               then map_option snd (xv_io_start K s loop (c_write_io c))
               else Some s } } } }"

definition on_connection_write ::
  "('k, 'y) sys_ops_scheme \<Rightarrow> ('k, 'z) sheap_scheme user_ops \<Rightarrow> addr \<Rightarrow> addr \<Rightarrow>
   ('k, 'z) sheap_scheme \<Rightarrow> ('k, 'z) sheap_scheme option" where
  "on_connection_write K U loop io s = do {
     conn \<leftarrow> xv_io_get_userdata s io;
     c \<leftarrow> deref (connections s) conn;
     b \<leftarrow> deref (buffers s) (c_write_buffer c);
     buffer_size \<leftarrow> xv_buffer_readable_size b;
     if buffer_size > 0
     then do {
       bs \<leftarrow> pending_bytes b buffer_size;
       let (nwritten, errno, s) = do_write K s (c_fd c) bs;
       if nwritten = 0 \<or> nwritten = - 1 \<and> \<not> retryable errno then xv_connection_close K U s conn
       else do {
         s \<leftarrow> (if nwritten > 0
              then buffer_upd s (c_write_buffer c) (\<lambda>b. xv_buffer_incr_read_index b nwritten)
              else Some s);
         if nwritten = buffer_size then map_option snd (xv_io_stop K s loop (c_write_io c)) else Some s } }
     else map_option snd (xv_io_stop K s loop (c_write_io c)) }"

subsection \<open>Reading requests\<close>

text \<open>The hash code handed to the pool is the truth value of a comparison.\<close>

definition task_hash :: "addr \<Rightarrow> int" where
  "task_hash task = (if task > 16 then 1 else 0)"

definition process_read_buffer ::
  "('k, 'y) sys_ops_scheme \<Rightarrow> ('k, 'z) sheap_scheme user_ops \<Rightarrow> addr \<Rightarrow> addr \<Rightarrow> addr \<Rightarrow>
   ('k, 'z) sheap_scheme \<Rightarrow> ('k, 'z) sheap_scheme option" where
  "process_read_buffer K U loop conn handle s = do {
     h \<leftarrow> handle_at s handle;
     c \<leftarrow> deref (connections s) conn;
     case (h_decode h, h_process h) of
       (Some decode, Some process) \<Rightarrow> do {
         (ret, request, s) \<leftarrow> u_decode U decode (c_read_buffer c) s;
         if ret = XV_OK
         then do {
           (message, s) \<leftarrow> xv_message_init s conn;
           s \<leftarrow> xv_message_set_request s message request;
           c \<leftarrow> deref (connections s) conn;
           t \<leftarrow> deref (io_threads s) (c_io_thread c);
           sv \<leftarrow> deref (services s) (it_service t);
           h \<leftarrow> handle_at s handle;
           if sv_worker_threads sv = NULL
           then do {
             f \<leftarrow> h_process h;
             (_, s) \<leftarrow> u_process U f message s;
             s \<leftarrow> process_message K U loop message conn handle s;
             h \<leftarrow> handle_at s handle;
             xv_message_destroy U s message (h_packet_cleanup h) }
           else do {
             let (task, s) = xv_malloc s;
             let s = s\<lparr>pool_tasks := (pool_tasks s)(task \<mapsto> \<lparr>pt_cb = h_process h, pt_message = message\<rparr>)\<rparr>;
             (_, s) \<leftarrow> xv_thread_pool_push_task K s (sv_worker_threads sv) (Some Thread_pool_task_cb) task (task_hash task);
             Some s } }
         else if ret = XV_ERR then xv_connection_close K U s conn
         else Some s }
     | _ \<Rightarrow> buffer_upd s (c_read_buffer c) (\<lambda>b. Some (xv_buffer_clear b)) }"

definition on_connection_read ::
  "('k, 'y) sys_ops_scheme \<Rightarrow> ('k, 'z) sheap_scheme user_ops \<Rightarrow> addr \<Rightarrow> addr \<Rightarrow>
   ('k, 'z) sheap_scheme \<Rightarrow> ('k, 'z) sheap_scheme option" where
  "on_connection_read K U loop io s = do {
     fd \<leftarrow> xv_io_get_fd s io;
     conn \<leftarrow> xv_io_get_userdata s io;
     c \<leftarrow> deref (connections s) conn;
     if c_status c = XV_CONN_CLOSED then Some s
     else do {
       s \<leftarrow> buffer_upd s (c_read_buffer c) (\<lambda>b. xv_buffer_ensure_writeable_size b XV_DEFAULT_READ_SIZE);
       let (res, k) = sys_read K fd XV_DEFAULT_READ_SIZE (kern s);
       let s = s\<lparr>kern := k\<rparr>;
       case res of
         Inl e \<Rightarrow> if e = EAGAIN \<or> e = EINTR then Some s else xv_connection_close K U s conn
       | Inr bs \<Rightarrow>
           if bs = [] then xv_connection_close K U s conn
           else do {
             s \<leftarrow> buffer_upd s (c_read_buffer c) (\<lambda>b. do {
                    buf \<leftarrow> mem_put (b_buf b) (xv_buffer_write_begin b) (map Some bs);
                    Some (b\<lparr>b_buf := buf\<rparr>) });
             s \<leftarrow> buffer_upd s (c_read_buffer c) (\<lambda>b. xv_buffer_incr_write_index b (int (length bs)));
             process_read_buffer K U loop conn (c_handle c) s } } }"

subsection \<open>New connections\<close>

text \<open>\<^verbatim>\<open>service->io_threads[i]\<close>, with an index outside the array and a cell never assigned undefined.\<close>

definition io_thread_at :: "('k, 'z) sheap_scheme \<Rightarrow> xv_service_t \<Rightarrow> int \<Rightarrow> addr option" where
  "io_thread_at s sv i = do {
     arr \<leftarrow> deref (io_thread_arrays s) (sv_io_threads sv);
     cell \<leftarrow> arr_get arr i;
     cell }"

text \<open>The second half of \<^verbatim>\<open>on_new_connection\<close>: the connection stays with the only thread, or is sent to a
  follower.\<close>

definition dispatch_connection ::
  "('k, 'y) sys_ops_scheme \<Rightarrow> addr \<Rightarrow> addr \<Rightarrow> addr \<Rightarrow> addr \<Rightarrow> ('k, 'z) sheap_scheme \<Rightarrow>
   ('k, 'z) sheap_scheme option" where
  "dispatch_connection K loop listener service conn s = do {
     sv \<leftarrow> deref (services s) service;
     c \<leftarrow> deref (connections s) conn;
     let n = io_thread_count (sv_config sv);
     if n = 1
     then do {
       l \<leftarrow> deref (listeners s) listener;
       let s = s\<lparr>connections := (connections s)(conn \<mapsto> c\<lparr>c_io_thread := ls_io_thread l\<rparr>)\<rparr>;
       map_option snd (xv_io_start K s loop (c_read_io c)) }
     else do {
       d \<leftarrow> c_int (n - 1);
       r \<leftarrow> c_mod (c_fd c) d;
       index \<leftarrow> c_int (r + 1);
       t \<leftarrow> io_thread_at s sv index;
       th \<leftarrow> deref (io_threads s) t;
       s \<leftarrow> xv_concurrent_queue_push s (it_conn_queue th) conn;
       map_option snd (xv_async_send K s (it_async_add_conn th)) } }"

text \<open>\<open>addr\<close> is a block of \<^verbatim>\<open>XV_ADDR_LEN\<close> characters, long enough for every IPv4 address.\<close>

definition on_new_connection ::
  "('k, 'y) sys_ops_scheme \<Rightarrow> ('k, 'z) sheap_scheme user_ops \<Rightarrow> addr \<Rightarrow> addr \<Rightarrow>
   ('k, 'z) sheap_scheme \<Rightarrow> ('k, 'z) sheap_scheme option" where
  "on_new_connection K U loop io s = do {
     listen_fd \<leftarrow> xv_io_get_fd s io;
     (client_fd, addr, port, k) \<leftarrow> xv_tcp_accept K listen_fd (Some []) (int XV_ADDR_LEN) (Some 0) (kern s);
     let s = s\<lparr>kern := k\<rparr>;
     if client_fd > 0
     then do {
       (ret, k) \<leftarrow> xv_nonblock K client_fd (kern s);
       let s = s\<lparr>kern := k\<rparr>;
       if ret \<noteq> XV_OK then Some (s\<lparr>kern := snd (xv_close K client_fd (kern s))\<rparr>)
       else do {
         listener \<leftarrow> xv_io_get_userdata s io;
         l \<leftarrow> deref (listeners s) listener;
         t \<leftarrow> deref (io_threads s) (ls_io_thread l);
         let service = it_service t;
         sv \<leftarrow> deref (services s) service;
         (ret, k) \<leftarrow> (if tcp_nodealy (sv_config sv) then xv_tcp_nodelay K client_fd (kern s) else Some (XV_OK, kern s));
         let s = s\<lparr>kern := k\<rparr>;
         if ret \<noteq> XV_OK then Some (s\<lparr>kern := snd (xv_close K client_fd (kern s))\<rparr>)
         else do {
           (conn, s) \<leftarrow> xv_connection_init s (the addr) (the port) client_fd listener
                         (Some On_connection_read) (Some On_connection_write);
           s \<leftarrow> xv_service_add_connection s service conn;
           h \<leftarrow> handle_at s listener;
           s \<leftarrow> (case h_on_connect h of None \<Rightarrow> Some s | Some f \<Rightarrow> u_on_connect U f conn s);
           dispatch_connection K loop listener service conn s } } }
     else Some s }"

subsection \<open>Work handed over by other threads\<close>

text \<open>The loop of \<^verbatim>\<open>io_thread_add_conn_cb\<close>. The test of \<^verbatim>\<open>loop\<close> against \<^verbatim>\<open>io_thread->loop\<close> only logs.\<close>

partial_function (option) add_conn_loop ::
  "('k, 'y) sys_ops_scheme \<Rightarrow> addr \<Rightarrow> addr \<Rightarrow> ('k, 'z) sheap_scheme \<Rightarrow> ('k, 'z) sheap_scheme option" where
  "add_conn_loop K loop io_thread s = do {
     t \<leftarrow> deref (io_threads s) io_thread;
     (n, s) \<leftarrow> xv_concurrent_queue_size s (it_conn_queue t);
     if 0 < n
     then do {
       (conn, s) \<leftarrow> xv_concurrent_queue_pop s (it_conn_queue t);
       s \<leftarrow> (if conn = NULL then Some s
            else do {
              c \<leftarrow> deref (connections s) conn;
              let s = s\<lparr>connections := (connections s)(conn \<mapsto> c\<lparr>c_io_thread := io_thread\<rparr>)\<rparr>;
              map_option snd (xv_io_start K s loop (c_read_io c)) });
       add_conn_loop K loop io_thread s }
     else Some s }"

definition io_thread_add_conn_cb ::
  "('k, 'y) sys_ops_scheme \<Rightarrow> addr \<Rightarrow> addr \<Rightarrow> ('k, 'z) sheap_scheme \<Rightarrow> ('k, 'z) sheap_scheme option" where
  "io_thread_add_conn_cb K loop async s = do {
     io_thread \<leftarrow> xv_async_get_userdata s async;
     add_conn_loop K loop io_thread s }"

text \<open>What the loop of \<^verbatim>\<open>io_thread_return_message_cb\<close> does with one message. \<^verbatim>\<open>conn->handle\<close> is read before
  \<^verbatim>\<open>xv_message_destroy\<close> in both branches.\<close>

definition return_message ::
  "('k, 'y) sys_ops_scheme \<Rightarrow> ('k, 'z) sheap_scheme user_ops \<Rightarrow> addr \<Rightarrow> addr \<Rightarrow> ('k, 'z) sheap_scheme \<Rightarrow>
   ('k, 'z) sheap_scheme option" where
  "return_message K U loop message s = do {
     conn \<leftarrow> xv_message_get_connection s message;
     c \<leftarrow> deref (connections s) conn;
     if c_status c \<noteq> XV_CONN_CLOSED
     then do {
       s \<leftarrow> process_message K U loop message conn (c_handle c) s;
       c \<leftarrow> deref (connections s) conn;
       h \<leftarrow> handle_at s (c_handle c);
       xv_message_destroy U s message (h_packet_cleanup h) }
     else do {
       h \<leftarrow> handle_at s (c_handle c);
       s \<leftarrow> xv_message_destroy U s message (h_packet_cleanup h);
       xv_connection_destroy s conn } }"

partial_function (option) return_message_loop ::
  "('k, 'y) sys_ops_scheme \<Rightarrow> ('k, 'z) sheap_scheme user_ops \<Rightarrow> addr \<Rightarrow> addr \<Rightarrow> ('k, 'z) sheap_scheme \<Rightarrow>
   ('k, 'z) sheap_scheme option" where
  "return_message_loop K U loop io_thread s = do {
     t \<leftarrow> deref (io_threads s) io_thread;
     (n, s) \<leftarrow> xv_concurrent_queue_size s (it_message_queue t);
     if 0 < n
     then do {
       (message, s) \<leftarrow> xv_concurrent_queue_pop s (it_message_queue t);
       s \<leftarrow> (if message = NULL then Some s else return_message K U loop message s);
       return_message_loop K U loop io_thread s }
     else Some s }"

definition io_thread_return_message_cb ::
  "('k, 'y) sys_ops_scheme \<Rightarrow> ('k, 'z) sheap_scheme user_ops \<Rightarrow> addr \<Rightarrow> addr \<Rightarrow> ('k, 'z) sheap_scheme \<Rightarrow>
   ('k, 'z) sheap_scheme option" where
  "io_thread_return_message_cb K U loop async s = do {
     io_thread \<leftarrow> xv_async_get_userdata s async;
     return_message_loop K U loop io_thread s }"

subsection \<open>Function pointers\<close>

text \<open>
  The code behind the three kinds of callbacks the library stores: jobs of the worker pool, callbacks of
  async objects, callbacks of watchers. \<open>urun\<close>, \<open>uasync\<close> and \<open>uio\<close> are the callbacks of the application.
\<close>

definition task_run ::
  "('k, 'y) sys_ops_scheme \<Rightarrow> ('k, 'z) sheap_scheme user_ops \<Rightarrow>
   (nat \<Rightarrow> addr \<Rightarrow> ('k, 'z) sheap_scheme \<Rightarrow> ('k, 'z) sheap_scheme option) \<Rightarrow>
   task_cb \<Rightarrow> addr \<Rightarrow> ('k, 'z) sheap_scheme \<Rightarrow> ('k, 'z) sheap_scheme option" where
  "task_run K U urun cb args s =
     (case cb of Thread_pool_task_cb \<Rightarrow> thread_pool_task_cb K U args s | User_task_cb n \<Rightarrow> urun n args s)"

definition async_call ::
  "('k, 'y) sys_ops_scheme \<Rightarrow> ('k, 'z) sheap_scheme user_ops \<Rightarrow>
   (nat \<Rightarrow> addr \<Rightarrow> ('k, 'z) sheap_scheme \<Rightarrow> ('k, 'z) sheap_scheme option) \<Rightarrow>
   (nat \<Rightarrow> addr \<Rightarrow> addr \<Rightarrow> ('k, 'z) sheap_scheme \<Rightarrow> ('k, 'z) sheap_scheme option) \<Rightarrow>
   async_cb \<Rightarrow> addr \<Rightarrow> addr \<Rightarrow> ('k, 'z) sheap_scheme \<Rightarrow> ('k, 'z) sheap_scheme option" where
  "async_call K U urun uasync cb loop async s =
     (case cb of
        Worker_async_cb \<Rightarrow> worker_async_cb (task_run K U urun) loop async s
      | Io_thread_add_conn_cb \<Rightarrow> io_thread_add_conn_cb K loop async s
      | Io_thread_return_message_cb \<Rightarrow> io_thread_return_message_cb K U loop async s
      | User_async_cb n \<Rightarrow> uasync n loop async s)"

definition io_call ::
  "('k, 'y) sys_ops_scheme \<Rightarrow> ('k, 'z) sheap_scheme user_ops \<Rightarrow>
   (nat \<Rightarrow> addr \<Rightarrow> ('k, 'z) sheap_scheme \<Rightarrow> ('k, 'z) sheap_scheme option) \<Rightarrow>
   (nat \<Rightarrow> addr \<Rightarrow> addr \<Rightarrow> ('k, 'z) sheap_scheme \<Rightarrow> ('k, 'z) sheap_scheme option) \<Rightarrow>
   (nat \<Rightarrow> addr \<Rightarrow> addr \<Rightarrow> ('k, 'z) sheap_scheme \<Rightarrow> ('k, 'z) sheap_scheme option) \<Rightarrow>
   io_cb \<Rightarrow> addr \<Rightarrow> addr \<Rightarrow> ('k, 'z) sheap_scheme \<Rightarrow> ('k, 'z) sheap_scheme option" where
  "io_call K U urun uasync uio cb loop io s =
     (case cb of
        Common_async_cb \<Rightarrow> common_async_cb K (async_call K U urun uasync) loop io s
      | On_new_connection \<Rightarrow> on_new_connection K U loop io s
      | On_connection_read \<Rightarrow> on_connection_read K U loop io s
      | On_connection_write \<Rightarrow> on_connection_write K U loop io s
      | User_io_cb n \<Rightarrow> uio n loop io s)"

end
