(* ===== verification/Xv_Service.thy ===== *)
theory Xv_Service
  imports Xv_Handlers
begin

section \<open>The service (\<^verbatim>\<open>src/src/xv_service.c\<close>)\<close>

text \<open>
  The body of an I/O thread and the life cycle of a service. \<open>P\<close> creates and joins threads; what the
  other threads do meanwhile is part of the state that it returns.
\<close>

subsection \<open>The I/O thread\<close>

text \<open>The two walks over the listeners of the leader.\<close>

partial_function (option) start_listeners ::
  "('k, 'y) sys_ops_scheme \<Rightarrow> addr \<Rightarrow> addr \<Rightarrow> ('k, 'z) sheap_scheme \<Rightarrow> ('k, 'z) sheap_scheme option" where
  "start_listeners K io_thread listener s =
     (if listener = NULL then Some s
      else do {
        l \<leftarrow> deref (listeners s) listener;
        let s = s\<lparr>listeners := (listeners s)(listener \<mapsto> l\<lparr>ls_io_thread := io_thread\<rparr>)\<rparr>;
        t \<leftarrow> deref (io_threads s) io_thread;
        (_, s) \<leftarrow> xv_io_start K s (it_loop t) (ls_io l);
        l \<leftarrow> deref (listeners s) listener;
        next \<leftarrow> ls_next l;
        start_listeners K io_thread next s })"

partial_function (option) stop_listeners ::
  "('k, 'y) sys_ops_scheme \<Rightarrow> addr \<Rightarrow> addr \<Rightarrow> ('k, 'z) sheap_scheme \<Rightarrow> ('k, 'z) sheap_scheme option" where
  "stop_listeners K io_thread listener s =
     (if listener = NULL then Some s
      else do {
        l \<leftarrow> deref (listeners s) listener;
        t \<leftarrow> deref (io_threads s) io_thread;
        (_, s) \<leftarrow> xv_io_stop K s (it_loop t) (ls_io l);
        l \<leftarrow> deref (listeners s) listener;
        let s = s\<lparr>listeners := (listeners s)(listener \<mapsto> l\<lparr>ls_io_thread := NULL\<rparr>)\<rparr>;
        next \<leftarrow> ls_next l;
        stop_listeners K io_thread next s })"

definition io_thread_entry ::
  "('k, 'y) sys_ops_scheme \<Rightarrow>
   (io_cb \<Rightarrow> addr \<Rightarrow> addr \<Rightarrow> ('k, 'z) sheap_scheme \<Rightarrow> ('k, 'z) sheap_scheme option) \<Rightarrow>
   addr \<Rightarrow> ('k, 'z) sheap_scheme \<Rightarrow> ('k, 'z) sheap_scheme option" where
  "io_thread_entry K call io_thread s = do {
     t \<leftarrow> deref (io_threads s) io_thread;
     let service = it_service t;
     (_, s) \<leftarrow> xv_async_start K s (it_loop t) (it_async_add_conn t);
     (_, s) \<leftarrow> xv_async_start K s (it_loop t) (it_async_return_message t);
     s \<leftarrow> (if it_idx t = 0
          then do { sv \<leftarrow> deref (services s) service; start_listeners K io_thread (sv_listeners sv) s }
          else Some s);
     s \<leftarrow> xv_loop_run_timeout K call s (it_loop t) 10;
     t \<leftarrow> deref (io_threads s) io_thread;
     if it_idx t = 0
     then do { sv \<leftarrow> deref (services s) service; stop_listeners K io_thread (sv_listeners sv) s }
     else Some s }"

subsection \<open>Creating a service\<close>

text \<open>The loop of \<^verbatim>\<open>xv_service_init\<close> over the I/O threads.\<close>

fun io_thread_init_loop ::
  "('k, 'y) sys_ops_scheme \<Rightarrow> addr \<Rightarrow> addr \<Rightarrow> nat \<Rightarrow> int \<Rightarrow> ('k, 'z) sheap_scheme \<Rightarrow>
   ('k, 'z) sheap_scheme option" where
  "io_thread_init_loop K service threads 0 i s = Some s"
| "io_thread_init_loop K service threads (Suc n) i s = do {
     (t, s) \<leftarrow> xv_io_thread_init K s i service;
     arr \<leftarrow> deref (io_thread_arrays s) threads;
     arr \<leftarrow> arr_set arr i (Some t);
     io_thread_init_loop K service threads n (i + 1)
       (s\<lparr>io_thread_arrays := (io_thread_arrays s)(threads \<mapsto> arr)\<rparr>) }"

definition xv_service_init ::
  "('k, 'y) sys_ops_scheme \<Rightarrow> ('k, 'z) sheap_scheme \<Rightarrow> xv_service_config_t \<Rightarrow>
   (addr \<times> ('k, 'z) sheap_scheme) option" where
  "xv_service_init K s config =
     (if io_thread_count config \<le> 0 \<or> worker_thread_count config < 0 then Some (NULL, s)
      else do {
        let (service, s) = xv_malloc s;
        let (threads, s) = xv_malloc s;
        let s = s\<lparr>io_thread_arrays := (io_thread_arrays s)(threads \<mapsto>
                   replicate (nat (io_thread_count config)) None)\<rparr>;
        s \<leftarrow> io_thread_init_loop K service threads (nat (io_thread_count config)) 0 s;
        (workers, s) \<leftarrow> (if worker_thread_count config > 0
                        then xv_thread_pool_init K s (worker_thread_count config) else Some (NULL, s));
        let (table, s) = xv_malloc s;
        let s = s\<lparr>conn_arrays := (conn_arrays s)(table \<mapsto> replicate (nat XV_DEFAULT_LOOP_SIZE) (Some NULL))\<rparr>;
        Some (service, s\<lparr>services := (services s)(service \<mapsto>
          \<lparr>sv_config = config, sv_io_threads = threads, sv_worker_threads = workers, sv_listeners = NULL,
           sv_conn_setsize = XV_DEFAULT_LOOP_SIZE, sv_connections = table,
           sv_conn_count = xv_atomic_set \<lparr>counter = 0\<rparr> 0, sv_start = False\<rparr>)\<rparr>) })"

text \<open>When no listening socket can be had, line 658 of \<^verbatim>\<open>xv_service.c\<close> calls \<^verbatim>\<open>xv_log_error\<close> with the format \<^verbatim>\<open>listen %s:%d failed!\<close> and no
  arguments: undefined.\<close>

definition xv_service_add_listen ::
  "('k, 'y) sys_ops_scheme \<Rightarrow> ('k, 'z) sheap_scheme \<Rightarrow> addr \<Rightarrow> string \<Rightarrow> int \<Rightarrow> xv_service_handle_t \<Rightarrow>
   (int \<times> ('k, 'z) sheap_scheme) option" where
  "xv_service_add_listen K s service addr port handle = do {
     (listen_fd, k) \<leftarrow> xv_tcp_listen K addr port 1024 (kern s);
     let s = s\<lparr>kern := k\<rparr>;
     if listen_fd < 0 then None
     else do {
       (ret, k) \<leftarrow> xv_nonblock K listen_fd (kern s);
       let s = s\<lparr>kern := k\<rparr>;
       if ret \<noteq> XV_OK then Some (XV_ERR, s\<lparr>kern := snd (xv_close K listen_fd (kern s))\<rparr>)
       else do {
         (listener, s) \<leftarrow> xv_listener_init s addr port listen_fd handle (Some On_new_connection);
         sv \<leftarrow> deref (services s) service;
         l \<leftarrow> deref (listeners s) listener;
         Some (XV_OK, s\<lparr>listeners := (listeners s)(listener \<mapsto> l\<lparr>ls_next := Some (sv_listeners sv)\<rparr>),
           services := (services s)(service \<mapsto> sv\<lparr>sv_listeners := listener\<rparr>)\<rparr>) } } }"

subsection \<open>Starting and running\<close>

text \<open>The loops of \<^verbatim>\<open>xv_service_start\<close> and \<^verbatim>\<open>xv_service_run\<close>: \<open>n\<close> iterations from \<open>i\<close>, left at the first
  error.\<close>

fun create_threads ::
  "('k, 'z) sheap_scheme pthread_ops \<Rightarrow> addr \<Rightarrow> nat \<Rightarrow> int \<Rightarrow> ('k, 'z) sheap_scheme \<Rightarrow>
   (int \<times> ('k, 'z) sheap_scheme) option" where
  "create_threads P service 0 i s = Some (XV_OK, s)"
| "create_threads P service (Suc n) i s = do {
     sv \<leftarrow> deref (services s) service;
     t \<leftarrow> io_thread_at s sv i;
     let (ret, id, s) = pth_create P Io_thread_entry t s;
     if ret \<noteq> 0 then Some (XV_ERR, s)
     else do {
       th \<leftarrow> deref (io_threads s) t;
       create_threads P service n (i + 1) (s\<lparr>io_threads := (io_threads s)(t \<mapsto> th\<lparr>it_id := Some id\<rparr>)\<rparr>) } }"

fun join_threads ::
  "('k, 'z) sheap_scheme pthread_ops \<Rightarrow> addr \<Rightarrow> nat \<Rightarrow> int \<Rightarrow> ('k, 'z) sheap_scheme \<Rightarrow>
   (int \<times> ('k, 'z) sheap_scheme) option" where
  "join_threads P service 0 i s = Some (XV_OK, s)"
| "join_threads P service (Suc n) i s = do {
     sv \<leftarrow> deref (services s) service;
     t \<leftarrow> io_thread_at s sv i;
     th \<leftarrow> deref (io_threads s) t;
     id \<leftarrow> it_id th;
     (ret, s) \<leftarrow> pth_join P id s;
     if ret \<noteq> 0 then Some (XV_ERR, s) else join_threads P service n (i + 1) s }"

definition xv_service_start ::
  "('k, 'y) sys_ops_scheme \<Rightarrow> ('k, 'z) sheap_scheme pthread_ops \<Rightarrow> ('k, 'z) sheap_scheme \<Rightarrow> addr \<Rightarrow>
   (int \<times> ('k, 'z) sheap_scheme) option" where
  "xv_service_start K P s service = do {
     sv \<leftarrow> deref (services s) service;
     if sv_start sv then Some (XV_ERR, s)
     else do {
       let s = s\<lparr>services := (services s)(service \<mapsto> sv\<lparr>sv_start := True\<rparr>)\<rparr>;
       s \<leftarrow> (if sv_worker_threads sv = NULL then Some s
            else map_option snd (xv_thread_pool_start K P s (sv_worker_threads sv)));
       sv \<leftarrow> deref (services s) service;
       create_threads P service (nat (io_thread_count (sv_config sv))) 0 s } }"

definition xv_service_run ::
  "('k, 'z) sheap_scheme pthread_ops \<Rightarrow> ('k, 'z) sheap_scheme \<Rightarrow> addr \<Rightarrow> (int \<times> ('k, 'z) sheap_scheme) option" where
  "xv_service_run P s service = do {
     sv \<leftarrow> deref (services s) service;
     if \<not> sv_start sv then Some (XV_ERR, s)
     else join_threads P service (nat (io_thread_count (sv_config sv))) 0 s }"

subsection \<open>Stopping and destroying\<close>

partial_function (option) stop_all_listeners ::
  "('k, 'y) sys_ops_scheme \<Rightarrow> addr \<Rightarrow> ('k, 'z) sheap_scheme \<Rightarrow> ('k, 'z) sheap_scheme option" where
  "stop_all_listeners K listener s =
     (if listener = NULL then Some s
      else do {
        l \<leftarrow> deref (listeners s) listener;
        t \<leftarrow> deref (io_threads s) (ls_io_thread l);
        s \<leftarrow> xv_listener_stop K s (it_loop t) listener;
        l \<leftarrow> deref (listeners s) listener;
        next \<leftarrow> ls_next l;
        stop_all_listeners K next s })"

partial_function (option) destroy_listeners ::
  "addr \<Rightarrow> ('k, 'z) sheap_scheme \<Rightarrow> ('k, 'z) sheap_scheme option" where
  "destroy_listeners listener s =
     (if listener = NULL then Some s
      else do {
        l \<leftarrow> deref (listeners s) listener;
        tmp \<leftarrow> ls_next l;
        s \<leftarrow> xv_listener_destroy s listener;
        destroy_listeners tmp s })"

text \<open>The loops over the table of connections, and over the I/O threads.\<close>

fun each_connection ::
  "(('k, 'z) sheap_scheme \<Rightarrow> addr \<Rightarrow> ('k, 'z) sheap_scheme option) \<Rightarrow> addr \<Rightarrow> nat \<Rightarrow> int \<Rightarrow>
   ('k, 'z) sheap_scheme \<Rightarrow> ('k, 'z) sheap_scheme option" where
  "each_connection f service 0 i s = Some s"
| "each_connection f service (Suc n) i s = do {
     sv \<leftarrow> deref (services s) service;
     arr \<leftarrow> deref (conn_arrays s) (sv_connections sv);
     cell \<leftarrow> arr_get arr i;
     conn \<leftarrow> cell;
     s \<leftarrow> (if conn = NULL then Some s else f s conn);
     each_connection f service n (i + 1) s }"

fun each_io_thread ::
  "(('k, 'z) sheap_scheme \<Rightarrow> addr \<Rightarrow> ('k, 'z) sheap_scheme option) \<Rightarrow> addr \<Rightarrow> nat \<Rightarrow> int \<Rightarrow>
   ('k, 'z) sheap_scheme \<Rightarrow> ('k, 'z) sheap_scheme option" where
  "each_io_thread f service 0 i s = Some s"
| "each_io_thread f service (Suc n) i s = do {
     sv \<leftarrow> deref (services s) service;
     t \<leftarrow> io_thread_at s sv i;
     s \<leftarrow> f s t;
     each_io_thread f service n (i + 1) s }"

text \<open>\<^verbatim>\<open>xv_connection_stop(conn->io_thread->loop, conn)\<close>.\<close>

definition stop_connection ::
  "('k, 'y) sys_ops_scheme \<Rightarrow> ('k, 'z) sheap_scheme \<Rightarrow> addr \<Rightarrow> ('k, 'z) sheap_scheme option" where
  "stop_connection K s conn = do {
     c \<leftarrow> deref (connections s) conn;
     t \<leftarrow> deref (io_threads s) (c_io_thread c);
     xv_connection_stop K s (it_loop t) conn }"

definition xv_service_stop ::
  "('k, 'y) sys_ops_scheme \<Rightarrow> ('k, 'z) sheap_scheme \<Rightarrow> addr \<Rightarrow> (int \<times> ('k, 'z) sheap_scheme) option" where
  "xv_service_stop K s service = do {
     sv \<leftarrow> deref (services s) service;
     if \<not> sv_start sv then Some (XV_ERR, s)
     else do {
       let s = s\<lparr>services := (services s)(service \<mapsto> sv\<lparr>sv_start := False\<rparr>)\<rparr>;
       s \<leftarrow> stop_all_listeners K (sv_listeners sv) s;
       s \<leftarrow> each_connection (stop_connection K) service (nat (sv_conn_setsize sv)) 0 s;
       s \<leftarrow> each_io_thread (xv_io_thread_stop K) service (nat (io_thread_count (sv_config sv))) 0 s;
       s \<leftarrow> (if sv_worker_threads sv = NULL then Some s
            else map_option snd (xv_thread_pool_stop s (sv_worker_threads sv)));
       Some (XV_OK, s) } }"

definition xv_service_destroy ::
  "('k, 'y) sys_ops_scheme \<Rightarrow> ('k, 'z) sheap_scheme pthread_ops \<Rightarrow> ('k, 'z) sheap_scheme \<Rightarrow> addr \<Rightarrow>
   ('k, 'z) sheap_scheme option" where
  "xv_service_destroy K P s service = do {
     (_, s) \<leftarrow> xv_service_stop K s service;
     sv \<leftarrow> deref (services s) service;
     s \<leftarrow> destroy_listeners (sv_listeners sv) s;
     s \<leftarrow> each_connection xv_connection_destroy service (nat (sv_conn_setsize sv)) 0 s;
     h \<leftarrow> xv_free (conn_arrays s) (sv_connections sv);
     let s = s\<lparr>conn_arrays := h\<rparr>;
     s \<leftarrow> each_io_thread (xv_io_thread_destroy K) service (nat (io_thread_count (sv_config sv))) 0 s;
     h \<leftarrow> xv_free (io_thread_arrays s) (sv_io_threads sv);
     let s = s\<lparr>io_thread_arrays := h\<rparr>;
     s \<leftarrow> (if sv_worker_threads sv = NULL then Some s else xv_thread_pool_destroy K P s (sv_worker_threads sv));
     h \<leftarrow> xv_free (services s) service;
     Some (s\<lparr>services := h\<rparr>) }"

end
