(* ===== verification/Xv_Service_Example.thy ===== *)
theory Xv_Service_Example
  imports Xv_Service
begin

section \<open>Frames of the service heap, and a service for the examples\<close>

text \<open>
  Shared by the theories on the service: what the operations of the lower layers leave alone in the heap
  of the service, increments of counters in range, and one small service in a concrete state, on the
  simulated operating system, at which the theorems are applied.
\<close>

subsection \<open>Frames\<close>

text \<open>Operations on queues change nothing behind the queue heap, operations on watchers nothing behind the
  loop heap.\<close>

lemma more_sheap_l:
  fixes s t :: "('k, 'z) sheap_scheme"
  assumes "lheap.more t = lheap.more s"
  shows "asyncs t = asyncs s" "tasks t = tasks s" "workers t = workers s" "pools t = pools s"
    "thread_arrays t = thread_arrays s" "buffers t = buffers s" "connections t = connections s"
    "listeners t = listeners s" "messages t = messages s" "pool_tasks t = pool_tasks s"
    "io_threads t = io_threads s" "io_thread_arrays t = io_thread_arrays s"
    "conn_arrays t = conn_arrays s" "services t = services s" "sheap.more t = sheap.more s"
  using assms by (cases s; cases t; simp)+

lemma more_sheap:
  fixes s t :: "('k, 'z) sheap_scheme"
  assumes "qheap.more t = qheap.more s"
  shows "lheap.more t = lheap.more s" "kern t = kern s" "ios t = ios s" "loops t = loops s"
    "event_arrays t = event_arrays s" "pollers t = pollers s" "fired_arrays t = fired_arrays s"
  using assms by (cases s; cases t; simp)+

lemma poller_del_more:
  fixes s t :: "('k, 'z) lheap_scheme"
  shows "xv_poller_del_event K s data fd old ev = Some (r, t) \<Longrightarrow> lheap.more t = lheap.more s"
  by (auto simp: poller_del_eq xv_poller_modify_event_def Let_def case_prod_beta Option.bind_eq_Some_conv split: if_splits)

lemma io_stop_more: "xv_io_stop K s loop p = Some (r, t) \<Longrightarrow> lheap.more t = lheap.more s"
  unfolding xv_io_stop_def xv_loop_del_event_def Let_def
  by (auto elim!: bind_SomeE split: if_split_asm prod.splits dest!: poller_del_more)

lemma atomic_incr_get: "xv_atomic_get a = n \<Longrightarrow> n < INT_MAX \<Longrightarrow> xv_atomic_get (snd (xv_atomic_incr a)) = n + 1"
  and atomic_decr_get: "xv_atomic_get a = n \<Longrightarrow> INT_MIN < n \<Longrightarrow> xv_atomic_get (snd (xv_atomic_decr a)) = n - 1"
proof -
  have r: "INT_MIN \<le> sint (w :: u32)" "sint (w :: u32) \<le> INT_MAX" for w
    using sint_ge[of w] sint_lt[of w] by (simp_all add: INT_MIN_def INT_MAX_def)
  have w: "sint (w + word_of_int d) = sint w + d" if "INT_MIN \<le> sint w + d" "sint w + d \<le> INT_MAX" for w :: u32 and d
    using sint_word_of_int_range[OF that] by (simp add: wi_hom_add[symmetric])
  show "xv_atomic_get (snd (xv_atomic_incr a)) = n + 1" if "xv_atomic_get a = n" "n < INT_MAX"
    using that w[of "counter a" 1] r(1)[of "counter a"] by (simp add: atomic_defs Let_def)
  show "xv_atomic_get (snd (xv_atomic_decr a)) = n - 1" if "xv_atomic_get a = n" "INT_MIN < n"
    using that w[of "counter a" "- 1"] r(2)[of "counter a"] by (simp add: atomic_defs Let_def)
qed

subsection \<open>The service of the examples\<close>

text \<open>
  A started service 70 with one I/O thread 60 on loop 30 and no workers. Connection 40 is open on
  descriptor 5 and in the table, its reader 41 is watched, its writer 42 is not; connection 45, on
  descriptor 3, has just been accepted. The listener 50 has no cleanup and no connection callbacks.
\<close>

definition ex_io :: "int \<Rightarrow> u32 \<Rightarrow> io_cb \<Rightarrow> addr \<Rightarrow> bool \<Rightarrow> xv_io_t" where
  "ex_io fd ev cb p st = \<lparr>io_fd = fd, io_event = ev, io_cb = Some cb, io_userdata = p, io_start = st\<rparr>"

definition ex_slots :: "xv_event_io_t list" where
  "ex_slots = (replicate 8 empty_slot)[5 := \<lparr>e_event = XV_READ, e_read_io = 41, e_write_io = NULL\<rparr>]"

definition ex_conn :: xv_connection_t where
  "ex_conn = \<lparr>c_addr = ''127.0.0.1'', c_port = 4242, c_fd = 5, c_read_io = 41, c_write_io = 42,
     c_read_buffer = 43, c_write_buffer = 44, c_handle = 50, c_io_thread = 60, c_status = XV_CONN_OPEN,
     c_ref_count = \<lparr>counter = 1\<rparr>\<rparr>"

definition ex_handle :: xv_service_handle_t where
  "ex_handle = \<lparr>h_decode = Some 0, h_encode = Some 1, h_process = Some 2, h_packet_cleanup = None,
     h_on_send_failed = None, h_on_connect = None, h_on_disconnect = None\<rparr>"

definition ex_thread :: xv_io_thread_t where
  "ex_thread = \<lparr>it_idx = 0, it_id = Some 1, it_loop = 30, it_service = 70, it_async_add_conn = 1,
     it_conn_queue = 101, it_async_return_message = 2, it_message_queue = 103\<rparr>"

definition ex_sv :: xv_service_t where
  "ex_sv = \<lparr>sv_config = \<lparr>io_thread_count = 1, worker_thread_count = 0, tcp_nodealy = False, io_affinity_enable = False\<rparr>,
     sv_io_threads = 72, sv_worker_threads = NULL, sv_listeners = 50, sv_conn_setsize = 8, sv_connections = 71,
     sv_conn_count = \<lparr>counter = 1\<rparr>, sv_start = True\<rparr>"

definition ex_svc0 :: "sim_os sheap" where
  "ex_svc0 = \<lparr>brk = 100, nodes = Map.empty, queues = Map.empty, cqueues = Map.empty,
     kern = os_start\<lparr>os_intr := 0, os_open := [3, 5, 6, 7], os_counter := [(6, 0), (7, 0)],
       k_interest := (\<lambda>ep fd. if ep = 9 \<and> fd = 5 then Some (epoll_mask XV_READ) else None)\<rparr>,
     pollers = [31 \<mapsto> \<lparr>p_epfd = 9, p_setsize = 8, p_events = replicate 8 None\<rparr>],
     fired_arrays = [33 \<mapsto> replicate 8 None],
     ios = [41 \<mapsto> ex_io 5 XV_READ On_connection_read 40 True, 42 \<mapsto> ex_io 5 XV_WRITE On_connection_write 40 False,
            46 \<mapsto> ex_io 6 XV_READ Common_async_cb 1 False, 47 \<mapsto> ex_io 7 XV_READ Common_async_cb 2 False,
            48 \<mapsto> ex_io 3 XV_READ On_connection_read 45 False, 49 \<mapsto> ex_io 3 XV_WRITE On_connection_write 45 False,
            51 \<mapsto> ex_io 2 XV_READ On_new_connection 50 False],
     loops = [30 \<mapsto> \<lparr>l_poller_data = 31, l_events = 32, l_fired_events = 33, l_setsize = 8, l_start = True\<rparr>],
     event_arrays = [32 \<mapsto> ex_slots],
     asyncs = [1 \<mapsto> \<lparr>as_evfd = 6, as_cb = Some Io_thread_add_conn_cb, as_userdata = 60, as_read_io = 46\<rparr>,
               2 \<mapsto> \<lparr>as_evfd = 7, as_cb = Some Io_thread_return_message_cb, as_userdata = 60, as_read_io = 47\<rparr>],
     tasks = Map.empty, workers = Map.empty, pools = Map.empty, thread_arrays = Map.empty,
     buffers = [43 \<mapsto> xv_buffer_init 8192, 44 \<mapsto> xv_buffer_init 8192, 53 \<mapsto> xv_buffer_init 8192, 54 \<mapsto> xv_buffer_init 8192],
     connections = [40 \<mapsto> ex_conn, 45 \<mapsto> ex_conn\<lparr>c_fd := 3, c_read_io := 48, c_write_io := 49, c_read_buffer := 53,
       c_write_buffer := 54, c_io_thread := NULL\<rparr>],
     listeners = [50 \<mapsto> \<lparr>ls_addr = ''0.0.0.0'', ls_port = 80, ls_fd = 2, ls_io = 51, ls_handle = ex_handle,
       ls_io_thread = 60, ls_next = Some NULL\<rparr>],
     messages = Map.empty, pool_tasks = Map.empty, io_threads = [60 \<mapsto> ex_thread],
     io_thread_arrays = [72 \<mapsto> [Some 60]],
     conn_arrays = [71 \<mapsto> (replicate 8 (Some NULL))[5 := Some 40]], services = [70 \<mapsto> ex_sv]\<rparr>"

definition ex_svc :: "sim_os sheap" where
  "ex_svc = snd (xv_concurrent_queue_init (snd (xv_concurrent_queue_init ex_svc0)))"

lemma ex_svc_facts:
  "qheap.more ex_svc = qheap.more ex_svc0" "brk ex_svc = 104" "cq_ok ex_svc" "live_cq ex_svc 101" "live_cq ex_svc 103"
  "cq_list ex_svc 101 = []" "cq_list ex_svc 103 = []"
proof -
  obtain c1 s1 where i1: "xv_concurrent_queue_init ex_svc0 = (c1, s1)" by fastforce
  obtain c2 s2 where i2: "xv_concurrent_queue_init s1 = (c2, s2)" by fastforce
  have ex: "ex_svc = s2" by (simp add: ex_svc_def i1 i2)
  have "cq_ok ex_svc0" by (simp add: cq_ok_def qheap_ok_def queue_nodes_def ex_svc0_def)
  note l1 = cq_init_law[OF this i1]
  note l2 = cq_init_law[OF l1(1) i2]
  have c: "c1 = 101" "c2 = 103" using l1(5,7) l2(5) by (simp_all add: ex_svc0_def)
  show "qheap.more ex_svc = qheap.more ex_svc0" "brk ex_svc = 104" "cq_ok ex_svc" "live_cq ex_svc 101" "live_cq ex_svc 103"
    "cq_list ex_svc 101 = []" "cq_list ex_svc 103 = []"
    using l1 l2 c by (simp_all add: ex ex_svc0_def)
qed

lemmas ex_svc_more = more_sheap[OF ex_svc_facts(1)] more_sheap_l[OF more_sheap(1)[OF ex_svc_facts(1)]]

lemma ex_svc_loop: "loop_ok ex_svc 30"
proof -
  have slots: "slots_ok (ios ex_svc0) ex_slots"
    by (auto simp: slots_ok_def ex_slots_def nth_list_update slot_ok_def slot_mask_def watcher_ok_def empty_slot_def
        ex_svc0_def ex_io_def code_defs)
  show ?thesis
    unfolding loop_ok_def loop_repr_def ex_svc_more
    by (intro exI[of _ "\<lparr>l_poller_data = 31, l_events = 32, l_fired_events = 33, l_setsize = 8, l_start = True\<rparr>"]
        exI[of _ "\<lparr>p_epfd = 9, p_setsize = 8, p_events = replicate 8 None\<rparr>"] exI[of _ ex_slots])
       (use slots in \<open>simp add: ex_svc0_def ex_slots_def\<close>)
qed

end
