(* ===== verification/Xv_Conn_Table.thy ===== *)
theory Xv_Conn_Table
  imports Xv_Service_Example
begin

section \<open>The table of connections: correctness\<close>

text \<open>
  \<^verbatim>\<open>service->connections\<close> maps descriptors to connections. While every descriptor is below the set size
  it behaves as a map with a count of its entries; at the set size and above it does not.
\<close>

subsection \<open>Abstraction\<close>

definition conn_at :: "('k, 'z) sheap_scheme \<Rightarrow> addr \<Rightarrow> int \<Rightarrow> addr" where
  "conn_at s service fd = (case services s service of None \<Rightarrow> NULL | Some sv \<Rightarrow>
     (case conn_arrays s (sv_connections sv) of None \<Rightarrow> NULL | Some arr \<Rightarrow>
       if 0 \<le> fd \<and> fd < int (length arr) then (case arr ! nat fd of None \<Rightarrow> NULL | Some p \<Rightarrow> p) else NULL))"

definition conn_fd :: "('k, 'z) sheap_scheme \<Rightarrow> addr \<Rightarrow> int" where
  "conn_fd s p = c_fd (the (connections s p))"

definition table_repr :: "('k, 'z) sheap_scheme \<Rightarrow> addr \<Rightarrow> xv_service_t \<Rightarrow> addr option list \<Rightarrow> bool" where
  "table_repr s service sv arr \<longleftrightarrow> service \<noteq> NULL \<and> services s service = Some sv \<and>
     sv_connections sv \<noteq> NULL \<and> conn_arrays s (sv_connections sv) = Some arr \<and>
     int (length arr) = sv_conn_setsize sv \<and> sv_conn_setsize sv \<le> INT_MAX \<and> None \<notin> set arr"

text \<open>The table is well formed, and the counter is the number of its entries.\<close>

definition table_ok :: "('k, 'z) sheap_scheme \<Rightarrow> addr \<Rightarrow> bool" where
  "table_ok s service \<longleftrightarrow> (\<exists>sv arr. table_repr s service sv arr \<and>
     xv_atomic_get (sv_conn_count sv) = int (card {fd. conn_at s service fd \<noteq> NULL}))"

definition conn_fits :: "('k, 'z) sheap_scheme \<Rightarrow> addr \<Rightarrow> addr \<Rightarrow> bool" where
  "conn_fits s service p \<longleftrightarrow> p \<noteq> NULL \<and> (\<exists>c sv. connections s p = Some c \<and> services s service = Some sv \<and>
     0 \<le> c_fd c \<and> c_fd c < sv_conn_setsize sv)"

lemma conn_at_repr:
  assumes r: "table_repr s service sv arr"
  shows "conn_at s service fd = (if 0 \<le> fd \<and> fd < sv_conn_setsize sv then the (arr ! nat fd) else NULL)"
proof -
  have "arr ! nat fd \<noteq> None" if "0 \<le> fd" "fd < sv_conn_setsize sv"
    using r that nth_mem[of "nat fd" arr] by (metis table_repr_def nat_less_iff)
  then show ?thesis using r by (auto simp: conn_at_def table_repr_def split: option.split)
qed

lemma conn_at_cell:
  assumes r: "table_repr s service sv arr" and p: "conn_at s service fd = p" "p \<noteq> NULL"
  shows "0 \<le> fd" "fd < sv_conn_setsize sv" "arr ! nat fd = Some p"
proof -
  show fd: "0 \<le> fd" "fd < sv_conn_setsize sv" using p by (auto simp: conn_at_repr[OF r] split: if_splits)
  have "arr ! nat fd \<in> set arr" using r fd by (intro nth_mem) (simp add: table_repr_def nat_less_iff)
  then have "arr ! nat fd \<noteq> None" using r by (metis table_repr_def)
  then show "arr ! nat fd = Some p" using p(1) fd by (auto simp: conn_at_repr[OF r])
qed

lemma conn_at_cong:
  "services t = services s \<Longrightarrow> conn_arrays t = conn_arrays s \<Longrightarrow> conn_at t service = conn_at s service"
  by (rule ext) (simp add: conn_at_def cong: option.case_cong)

lemma conn_at_finite: "table_repr s service sv arr \<Longrightarrow>
  finite {fd. conn_at s service fd \<noteq> NULL} \<and> int (card {fd. conn_at s service fd \<noteq> NULL}) \<le> INT_MAX"
proof -
  assume r: "table_repr s service sv arr"
  have sub: "{fd. conn_at s service fd \<noteq> NULL} \<subseteq> {0 ..< sv_conn_setsize sv}"
    using conn_at_repr[OF r] by (auto split: if_splits)
  have "card {fd. conn_at s service fd \<noteq> NULL} \<le> card {0 ..< sv_conn_setsize sv}"
    by (rule card_mono[OF _ sub]) simp
  then show ?thesis
    using r finite_subset[OF sub] by (auto simp: table_repr_def)
qed

text \<open>One cell replaced, the counter with it.\<close>

lemma table_upd:
  assumes r: "table_repr s service sv arr" and fd: "0 \<le> fd" "fd < sv_conn_setsize sv"
    and sv': "sv' = sv\<lparr>sv_conn_count := a\<rparr>"
    and t: "t = s\<lparr>conn_arrays := (conn_arrays s)(sv_connections sv \<mapsto> arr[nat fd := Some p]),
              services := (services s)(service \<mapsto> sv')\<rparr>"
  shows "table_repr t service sv' (arr[nat fd := Some p])" "conn_at t service = (conn_at s service)(fd := p)"
proof -
  show r': "table_repr t service sv' (arr[nat fd := Some p])"
    using r set_update_subset_insert[of arr "nat fd" "Some p"] by (auto simp: table_repr_def t sv')
  have "conn_at t service x = ((conn_at s service)(fd := p)) x" for x
    using fd r by (auto simp: conn_at_repr[OF r] conn_at_repr[OF r'] sv' nth_list_update table_repr_def)
  then show "conn_at t service = (conn_at s service)(fd := p)" by blast
qed

subsection \<open>The interface of a table keyed by descriptors\<close>

text \<open>Entries are added to free keys and deleted while they are present.\<close>

datatype t_call = TAdd addr | TDel addr

fun t_entry :: "t_call \<Rightarrow> addr" where
  "t_entry (TAdd p) = p"
| "t_entry (TDel p) = p"

fun t_legal :: "(addr \<Rightarrow> int) \<Rightarrow> (int \<Rightarrow> addr) \<Rightarrow> t_call \<Rightarrow> bool" where
  "t_legal key T (TAdd p) = (T (key p) = NULL)"
| "t_legal key T (TDel p) = (T (key p) = p)"

fun t_spec :: "(addr \<Rightarrow> int) \<Rightarrow> (int \<Rightarrow> addr) \<Rightarrow> t_call \<Rightarrow> int \<Rightarrow> addr" where
  "t_spec key T (TAdd p) = T(key p := p)"
| "t_spec key T (TDel p) = T(key p := NULL)"

fun t_legal_run :: "(addr \<Rightarrow> int) \<Rightarrow> (int \<Rightarrow> addr) \<Rightarrow> t_call list \<Rightarrow> bool" where
  "t_legal_run key T [] = True"
| "t_legal_run key T (c # cs) = (t_legal key T c \<and> t_legal_run key (t_spec key T c) cs)"

fun t_run :: "('s \<Rightarrow> t_call \<Rightarrow> 's option) \<Rightarrow> 's \<Rightarrow> t_call list \<Rightarrow> 's option" where
  "t_run exec s [] = Some s"
| "t_run exec s (c # cs) = do { s \<leftarrow> exec s c; t_run exec s cs }"

locale keyed_table =
  fixes ok :: "'s \<Rightarrow> bool" and fits :: "'s \<Rightarrow> addr \<Rightarrow> bool" and key :: "'s \<Rightarrow> addr \<Rightarrow> int"
    and view :: "'s \<Rightarrow> int \<Rightarrow> addr" and exec :: "'s \<Rightarrow> t_call \<Rightarrow> 's option"
  assumes exec_law: "ok s \<Longrightarrow> fits s (t_entry c) \<Longrightarrow> t_legal (key s) (view s) c \<Longrightarrow>
    \<exists>t. exec s c = Some t \<and> ok t \<and> fits t = fits s \<and> key t = key s \<and> view t = t_spec (key s) (view s) c"
begin

lemma run_refines:
  assumes "ok s" "\<forall>c \<in> set cs. fits s (t_entry c)" "t_legal_run (key s) (view s) cs"
  shows "\<exists>t. t_run exec s cs = Some t \<and> ok t \<and> view t = fold (\<lambda>c T. t_spec (key s) T c) cs (view s)"
  using assms
proof (induction cs arbitrary: s)
  case Nil
  then show ?case by simp
next
  case (Cons c cs)
  obtain t where t: "exec s c = Some t" "ok t" "fits t = fits s" "key t = key s" "view t = t_spec (key s) (view s) c"
    using exec_law[of s c] Cons.prems by auto
  then show ?case using Cons.IH[of t] Cons.prems by simp
qed

end

fun conn_exec :: "addr \<Rightarrow> ('k, 'z) sheap_scheme \<Rightarrow> t_call \<Rightarrow> ('k, 'z) sheap_scheme option" where
  "conn_exec service s (TAdd p) = xv_service_add_connection s service p"
| "conn_exec service s (TDel p) = do {
     (ret, s) \<leftarrow> xv_service_del_connection s service p;
     if ret = XV_OK then Some s else None }"

lemma add_connection_law:
  assumes r: "table_repr s service sv arr" and p: "p \<noteq> NULL" "connections s p = Some c"
    and fd: "0 \<le> c_fd c" "c_fd c < sv_conn_setsize sv"
  shows "xv_service_add_connection s service p = Some (s\<lparr>
     conn_arrays := (conn_arrays s)(sv_connections sv \<mapsto> arr[nat (c_fd c) := Some p]),
     services := (services s)(service \<mapsto> sv\<lparr>sv_conn_count := snd (xv_atomic_incr (sv_conn_count sv))\<rparr>)\<rparr>)"
  using assms by (simp add: xv_service_add_connection_def table_repr_def arr_set_def)

lemma del_connection_law:
  assumes r: "table_repr s service sv arr" and p: "p \<noteq> NULL" "connections s p = Some c"
    and fd: "0 \<le> c_fd c" "c_fd c < sv_conn_setsize sv"
  shows "xv_service_del_connection s service p = Some (XV_OK, s\<lparr>
     conn_arrays := (conn_arrays s)(sv_connections sv \<mapsto> arr[nat (c_fd c) := Some NULL]),
     services := (services s)(service \<mapsto> sv\<lparr>sv_conn_count := snd (xv_atomic_decr (sv_conn_count sv))\<rparr>)\<rparr>)"
  using assms by (simp add: xv_service_del_connection_def table_repr_def arr_set_def)

text \<open>The laws of the interface, one per operation.\<close>

lemma table_exec_law:
  assumes ok: "table_ok s service" and fits: "conn_fits s service (t_entry x)"
    and legal: "t_legal (conn_fd s) (conn_at s service) x"
  shows "\<exists>t. conn_exec service s x = Some t \<and> table_ok t service \<and> conn_fits t service = conn_fits s service \<and>
     conn_fd t = conn_fd s \<and> conn_at t service = t_spec (conn_fd s) (conn_at s service) x"
proof -
  obtain sv arr where r: "table_repr s service sv arr"
    and n: "xv_atomic_get (sv_conn_count sv) = int (card {fd. conn_at s service fd \<noteq> NULL})"
    using ok by (auto simp: table_ok_def)
  obtain c where p: "t_entry x \<noteq> NULL" "connections s (t_entry x) = Some c" and fd: "0 \<le> c_fd c" "c_fd c < sv_conn_setsize sv"
    using fits r by (auto simp: conn_fits_def table_repr_def)
  have key: "conn_fd s (t_entry x) = c_fd c" using p by (simp add: conn_fd_def)
  note fin = conn_at_finite[OF r]
  define q where "q = (case x of TAdd p \<Rightarrow> p | TDel p \<Rightarrow> NULL)"
  define a where "a = (case x of TAdd p \<Rightarrow> snd (xv_atomic_incr (sv_conn_count sv)) | TDel p \<Rightarrow> snd (xv_atomic_decr (sv_conn_count sv)))"
  define t where "t = s\<lparr>conn_arrays := (conn_arrays s)(sv_connections sv \<mapsto> arr[nat (c_fd c) := Some q]),
     services := (services s)(service \<mapsto> sv\<lparr>sv_conn_count := a\<rparr>)\<rparr>"
  note u = table_upd[OF r fd refl t_def]
  have run: "conn_exec service s x = Some t"
    using add_connection_law[OF r p(1)] del_connection_law[OF r p(1)] p fd by (cases x) (simp_all add: t_def q_def a_def)
  have "xv_atomic_get a = int (card {fd. conn_at t service fd \<noteq> NULL})"
  proof (cases x)
    case (TAdd p')
    then have "{fd. conn_at t service fd \<noteq> NULL} = insert (c_fd c) {fd. conn_at s service fd \<noteq> NULL}"
      and new: "c_fd c \<notin> {fd. conn_at s service fd \<noteq> NULL}"
      using u(2) p legal key by (auto simp: q_def)
    then have "int (card {fd. conn_at t service fd \<noteq> NULL}) = int (card {fd. conn_at s service fd \<noteq> NULL}) + 1"
      using fin by simp
    moreover have "int (card {fd. conn_at t service fd \<noteq> NULL}) \<le> INT_MAX" using conn_at_finite[OF u(1)] by simp
    ultimately show ?thesis using atomic_incr_get[OF n] TAdd by (simp add: a_def)
  next
    case (TDel p')
    then have "{fd. conn_at t service fd \<noteq> NULL} = {fd. conn_at s service fd \<noteq> NULL} - {c_fd c}"
      and old: "c_fd c \<in> {fd. conn_at s service fd \<noteq> NULL}"
      using u(2) p legal key by (auto simp: q_def)
    then have "int (card {fd. conn_at t service fd \<noteq> NULL}) = int (card {fd. conn_at s service fd \<noteq> NULL}) - 1"
      using fin card_Suc_Diff1[of "{fd. conn_at s service fd \<noteq> NULL}" "c_fd c"] by simp
    then show ?thesis using atomic_decr_get[OF n] TDel by (simp add: a_def INT_MIN_def)
  qed
  then have ok': "table_ok t service"
    using u(1) unfolding table_ok_def by (intro exI[of _ "sv\<lparr>sv_conn_count := a\<rparr>"] exI) simp
  moreover have "conn_fits t service = conn_fits s service" "conn_fd t = conn_fd s"
    using r by (auto simp: conn_fits_def conn_fd_def t_def fun_eq_iff table_repr_def)
  moreover have "conn_at t service = t_spec (conn_fd s) (conn_at s service) x"
    using u(2) key by (cases x) (simp_all add: q_def)
  ultimately show ?thesis using run by blast
qed

interpretation ct: keyed_table "\<lambda>s. table_ok s service" "\<lambda>s. conn_fits s service" conn_fd
  "\<lambda>s. conn_at s service" "conn_exec service" for service
  by unfold_locales (rule table_exec_law)

subsection \<open>Properties\<close>

text \<open>C23. The table of connections is a map with a size: any sequence of \<^verbatim>\<open>xv_service_add_connection\<close> and
  \<^verbatim>\<open>xv_service_del_connection\<close> calls for connections whose descriptors are below the set size, each adding
  to a free cell or deleting a connection that is there, runs without undefined behaviour, leaves exactly
  the entries of the specification, and \<^verbatim>\<open>conn_count\<close> is the number of entries.\<close>

theorem connection_table_refines:
  assumes "table_ok s service" "\<forall>c \<in> set cs. conn_fits s service (t_entry c)"
    "t_legal_run (conn_fd s) (conn_at s service) cs"
  shows "\<exists>t sv. t_run (conn_exec service) s cs = Some t \<and>
     conn_at t service = fold (\<lambda>c T. t_spec (conn_fd s) T c) cs (conn_at s service) \<and>
     services t service = Some sv \<and>
     xv_atomic_get (sv_conn_count sv) = int (card {fd. conn_at t service fd \<noteq> NULL})"
proof -
  obtain t where t: "t_run (conn_exec service) s cs = Some t" "table_ok t service"
    "conn_at t service = fold (\<lambda>c T. t_spec (conn_fd s) T c) cs (conn_at s service)"
    using ct.run_refines[OF assms] by blast
  obtain sv arr where "table_repr t service sv arr"
    "xv_atomic_get (sv_conn_count sv) = int (card {fd. conn_at t service fd \<noteq> NULL})"
    using t(2) by (auto simp: table_ok_def)
  then show ?thesis using t by (intro exI[of _ t] exI[of _ sv]) (simp add: table_repr_def)
qed

lemma ex_svc_table: "table_repr ex_svc 70 ex_sv ((replicate 8 (Some NULL))[5 := Some 40])"
  unfolding table_repr_def ex_svc_more
  by (auto simp: ex_svc0_def ex_sv_def INT_MAX_def dest!: subsetD[OF set_update_subset_insert])

lemma ex_svc_conn_at: "conn_at ex_svc 70 = (\<lambda>_. NULL)(5 := 40)"
  by (rule ext) (auto simp: conn_at_repr[OF ex_svc_table] ex_sv_def nth_list_update nat_eq_iff)

lemma ex_svc_table_ok: "table_ok ex_svc 70"
proof -
  have "{fd. conn_at ex_svc 70 fd \<noteq> NULL} = {5}" by (auto simp: ex_svc_conn_at)
  then have "xv_atomic_get (sv_conn_count ex_sv) = int (card {fd. conn_at ex_svc 70 fd \<noteq> NULL})"
    by (simp add: ex_sv_def xv_atomic_get_def)
  then show ?thesis unfolding table_ok_def using ex_svc_table by blast
qed

theorem connection_table_refines_witness:
  "\<exists>t. t_run (conn_exec 70) ex_svc [TAdd 45, TDel 40] = Some t \<and> conn_at t 70 3 = 45 \<and> conn_at t 70 5 = NULL"
proof -
  have fd: "conn_fd ex_svc 45 = 3" "conn_fd ex_svc 40 = 5"
    by (simp_all add: conn_fd_def ex_svc_more) (simp_all add: ex_svc0_def ex_conn_def)
  have "\<forall>c \<in> set [TAdd 45, TDel 40]. conn_fits ex_svc 70 (t_entry c)"
    by (simp add: conn_fits_def ex_svc_more) (simp add: ex_svc0_def ex_conn_def ex_sv_def)
  then show ?thesis
    using connection_table_refines[OF ex_svc_table_ok, of "[TAdd 45, TDel 40]"] fd
    by (auto simp: ex_svc_conn_at)
qed

text \<open>Stopping listeners and connections does not touch the table or the connection objects.\<close>

definition same_table :: "('k, 'z) sheap_scheme \<Rightarrow> ('k, 'z) sheap_scheme \<Rightarrow> bool" where
  "same_table s t \<longleftrightarrow> services t = services s \<and> conn_arrays t = conn_arrays s \<and> connections t = connections s"

lemma same_table_refl [simp]: "same_table s s"
  by (simp add: same_table_def)

lemma stop_all_listeners_table:
  assumes "stop_all_listeners K listener s = Some t"
  shows "same_table s t"
proof (rule stop_all_listeners.raw_induct[OF _ assms], goal_cases)
  case (1 run K listener s t)
  have stop: "xv_listener_stop K s loop listener = Some u \<Longrightarrow> same_table s u" for loop u
    by (auto simp: xv_listener_stop_def same_table_def elim!: bind_SomeE split: prod.splits dest!: io_stop_more dest: more_sheap_l(7,13,14))
  show ?case
  proof (cases "listener = NULL")
    case True
    then show ?thesis using 1(2) by simp
  next
    case False
    then obtain loop u nxt where u: "xv_listener_stop K s loop listener = Some u" "run K nxt u = Some t"
      using 1(2) by (auto elim!: bind_SomeE)
    show ?thesis using stop[OF u(1)] 1(1)[OF u(2)] by (simp add: same_table_def)
  qed
qed

lemma stop_connection_table: "stop_connection K s conn = Some t \<Longrightarrow> same_table s t"
  unfolding stop_connection_def xv_connection_stop_def same_table_def
  by (auto elim!: bind_SomeE split: prod.splits dest!: io_stop_more dest: more_sheap_l(7,13,14))

text \<open>A walk over the table that reaches a cell never assigned, or an entry its body cannot handle, is
  undefined.\<close>

lemma each_connection_fault:
  assumes f: "\<And>s conn t. f s conn = Some t \<Longrightarrow> same_table s t"
    and sv: "services s service = Some sv" "conn_arrays s (sv_connections sv) = Some arr"
    and k: "i \<le> k" "k < i + int n" "0 \<le> k" "k < int (length arr)"
    and bad: "arr ! nat k = None \<or> (\<exists>p. arr ! nat k = Some p \<and> p \<noteq> NULL \<and> (\<forall>t. same_table s t \<longrightarrow> f t p = None))"
  shows "each_connection f service n i s = None"
  using sv k bad
proof (induction n arbitrary: i s)
  case 0
  then show ?case by simp
next
  case (Suc n)
  show ?case
  proof (rule ccontr)
    assume "each_connection f service (Suc n) i s \<noteq> None"
    then obtain t where "each_connection f service (Suc n) i s = Some t" by blast
    then obtain conn u where c: "service \<noteq> NULL" "arr_get arr i = Some (Some conn)" "(if conn = NULL then Some s else f s conn) = Some u"
      "each_connection f service n (i + 1) u = Some t"
      using Suc.prems(1,2) by (auto elim!: bind_SomeE simp: deref_Some_iff)
    have "i \<noteq> k"
    proof
      assume "i = k"
      then have "arr ! nat k = Some conn" using c(2) by (simp add: arr_get_Some_iff)
      then show False using Suc.prems(7) c(3) same_table_refl[of s] by auto
    qed
    moreover have same: "same_table s u" using c(3) f by (auto split: if_splits)
    moreover have "\<forall>t. same_table u t \<longrightarrow> same_table s t" using same by (simp add: same_table_def)
    ultimately have "each_connection f service n (i + 1) u = None"
      by (intro Suc.IH) (use Suc.prems in \<open>auto simp: same_table_def\<close>)
    then show False using c(4) by simp
  qed
qed

lemma service_stop_fault:
  assumes sv: "service \<noteq> NULL" "services s service = Some sv" "sv_start sv" "conn_arrays s (sv_connections sv) = Some arr"
    and k: "0 \<le> k" "k < int (length arr)" "k < sv_conn_setsize sv"
    and bad: "arr ! nat k = None \<or> (\<exists>p. arr ! nat k = Some p \<and> p \<noteq> NULL \<and> connections s p = None)"
  shows "xv_service_stop K s service = None"
proof (rule ccontr)
  let ?sv = "sv\<lparr>sv_start := False\<rparr>"
  let ?s = "s\<lparr>services := (services s)(service \<mapsto> ?sv)\<rparr>"
  assume "xv_service_stop K s service \<noteq> None"
  then obtain u v where u: "stop_all_listeners K (sv_listeners sv) ?s = Some u"
    "each_connection (stop_connection K) service (nat (sv_conn_setsize sv)) 0 u = Some v"
    using sv by (auto simp: xv_service_stop_def elim!: bind_SomeE)
  have same: "same_table ?s u" by (rule stop_all_listeners_table[OF u(1)])
  have "stop_connection K w p = None" if "same_table u w" "connections s p = None" for w p
    using same that by (simp add: stop_connection_def same_table_def deref_def)
  then have "each_connection (stop_connection K) service (nat (sv_conn_setsize sv)) 0 u = None"
    by (intro each_connection_fault[where sv = ?sv and arr = arr and k = k])
       (use same sv k bad stop_connection_table in \<open>auto simp: same_table_def[of ?s u]\<close>)
  then show False using u(2) by simp
qed

text \<open>C35. At and above the set size: \<^verbatim>\<open>xv_service_add_connection\<close> tests \<open>fd > conn_setsize\<close>, so for a descriptor
  equal to the set size it stores behind the end of the array, as it does for one that is not below twice
  the set size; in between it doubles the array but leaves the new cells unassigned, and then the next
  \<^verbatim>\<open>xv_service_stop\<close> of the started service reads an unassigned pointer.\<close>

theorem add_connection_beyond_setsize:
  assumes r: "table_repr s service sv arr" and p: "p \<noteq> NULL" "connections s p = Some c"
    and fd: "sv_conn_setsize sv \<le> c_fd c" and size: "16 * sv_conn_setsize sv \<le> INT_MAX" "0 < sv_conn_setsize sv"
    and start: "sv_start sv"
  shows "if c_fd c = sv_conn_setsize sv \<or> 2 * sv_conn_setsize sv \<le> c_fd c
     then xv_service_add_connection s service p = None
     else \<exists>t. xv_service_add_connection s service p = Some t \<and> conn_at t service (c_fd c) = p \<and>
       xv_service_stop K t service = None"
proof -
  define n where "n = sv_conn_setsize sv"
  have r': "service \<noteq> NULL" "services s service = Some sv" "sv_connections sv \<noteq> NULL"
    "conn_arrays s (sv_connections sv) = Some arr" "int (length arr) = n"
    using r by (simp_all add: table_repr_def n_def)
  have ci: "c_int (n * 2) = Some (n * 2)" "c_int (8 * (n * 2)) = Some (8 * (n * 2))"
    using size by (simp_all add: c_int_def n_def INT_MIN_def)
  define arr' where "arr' = xv_realloc None arr (n * 2)"
  have len: "int (length arr') = 2 * n" using size(2) by (simp add: arr'_def n_def)
  consider "c_fd c = n" | "2 * n \<le> c_fd c" "n < c_fd c" | "n < c_fd c" "c_fd c < 2 * n"
    using fd by (fastforce simp: n_def)
  then show ?thesis
  proof cases
    case 1
    then show ?thesis using r' p by (simp add: xv_service_add_connection_def n_def arr_set_def)
  next
    case 2
    then show ?thesis
      using r' p ci len by (simp add: xv_service_add_connection_def n_def arr_set_def xv_free_def xv_malloc_def arr'_def)
  next
    case 3
    define q where "q = Suc (brk s)"
    define sv' where "sv' = sv\<lparr>sv_conn_setsize := n * 2, sv_connections := q, sv_conn_count := snd (xv_atomic_incr (sv_conn_count sv))\<rparr>"
    define new where "new = arr'[nat (c_fd c) := Some p]"
    define t where "t = s\<lparr>brk := q, conn_arrays := (conn_arrays s)(sv_connections sv := None, q \<mapsto> new),
      services := (services s)(service \<mapsto> sv')\<rparr>"
    have run: "xv_service_add_connection s service p = Some t"
      using 3 r' p ci len
      by (simp add: xv_service_add_connection_def n_def[symmetric] arr_set_def xv_free_def xv_malloc_def arr'_def t_def q_def sv'_def new_def)
    have at: "conn_at t service (c_fd c) = p"
      using 3 len size(2) by (simp add: conn_at_def t_def sv'_def new_def n_def)
    have cell: "new ! nat n = None" "0 \<le> n" "n < int (length new)"
      using 3 size(2) r'(5) len by (auto simp: new_def arr'_def xv_realloc_def nth_append n_def nth_list_update nat_eq_iff)
    have "xv_service_stop K t service = None"
      using r'(1) start cell size(2) by (intro service_stop_fault[where sv = sv' and arr = new and k = n]) (simp_all add: t_def sv'_def n_def)
    then show ?thesis using 3 run at by (simp add: n_def)
  qed
qed

text \<open>A ninth connection on a table of eight cells: descriptor 8 is outside, descriptor 9 breaks the stop.\<close>

theorem add_connection_beyond_setsize_witness:
  "xv_service_add_connection (ex_svc\<lparr>connections := [45 \<mapsto> ex_conn\<lparr>c_fd := 8\<rparr>]\<rparr>) 70 45 = None \<and>
   (\<exists>t. xv_service_add_connection (ex_svc\<lparr>connections := [45 \<mapsto> ex_conn\<lparr>c_fd := 9\<rparr>]\<rparr>) 70 45 = Some t \<and>
     xv_service_stop sim_sys t 70 = None)"
proof -
  have r: "table_repr (ex_svc\<lparr>connections := h\<rparr>) 70 ex_sv ((replicate 8 (Some NULL))[5 := Some 40])" for h
    using ex_svc_table by (simp add: table_repr_def)
  show ?thesis
    using add_connection_beyond_setsize[OF r, of 45 "[45 \<mapsto> ex_conn\<lparr>c_fd := 8\<rparr>]" "ex_conn\<lparr>c_fd := 8\<rparr>" sim_sys]
      add_connection_beyond_setsize[OF r, of 45 "[45 \<mapsto> ex_conn\<lparr>c_fd := 9\<rparr>]" "ex_conn\<lparr>c_fd := 9\<rparr>" sim_sys]
    by (auto simp: ex_sv_def INT_MAX_def)
qed

end
