(* ===== verification/Xv_Lifetime.thy ===== *)
theory Xv_Lifetime
  imports Xv_Conn_Table
begin

section \<open>Life times of connections and messages\<close>

text \<open>
  A message holds a reference to its connection. The first part shows that the counter of a connection is
  one more than the number of its live messages however connections and messages come and go, and that no
  live message refers to a released connection; the second what closing a connection releases; the third
  what becomes of a message that comes back after its connection was closed.
\<close>

subsection \<open>Reference counts\<close>

definition refs :: "('k, 'z) sheap_scheme \<Rightarrow> addr \<Rightarrow> addr set" where
  "refs s conn = {m. \<exists>x. messages s m = Some x \<and> m_conn x = conn}"

definition refs_ok :: "('k, 'z) sheap_scheme \<Rightarrow> bool" where
  "refs_ok s \<longleftrightarrow> finite (dom (messages s)) \<and> (\<forall>m \<in> dom (messages s). m \<noteq> NULL \<and> m \<le> brk s) \<and>
     (\<forall>conn c. connections s conn = Some c \<longrightarrow> conn \<noteq> NULL \<and> conn \<le> brk s \<and>
        xv_atomic_get (c_ref_count c) = 1 + int (card (refs s conn))) \<and>
     (\<forall>m x. messages s m = Some x \<longrightarrow> connections s (m_conn x) \<noteq> None)"

text \<open>User functions that neither create nor release connections and messages, nor take references.\<close>

definition user_keeps :: "('k, 'z) sheap_scheme user_ops \<Rightarrow> bool" where
  "user_keeps U \<longleftrightarrow> (\<forall>f p s t. u_packet_cleanup U f p s = Some t \<or> u_on_disconnect U f p s = Some t \<longrightarrow>
     connections t = connections s \<and> messages t = messages s \<and> brk s \<le> brk t)"

text \<open>The operations of the source that create, change and release connections and messages.\<close>

inductive ref_step ::
  "('k, 'y) sys_ops_scheme \<Rightarrow> ('k, 'z) sheap_scheme user_ops \<Rightarrow> ('k, 'z) sheap_scheme \<Rightarrow> ('k, 'z) sheap_scheme \<Rightarrow> bool"
  for K U where
  rs_connection: "xv_connection_init s addr port fd handle rcb wcb = Some (conn, t) \<Longrightarrow> ref_step K U s t"
| rs_message: "xv_message_init s conn = Some (m, t) \<Longrightarrow> int (card (refs s conn)) + 2 \<le> INT_MAX \<Longrightarrow> ref_step K U s t"
| rs_request: "xv_message_set_request s m r = Some t \<Longrightarrow> ref_step K U s t"
| rs_response: "xv_message_set_response s m r = Some t \<Longrightarrow> ref_step K U s t"
| rs_release: "xv_message_destroy U s m cleanup = Some t \<Longrightarrow> ref_step K U s t"
| rs_close: "xv_connection_close K U s conn = Some t \<Longrightarrow> ref_step K U s t"

text \<open>What only changes other parts of the state.\<close>

definition keeps_objects :: "('k, 'z) sheap_scheme \<Rightarrow> ('k, 'z) sheap_scheme \<Rightarrow> bool" where
  "keeps_objects s t \<longleftrightarrow> connections t = connections s \<and> messages t = messages s \<and> brk s \<le> brk t"

lemma keeps_objects_refl [simp]: "keeps_objects s s"
  by (simp add: keeps_objects_def)

lemma keeps_objects_trans: "keeps_objects s t \<Longrightarrow> keeps_objects t u \<Longrightarrow> keeps_objects s u"
  by (simp add: keeps_objects_def)

lemma io_stop_brk: "xv_io_stop K s loop p = Some (r, t) \<Longrightarrow> brk t = brk s"
  unfolding xv_io_stop_def xv_loop_del_event_def Let_def
  by (auto elim!: bind_SomeE split: if_split_asm prod.splits
      simp: poller_del_eq xv_poller_modify_event_def Let_def case_prod_beta)

lemma io_stop_keeps: "xv_io_stop K s loop p = Some (r, t) \<Longrightarrow> keeps_objects s t"
  unfolding keeps_objects_def using io_stop_brk more_sheap_l(7,9)[OF io_stop_more] by (metis order_refl)

lemma connection_stop_keeps: "xv_connection_stop K s loop conn = Some t \<Longrightarrow> keeps_objects s t"
  unfolding xv_connection_stop_def
  by (auto elim!: bind_SomeE split: prod.splits dest!: io_stop_keeps intro: keeps_objects_trans)

lemma io_destroy_keeps: "xv_io_destroy s p = Some (r, t) \<Longrightarrow> keeps_objects s t"
  unfolding xv_io_destroy_def keeps_objects_def by (auto elim!: bind_SomeE split: if_split_asm)

lemma buffer_destroy_keeps: "xv_buffer_destroy s p = Some t \<Longrightarrow> keeps_objects s t"
  unfolding xv_buffer_destroy_def keeps_objects_def by (auto elim!: bind_SomeE)

lemma del_connection_keeps: "xv_service_del_connection s service p = Some (r, t) \<Longrightarrow> keeps_objects s t"
  unfolding xv_service_del_connection_def keeps_objects_def Let_def by (auto elim!: bind_SomeE split: if_split_asm)

lemma connection_destroy_effect:
  assumes "xv_connection_destroy s conn = Some t"
  shows "connections t = (connections s)(conn := None)" "messages t = messages s" "brk s \<le> brk t"
  using assms unfolding xv_connection_destroy_def
  by (auto elim!: bind_SomeE split: prod.splits dest!: io_destroy_keeps buffer_destroy_keeps
      simp: keeps_objects_def xv_free_Some_iff deref_Some_iff)

text \<open>Closing marks the connection, and releases it when nothing else refers to it.\<close>

lemma connection_close_effect:
  fixes s t :: "('k, 'z) sheap_scheme"
  assumes U: "user_keeps U" and run: "xv_connection_close K U s conn = Some t"
  obtains c where "conn \<noteq> NULL" "connections s conn = Some c" "messages t = messages s" "brk s \<le> brk t"
    "connections t = (connections s)(conn := if xv_atomic_get (c_ref_count c) > 1 then Some (c\<lparr>c_status := XV_CONN_CLOSED\<rparr>) else None)"
proof -
  obtain c where c: "conn \<noteq> NULL" "connections s conn = Some c"
    using run by (auto simp: xv_connection_close_def deref_Some_iff elim!: bind_SomeE)
  define s1 where "s1 = s\<lparr>connections := (connections s)(conn \<mapsto> c\<lparr>c_status := XV_CONN_CLOSED\<rparr>)\<rparr>"
  have same: "c_status c = XV_CONN_CLOSED \<Longrightarrow> s1 = s"
    using c(2) by (cases c) (auto simp: s1_def fun_upd_idem)
  have u: "u_on_disconnect U f p v = Some w \<Longrightarrow> keeps_objects v w" for f p v w
    using U by (simp add: user_keeps_def keeps_objects_def)
  define mark where "mark = (if c_status c \<noteq> XV_CONN_CLOSED
       then do { h \<leftarrow> handle_at s1 (c_handle c);
         s \<leftarrow> (case h_on_disconnect h of None \<Rightarrow> Some s1 | Some f \<Rightarrow> u_on_disconnect U f conn s1);
         c \<leftarrow> deref (connections s) conn;
         th \<leftarrow> deref (io_threads s) (c_io_thread c);
         xv_connection_stop K s (it_loop th) conn }
       else Some s)"
  define drop where "drop = (\<lambda>s2 :: ('k, 'z) sheap_scheme. do { c \<leftarrow> deref (connections s2) conn;
       if xv_atomic_get (c_ref_count c) > 1 then Some s2
       else do { th \<leftarrow> deref (io_threads s2) (c_io_thread c);
         (_, s) \<leftarrow> xv_service_del_connection s2 (it_service th) conn;
         let s = s\<lparr>kern := snd (xv_close K (c_fd c) (kern s))\<rparr>;
         xv_connection_destroy s conn } })"
  have "xv_connection_close K U s conn = mark \<bind> drop"
    unfolding xv_connection_close_def mark_def drop_def s1_def Let_def using c by simp
  then obtain s2 where s2: "mark = Some s2" "drop s2 = Some t"
    using run by (metis bind_SomeE)
  have "keeps_objects s1 s2"
    using s2(1) same unfolding mark_def
    by (auto elim!: bind_SomeE split: if_split_asm option.split_asm dest!: u connection_stop_keeps intro: keeps_objects_trans)
  then have s2c: "connections s2 = (connections s)(conn \<mapsto> c\<lparr>c_status := XV_CONN_CLOSED\<rparr>)" "messages s2 = messages s" "brk s \<le> brk s2"
    by (simp_all add: keeps_objects_def s1_def)
  show thesis
  proof (cases "xv_atomic_get (c_ref_count c) > 1")
    case True
    then show ?thesis using s2(2) s2c c by (intro that[of c]) (simp_all add: drop_def)
  next
    case False
    then obtain v r where "xv_service_del_connection s2 r conn = Some v"
      "xv_connection_destroy ((snd v)\<lparr>kern := snd (xv_close K (c_fd c) (kern (snd v)))\<rparr>) conn = Some t"
      using s2(2) s2c c by (auto elim!: bind_SomeE simp: drop_def case_prod_beta Let_def)
    then show ?thesis
      using False s2c c del_connection_keeps[of s2 r conn "fst v" "snd v"]
        connection_destroy_effect[of "(snd v)\<lparr>kern := snd (xv_close K (c_fd c) (kern (snd v)))\<rparr>" conn t]
      by (intro that[of c]) (auto simp: keeps_objects_def)
  qed
qed

lemma incr_ref_eq:
  "conn \<noteq> NULL \<Longrightarrow> connections s conn = Some c \<Longrightarrow> xv_connection_incr_ref s conn =
     Some (s\<lparr>connections := (connections s)(conn \<mapsto> c\<lparr>c_ref_count := snd (xv_atomic_incr (c_ref_count c))\<rparr>)\<rparr>)"
  "conn \<noteq> NULL \<Longrightarrow> connections s conn = Some c \<Longrightarrow> xv_connection_decr_ref s conn =
     Some (s\<lparr>connections := (connections s)(conn \<mapsto> c\<lparr>c_ref_count := snd (xv_atomic_decr (c_ref_count c))\<rparr>)\<rparr>)"
  by (simp_all add: xv_connection_incr_ref_def xv_connection_decr_ref_def)

lemma connection_init_effect:
  assumes "xv_connection_init s addr port fd handle rcb wcb = Some (conn, t)"
  obtains c where "conn = Suc (brk s)" "connections t = (connections s)(conn \<mapsto> c)" "messages t = messages s"
    "Suc (brk s) \<le> brk t" "xv_atomic_get (c_ref_count c) = 1" "c_status c = XV_CONN_OPEN"
  using assms
  by (auto simp: xv_connection_init_def xv_malloc_def buffer_alloc_def xv_io_init_def xv_io_set_userdata_def Let_def
      atomic_defs deref_def elim!: bind_SomeE split: if_split_asm)

lemma message_init_effect:
  assumes "xv_message_init s conn = Some (m, t)"
  obtains c where "conn \<noteq> NULL" "connections s conn = Some c" "m = Suc (brk s)" "brk t = Suc (brk s)"
    "connections t = (connections s)(conn \<mapsto> c\<lparr>c_ref_count := snd (xv_atomic_incr (c_ref_count c))\<rparr>)"
    "messages t = (messages s)(m \<mapsto> \<lparr>m_conn = conn, m_request = NULL, m_response = NULL\<rparr>)"
  using assms
  by (auto simp: xv_message_init_def xv_malloc_def xv_connection_incr_ref_def deref_Some_iff elim!: bind_SomeE)

lemma message_destroy_effect:
  assumes U: "user_keeps U" and run: "xv_message_destroy U s m cleanup = Some t"
  obtains x c where "m \<noteq> NULL" "messages s m = Some x" "m_conn x \<noteq> NULL" "connections s (m_conn x) = Some c" "brk s \<le> brk t"
    "connections t = (connections s)(m_conn x \<mapsto> c\<lparr>c_ref_count := snd (xv_atomic_decr (c_ref_count c))\<rparr>)"
    "messages t = (messages s)(m := None)"
proof -
  have u: "u_packet_cleanup U f p v = Some w \<Longrightarrow> keeps_objects v w" for f p v w
    using U by (simp add: user_keeps_def keeps_objects_def)
  have cl: "cleanup_packet U f sel m v = Some w \<Longrightarrow> keeps_objects v w" for f sel v w
    by (auto simp: cleanup_packet_def elim!: bind_SomeE split: if_split_asm dest: u)
  obtain s1 where s1: "(case cleanup of None \<Rightarrow> Some s
      | Some f \<Rightarrow> do { s \<leftarrow> cleanup_packet U f m_request m s; cleanup_packet U f m_response m s }) = Some s1"
    "do { x \<leftarrow> deref (messages s1) m; s \<leftarrow> xv_connection_decr_ref s1 (m_conn x);
       h \<leftarrow> xv_free (messages s) m; Some (s\<lparr>messages := h\<rparr>) } = Some t"
    using run unfolding xv_message_destroy_def by (rule bind_SomeE)
  have k: "keeps_objects s s1"
    using s1(1) by (auto elim!: bind_SomeE split: option.split_asm dest!: cl intro: keeps_objects_trans)
  show thesis
    using s1(2) k that
    by (auto simp: keeps_objects_def xv_connection_decr_ref_def deref_Some_iff xv_free_Some_iff elim!: bind_SomeE)
qed

lemma refs_okD:
  assumes "refs_ok s"
  shows "finite (dom (messages s))" "messages s m = Some x \<Longrightarrow> m \<noteq> NULL \<and> m \<le> brk s"
    "connections s conn = Some c \<Longrightarrow> conn \<noteq> NULL \<and> conn \<le> brk s \<and> xv_atomic_get (c_ref_count c) = 1 + int (card (refs s conn))"
    "messages s m = Some x \<Longrightarrow> connections s (m_conn x) \<noteq> None" "finite (refs s conn)"
proof -
  have "refs s conn \<subseteq> dom (messages s)" by (auto simp: refs_def)
  then show "finite (refs s conn)" using assms by (auto simp: refs_ok_def intro: finite_subset)
qed (use assms in \<open>auto simp: refs_ok_def\<close>)

lemma refs_okI:
  assumes "finite (dom (messages t))"
    "\<And>m x. messages t m = Some x \<Longrightarrow> m \<noteq> NULL \<and> m \<le> brk t \<and> connections t (m_conn x) \<noteq> None"
    "\<And>p c. connections t p = Some c \<Longrightarrow> p \<noteq> NULL \<and> p \<le> brk t \<and> xv_atomic_get (c_ref_count c) = 1 + int (card (refs t p))"
  shows "refs_ok t"
  using assms by (auto simp: refs_ok_def)

text \<open>The invariant is kept by every operation; the cases differ in the message or connection they touch.\<close>

lemma refs_ok_connection:
  assumes ok: "refs_ok s" and run: "xv_connection_init s addr port fd handle rcb wcb = Some (conn, t)"
  shows "refs_ok t"
proof -
  obtain c where e: "conn = Suc (brk s)" "connections t = (connections s)(conn \<mapsto> c)" "messages t = messages s"
    "Suc (brk s) \<le> brk t" "xv_atomic_get (c_ref_count c) = 1"
    using run by (rule connection_init_effect)
  have r: "refs t = refs s" by (rule ext) (simp add: refs_def e)
  have "connections s (Suc (brk s)) = None"
    using refs_okD(3)[OF ok, of "Suc (brk s)"] by (cases "connections s (Suc (brk s))") auto
  then have new: "refs s conn = {}" using refs_okD(4)[OF ok] by (force simp: refs_def e(1))
  show ?thesis
    unfolding refs_ok_def r e(2,3)
    using refs_okD(1,2,4)[OF ok] refs_okD(3)[OF ok] new e by (force simp: dom_def)
qed

lemma refs_ok_message:
  assumes ok: "refs_ok s" and run: "xv_message_init s conn = Some (m, t)" and room: "int (card (refs s conn)) + 2 \<le> INT_MAX"
  shows "refs_ok t"
proof -
  obtain c where e: "conn \<noteq> NULL" "connections s conn = Some c" "m = Suc (brk s)" "brk t = Suc (brk s)"
    "connections t = (connections s)(conn \<mapsto> c\<lparr>c_ref_count := snd (xv_atomic_incr (c_ref_count c))\<rparr>)"
    "messages t = (messages s)(m \<mapsto> \<lparr>m_conn = conn, m_request = NULL, m_response = NULL\<rparr>)"
    using run by (rule message_init_effect)
  have fresh: "messages s m = None" using refs_okD(2)[OF ok, of m] e(3) by (cases "messages s m") auto
  have r: "refs t p = (if p = conn then insert m (refs s p) else refs s p)" for p
    using fresh by (auto simp: refs_def e)
  have m: "m \<notin> refs s conn" using fresh by (simp add: refs_def)
  have n: "xv_atomic_get (snd (xv_atomic_incr (c_ref_count c))) = 1 + int (card (refs t conn))"
    using atomic_incr_get[OF conjunct2[OF conjunct2[OF refs_okD(3)[OF ok e(2)]]]] room m refs_okD(5)[OF ok] r by simp
  show ?thesis
    unfolding refs_ok_def e(4,5,6)
    using refs_okD(1)[OF ok] refs_okD(2,4)[OF ok] refs_okD(3)[OF ok] n e(1,2,3) r by (auto simp: le_SucI)
qed

lemma refs_ok_setter:
  assumes ok: "refs_ok s" and m: "messages s m = Some x" and t: "t = s\<lparr>messages := (messages s)(m \<mapsto> y)\<rparr>" "m_conn y = m_conn x"
  shows "refs_ok t"
proof -
  have r: "refs t = refs s" using m t(2) by (auto simp: refs_def t(1) fun_eq_iff)
  show ?thesis
    unfolding refs_ok_def r using refs_okD(1)[OF ok] refs_okD(2,4)[OF ok] refs_okD(3)[OF ok] m t by auto
qed

lemma refs_ok_release:
  assumes U: "user_keeps U" and ok: "refs_ok s" and run: "xv_message_destroy U s m cleanup = Some t"
  shows "refs_ok t"
proof -
  obtain x c where e: "m \<noteq> NULL" "messages s m = Some x" "m_conn x \<noteq> NULL" "connections s (m_conn x) = Some c" "brk s \<le> brk t"
    "connections t = (connections s)(m_conn x \<mapsto> c\<lparr>c_ref_count := snd (xv_atomic_decr (c_ref_count c))\<rparr>)"
    "messages t = (messages s)(m := None)"
    using U run by (rule message_destroy_effect)
  have r: "refs t p = (if p = m_conn x then refs s p - {m} else refs s p)" for p
    using e(2) by (auto simp: refs_def e(7))
  have m: "m \<in> refs s (m_conn x)" using e(2) by (simp add: refs_def)
  have card: "int (card (refs s (m_conn x))) = int (card (refs t (m_conn x))) + 1"
    using card_Suc_Diff1[OF refs_okD(5)[OF ok] m] r by simp
  have n: "xv_atomic_get (snd (xv_atomic_decr (c_ref_count c))) = 1 + int (card (refs t (m_conn x)))"
    using atomic_decr_get[OF conjunct2[OF conjunct2[OF refs_okD(3)[OF ok e(4)]]]] card by (simp add: INT_MIN_def)
  show ?thesis
  proof (rule refs_okI)
    show "finite (dom (messages t))" using refs_okD(1)[OF ok] e(7) by simp
    show "m' \<noteq> NULL \<and> m' \<le> brk t \<and> connections t (m_conn y) \<noteq> None" if "messages t m' = Some y" for m' y
      using that refs_okD(2,4)[OF ok, of m' y] e(5,6,7) by (auto split: if_splits)
    show "p \<noteq> NULL \<and> p \<le> brk t \<and> xv_atomic_get (c_ref_count d) = 1 + int (card (refs t p))" if "connections t p = Some d" for p d
    proof (cases "p = m_conn x")
      case True
      then show ?thesis using that refs_okD(3)[OF ok e(4)] e(3,5,6) n by auto
    next
      case False
      then show ?thesis using that refs_okD(3)[OF ok, of p d] e(5,6) r by auto
    qed
  qed
qed

lemma refs_ok_close:
  assumes U: "user_keeps U" and ok: "refs_ok s" and run: "xv_connection_close K U s conn = Some t"
  shows "refs_ok t"
proof -
  obtain c where e: "conn \<noteq> NULL" "connections s conn = Some c" "messages t = messages s" "brk s \<le> brk t"
    "connections t = (connections s)(conn := if xv_atomic_get (c_ref_count c) > 1 then Some (c\<lparr>c_status := XV_CONN_CLOSED\<rparr>) else None)"
    using U run by (rule connection_close_effect)
  have r: "refs t = refs s" by (rule ext) (simp add: refs_def e)
  have "refs s conn = {}" if "\<not> xv_atomic_get (c_ref_count c) > 1"
    using that refs_okD(3)[OF ok e(2)] refs_okD(5)[OF ok, of conn] by simp
  then have live: "\<And>m x. \<not> xv_atomic_get (c_ref_count c) > 1 \<Longrightarrow> messages s m = Some x \<Longrightarrow> m_conn x \<noteq> conn"
    by (auto simp: refs_def)
  show ?thesis
  proof (rule refs_okI)
    show "finite (dom (messages t))" using refs_okD(1)[OF ok] e(3) by simp
    show "m \<noteq> NULL \<and> m \<le> brk t \<and> connections t (m_conn y) \<noteq> None" if "messages t m = Some y" for m y
      using that refs_okD(2,4)[OF ok, of m y] live[of m y] e(3,4,5) by (auto split: if_splits)
    show "p \<noteq> NULL \<and> p \<le> brk t \<and> xv_atomic_get (c_ref_count d) = 1 + int (card (refs t p))" if "connections t p = Some d" for p d
      using that refs_okD(3)[OF ok, of p] e(2,4,5) r by (auto split: if_splits)
  qed
qed

lemma refs_ok_step: "user_keeps U \<Longrightarrow> ref_step K U s t \<Longrightarrow> refs_ok s \<Longrightarrow> refs_ok t"
  by (erule ref_step.cases)
     (auto intro: refs_ok_connection refs_ok_message refs_ok_release refs_ok_close refs_ok_setter
       simp: xv_message_set_request_def xv_message_set_response_def deref_Some_iff elim!: bind_SomeE)

text \<open>C9. References are counted: from any state in which they are, whatever sequence of connection set-ups,
  message creations, updates and releases and connection closings follows, the counter of every live
  connection is one more than the number of its live messages, and every live message refers to a live
  connection. So \<^verbatim>\<open>xv_connection_close\<close> never releases a connection that a message still uses.\<close>

theorem reference_counts:
  assumes "user_keeps U" "(ref_step K U)\<^sup>*\<^sup>* s t" "refs_ok s"
  shows "(\<forall>conn c. connections t conn = Some c \<longrightarrow> xv_atomic_get (c_ref_count c) =
       1 + int (card {m. \<exists>x. messages t m = Some x \<and> m_conn x = conn})) \<and>
     (\<forall>m x. messages t m = Some x \<longrightarrow> connections t (m_conn x) \<noteq> None)"
proof -
  have "refs_ok t" using assms(2,3) by induction (auto intro: refs_ok_step[OF assms(1)])
  then show ?thesis using refs_okD(3,4) by (auto simp: refs_def)
qed

text \<open>User functions of the examples: packets are addresses, decoding takes all bytes, encoding appends
  three bytes, processing answers with packet 9.\<close>

definition ex_user :: "sim_os sheap user_ops" where
  "ex_user = \<lparr>u_decode = (\<lambda>f b s. do { s \<leftarrow> buffer_upd s b (\<lambda>b. Some (xv_buffer_clear b)); Some (XV_OK, 8, s) }),
     u_encode = (\<lambda>f b p s. do {
       s \<leftarrow> buffer_upd s b (\<lambda>b. map_option snd (xv_buffer_write_data b [10, 20, 30] 3)); Some (0, s) }),
     u_process = (\<lambda>f m s. do { s \<leftarrow> xv_message_set_response s m 9; Some (0, s) }),
     u_packet_cleanup = (\<lambda>f p s. Some s), u_on_connect = (\<lambda>f c s. Some s), u_on_disconnect = (\<lambda>f c s. Some s)\<rparr>"

lemma ex_user_keeps: "user_keeps ex_user"
  by (simp add: user_keeps_def ex_user_def)

lemma ex_svc_refs: "refs_ok ex_svc"
  unfolding refs_ok_def refs_def ex_svc_facts ex_svc_more
  by (auto simp: ex_svc0_def ex_conn_def xv_atomic_get_def split: if_splits)

text \<open>A message created for connection 40 is counted.\<close>

theorem reference_counts_witness:
  "\<exists>t. (ref_step sim_sys ex_user)\<^sup>*\<^sup>* ex_svc t \<and> messages t 105 \<noteq> None \<and>
     map_option (\<lambda>c. xv_atomic_get (c_ref_count c)) (connections t 40) = Some 2"
proof -
  have c: "connections ex_svc 40 = Some ex_conn" "messages ex_svc = Map.empty"
    by (simp_all add: ex_svc_more) (simp_all add: ex_svc0_def)
  obtain t where t: "xv_message_init ex_svc 40 = Some (105, t)" "messages t = [105 \<mapsto> \<lparr>m_conn = 40, m_request = NULL, m_response = NULL\<rparr>]"
    "connections t 40 \<noteq> None"
    using c by (simp add: xv_message_init_def xv_malloc_def incr_ref_eq ex_svc_facts)
  have step: "(ref_step sim_sys ex_user)\<^sup>*\<^sup>* ex_svc t"
    by (rule r_into_rtranclp, rule rs_message[OF t(1)]) (simp add: refs_def c INT_MAX_def)
  have one: "{m. \<exists>x. messages t m = Some x \<and> m_conn x = 40} = {105}" using t(2) by auto
  show ?thesis
    using reference_counts[OF ex_user_keeps step ex_svc_refs] step t(2,3) one by (intro exI[of _ t]) auto
qed

subsection \<open>Closing\<close>

text \<open>A connection as \<^verbatim>\<open>on_new_connection\<close> sets it up, attached to an I/O thread \<open>th\<close>.\<close>

definition conn_watcher :: "('k, 'z) sheap_scheme \<Rightarrow> addr \<Rightarrow> addr \<Rightarrow> int \<Rightarrow> u32 \<Rightarrow> addr \<Rightarrow> bool" where
  "conn_watcher s loop p fd ev conn \<longleftrightarrow> p \<noteq> NULL \<and> 0 \<le> fd \<and> fd < loop_size s loop \<and>
     (\<exists>io. ios s p = Some io \<and> io_fd io = fd \<and> io_event io = ev \<and> io_userdata io = conn)"

definition conn_ok :: "('k, 'z) sheap_scheme \<Rightarrow> addr \<Rightarrow> xv_connection_t \<Rightarrow> xv_io_thread_t \<Rightarrow> bool" where
  "conn_ok s conn c th \<longleftrightarrow> conn \<noteq> NULL \<and> connections s conn = Some c \<and>
     c_io_thread c \<noteq> NULL \<and> io_threads s (c_io_thread c) = Some th \<and> loop_ok s (it_loop th) \<and>
     conn_watcher s (it_loop th) (c_read_io c) (c_fd c) XV_READ conn \<and>
     conn_watcher s (it_loop th) (c_write_io c) (c_fd c) XV_WRITE conn \<and>
     c_read_buffer c \<noteq> NULL \<and> c_write_buffer c \<noteq> NULL \<and> c_read_buffer c \<noteq> c_write_buffer c \<and>
     buffers s (c_read_buffer c) \<noteq> None \<and> buffers s (c_write_buffer c) \<noteq> None \<and>
     c_handle c \<noteq> NULL \<and> listeners s (c_handle c) \<noteq> None"

lemma conn_watcherD:
  assumes "conn_watcher s loop p fd ev conn"
  obtains io where "p \<noteq> NULL" "ios s p = Some io" "io_fd io = fd" "io_event io = ev" "io_userdata io = conn" "0 \<le> fd" "fd < loop_size s loop"
  using assms by (auto simp: conn_watcher_def)

lemma conn_watcher_fits: "conn_watcher s loop p fd ev conn \<Longrightarrow> ev \<in> {XV_READ, XV_WRITE} \<Longrightarrow> watcher_fits s loop p"
  by (auto simp: conn_watcher_def watcher_fits_def)

text \<open>After \<^verbatim>\<open>xv_io_stop\<close> the watcher is stopped, whether or not it was started.\<close>

lemma io_unstarted [simp]: "\<not> io_start io \<Longrightarrow> io\<lparr>io_start := False\<rparr> = io"
  by (cases io) simp

lemma stop_ios:
  fixes s :: "('k, 'z) sheap_scheme"
  assumes ok: "loop_ok s loop" and w: "watcher_fits s loop p" and io: "ios s p = Some io"
  shows "\<exists>r t. xv_io_stop K s loop p = Some (r, t) \<and> loop_ok t loop \<and> w_frame s t \<and>
     ios t = (ios s)(p \<mapsto> io\<lparr>io_start := False\<rparr>)"
proof -
  obtain r t where "xv_io_stop K s loop p = Some (r, t)" "w_post K (\<lambda>_ _ _. None) loop s (WStop p) r t"
    using stop_law[OF ok w] by blast
  then show ?thesis
    using io by (intro exI[of _ r] exI[of _ t])
      (auto simp: w_post_def w_view_of_def Let_def fun_upd_idem split: if_splits)
qed

lemma w_frame_fields:
  fixes s t :: "('k, 'z) sheap_scheme"
  assumes "w_frame s t"
  shows "loops t = loops s" "brk t = brk s" "loop_size t loop = loop_size s loop" "lheap.more t = lheap.more s"
  using assms by (simp_all add: w_frame_def loop_size_def)

lemma connection_stop_law:
  fixes s :: "('k, 'z) sheap_scheme"
  assumes ok: "conn_ok s conn c th" and io: "ios s (c_read_io c) = Some r" "ios s (c_write_io c) = Some w"
  shows "\<exists>t. xv_connection_stop K s (it_loop th) conn = Some t \<and> loop_ok t (it_loop th) \<and> w_frame s t \<and>
     ios t = (ios s)(c_read_io c \<mapsto> r\<lparr>io_start := False\<rparr>, c_write_io c \<mapsto> w\<lparr>io_start := False\<rparr>)"
proof -
  have c: "conn \<noteq> NULL" "connections s conn = Some c" "loop_ok s (it_loop th)"
    "conn_watcher s (it_loop th) (c_read_io c) (c_fd c) XV_READ conn" "conn_watcher s (it_loop th) (c_write_io c) (c_fd c) XV_WRITE conn"
    using ok by (simp_all add: conn_ok_def)
  have ne: "c_read_io c \<noteq> c_write_io c" using conn_watcherD[OF c(4)] conn_watcherD[OF c(5)] has_event(5) by (metis option.inject)
  obtain r1 s1 where s1: "xv_io_stop K s (it_loop th) (c_read_io c) = Some (r1, s1)" "loop_ok s1 (it_loop th)" "w_frame s s1"
    "ios s1 = (ios s)(c_read_io c \<mapsto> r\<lparr>io_start := False\<rparr>)"
    using stop_ios[OF c(3) conn_watcher_fits[OF c(4)] io(1)] by blast
  have "watcher_fits s1 (it_loop th) (c_write_io c)"
    using conn_watcher_fits[OF c(5)] s1(4) ne w_frame_fields(3)[OF s1(3)] by (auto simp: watcher_fits_def)
  then obtain r2 s2 where s2: "xv_io_stop K s1 (it_loop th) (c_write_io c) = Some (r2, s2)" "loop_ok s2 (it_loop th)" "w_frame s1 s2"
    "ios s2 = (ios s1)(c_write_io c \<mapsto> w\<lparr>io_start := False\<rparr>)"
    using stop_ios[OF s1(2), of "c_write_io c" w K] io(2) s1(4) ne by auto
  note f = more_sheap_l(7)[OF w_frame_fields(4)[OF s1(3)]]
  show ?thesis
    using c s1 s2 f by (intro exI[of _ s2]) (simp add: xv_connection_stop_def w_frame_def)
qed

lemma connection_destroy_law:
  assumes c: "conn \<noteq> NULL" "connections s conn = Some c"
    and io: "ios s (c_read_io c) = Some r" "ios s (c_write_io c) = Some w" "\<not> io_start r" "\<not> io_start w"
      "c_read_io c \<noteq> NULL" "c_write_io c \<noteq> NULL" "c_read_io c \<noteq> c_write_io c"
    and b: "c_read_buffer c \<noteq> NULL" "c_write_buffer c \<noteq> NULL" "c_read_buffer c \<noteq> c_write_buffer c"
      "buffers s (c_read_buffer c) \<noteq> None" "buffers s (c_write_buffer c) \<noteq> None"
  shows "xv_connection_destroy s conn = Some (s\<lparr>ios := (ios s)(c_read_io c := None, c_write_io c := None),
     buffers := (buffers s)(c_read_buffer c := None, c_write_buffer c := None), connections := (connections s)(conn := None)\<rparr>)"
  using assms by (auto simp: xv_connection_destroy_def xv_io_destroy_def xv_buffer_destroy_def xv_free_def)

lemma loop_ok_cong:
  assumes "loop_ok s loop" "loops t = loops s" "pollers t = pollers s" "event_arrays t = event_arrays s"
    "fired_arrays t = fired_arrays s"
    "\<And>p io. ios s p = Some io \<Longrightarrow> io_start io \<Longrightarrow> ios t p = Some io"
  shows "loop_ok t loop"
proof -
  obtain l d arr where r: "loop_repr s loop l d arr" using assms(1) by (auto simp: loop_ok_def)
  have "watcher_ok (ios t) fd ev p" if "watcher_ok (ios s) fd ev p" for fd ev p
    using that assms(6)[of p] by (auto simp: watcher_ok_def)
  then have "slots_ok (ios t) arr" using loop_reprD(11)[OF r] by (simp add: slots_ok_def slot_ok_def)
  then show ?thesis using r assms(2-5) by (auto simp: loop_ok_def loop_repr_def)
qed

text \<open>A watcher that is not started is not in the table.\<close>

lemma unwatched:
  assumes "loop_ok t loop" "p \<noteq> NULL" "\<And>io. ios t p = Some io \<Longrightarrow> \<not> io_start io"
  shows "watched t loop fd ev \<noteq> p"
  using watched_started[OF assms(1) refl, of fd ev] assms(2,3) by metis

text \<open>The part of \<^verbatim>\<open>xv_connection_close\<close> before the test of the reference count: the connection is marked as
  closed and its watchers are stopped.\<close>

lemma connection_close_head:
  fixes s :: "('k, 'z) sheap_scheme"
  assumes ok: "conn_ok s conn c th" "c_status c = XV_CONN_OPEN" and l: "listeners s (c_handle c) = Some l" "callback_silent (u_on_disconnect U) (h_on_disconnect (ls_handle l))"
  obtains s2 r w where "xv_connection_stop K (s\<lparr>connections := (connections s)(conn \<mapsto> c\<lparr>c_status := XV_CONN_CLOSED\<rparr>)\<rparr>) (it_loop th) conn = Some s2"
    "xv_connection_close K U s conn =
      (if 1 < xv_atomic_get (c_ref_count c) then Some s2
       else do { (_, v) \<leftarrow> xv_service_del_connection s2 (it_service th) conn;
         xv_connection_destroy (v\<lparr>kern := snd (sys_close K (c_fd c) (kern v))\<rparr>) conn })"
    "loop_ok s2 (it_loop th)" "w_frame (s\<lparr>connections := (connections s)(conn \<mapsto> c\<lparr>c_status := XV_CONN_CLOSED\<rparr>)\<rparr>) s2"
    "ios s2 = (ios s)(c_read_io c \<mapsto> r\<lparr>io_start := False\<rparr>, c_write_io c \<mapsto> w\<lparr>io_start := False\<rparr>)"
    "c_read_io c \<noteq> c_write_io c" "c_read_io c \<noteq> NULL" "c_write_io c \<noteq> NULL" "0 \<le> c_fd c"
proof -
  let ?loop = "it_loop th"
  define c' where "c' = c\<lparr>c_status := XV_CONN_CLOSED\<rparr>"
  define s1 where "s1 = s\<lparr>connections := (connections s)(conn \<mapsto> c')\<rparr>"
  have d: "conn \<noteq> NULL" "connections s conn = Some c" "c_io_thread c \<noteq> NULL" "io_threads s (c_io_thread c) = Some th"
    "conn_watcher s ?loop (c_read_io c) (c_fd c) XV_READ conn" "conn_watcher s ?loop (c_write_io c) (c_fd c) XV_WRITE conn"
    "c_handle c \<noteq> NULL" "loop_ok s ?loop"
    using ok(1) by (simp_all add: conn_ok_def)
  obtain r where r: "ios s (c_read_io c) = Some r" "c_read_io c \<noteq> NULL" "io_event r = XV_READ" "0 \<le> c_fd c" using conn_watcherD[OF d(5)] by metis
  obtain w where w: "ios s (c_write_io c) = Some w" "c_write_io c \<noteq> NULL" "io_event w = XV_WRITE" using conn_watcherD[OF d(6)] by metis
  have "conn_ok s1 conn c' th"
    using ok(1) loop_ok_cong[OF d(8), of s1] by (simp add: conn_ok_def conn_watcher_def s1_def c'_def loop_size_def)
  then obtain s2 where s2: "xv_connection_stop K s1 ?loop conn = Some s2" "loop_ok s2 ?loop" "w_frame s1 s2"
    "ios s2 = (ios s)(c_read_io c \<mapsto> r\<lparr>io_start := False\<rparr>, c_write_io c \<mapsto> w\<lparr>io_start := False\<rparr>)"
    using connection_stop_law[of s1 conn c' th r w K] r w by (auto simp: s1_def c'_def)
  note f = more_sheap_l[OF w_frame_fields(4)[OF s2(3)]]
  show thesis
  proof (rule that)
    show "xv_connection_close K U s conn =
      (if 1 < xv_atomic_get (c_ref_count c) then Some s2
       else do { (_, v) \<leftarrow> xv_service_del_connection s2 (it_service th) conn;
         xv_connection_destroy (v\<lparr>kern := snd (sys_close K (c_fd c) (kern v))\<rparr>) conn })"
      using d ok(2) l(1) s2(1) f callback_silent_run[OF l(2)]
      by (simp add: xv_connection_close_def handle_at_def s1_def[folded c'_def] c'_def xv_close_def)
  qed (use s2 r w in \<open>auto simp: s1_def c'_def\<close>)
qed

text \<open>The part after it, without outstanding messages: the cell of the table is cleared, the descriptor closed and the
  connection released.\<close>

lemma connection_close_tail:
  fixes s :: "('k, 'z) sheap_scheme"
  assumes ok: "conn_ok s conn c th" and table: "table_repr s (it_service th) sv arr" "c_fd c < sv_conn_setsize sv"
    and s2: "loop_ok s2 (it_loop th)" "w_frame (s\<lparr>connections := (connections s)(conn \<mapsto> c\<lparr>c_status := XV_CONN_CLOSED\<rparr>)\<rparr>) s2"
      "ios s2 = (ios s)(c_read_io c \<mapsto> r\<lparr>io_start := False\<rparr>, c_write_io c \<mapsto> w\<lparr>io_start := False\<rparr>)"
    and ne: "c_read_io c \<noteq> c_write_io c" "c_read_io c \<noteq> NULL" "c_write_io c \<noteq> NULL" "0 \<le> c_fd c"
  shows "\<exists>t. do { (_, v) \<leftarrow> xv_service_del_connection s2 (it_service th) conn;
        xv_connection_destroy (v\<lparr>kern := snd (sys_close K (c_fd c) (kern v))\<rparr>) conn } = Some t \<and> loop_ok t (it_loop th) \<and>
     connections t = (connections s)(conn := None) \<and> ios t = (ios s)(c_read_io c := None, c_write_io c := None) \<and>
     buffers t = (buffers s)(c_read_buffer c := None, c_write_buffer c := None) \<and>
     conn_at t (it_service th) = (conn_at s (it_service th))(c_fd c := NULL) \<and> kern t = snd (sys_close K (c_fd c) (kern s2))"
proof -
  let ?loop = "it_loop th" and ?sv = "it_service th"
  define c' where "c' = c\<lparr>c_status := XV_CONN_CLOSED\<rparr>"
  note f = more_sheap_l[OF w_frame_fields(4)[OF s2(2)], folded c'_def]
  have same: "conn_at s2 ?sv = conn_at s ?sv" by (rule conn_at_cong) (simp_all add: f)
  have rep: "table_repr s2 ?sv sv arr" using table(1) f by (simp add: table_repr_def)
  have d: "conn \<noteq> NULL" "c_read_buffer c \<noteq> NULL" "c_write_buffer c \<noteq> NULL" "c_read_buffer c \<noteq> c_write_buffer c"
    "buffers s (c_read_buffer c) \<noteq> None" "buffers s (c_write_buffer c) \<noteq> None"
    using ok by (simp_all add: conn_ok_def)
  define v where "v = s2\<lparr>conn_arrays := (conn_arrays s2)(sv_connections sv \<mapsto> arr[nat (c_fd c) := Some NULL]),
    services := (services s2)(?sv \<mapsto> sv\<lparr>sv_conn_count := snd (xv_atomic_decr (sv_conn_count sv))\<rparr>)\<rparr>"
  have del: "xv_service_del_connection s2 ?sv conn = Some (XV_OK, v)"
    unfolding v_def by (rule del_connection_law[OF rep, of conn c', simplified c'_def, simplified]) (use d f ne(4) table(2) in \<open>simp_all add: c'_def\<close>)
  note tu = table_upd[OF rep ne(4) table(2) refl v_def]
  define t where "t = v\<lparr>kern := snd (sys_close K (c_fd c) (kern v)), ios := (ios s)(c_read_io c := None, c_write_io c := None),
    buffers := (buffers s)(c_read_buffer c := None, c_write_buffer c := None), connections := (connections s)(conn := None)\<rparr>"
  have "xv_connection_destroy (v\<lparr>kern := snd (sys_close K (c_fd c) (kern v))\<rparr>) conn = Some t"
    using connection_destroy_law[of conn "v\<lparr>kern := snd (sys_close K (c_fd c) (kern v))\<rparr>" c' "r\<lparr>io_start := False\<rparr>" "w\<lparr>io_start := False\<rparr>"]
      d s2(3) f ne by (simp add: v_def t_def c'_def fun_upd_twist)
  then have run: "do { (_, v) \<leftarrow> xv_service_del_connection s2 ?sv conn;
      xv_connection_destroy (v\<lparr>kern := snd (sys_close K (c_fd c) (kern v))\<rparr>) conn } = Some t" using del by simp
  have lt: "loop_ok t ?loop"
    by (rule loop_ok_cong[OF s2(1)]) (auto simp: t_def v_def s2(3) split: if_splits)
  have "conn_at t ?sv = conn_at v ?sv" by (rule conn_at_cong) (simp_all add: t_def)
  then have "conn_at t ?sv = (conn_at s ?sv)(c_fd c := NULL)" using tu(2) same by simp
  then show ?thesis using run lt by (intro exI[of _ t]) (auto simp: t_def v_def)
qed

text \<open>C14. \<^verbatim>\<open>xv_connection_close\<close> on an open connection in the table, whose \<^verbatim>\<open>on_disconnect\<close> is absent or only looks at it, returns, and neither of its watchers is
  registered any more, whatever \<^verbatim>\<open>epoll_ctl\<close> answers. If messages still refer to the connection it is only
  marked as closed and its watchers stopped: the state is the one \<^verbatim>\<open>xv_connection_stop\<close> leaves, the connection stays in the table
  and its descriptor is not closed. Otherwise its cell is cleared, its descriptor is closed, after the watchers were stopped, and
  the watchers, the buffers and the connection itself are released, each exactly once.\<close>

theorem xv_connection_close_spec:
  fixes s :: "('k, 'z) sheap_scheme"
  assumes ok: "conn_ok s conn c th" "c_status c = XV_CONN_OPEN" and l: "listeners s (c_handle c) = Some l" "callback_silent (u_on_disconnect U) (h_on_disconnect (ls_handle l))"
    and table: "table_repr s (it_service th) sv arr" "c_fd c < sv_conn_setsize sv"
  shows "\<exists>u t. xv_connection_stop K (s\<lparr>connections := (connections s)(conn \<mapsto> c\<lparr>c_status := XV_CONN_CLOSED\<rparr>)\<rparr>) (it_loop th) conn = Some u \<and>
     xv_connection_close K U s conn = Some t \<and> loop_ok t (it_loop th) \<and>
     (\<forall>fd ev. watched t (it_loop th) fd ev \<noteq> c_read_io c \<and> watched t (it_loop th) fd ev \<noteq> c_write_io c) \<and>
     (if 1 < xv_atomic_get (c_ref_count c)
      then t = u \<and> connections t = (connections s)(conn \<mapsto> c\<lparr>c_status := XV_CONN_CLOSED\<rparr>) \<and> buffers t = buffers s \<and>
        conn_at t (it_service th) = conn_at s (it_service th)
      else connections t = (connections s)(conn := None) \<and>
        ios t = (ios s)(c_read_io c := None, c_write_io c := None) \<and>
        buffers t = (buffers s)(c_read_buffer c := None, c_write_buffer c := None) \<and>
        conn_at t (it_service th) = (conn_at s (it_service th))(c_fd c := NULL) \<and>
        kern t = snd (sys_close K (c_fd c) (kern u)))"
proof -
  let ?loop = "it_loop th" and ?sv = "it_service th"
  define c' where "c' = c\<lparr>c_status := XV_CONN_CLOSED\<rparr>"
  obtain s2 r w where stop: "xv_connection_stop K (s\<lparr>connections := (connections s)(conn \<mapsto> c')\<rparr>) ?loop conn = Some s2" and head: "xv_connection_close K U s conn =
      (if 1 < xv_atomic_get (c_ref_count c) then Some s2
       else do { (_, v) \<leftarrow> xv_service_del_connection s2 ?sv conn;
         xv_connection_destroy (v\<lparr>kern := snd (sys_close K (c_fd c) (kern v))\<rparr>) conn })"
    and s2: "loop_ok s2 ?loop" "w_frame (s\<lparr>connections := (connections s)(conn \<mapsto> c')\<rparr>) s2"
      "ios s2 = (ios s)(c_read_io c \<mapsto> r\<lparr>io_start := False\<rparr>, c_write_io c \<mapsto> w\<lparr>io_start := False\<rparr>)"
    and ne: "c_read_io c \<noteq> c_write_io c" "c_read_io c \<noteq> NULL" "c_write_io c \<noteq> NULL" "0 \<le> c_fd c"
    unfolding c'_def by (rule connection_close_head[OF ok l])
  note f = more_sheap_l[OF w_frame_fields(4)[OF s2(2)]]
  have same: "conn_at s2 ?sv = conn_at s ?sv" by (rule conn_at_cong) (simp_all add: f)
  show ?thesis
  proof (cases "1 < xv_atomic_get (c_ref_count c)")
    case True
    have "\<forall>fd ev. watched s2 ?loop fd ev \<noteq> c_read_io c \<and> watched s2 ?loop fd ev \<noteq> c_write_io c"
      by (intro allI conjI unwatched[OF s2(1)]) (use s2(3) ne in auto)
    then show ?thesis
      using True stop head s2(1) same f(6,7) by (intro exI[of _ s2]) (simp add: c'_def)
  next
    case False
    obtain t where t: "xv_connection_close K U s conn = Some t" "loop_ok t ?loop" "connections t = (connections s)(conn := None)"
      "ios t = (ios s)(c_read_io c := None, c_write_io c := None)" "buffers t = (buffers s)(c_read_buffer c := None, c_write_buffer c := None)"
      "conn_at t ?sv = (conn_at s ?sv)(c_fd c := NULL)" "kern t = snd (sys_close K (c_fd c) (kern s2))"
      using connection_close_tail[OF ok(1) table s2[unfolded c'_def] ne, of K] head False by auto
    have "\<forall>fd ev. watched t ?loop fd ev \<noteq> c_read_io c \<and> watched t ?loop fd ev \<noteq> c_write_io c"
      by (intro allI conjI unwatched[OF t(2)]) (use ne t(4) in auto)
    then show ?thesis using False stop t by (intro exI[of _ s2] exI[of _ t]) (simp add: c'_def)
  qed
qed

lemma ex_conn_ok: "conn_ok ex_svc 40 ex_conn ex_thread"
proof -
  have "loop_ok ex_svc 30" by (rule ex_svc_loop)
  moreover have "loop_size ex_svc 30 = 8" by (simp add: loop_size_def ex_svc_more) (simp add: ex_svc0_def)
  ultimately show ?thesis
    unfolding conn_ok_def conn_watcher_def ex_svc_more
    by (simp add: ex_conn_def ex_thread_def) (simp add: ex_svc0_def ex_io_def ex_conn_def ex_thread_def)
qed

lemma ex_listener: "\<exists>l. listeners ex_svc 50 = Some l \<and> ls_handle l = ex_handle"
  by (simp add: ex_svc_more) (simp add: ex_svc0_def)

text \<open>Connection 40 of the example has no messages.\<close>

theorem xv_connection_close_spec_witness:
  "\<exists>t. xv_connection_close sim_sys ex_user ex_svc 40 = Some t \<and> connections t 40 = None \<and> ios t 41 = None \<and> ios t 42 = None \<and>
     conn_at t 70 5 = NULL"
proof -
  obtain l where l: "listeners ex_svc 50 = Some l" "ls_handle l = ex_handle" using ex_listener by blast
  have c: "c_status ex_conn = XV_CONN_OPEN" "listeners ex_svc (c_handle ex_conn) = Some l"
    "callback_silent (u_on_disconnect ex_user) (h_on_disconnect (ls_handle l))"
    "table_repr ex_svc (it_service ex_thread) ex_sv ((replicate 8 (Some NULL))[5 := Some 40])" "c_fd ex_conn < sv_conn_setsize ex_sv"
    using l ex_svc_table by (simp_all add: ex_conn_def ex_handle_def ex_thread_def ex_sv_def)
  show ?thesis
    using xv_connection_close_spec[OF ex_conn_ok c, of sim_sys]
    by (auto simp: ex_conn_def ex_thread_def xv_atomic_get_def)
qed

subsection \<open>Messages that come back late\<close>

text \<open>C32. A message that comes back after its connection was closed: \<^verbatim>\<open>io_thread_return_message_cb\<close> releases the
  connection without looking at the reference count, without closing the descriptor and without clearing
  the cell of the table. A second message for the same connection is then undefined, and so is the next
  \<^verbatim>\<open>xv_service_stop\<close>, which follows the stale entry.\<close>

theorem late_message_releases_connection:
  fixes s :: "('k, 'z) sheap_scheme"
  assumes ok: "conn_ok s conn c th" "c_status c = XV_CONN_CLOSED"
    and io: "ios s (c_read_io c) = Some r" "ios s (c_write_io c) = Some w" "\<not> io_start r" "\<not> io_start w"
    and l: "listeners s (c_handle c) = Some l" "h_packet_cleanup (ls_handle l) = None"
    and m: "m \<noteq> NULL" "messages s m = Some x" "m_conn x = conn"
    and table: "table_repr s service sv arr" "conn_at s service (c_fd c) = conn" "sv_start sv"
  shows "\<exists>t. return_message K U loop m s = Some t \<and> connections t conn = None \<and> kern t = kern s \<and>
     conn_at t service (c_fd c) = conn \<and> xv_service_stop K t service = None \<and>
     (\<forall>m' y. m' \<noteq> m \<longrightarrow> messages s m' = Some y \<longrightarrow> m_conn y = conn \<longrightarrow> return_message K U loop m' t = None)"
proof -
  have d: "conn \<noteq> NULL" "connections s conn = Some c" "c_handle c \<noteq> NULL" "c_read_buffer c \<noteq> NULL" "c_write_buffer c \<noteq> NULL"
    "c_read_buffer c \<noteq> c_write_buffer c" "buffers s (c_read_buffer c) \<noteq> None" "buffers s (c_write_buffer c) \<noteq> None"
    and w': "conn_watcher s (it_loop th) (c_read_io c) (c_fd c) XV_READ conn" "conn_watcher s (it_loop th) (c_write_io c) (c_fd c) XV_WRITE conn"
    using ok(1) by (simp_all add: conn_ok_def)
  have i: "c_read_io c \<noteq> NULL" "c_write_io c \<noteq> NULL" "io_event r = XV_READ" "io_event w = XV_WRITE"
    using w' io by (auto simp: conn_watcher_def)
  then have ne: "c_read_io c \<noteq> c_write_io c" using io by auto
  define c' where "c' = c\<lparr>c_ref_count := snd (xv_atomic_decr (c_ref_count c))\<rparr>"
  define s1 where "s1 = s\<lparr>connections := (connections s)(conn \<mapsto> c'), messages := (messages s)(m := None)\<rparr>"
  define t where "t = s1\<lparr>ios := (ios s)(c_read_io c := None, c_write_io c := None),
    buffers := (buffers s)(c_read_buffer c := None, c_write_buffer c := None), connections := (connections s)(conn := None)\<rparr>"
  have "xv_message_destroy U s m None = Some s1"
    using d m by (simp add: xv_message_destroy_def incr_ref_eq xv_free_def s1_def c'_def)
  moreover have "xv_connection_destroy s1 conn = Some t"
    using connection_destroy_law[of conn s1 c' r w] d io i ne by (simp add: s1_def c'_def t_def)
  ultimately have run: "return_message K U loop m s = Some t"
    using d m ok(2) l by (simp add: return_message_def xv_message_get_connection_def handle_at_def)
  have "conn_at t service = conn_at s service" by (rule conn_at_cong) (simp_all add: t_def s1_def)
  then have at: "conn_at t service (c_fd c) = conn" using table(2) by simp
  have "0 \<le> c_fd c" "c_fd c < sv_conn_setsize sv" "arr ! nat (c_fd c) = Some conn"
    using conn_at_cell[OF table(1,2) d(1)] by simp_all
  then have "xv_service_stop K t service = None"
    using table(1,3) d(1) by (intro service_stop_fault[where k = "c_fd c"]) (auto simp: table_repr_def t_def s1_def)
  moreover have "return_message K U loop m' t = None" if "m' \<noteq> m" "messages s m' = Some y" "m_conn y = conn" for m' y
    using that d(1) by (simp add: return_message_def xv_message_get_connection_def t_def s1_def deref_def)
  ultimately show ?thesis using run at by (intro exI[of _ t]) (simp add: t_def s1_def)
qed

text \<open>Connection 40 closed while messages 80 and 81 were with a worker.\<close>

definition ex_closed :: "sim_os sheap" where
  "ex_closed = ex_svc\<lparr>connections := (connections ex_svc)(40 \<mapsto> ex_conn\<lparr>c_status := XV_CONN_CLOSED, c_ref_count := \<lparr>counter = 3\<rparr>\<rparr>),
     ios := (ios ex_svc)(41 \<mapsto> ex_io 5 XV_READ On_connection_read 40 False),
     event_arrays := [32 \<mapsto> replicate 8 empty_slot],
     messages := [80 \<mapsto> \<lparr>m_conn = 40, m_request = NULL, m_response = NULL\<rparr>, 81 \<mapsto> \<lparr>m_conn = 40, m_request = NULL, m_response = NULL\<rparr>]\<rparr>"

theorem late_message_releases_connection_witness:
  "\<exists>t. return_message sim_sys ex_user 30 80 ex_closed = Some t \<and> connections t 40 = None \<and> conn_at t 70 5 = 40 \<and>
     return_message sim_sys ex_user 30 81 t = None \<and> xv_service_stop sim_sys t 70 = None"
proof -
  let ?c = "ex_conn\<lparr>c_status := XV_CONN_CLOSED, c_ref_count := \<lparr>counter = 3\<rparr>\<rparr>"
  obtain l where l: "listeners ex_closed (c_handle ?c) = Some l" "h_packet_cleanup (ls_handle l) = None"
    using ex_listener by (auto simp: ex_closed_def ex_conn_def ex_handle_def)
  have "loop_ok ex_closed 30"
    unfolding loop_ok_def loop_repr_def ex_closed_def
    by (intro exI[of _ "\<lparr>l_poller_data = 31, l_events = 32, l_fired_events = 33, l_setsize = 8, l_start = True\<rparr>"]
        exI[of _ "\<lparr>p_epfd = 9, p_setsize = 8, p_events = replicate 8 None\<rparr>"] exI[of _ "replicate 8 empty_slot"])
       (simp add: ex_svc_more slots_ok_replicate, simp add: ex_svc0_def)
  moreover have "loop_size ex_closed 30 = 8" by (simp add: loop_size_def ex_closed_def ex_svc_more) (simp add: ex_svc0_def)
  ultimately have ok: "conn_ok ex_closed 40 ?c ex_thread"
    unfolding conn_ok_def conn_watcher_def
    by (simp add: ex_closed_def ex_conn_def ex_thread_def ex_svc_more) (simp add: ex_svc0_def ex_io_def ex_conn_def ex_thread_def)
  have io: "ios ex_closed (c_read_io ?c) = Some (ex_io 5 XV_READ On_connection_read 40 False)"
    "ios ex_closed (c_write_io ?c) = Some (ex_io 5 XV_WRITE On_connection_write 40 False)"
    by (simp_all add: ex_closed_def ex_conn_def ex_svc_more) (simp_all add: ex_svc0_def)
  have table: "table_repr ex_closed 70 ex_sv ((replicate 8 (Some NULL))[5 := Some 40])"
    using ex_svc_table by (simp add: table_repr_def ex_closed_def)
  have m: "messages ex_closed 80 = Some \<lparr>m_conn = 40, m_request = NULL, m_response = NULL\<rparr>"
    "messages ex_closed 81 = Some \<lparr>m_conn = 40, m_request = NULL, m_response = NULL\<rparr>"
    by (simp_all add: ex_closed_def)
  have at: "conn_at ex_closed 70 (c_fd ?c) = 40"
    by (simp add: conn_at_repr[OF table] ex_conn_def ex_sv_def)
  have "\<exists>t. return_message sim_sys ex_user 30 80 ex_closed = Some t \<and> connections t 40 = None \<and> kern t = kern ex_closed \<and>
     conn_at t 70 (c_fd ?c) = 40 \<and> xv_service_stop sim_sys t 70 = None \<and>
     (\<forall>m' y. m' \<noteq> 80 \<longrightarrow> messages ex_closed m' = Some y \<longrightarrow> m_conn y = 40 \<longrightarrow> return_message sim_sys ex_user 30 m' t = None)"
    by (rule late_message_releases_connection[OF ok _ io _ _ l _ m(1) _ table at]) (simp_all add: ex_io_def ex_sv_def)
  then show ?thesis using m(2) by (auto simp: ex_conn_def)
qed

end
