(* ===== verification/Xv_Traffic.thy ===== *)
theory Xv_Traffic
  imports Xv_Lifetime
begin

section \<open>The bytes of a connection\<close>

text \<open>
  Responses pass through the write buffer of a connection and requests through its read buffer. The
  theorems follow the byte streams through the handlers: what was handed to \<^verbatim>\<open>write\<close> and what is still
  buffered is, in order, what was buffered and encoded; what \<^verbatim>\<open>read\<close> returned is appended to what is to be
  decoded.
\<close>

subsection \<open>Flushing the write buffer\<close>

lemma pending_bytes_law:
  assumes wf: "buffer_wf b" and rd: "readable b = map Some bs"
  shows "xv_buffer_readable_size b = Some (int (length bs))" "pending_bytes b (int (length bs)) = Some bs"
proof -
  have len: "int (length bs) = b_write_idx b - b_read_idx b" using length_readable[OF wf] rd by simp
  show "xv_buffer_readable_size b = Some (int (length bs))" using buffer_sizes(1)[OF wf] rd by simp
  have "mem_get (b_buf b) (b_read_idx b) (int (length bs)) = Some (readable b)"
    using buffer_wfD[OF wf] len by (simp add: mem_get_def readable_def)
  then show "pending_bytes b (int (length bs)) = Some bs"
    by (simp add: pending_bytes_def xv_buffer_read_begin_def rd comp_def)
qed

text \<open>\<^verbatim>\<open>epoll_ctl\<close> does not write to any descriptor.\<close>

definition ctl_silent :: "('k, 'y) epoll_ops_scheme \<Rightarrow> ('k \<Rightarrow> int \<Rightarrow> byte list) \<Rightarrow> bool" where
  "ctl_silent K output \<longleftrightarrow> (\<forall>ep op fd ev k r k'. epoll_ctl K ep op fd ev k = (r, k') \<longrightarrow> output k' = output k)"

lemma modify_silent:
  "ctl_silent K output \<Longrightarrow> xv_poller_modify_event K s data fd ev op = Some (r, t) \<Longrightarrow> output (kern t) = output (kern s)"
  unfolding ctl_silent_def xv_poller_modify_event_def
  by (auto simp: Let_def elim!: bind_SomeE split: if_split_asm prod.splits)

lemma io_stop_silent:
  assumes "ctl_silent K output" "xv_io_stop K s loop p = Some (r, t)"
  shows "output (kern t) = output (kern s)"
  using assms(2) unfolding xv_io_stop_def xv_loop_del_event_def Let_def
  by (auto simp: poller_del_eq elim!: bind_SomeE split: if_split_asm prod.splits dest!: modify_silent[OF assms(1)])

lemma loop_resize_kern: "xv_loop_resize s loop n = Some (r, t) \<Longrightarrow> kern t = kern s"
  by (auto simp: xv_loop_resize_def xv_poller_resize_def xv_malloc_def Let_def Option.bind_eq_Some_conv split: if_splits)

lemma io_start_silent:
  assumes "ctl_silent K output" "xv_io_start K s loop p = Some (r, t)"
  shows "output (kern t) = output (kern s)"
  using assms(2) unfolding xv_io_start_def xv_loop_add_event_def loop_add_slot_def Let_def
  by (auto simp: poller_add_eq elim!: bind_SomeE split: if_split_asm prod.splits dest!: modify_silent[OF assms(1)] loop_resize_kern)

text \<open>A started watcher that is in the table.\<close>

definition registered :: "('k, 'z) sheap_scheme \<Rightarrow> addr \<Rightarrow> addr \<Rightarrow> bool" where
  "registered s loop p \<longleftrightarrow> (\<exists>io. ios s p = Some io \<and> io_start io \<and> watched s loop (io_fd io) (io_event io) = p)"

text \<open>A watcher that is in the table if it is marked as started.\<close>

definition marked_registered :: "('k, 'z) sheap_scheme \<Rightarrow> addr \<Rightarrow> addr \<Rightarrow> bool" where
  "marked_registered s loop p \<longleftrightarrow> (\<forall>io. ios s p = Some io \<longrightarrow> io_start io \<longrightarrow> watched s loop (io_fd io) (io_event io) = p)"

lemma registered_marked: "registered s loop p \<Longrightarrow> marked_registered s loop p"
  by (auto simp: registered_def marked_registered_def)

text \<open>Starting a watcher registers it, unless it was marked as started without being in the table; stopping
  it takes it out of the table.\<close>

lemma start_registers:
  fixes s :: "('k, 'z) sheap_scheme"
  assumes ok: "loop_ok s loop" and w: "watcher_fits s loop p"
    and st: "\<forall>io. ios s p = Some io \<longrightarrow> io_start io \<longrightarrow> watched s loop (io_fd io) (io_event io) = p"
  shows "\<exists>r t. xv_io_start K s loop p = Some (r, t) \<and> loop_ok t loop \<and> w_frame s t \<and> registered t loop p \<and>
     (\<forall>q fd ev conn. conn_watcher s loop q fd ev conn \<longrightarrow> conn_watcher t loop q fd ev conn)"
proof -
  obtain r t where t: "xv_io_start K s loop p = Some (r, t)" "w_post K (\<lambda>_ _ _. None) loop s (WStart p) r t"
    using start_law[OF ok w] by blast
  obtain io where io: "ios s p = Some io" using w by (auto simp: watcher_fits_def)
  have "registered t loop p"
    using t(2) io st by (auto simp: w_post_def w_view_of_def registered_def Let_def table_set_def split: if_splits)
  moreover have "conn_watcher t loop q fd ev conn" if "conn_watcher s loop q fd ev conn" for q fd ev conn
    using that t(2) w_frame_fields(3)[of s t] unfolding conn_watcher_def
    by (auto simp: w_post_def w_view_of_def Let_def split: if_splits)
  ultimately show ?thesis using t by (auto simp: w_post_def)
qed

text \<open>One \<^verbatim>\<open>write\<close> that is not a fatal error, and the read index moved by its result: nothing is lost or
  reordered.\<close>

lemma flush_law:
  assumes doc: "write_doc K output intr" and wf: "buffer_wf b" and rd: "readable b = map Some bs"
    and run: "do_write K s fd bs = (n, e, s1)"
  shows "(n, e) = (- 1, Some EOTHER) \<and> s1 = s\<lparr>kern := kern s1\<rparr> \<or>
     (n, e) \<noteq> (- 1, Some EOTHER) \<and> (n \<noteq> - 1 \<or> retryable e) \<and> - 1 \<le> n \<and> n \<le> int (length bs) \<and> s1 = s\<lparr>kern := kern s1\<rparr> \<and>
     (\<exists>b'. (if n > 0 then xv_buffer_incr_read_index b n else Some b) = Some b' \<and> buffer_wf b' \<and>
        readable b' = map Some (drop (nat n) bs) \<and> output (kern s1) fd @ drop (nat n) bs = output (kern s) fd @ bs)"
proof -
  obtain res k where w: "sys_write K fd bs (kern s) = (res, k)" by fastforce
  note d = doc[unfolded write_doc_def, rule_format, OF w]
  show ?thesis
  proof (cases res)
    case (Inl x)
    then have eq: "n = - 1" "e = Some x" "s1 = s\<lparr>kern := k\<rparr>" using run w by (auto simp: do_write_def Let_def)
    show ?thesis
      using eq d Inl wf rd by (cases x) (auto simp: retryable_def)
  next
    case (Inr m)
    then have eq: "n = m" "e = None" "s1 = s\<lparr>kern := k\<rparr>" using run w by (auto simp: do_write_def Let_def)
    have m: "0 \<le> m" "m \<le> int (length bs)" "output k fd = output (kern s) fd @ take (nat m) bs" using d Inr by simp_all
    obtain b' where "xv_buffer_incr_read_index b m = Some b'" "buffer_wf b'" "readable b' = drop (nat m) (readable b)"
      by (rule incr_read_law[OF wf m(1)]) (use m(2) rd in simp_all)
    then show ?thesis using eq m wf rd by (auto simp: drop_map)
  qed
qed

text \<open>Storing into a buffer and calling the kernel do not disturb a connection.\<close>

lemma conn_ok_buffers:
  assumes "conn_ok s conn c th" and t: "t = s\<lparr>buffers := (buffers s)(p \<mapsto> b), kern := k\<rparr>"
  shows "conn_ok t conn c th" "watched t loop = watched s loop"
proof -
  have "loop_ok s (it_loop th)" using assms(1) by (simp add: conn_ok_def)
  then have "loop_ok t (it_loop th)" by (rule loop_ok_cong) (simp_all add: t)
  then show "conn_ok t conn c th" using assms by (auto simp: conn_ok_def conn_watcher_def loop_size_def)
  show "watched t loop = watched s loop" by (rule watched_cong) (simp_all add: t)
qed

lemma conn_ok_fits:
  assumes "conn_ok s conn c th"
  shows "loop_ok s (it_loop th)" "watcher_fits s (it_loop th) (c_read_io c)" "watcher_fits s (it_loop th) (c_write_io c)"
  using assms by (auto simp: conn_ok_def intro: conn_watcher_fits)

lemma kern_buffers_commute:
  fixes s :: "('k, 'z) sheap_scheme"
  shows "s\<lparr>kern := k, buffers := h\<rparr> = s\<lparr>buffers := h, kern := k\<rparr>"
  by (cases s) simp

text \<open>The part that \<^verbatim>\<open>process_message\<close> and \<^verbatim>\<open>on_connection_write\<close> share.\<close>

lemma flush_step:
  assumes ok: "conn_ok s conn c th" and b: "buffers s (c_write_buffer c) = Some b" "buffer_wf b" "readable b = map Some bs"
    and doc: "write_doc K output intr" and run: "do_write K s (c_fd c) bs = (n, e, s2)"
  obtains (fatal) "n = - 1" "e = Some EOTHER" "s2 = s\<lparr>kern := kern s2\<rparr>" "fst (sys_write K (c_fd c) bs (kern s)) = Inl EOTHER"
  | (sent) v b' where "n \<noteq> - 1 \<or> retryable e" "- 1 \<le> n" "n \<le> int (length bs)"
      "(if n > 0 then buffer_upd s2 (c_write_buffer c) (\<lambda>b. xv_buffer_incr_read_index b n) else Some s2) = Some v"
      "v = s\<lparr>buffers := (buffers s)(c_write_buffer c \<mapsto> b'), kern := kern s2\<rparr>" "buffer_wf b'"
      "readable b' = map Some (drop (nat n) bs)" "output (kern v) (c_fd c) @ drop (nat n) bs = output (kern s) (c_fd c) @ bs"
proof -
  let ?wb = "c_write_buffer c"
  have wb: "?wb \<noteq> NULL" using ok by (simp add: conn_ok_def)
  from flush_law[OF doc b(2,3) run] consider
      (F) "n = - 1" "e = Some EOTHER" "s2 = s\<lparr>kern := kern s2\<rparr>"
    | (S) b' where "n \<noteq> - 1 \<or> retryable e" "- 1 \<le> n" "n \<le> int (length bs)" "s2 = s\<lparr>kern := kern s2\<rparr>"
        "(if n > 0 then xv_buffer_incr_read_index b n else Some b) = Some b'" "buffer_wf b'"
        "readable b' = map Some (drop (nat n) bs)" "output (kern s2) (c_fd c) @ drop (nat n) bs = output (kern s) (c_fd c) @ bs"
    by auto
  then show thesis
  proof cases
    case F
    moreover have "fst (sys_write K (c_fd c) bs (kern s)) = Inl EOTHER"
      using run F by (auto simp: do_write_def Let_def split: prod.splits sum.splits)
    ultimately show ?thesis by (rule fatal)
  next
    case S
    obtain k where k: "s2 = s\<lparr>kern := k\<rparr>" using S(4) by blast
    have "s = s\<lparr>buffers := (buffers s)(?wb \<mapsto> b)\<rparr>" using b(1) by (simp add: fun_upd_idem)
    then have "(if n > 0 then buffer_upd s2 ?wb (\<lambda>b. xv_buffer_incr_read_index b n) else Some s2) =
        Some (s\<lparr>buffers := (buffers s)(?wb \<mapsto> b'), kern := kern s2\<rparr>)"
      using S(5) b(1) wb by (auto simp: buffer_upd_def k split: if_splits)
    then show ?thesis
      by (rule sent[OF S(1,2,3) _ refl S(6,7)]) (use S(8) in simp)
  qed
qed

subsection \<open>Properties\<close>

text \<open>What an \<^verbatim>\<open>encode\<close> function does: it appends \<open>bs\<close> to the buffer and changes nothing else.\<close>

definition encodes ::
  "('k, 'z) sheap_scheme user_ops \<Rightarrow> nat \<Rightarrow> addr \<Rightarrow> addr \<Rightarrow> ('k, 'z) sheap_scheme \<Rightarrow> byte list \<Rightarrow> bool" where
  "encodes U f wb resp s bs \<longleftrightarrow> (\<exists>ret b b'. buffers s wb = Some b \<and>
     u_encode U f wb resp s = Some (ret, s\<lparr>buffers := (buffers s)(wb \<mapsto> b')\<rparr>) \<and> buffer_wf b' \<and>
     readable b' = readable b @ map Some bs)"

text \<open>The first half of \<^verbatim>\<open>process_message\<close>: the response is encoded behind the bytes still buffered, all of which
  are passed to \<^verbatim>\<open>write\<close>.\<close>

lemma process_message_run:
  fixes s :: "('k, 'z) sheap_scheme"
  assumes ok: "conn_ok s conn c th" "c_status c = XV_CONN_OPEN" and m: "m \<noteq> NULL" "messages s m = Some x" "m_response x \<noteq> NULL"
    and l: "listeners s (c_handle c) = Some l" "h_encode (ls_handle l) = Some f" "encodes U f (c_write_buffer c) (m_response x) s bs"
    and old: "buffers s (c_write_buffer c) = Some b" "readable b = map Some old" "old @ bs \<noteq> []"
  obtains b1 where "buffer_wf b1" "readable b1 = map Some (old @ bs)"
    "\<And>n e s2. do_write K (s\<lparr>buffers := (buffers s)(c_write_buffer c \<mapsto> b1)\<rparr>) (c_fd c) (old @ bs) = (n, e, s2) \<Longrightarrow>
      process_message K U loop m conn (c_handle c) s =
      (if n = - 1 \<and> \<not> retryable e then xv_connection_close K U s2 conn
       else do { v \<leftarrow> (if n > 0 then buffer_upd s2 (c_write_buffer c) (\<lambda>b. xv_buffer_incr_read_index b n) else Some s2);
         if n < int (length (old @ bs)) then map_option snd (xv_io_start K v loop (c_write_io c)) else Some v })"
proof -
  let ?wb = "c_write_buffer c"
  have d: "conn \<noteq> NULL" "connections s conn = Some c" "c_handle c \<noteq> NULL" "?wb \<noteq> NULL" using ok(1) by (simp_all add: conn_ok_def)
  obtain ret b1 where enc: "u_encode U f ?wb (m_response x) s = Some (ret, s\<lparr>buffers := (buffers s)(?wb \<mapsto> b1)\<rparr>)"
    "buffer_wf b1" "readable b1 = map Some (old @ bs)"
    using l(3) old by (auto simp: encodes_def)
  have nz: "int (length old) + int (length bs) \<noteq> 0" using old(3) by (simp flip: of_nat_add)
  show thesis
    using that[OF enc(2,3)] d m l(1,2) enc(1) pending_bytes_law[OF enc(2,3)] ok(2) nz
    by (simp add: process_message_def xv_message_get_response_def handle_at_def)
qed

text \<open>The whole of it: a fatal error closes the connection; otherwise only the write buffer, the kernel and the
  registration of the writer change.\<close>

lemma process_message_law:
  fixes s :: "('k, 'z) sheap_scheme"
  assumes ok: "conn_ok s conn c th" "c_status c = XV_CONN_OPEN"
    and reg: "marked_registered s (it_loop th) (c_write_io c)"
    and m: "m \<noteq> NULL" "messages s m = Some x" "m_response x \<noteq> NULL"
    and l: "listeners s (c_handle c) = Some l" "h_encode (ls_handle l) = Some f" "encodes U f (c_write_buffer c) (m_response x) s bs"
    and old: "buffers s (c_write_buffer c) = Some b" "readable b = map Some old" "old @ bs \<noteq> []"
    and K: "write_doc K output intr" "ctl_silent K output"
  obtains (fatal) b1 k where "fst (sys_write K (c_fd c) (old @ bs) (kern s)) = Inl EOTHER"
      "process_message K U (it_loop th) m conn (c_handle c) s =
         xv_connection_close K U (s\<lparr>buffers := (buffers s)(c_write_buffer c \<mapsto> b1), kern := k\<rparr>) conn"
  | (sent) t b' where "process_message K U (it_loop th) m conn (c_handle c) s = Some t" "buffer_wf b'"
      "w_frame (s\<lparr>buffers := (buffers s)(c_write_buffer c \<mapsto> b')\<rparr>) t" "conn_ok t conn c th"
      "map Some (output (kern t) (c_fd c)) @ readable b' = map Some (output (kern s) (c_fd c) @ old @ bs)"
      "readable b' \<noteq> [] \<longrightarrow> registered t (it_loop th) (c_write_io c)" "marked_registered t (it_loop th) (c_write_io c)"
      "fst (sys_write K (c_fd c) (old @ bs) (kern s)) \<noteq> Inl EOTHER"
proof -
  let ?wb = "c_write_buffer c" and ?loop = "it_loop th" and ?fd = "c_fd c"
  obtain b1 where b1: "buffer_wf b1" "readable b1 = map Some (old @ bs)"
    and run: "\<And>n e s2. do_write K (s\<lparr>buffers := (buffers s)(?wb \<mapsto> b1)\<rparr>) ?fd (old @ bs) = (n, e, s2) \<Longrightarrow>
      process_message K U ?loop m conn (c_handle c) s =
      (if n = - 1 \<and> \<not> retryable e then xv_connection_close K U s2 conn
       else do { v \<leftarrow> (if n > 0 then buffer_upd s2 ?wb (\<lambda>b. xv_buffer_incr_read_index b n) else Some s2);
         if n < int (length (old @ bs)) then map_option snd (xv_io_start K v ?loop (c_write_io c)) else Some v })"
    using process_message_run[OF ok m l old, of K ?loop] by blast
  define s1 where "s1 = s\<lparr>buffers := (buffers s)(?wb \<mapsto> b1)\<rparr>"
  have s1: "conn_ok s1 conn c th" "watched s1 ?loop = watched s ?loop" "buffers s1 ?wb = Some b1"
    using conn_ok_buffers[OF ok(1), where p = ?wb and b = b1 and k = "kern s"] by (simp_all add: s1_def)
  obtain n e s2 where wr: "do_write K s1 ?fd (old @ bs) = (n, e, s2)" by (cases "do_write K s1 ?fd (old @ bs)")
  note run = run[folded s1_def, OF wr]
  show thesis
  proof (cases rule: flush_step[OF s1(1,3) b1 K(1) wr, case_names F S])
    case F
    then obtain k where "s2 = s\<lparr>buffers := (buffers s)(?wb \<mapsto> b1), kern := k\<rparr>" unfolding s1_def by (metis sheap.surjective)
    then show thesis using run F(1,2,4) by (intro fatal) (simp_all add: retryable_def s1_def)
  next
    case (S v b')
    have v: "conn_ok v conn c th" "watched v ?loop = watched s ?loop" "ios v = ios s"
      "w_frame (s\<lparr>buffers := (buffers s)(?wb \<mapsto> b')\<rparr>) v"
      using conn_ok_buffers[OF s1(1) S(5)] s1(2) by (simp_all add: S(5) s1_def w_frame_def)
    have ne: "fst (sys_write K ?fd (old @ bs) (kern s)) \<noteq> Inl EOTHER"
      using wr S(1) by (auto simp: do_write_def s1_def retryable_def Let_def split: prod.splits sum.splits)
    have st: "map Some (output (kern v) ?fd) @ readable b' = map Some (output (kern s) ?fd @ old @ bs)"
      using S(7,8) by (simp add: s1_def flip: map_append)
    show thesis
    proof (cases "n < int (length (old @ bs))")
      case True
      obtain r t where t: "xv_io_start K v ?loop (c_write_io c) = Some (r, t)" "loop_ok t ?loop" "w_frame v t"
        "registered t ?loop (c_write_io c)" "\<forall>q fd ev conn. conn_watcher v ?loop q fd ev conn \<longrightarrow> conn_watcher t ?loop q fd ev conn"
        using start_registers[OF conn_ok_fits(1,3)[OF v(1)], of K] reg by (auto simp: v marked_registered_def)
      have "conn_ok t conn c th" using v(1) t(2,5) more_sheap_l[OF w_frame_fields(4)[OF t(3)]] by (simp add: conn_ok_def)
      moreover have "w_frame (s\<lparr>buffers := (buffers s)(?wb \<mapsto> b')\<rparr>) t" using v(4) t(3) by (simp add: w_frame_def)
      moreover have "process_message K U ?loop m conn (c_handle c) s = Some t" using run True S(1,4) t(1) by auto
      ultimately show thesis using S(6) ne st t(4) registered_marked[OF t(4)] io_start_silent[OF K(2) t(1)] by (intro sent[of t b']) simp_all
    next
      case False
      then have "n = int (length (old @ bs))" using S(3) by simp
      then have "process_message K U ?loop m conn (c_handle c) s = Some v" "readable b' = []" using run S(1,4,7) False by auto
      moreover have "marked_registered v ?loop (c_write_io c)" using reg v by (simp add: marked_registered_def)
      ultimately show thesis using S(6) ne st v by (intro sent[of v b']) simp_all
    qed
  qed
qed

text \<open>C11. Responses are sent whole and in order: \<^verbatim>\<open>process_message\<close> with a response encoded as \<open>bs\<close>, on a
  connection with \<open>old\<close> still buffered, either meets a fatal write error and closes the connection, or
  returns with the bytes sent so far followed by the bytes buffered equal to those sent before, then \<open>old\<close>,
  then \<open>bs\<close>; and if anything is still buffered the writer is registered, so that it will be sent.\<close>

theorem process_message_stream:
  fixes s :: "('k, 'z) sheap_scheme"
  assumes ok: "conn_ok s conn c th" "c_status c = XV_CONN_OPEN"
    and reg: "marked_registered s (it_loop th) (c_write_io c)"
    and m: "m \<noteq> NULL" "messages s m = Some x" "m_response x \<noteq> NULL"
    and l: "listeners s (c_handle c) = Some l" "h_encode (ls_handle l) = Some f" "encodes U f (c_write_buffer c) (m_response x) s bs"
    and old: "buffers s (c_write_buffer c) = Some b" "readable b = map Some old" "old @ bs \<noteq> []"
    and K: "write_doc K output intr" "ctl_silent K output"
  shows "(\<exists>b1 k. process_message K U (it_loop th) m conn (c_handle c) s =
         xv_connection_close K U (s\<lparr>buffers := (buffers s)(c_write_buffer c \<mapsto> b1), kern := k\<rparr>) conn) \<and>
       fst (sys_write K (c_fd c) (old @ bs) (kern s)) = Inl EOTHER \<or>
     (\<exists>t b'. process_message K U (it_loop th) m conn (c_handle c) s = Some t \<and>
        buffers t (c_write_buffer c) = Some b' \<and> buffer_wf b' \<and>
        map Some (output (kern t) (c_fd c)) @ readable b' = map Some (output (kern s) (c_fd c) @ old @ bs) \<and>
        (readable b' \<noteq> [] \<longrightarrow> registered t (it_loop th) (c_write_io c)))"
proof (cases rule: process_message_law[OF assms, case_names fatal sent])
  case (fatal b1 k)
  then show ?thesis by blast
next
  case (sent t b')
  have "buffers t (c_write_buffer c) = Some b'" using more_sheap_l(6)[OF w_frame_fields(4)[OF sent(3)]] by simp
  then show ?thesis using sent by blast
qed

text \<open>Stopping the writer of a connection sends nothing, and afterwards the writer is not registered.\<close>

lemma writer_stop:
  fixes v :: "('k, 'z) sheap_scheme"
  assumes v: "conn_ok v conn c th" and K: "ctl_silent K output"
  shows "\<exists>r t. xv_io_stop K v (it_loop th) (c_write_io c) = Some (r, t) \<and> lheap.more t = lheap.more v \<and> output (kern t) = output (kern v) \<and>
      \<not> registered t (it_loop th) (c_write_io c)"
proof -
  obtain x where x: "ios v (c_write_io c) = Some x" using v by (auto simp: conn_ok_def conn_watcher_def)
  obtain r t where t: "xv_io_stop K v (it_loop th) (c_write_io c) = Some (r, t)" "w_frame v t" "ios t = (ios v)(c_write_io c \<mapsto> x\<lparr>io_start := False\<rparr>)"
    using stop_ios[OF conn_ok_fits(1,3)[OF v] x, of K] by blast
  then show ?thesis
    using io_stop_silent[OF K t(1)] by (auto simp: w_frame_def registered_def)
qed

lemma on_connection_write_run:
  fixes s :: "('k, 'z) sheap_scheme"
  assumes ok: "conn_ok s conn c th"
    and old: "buffers s (c_write_buffer c) = Some b" "buffer_wf b" "readable b = map Some old"
  shows "old = [] \<Longrightarrow> on_connection_write K U (it_loop th) (c_write_io c) s = map_option snd (xv_io_stop K s (it_loop th) (c_write_io c))"
    and "old \<noteq> [] \<Longrightarrow> do_write K s (c_fd c) old = (n, e, s2) \<Longrightarrow> on_connection_write K U (it_loop th) (c_write_io c) s =
        (if n = 0 \<or> n = - 1 \<and> \<not> retryable e then xv_connection_close K U s2 conn
         else do { v \<leftarrow> (if n > 0 then buffer_upd s2 (c_write_buffer c) (\<lambda>b. xv_buffer_incr_read_index b n) else Some s2);
           if n = int (length old) then map_option snd (xv_io_stop K v (it_loop th) (c_write_io c)) else Some v })"
proof -
  have d: "conn \<noteq> NULL" "connections s conn = Some c" "c_write_buffer c \<noteq> NULL"
    and w: "conn_watcher s (it_loop th) (c_write_io c) (c_fd c) XV_WRITE conn"
    using ok by (simp_all add: conn_ok_def)
  have io: "xv_io_get_userdata s (c_write_io c) = Some conn" using w by (auto simp: conn_watcher_def xv_io_get_userdata_def)
  note p = pending_bytes_law[OF old(2,3)]
  show "old = [] \<Longrightarrow> on_connection_write K U (it_loop th) (c_write_io c) s = map_option snd (xv_io_stop K s (it_loop th) (c_write_io c))"
    using io d old(1) p(1) by (simp add: on_connection_write_def)
  show "on_connection_write K U (it_loop th) (c_write_io c) s =
        (if n = 0 \<or> n = - 1 \<and> \<not> retryable e then xv_connection_close K U s2 conn
         else do { v \<leftarrow> (if n > 0 then buffer_upd s2 (c_write_buffer c) (\<lambda>b. xv_buffer_incr_read_index b n) else Some s2);
           if n = int (length old) then map_option snd (xv_io_stop K v (it_loop th) (c_write_io c)) else Some v })"
    if "old \<noteq> []" "do_write K s (c_fd c) old = (n, e, s2)"
    using io d old(1) p that by (simp add: on_connection_write_def)
qed

text \<open>C25. The writer drains the buffer. \<^verbatim>\<open>on_connection_write\<close> on a connection with \<open>old\<close> buffered passes all of it to
  one call of \<^verbatim>\<open>write\<close>, and what follows is determined by the answer. If \<^verbatim>\<open>write\<close> failed for good or accepted nothing the connection is closed.
  If it is to be tried again nothing changes. If it accepted \<open>n\<close> bytes these have been sent behind everything sent before, the buffer holds the
  rest in order, and the writer is unregistered when nothing is left and stays as it was otherwise.
  An empty buffer just unregisters it, without a call of \<^verbatim>\<open>write\<close>.\<close>

theorem on_connection_write_stream:
  fixes s :: "('k, 'z) sheap_scheme"
  assumes ok: "conn_ok s conn c th"
    and old: "buffers s (c_write_buffer c) = Some b" "buffer_wf b" "readable b = map Some old"
    and K: "write_doc K output intr" "ctl_silent K output" and wr: "sys_write K (c_fd c) old (kern s) = (res, k)"
  shows "if old = [] then \<exists>t. on_connection_write K U (it_loop th) (c_write_io c) s = Some t \<and> \<not> registered t (it_loop th) (c_write_io c) \<and>
       output (kern t) = output (kern s) \<and> buffers t = buffers s \<and> connections t = connections s
     else case res of
       Inl e \<Rightarrow> output k (c_fd c) = output (kern s) (c_fd c) \<and> on_connection_write K U (it_loop th) (c_write_io c) s =
         (if e = EOTHER then xv_connection_close K U (s\<lparr>kern := k\<rparr>) conn else Some (s\<lparr>kern := k\<rparr>))
     | Inr n \<Rightarrow> 0 \<le> n \<and> n \<le> int (length old) \<and>
         (if n = 0 then on_connection_write K U (it_loop th) (c_write_io c) s = xv_connection_close K U (s\<lparr>kern := k\<rparr>) conn
          else \<exists>t b'. on_connection_write K U (it_loop th) (c_write_io c) s = Some t \<and>
            buffers t = (buffers s)(c_write_buffer c \<mapsto> b') \<and> buffer_wf b' \<and> readable b' = map Some (drop (nat n) old) \<and>
            output (kern t) (c_fd c) = output (kern s) (c_fd c) @ take (nat n) old \<and> connections t = connections s \<and>
            (if n = int (length old) then \<not> registered t (it_loop th) (c_write_io c)
             else watched t (it_loop th) = watched s (it_loop th)))"
proof (cases "old = []")
  case True
  let ?loop = "it_loop th" and ?io = "c_write_io c"
  obtain r t where t: "xv_io_stop K s ?loop ?io = Some (r, t)" "lheap.more t = lheap.more s" "output (kern t) = output (kern s)"
    "\<not> registered t ?loop ?io" using writer_stop[OF ok K(2)] by blast
  then have "on_connection_write K U ?loop ?io s = Some t" using on_connection_write_run(1)[OF ok old True, of K U] by simp
  then show ?thesis using True t more_sheap_l(6,7)[OF t(2)] by auto
next
  case ne: False
  let ?wb = "c_write_buffer c" and ?loop = "it_loop th" and ?fd = "c_fd c" and ?io = "c_write_io c"
  note doc = K(1)[unfolded write_doc_def, rule_format, OF wr]
  show ?thesis
  proof (cases res)
    case (Inl e)
    have "do_write K s ?fd old = (- 1, Some e, s\<lparr>kern := k\<rparr>)" using wr Inl by (simp add: do_write_def)
    from on_connection_write_run(2)[OF ok old ne this, of U] show ?thesis
      using doc Inl ne by (cases e) (auto simp: retryable_def)
  next
    case (Inr n)
    have dw: "do_write K s ?fd old = (n, None, s\<lparr>kern := k\<rparr>)" using wr Inr by (simp add: do_write_def)
    note run = on_connection_write_run(2)[OF ok old ne dw, of U]
    have n: "0 \<le> n" "n \<le> int (length old)" "output k ?fd = output (kern s) ?fd @ take (nat n) old" using doc Inr by simp_all
    show ?thesis
    proof (cases "n = 0")
      case True
      then show ?thesis using run n ne Inr by simp
    next
      case n0: False
      show ?thesis
      proof (cases rule: flush_step[OF ok old K(1) dw, case_names fatal sent])
        case fatal
        then show ?thesis using n(1) by simp
      next
        case (sent v b')
        have v: "v = s\<lparr>buffers := (buffers s)(?wb \<mapsto> b'), kern := k\<rparr>" using sent(5) by simp
        note okv = conn_ok_buffers(1)[OF ok v]
        have step: "on_connection_write K U ?loop ?io s = (if n = int (length old) then map_option snd (xv_io_stop K v ?loop ?io) else Some v)"
          using run sent(4) n(1) n0 by auto
        show ?thesis
        proof (cases "n = int (length old)")
          case True
          obtain r t where t: "xv_io_stop K v ?loop ?io = Some (r, t)" "lheap.more t = lheap.more v" "output (kern t) = output (kern v)"
            "\<not> registered t ?loop ?io" using writer_stop[OF okv K(2)] by blast
          have "on_connection_write K U ?loop ?io s = Some t" using step True t(1) by simp
          then show ?thesis using t(3,4) more_sheap_l(6,7)[OF t(2)] sent(6,7) n ne n0 True Inr v by auto
        next
          case False
          have "watched v ?loop = watched s ?loop" by (rule watched_cong) (simp_all add: v)
          then show ?thesis using step sent(6,7) n ne n0 False Inr v by auto
        qed
      qed
    qed
  qed
qed

lemma on_connection_read_run:
  fixes s :: "('k, 'z) sheap_scheme"
  assumes ok: "conn_ok s conn c th" "c_status c = XV_CONN_OPEN"
    and b: "buffers s (c_read_buffer c) = Some b" "xv_buffer_ensure_writeable_size b 4096 = Some b0"
    and rd: "sys_read K (c_fd c) 4096 (kern s) = (res, k)"
  defines "s0 \<equiv> s\<lparr>buffers := (buffers s)(c_read_buffer c \<mapsto> b0), kern := k\<rparr>"
  shows "on_connection_read K U (it_loop th) (c_read_io c) s =
      (case res of Inl e \<Rightarrow> if e = EAGAIN \<or> e = EINTR then Some s0 else xv_connection_close K U s0 conn
       | Inr bs \<Rightarrow> if bs = [] then xv_connection_close K U s0 conn
         else do { v \<leftarrow> buffer_upd s0 (c_read_buffer c) (\<lambda>b. do { buf \<leftarrow> mem_put (b_buf b) (xv_buffer_write_begin b) (map Some bs); Some (b\<lparr>b_buf := buf\<rparr>) });
           v \<leftarrow> buffer_upd v (c_read_buffer c) (\<lambda>b. xv_buffer_incr_write_index b (int (length bs)));
           process_read_buffer K U (it_loop th) conn (c_handle c) v })"
proof -
  have d: "conn \<noteq> NULL" "connections s conn = Some c" "c_read_buffer c \<noteq> NULL"
    and w: "conn_watcher s (it_loop th) (c_read_io c) (c_fd c) XV_READ conn"
    using ok(1) by (simp_all add: conn_ok_def)
  have io: "xv_io_get_fd s (c_read_io c) = Some (c_fd c)" "xv_io_get_userdata s (c_read_io c) = Some conn"
    using w by (auto simp: conn_watcher_def xv_io_get_userdata_def xv_io_get_fd_def)
  have "buffer_upd s (c_read_buffer c) (\<lambda>b. xv_buffer_ensure_writeable_size b 4096) = Some (s\<lparr>buffers := (buffers s)(c_read_buffer c \<mapsto> b0)\<rparr>)"
    using d(3) b by (simp add: buffer_upd_def)
  then show ?thesis
    using d io ok(2) rd by (simp add: on_connection_read_def XV_DEFAULT_READ_SIZE_def s0_def Let_def split: sum.split)
qed

text \<open>C24. Requests are collected in order: \<^verbatim>\<open>on_connection_read\<close> on an open connection makes room for 4096 bytes,
  asks for no more, and appends exactly the next bytes of the stream to those waiting to be decoded before
  decoding starts; at the end of the stream and on a fatal error it closes the connection; on \<^verbatim>\<open>EAGAIN\<close> and
  \<^verbatim>\<open>EINTR\<close> it returns with everything as it was.\<close>

theorem on_connection_read_stream:
  fixes s :: "('k, 'z) sheap_scheme"
  assumes ok: "conn_ok s conn c th" "c_status c = XV_CONN_OPEN"
    and b: "buffers s (c_read_buffer c) = Some b" "buffer_wf b" "b_size b + 4096 \<le> INT_MAX"
    and K: "read_doc K input intr"
  shows "\<exists>b1 k. buffer_wf b1 \<and> b_size b1 \<le> b_size b + 4096 \<and>
     (let s1 = s\<lparr>buffers := (buffers s)(c_read_buffer c \<mapsto> b1), kern := k\<rparr>;
          run = on_connection_read K U (it_loop th) (c_read_io c) s
      in case fst (sys_read K (c_fd c) 4096 (kern s)) of
           Inl e \<Rightarrow> readable b1 = readable b \<and> input k (c_fd c) = input (kern s) (c_fd c) \<and>
             run = (if e = EOTHER then xv_connection_close K U s1 conn else Some s1)
         | Inr bs \<Rightarrow> readable b1 = readable b @ map Some bs \<and> input (kern s) (c_fd c) = bs @ input k (c_fd c) \<and>
             run = (if bs = [] then xv_connection_close K U s1 conn
                    else process_read_buffer K U (it_loop th) conn (c_handle c) s1))"
proof -
  let ?rb = "c_read_buffer c" and ?fd = "c_fd c"
  have d: "?rb \<noteq> NULL" using ok(1) by (simp add: conn_ok_def)
  obtain b0 where b0: "xv_buffer_ensure_writeable_size b 4096 = Some b0" "buffer_wf b0" "readable b0 = readable b"
    "4096 \<le> b_size b0 - b_write_idx b0" "b_size b0 \<le> b_size b + 4096"
    by (rule ensure_writeable_law[OF b(2) _ b(3)]) (simp, blast)
  obtain res k where rd: "sys_read K ?fd 4096 (kern s) = (res, k)" by fastforce
  have doc: "case res of Inl e \<Rightarrow> input k ?fd = input (kern s) ?fd \<and> (e = EINTR \<longrightarrow> intr k < intr (kern s))
      | Inr bs \<Rightarrow> int (length bs) \<le> 4096 \<and> input (kern s) ?fd = bs @ input k ?fd \<and> (bs = [] \<longrightarrow> input (kern s) ?fd = []) \<and> intr k \<le> intr (kern s)"
    by (rule K[unfolded read_doc_def, rule_format, OF _ rd]) simp
  note run = on_connection_read_run[OF ok b(1) b0(1) rd, of U]
  show ?thesis
  proof (cases res)
    case (Inl e)
    then show ?thesis
      using run doc b0 rd by (intro exI[of _ b0] exI[of _ k]) (cases e; simp add: Let_def)
  next
    case (Inr bs)
    have len: "int (length (map Some bs)) \<le> b_size b0 - b_write_idx b0" using doc Inr b0(4) by simp
    obtain blk b1 where b1: "mem_put (b_buf b0) (b_write_idx b0) (map Some bs) = Some blk"
      "xv_buffer_incr_write_index (b0\<lparr>b_buf := blk\<rparr>) (int (length (map Some bs))) = Some b1"
      "b1 = b0\<lparr>b_buf := blk, b_write_idx := b_write_idx b0 + int (length (map Some bs))\<rparr>" "buffer_wf b1" "readable b1 = readable b0 @ map Some bs"
      by (rule commit_law[OF b0(2) len])
    show ?thesis
    proof (cases "bs = []")
      case True
      then show ?thesis using run doc b0 rd Inr by (intro exI[of _ b0] exI[of _ k]) (simp add: Let_def)
    next
      case False
      have "on_connection_read K U (it_loop th) (c_read_io c) s =
          process_read_buffer K U (it_loop th) conn (c_handle c) (s\<lparr>buffers := (buffers s)(?rb \<mapsto> b1), kern := k\<rparr>)"
        using run Inr False b1(1,2) d by (simp add: buffer_upd_def xv_buffer_write_begin_def kern_buffers_commute)
      moreover have "b_size b1 = b_size b0" by (simp add: b1(3))
      ultimately show ?thesis using False doc b0 b1(4,5) rd Inr by (intro exI[of _ b1] exI[of _ k]) (simp add: Let_def)
    qed
  qed
qed

subsection \<open>The example service\<close>

text \<open>Descriptor 5 of the example has five bytes to read, and \<^verbatim>\<open>write\<close> takes two bytes at a time.\<close>

lemma sim_ctl_silent: "ctl_silent sim_sys os_out"
  by (auto simp: ctl_silent_def sim_sys_def sim_ctl_def Let_def split: if_splits)

lemma ex_kern: "os_intr (kern ex_svc) = 0" "os_chunk (kern ex_svc) = 1" "os_out (kern ex_svc) = (\<lambda>_. [])"
  "os_in (kern ex_svc) 5 = [1, 2, 3, 4, 5]"
  by (simp_all add: ex_svc_more) (simp_all add: ex_svc0_def os_start_def)

lemma ex_buffers: "buffers ex_svc 43 = Some (xv_buffer_init 8192)" "buffers ex_svc 44 = Some (xv_buffer_init 8192)"
  by (simp_all add: ex_svc_more) (simp_all add: ex_svc0_def)

lemma ex_buffer_wf: "buffer_wf (xv_buffer_init 8192)"
  by (rule buffer_wf_init) (simp_all add: INT_MAX_def)

lemma ex_buffer_size: "b_size (xv_buffer_init 8192) = 8192"
  by (simp add: xv_buffer_init_def)

lemma ex_writer: "ios ex_svc 42 = Some (ex_io 5 XV_WRITE On_connection_write 40 False)"
  by (simp add: ex_svc_more) (simp add: ex_svc0_def)

text \<open>A message with a response, on the open connection 40.\<close>

definition ex_msg :: "sim_os sheap" where
  "ex_msg = ex_svc\<lparr>messages := [80 \<mapsto> \<lparr>m_conn = 40, m_request = NULL, m_response = 9\<rparr>]\<rparr>"

theorem process_message_stream_witness:
  "\<exists>t b'. process_message sim_sys ex_user 30 80 40 50 ex_msg = Some t \<and> buffers t 44 = Some b' \<and>
     map Some (os_out (kern t) 5) @ readable b' = map Some [10, 20, 30] \<and>
     (readable b' \<noteq> [] \<longrightarrow> registered t 30 42)"
proof -
  obtain l where l: "listeners ex_svc 50 = Some l" "ls_handle l = ex_handle" using ex_listener by blast
  have ok: "conn_ok ex_msg 40 ex_conn ex_thread"
    using ex_conn_ok loop_ok_cong[of ex_svc "it_loop ex_thread" ex_msg] by (simp add: conn_ok_def conn_watcher_def ex_msg_def loop_size_def)
  obtain b' where b': "xv_buffer_write_data (xv_buffer_init 8192) [10, 20, 30] 3 = Some (3, b')" "buffer_wf b'"
    "readable b' = map Some [10, 20, 30]"
    by (rule write_data_law[OF ex_buffer_wf, of "[10, 20, 30]"]) (simp_all add: ex_buffer_size INT_MAX_def)
  have enc: "encodes ex_user 1 44 9 ex_msg [10, 20, 30]"
    using b' ex_buffers unfolding encodes_def
    by (intro exI[of _ 0] exI[of _ "xv_buffer_init 8192"] exI[of _ b']) (simp add: ex_user_def buffer_upd_def ex_msg_def)
  have "fst (sys_write sim_sys 5 [10, 20, 30] (kern ex_msg)) \<noteq> Inl EOTHER"
    by (simp add: sim_sys_def os_write_def ex_msg_def ex_kern Let_def)
  moreover have "listeners ex_msg (c_handle ex_conn) = Some l" "h_encode (ls_handle l) = Some 1"
    using l by (simp_all add: ex_msg_def ex_conn_def ex_handle_def)
  ultimately show ?thesis
    using process_message_stream[OF ok _ _ _ _ _ _ _ _ _ _ _ sim_write_doc sim_ctl_silent, of 80 "\<lparr>m_conn = 40, m_request = NULL, m_response = 9\<rparr>" l 1 ex_user "[10, 20, 30]" "xv_buffer_init 8192" "[]"]
      enc ex_buffers ex_writer ex_kern
    by (simp add: ex_conn_def ex_msg_def ex_thread_def ex_io_def marked_registered_def) blast
qed

text \<open>Three bytes wait to be sent; the kernel takes two.\<close>

theorem on_connection_write_stream_witness:
  "\<exists>s b t b'. buffers s 44 = Some b \<and> readable b = map Some [10, 20, 30] \<and> on_connection_write sim_sys ex_user 30 42 s = Some t \<and>
     buffers t 44 = Some b' \<and> readable b' = map Some [30] \<and> os_out (kern t) 5 = [10, 20]"
proof -
  obtain b where b: "buffer_wf b" "readable b = map Some [10, 20, 30]"
    by (rule write_data_law[OF ex_buffer_wf, of "[10, 20, 30]"]) (simp_all add: ex_buffer_size INT_MAX_def)
  define s where "s = ex_svc\<lparr>buffers := (buffers ex_svc)(c_write_buffer ex_conn \<mapsto> b), kern := kern ex_svc\<rparr>"
  have f: "kern s = kern ex_svc" "buffers s (c_write_buffer ex_conn) = Some b" by (simp_all add: s_def)
  have c: "c_write_buffer ex_conn = 44" "c_fd ex_conn = 5" "c_write_io ex_conn = 42" "it_loop ex_thread = 30"
    by (simp_all add: ex_conn_def ex_thread_def)
  obtain k where w: "sys_write sim_sys (c_fd ex_conn) [10, 20, 30] (kern s) = (Inr 2, k)"
    by (simp add: sim_sys_def os_write_def Let_def f(1) ex_kern)
  have "\<exists>t b'. on_connection_write sim_sys ex_user 30 42 s = Some t \<and> buffers t = (buffers s)(44 \<mapsto> b') \<and> readable b' = map Some [30] \<and>
     os_out (kern t) 5 = [10, 20]"
    using on_connection_write_stream[OF conn_ok_buffers(1)[OF ex_conn_ok s_def] f(2) b sim_write_doc sim_ctl_silent w, of ex_user]
    by (simp add: c f(1) ex_kern) blast
  then show ?thesis using b f(2) unfolding c by (metis fun_upd_same)
qed

theorem on_connection_read_stream_witness:
  "\<exists>b1 k. readable b1 = map Some [1, 2] \<and> os_in k 5 = [3, 4, 5] \<and>
     on_connection_read sim_sys ex_user 30 41 ex_svc =
     process_read_buffer sim_sys ex_user 30 40 50 (ex_svc\<lparr>buffers := (buffers ex_svc)(43 \<mapsto> b1), kern := k\<rparr>)"
proof -
  have "fst (sys_read sim_sys 5 4096 (kern ex_svc)) = Inr [1, 2]"
    by (simp add: sim_sys_def os_read_def ex_kern Let_def)
  then show ?thesis
    using on_connection_read_stream[OF ex_conn_ok _ _ ex_buffer_wf _ sim_read_doc, of ex_user] ex_buffers ex_kern
    by (simp add: ex_conn_def ex_thread_def Let_def ex_buffer_size INT_MAX_def) metis
qed

end
