(* ===== verification/Xv_Routing.thy ===== *)
theory Xv_Routing
  imports Xv_Traffic
begin

section \<open>Where connections, messages and requests go\<close>

text \<open>
  The leader sets up each accepted connection and keeps it or hands it to a follower; responses go back to
  the I/O thread of their connection; requests go to a worker.
\<close>

subsection \<open>Accepting\<close>

text \<open>The state after \<^verbatim>\<open>xv_connection_init\<close>: five new blocks.\<close>

definition new_conn :: "addr \<Rightarrow> string \<Rightarrow> int \<Rightarrow> int \<Rightarrow> addr \<Rightarrow> xv_connection_t" where
  "new_conn n a port fd listener = \<lparr>c_addr = copy_addr a, c_port = port, c_fd = fd, c_read_io = n + 2, c_write_io = n + 3,
     c_read_buffer = n + 4, c_write_buffer = n + 5, c_handle = listener, c_io_thread = NULL, c_status = XV_CONN_OPEN,
     c_ref_count = \<lparr>counter = 1\<rparr>\<rparr>"

definition new_io :: "int \<Rightarrow> u32 \<Rightarrow> io_cb \<Rightarrow> addr \<Rightarrow> xv_io_t" where
  "new_io fd ev cb conn = \<lparr>io_fd = fd, io_event = ev, io_cb = Some cb, io_userdata = conn, io_start = False\<rparr>"

lemma connection_init_eq:
  "xv_connection_init s a port fd listener (Some On_connection_read) (Some On_connection_write) =
     Some (brk s + 1, s\<lparr>brk := brk s + 5,
       ios := (ios s)(brk s + 2 \<mapsto> new_io fd XV_READ On_connection_read (brk s + 1),
                      brk s + 3 \<mapsto> new_io fd XV_WRITE On_connection_write (brk s + 1)),
       buffers := (buffers s)(brk s + 4 \<mapsto> xv_buffer_init XV_DEFAULT_BUFFRT_SIZE, brk s + 5 \<mapsto> xv_buffer_init XV_DEFAULT_BUFFRT_SIZE),
       connections := (connections s)(brk s + 1 \<mapsto> new_conn (brk s) a port fd listener)\<rparr>)"
  by (simp add: xv_connection_init_def xv_malloc_def xv_io_init_def xv_io_set_userdata_def buffer_alloc_def Let_def
      new_conn_def new_io_def xv_atomic_set_def eval_nat_numeral)

text \<open>What \<^verbatim>\<open>on_new_connection\<close> needs: its watcher leads to a listener that the leader \<open>th\<close> has started, whose
  service has a table, and the callback for new connections, if there is one, only looks at the connection.\<close>

definition accept_ready ::
  "('k, 'z) sheap_scheme user_ops \<Rightarrow> ('k, 'z) sheap_scheme \<Rightarrow> addr \<Rightarrow> addr \<Rightarrow> xv_listener_t \<Rightarrow> xv_io_thread_t \<Rightarrow> bool" where
  "accept_ready U s io listener l th \<longleftrightarrow> io \<noteq> NULL \<and> (\<exists>x. ios s io = Some x \<and> io_fd x = ls_fd l \<and> io_userdata x = listener) \<and>
     listener \<noteq> NULL \<and> listeners s listener = Some l \<and> ls_io_thread l \<noteq> NULL \<and>
     io_threads s (ls_io_thread l) = Some th \<and> callback_silent (u_on_connect U) (h_on_connect (ls_handle l)) \<and>
     loop_ok s (it_loop th) \<and> (\<forall>p > brk s. ios s p = None)"

text \<open>The system calls on a new descriptor, all successful.\<close>

definition accepted ::
  "('k, 'y) sys_ops_scheme \<Rightarrow> int \<Rightarrow> bool \<Rightarrow> 'k \<Rightarrow> int \<Rightarrow> string \<Rightarrow> int \<Rightarrow> 'k \<Rightarrow> bool" where
  "accepted K lfd nodelay k fd a port k' \<longleftrightarrow> 0 < fd \<and> (\<exists>k1 k2.
     xv_tcp_accept K lfd (Some []) (int XV_ADDR_LEN) (Some 0) k = Some (fd, Some a, Some port, k1) \<and>
     xv_nonblock K fd k1 = Some (XV_OK, k2) \<and> (if nodelay then xv_tcp_nodelay K fd k2 else Some (XV_OK, k2)) = Some (XV_OK, k'))"

text \<open>The new connection is set up, in the table, and about to be assigned to a thread.\<close>

definition accept_state ::
  "('k, 'z) sheap_scheme \<Rightarrow> 'k \<Rightarrow> string \<Rightarrow> int \<Rightarrow> int \<Rightarrow> addr \<Rightarrow> addr \<Rightarrow> xv_service_t \<Rightarrow> addr option list \<Rightarrow> ('k, 'z) sheap_scheme" where
  "accept_state s k a port fd listener service sv arr = s\<lparr>kern := k, brk := brk s + 5,
     ios := (ios s)(brk s + 2 \<mapsto> new_io fd XV_READ On_connection_read (brk s + 1),
                    brk s + 3 \<mapsto> new_io fd XV_WRITE On_connection_write (brk s + 1)),
     buffers := (buffers s)(brk s + 4 \<mapsto> xv_buffer_init XV_DEFAULT_BUFFRT_SIZE, brk s + 5 \<mapsto> xv_buffer_init XV_DEFAULT_BUFFRT_SIZE),
     connections := (connections s)(brk s + 1 \<mapsto> new_conn (brk s) a port fd listener),
     conn_arrays := (conn_arrays s)(sv_connections sv \<mapsto> arr[nat fd := Some (brk s + 1)]),
     services := (services s)(service \<mapsto> sv\<lparr>sv_conn_count := snd (xv_atomic_incr (sv_conn_count sv))\<rparr>)\<rparr>"

lemma on_new_connection_accepts:
  assumes ready: "accept_ready U s io listener l th" and table: "table_repr s (it_service th) sv arr"
    and acc: "accepted K (ls_fd l) (tcp_nodealy (sv_config sv)) (kern s) fd a port k" "fd < sv_conn_setsize sv"
  shows "on_new_connection K U loop io s =
     dispatch_connection K loop listener (it_service th) (brk s + 1) (accept_state s k a port fd listener (it_service th) sv arr)"
proof -
  have fd: "0 < fd" using acc(1) by (simp add: accepted_def)
  obtain k1 k2 where k: "xv_tcp_accept K (ls_fd l) (Some []) (int XV_ADDR_LEN) (Some 0) (kern s) = Some (fd, Some a, Some port, k1)"
    "xv_nonblock K fd k1 = Some (XV_OK, k2)" "(if tcp_nodealy (sv_config sv) then xv_tcp_nodelay K fd k2 else Some (XV_OK, k2)) = Some (XV_OK, k)"
    using acc(1) by (auto simp: accepted_def)
  define s1 where "s1 = s\<lparr>kern := k, brk := brk s + 5,
     ios := (ios s)(brk s + 2 \<mapsto> new_io fd XV_READ On_connection_read (brk s + 1),
                    brk s + 3 \<mapsto> new_io fd XV_WRITE On_connection_write (brk s + 1)),
     buffers := (buffers s)(brk s + 4 \<mapsto> xv_buffer_init XV_DEFAULT_BUFFRT_SIZE, brk s + 5 \<mapsto> xv_buffer_init XV_DEFAULT_BUFFRT_SIZE),
     connections := (connections s)(brk s + 1 \<mapsto> new_conn (brk s) a port fd listener)\<rparr>"
  have init: "xv_connection_init (s\<lparr>kern := k\<rparr>) a port fd listener (Some On_connection_read) (Some On_connection_write) = Some (brk s + 1, s1)"
    unfolding connection_init_eq by (simp add: s1_def)
  have "table_repr s1 (it_service th) sv arr" using table by (simp add: table_repr_def s1_def)
  then have add: "xv_service_add_connection s1 (it_service th) (brk s + 1) = Some (accept_state s k a port fd listener (it_service th) sv arr)"
    using add_connection_law[of s1 "it_service th" sv arr "brk s + 1" "new_conn (brk s) a port fd listener"] fd acc(2)
    by (simp add: s1_def accept_state_def new_conn_def)
  have r: "io \<noteq> NULL" "listener \<noteq> NULL" "listeners s listener = Some l" "ls_io_thread l \<noteq> NULL" "io_threads s (ls_io_thread l) = Some th"
    "xv_io_get_fd s io = Some (ls_fd l)" "it_service th \<noteq> NULL" "services s (it_service th) = Some sv"
    and silent: "callback_silent (u_on_connect U) (h_on_connect (ls_handle l))"
    and u: "\<And>k. xv_io_get_userdata (s\<lparr>kern := k\<rparr>) io = Some listener"
    using ready table by (auto simp: accept_ready_def table_repr_def xv_io_get_fd_def xv_io_get_userdata_def)
  have h: "handle_at (accept_state s k a port fd listener (it_service th) sv arr) listener = Some (ls_handle l)"
    using r by (simp add: handle_at_def accept_state_def)
  show ?thesis
    using k r u init add h fd callback_silent_run[OF silent] by (cases "tcp_nodealy (sv_config sv)") (simp_all add: on_new_connection_def Let_def)
qed

lemma accept_state_facts:
  assumes ready: "accept_ready U s io listener l th" and table: "table_repr s (it_service th) sv arr" and fd: "0 \<le> fd" "fd < sv_conn_setsize sv"
    and t_def: "t = accept_state s k a port fd listener (it_service th) sv arr"
  shows "loop_ok t (it_loop th)" "loop_size t loop = loop_size s loop" "connections t = (connections s)(brk s + 1 \<mapsto> new_conn (brk s) a port fd listener)"
    "conn_at t (it_service th) = (conn_at s (it_service th))(fd := brk s + 1)"
    "services t (it_service th) = Some (sv\<lparr>sv_conn_count := snd (xv_atomic_incr (sv_conn_count sv))\<rparr>)"
    "listeners t = listeners s" "io_threads t = io_threads s" "io_thread_arrays t = io_thread_arrays s" "asyncs t = asyncs s"
    "ios t (brk s + 2) = Some (new_io fd XV_READ On_connection_read (brk s + 1))"
    "ios t (brk s + 3) = Some (new_io fd XV_WRITE On_connection_write (brk s + 1))"
    "buffers t (brk s + 4) \<noteq> None" "buffers t (brk s + 5) \<noteq> None" "kern t = k" "brk t = brk s + 5"
proof -
  have fresh: "\<forall>p > brk s. ios s p = None" and ok: "loop_ok s (it_loop th)" using ready by (simp_all add: accept_ready_def)
  show "loop_ok t (it_loop th)"
    by (rule loop_ok_cong[OF ok]) (use fresh in \<open>auto simp: t_def accept_state_def\<close>)
  show "conn_at t (it_service th) = (conn_at s (it_service th))(fd := brk s + 1)"
    using table_upd(2)[OF table fd refl refl, where p = "brk s + 1" and a = "snd (xv_atomic_incr (sv_conn_count sv))"]
    by (subst conn_at_cong[of t "s\<lparr>conn_arrays := (conn_arrays s)(sv_connections sv \<mapsto> arr[nat fd := Some (brk s + 1)]),
      services := (services s)(it_service th \<mapsto> sv\<lparr>sv_conn_count := snd (xv_atomic_incr (sv_conn_count sv))\<rparr>)\<rparr>"])
       (simp_all add: t_def accept_state_def)
qed (simp_all add: t_def accept_state_def loop_size_def)

text \<open>C13. A service with one I/O thread whose \<^verbatim>\<open>on_connect\<close> is absent or only looks at the connection: when a client is accepted on a descriptor that fits the table and the
  loop, and the system calls on it succeed, \<^verbatim>\<open>on_new_connection\<close> returns with one new open connection with a single reference, entered in the
  table under its descriptor, owned by the accepting thread, with its reader registered in that thread's
  loop; the connection meets all the conditions under which the other handlers are correct.\<close>

theorem on_new_connection_serves:
  fixes s :: "('k, 'z) sheap_scheme"
  assumes ready: "accept_ready U s io listener l th" and table: "table_repr s (it_service th) sv arr"
    and acc: "accepted K (ls_fd l) (tcp_nodealy (sv_config sv)) (kern s) fd a port k" "fd < sv_conn_setsize sv" "fd < loop_size s (it_loop th)"
    and one: "io_thread_count (sv_config sv) = 1"
  shows "\<exists>t c. on_new_connection K U (it_loop th) io s = Some t \<and> connections t = (connections s)(brk s + 1 \<mapsto> c) \<and>
     conn_ok t (brk s + 1) c th \<and> c_fd c = fd \<and> c_port c = port \<and> c_io_thread c = ls_io_thread l \<and> c_handle c = listener \<and>
     c_status c = XV_CONN_OPEN \<and> xv_atomic_get (c_ref_count c) = 1 \<and>
     conn_at t (it_service th) = (conn_at s (it_service th))(fd := brk s + 1) \<and>
     registered t (it_loop th) (c_read_io c)"
proof -
  let ?n = "brk s" and ?loop = "it_loop th"
  have fd: "0 \<le> fd" using acc(1) by (simp add: accepted_def)
  define u where "u = accept_state s k a port fd listener (it_service th) sv arr"
  note f = accept_state_facts[OF ready table fd acc(2) u_def]
  have r: "listener \<noteq> NULL" "listeners s listener = Some l" "ls_io_thread l \<noteq> NULL" "io_threads s (ls_io_thread l) = Some th" "it_service th \<noteq> NULL"
    using ready table by (simp_all add: accept_ready_def table_repr_def)
  define c where "c = (new_conn ?n a port fd listener)\<lparr>c_io_thread := ls_io_thread l\<rparr>"
  define v where "v = u\<lparr>connections := (connections u)(?n + 1 \<mapsto> c)\<rparr>"
  have okv: "conn_ok v (?n + 1) c th"
    unfolding conn_ok_def conn_watcher_def
    using f r fd acc(3) loop_ok_cong[OF f(1), of v] by (simp add: v_def c_def new_conn_def new_io_def loop_size_def)
  have reader: "ios v (c_read_io c) = Some (new_io fd XV_READ On_connection_read (?n + 1))"
    using f(10) by (simp add: v_def c_def new_conn_def)
  obtain ret t where t: "xv_io_start K v ?loop (c_read_io c) = Some (ret, t)" "loop_ok t ?loop" "w_frame v t" "registered t ?loop (c_read_io c)"
    "\<forall>q fd ev conn. conn_watcher v ?loop q fd ev conn \<longrightarrow> conn_watcher t ?loop q fd ev conn"
    using start_registers[OF conn_ok_fits(1,2)[OF okv], of K] by (auto simp: reader new_io_def)
  have "on_new_connection K U ?loop io s = dispatch_connection K ?loop listener (it_service th) (?n + 1) u"
    unfolding u_def by (rule on_new_connection_accepts[OF ready table acc(1,2)])
  also have "\<dots> = Some t"
    using r f one t(1) by (simp add: dispatch_connection_def v_def c_def new_conn_def)
  finally have run: "on_new_connection K U ?loop io s = Some t" .
  note g = more_sheap_l[OF w_frame_fields(4)[OF t(3)]]
  have okt: "conn_ok t (?n + 1) c th"
    using okv t(2,5) g by (simp add: conn_ok_def c_def new_conn_def)
  have "conn_at t (it_service th) = conn_at u (it_service th)" by (rule conn_at_cong) (simp_all add: g v_def)
  moreover have "xv_atomic_get (c_ref_count c) = 1" by (simp add: c_def new_conn_def xv_atomic_get_def)
  moreover have "connections t = (connections s)(?n + 1 \<mapsto> c)" using g(7) f(3) by (simp add: v_def)
  ultimately show ?thesis
    using run okt t(4) f(4) by (intro exI[of _ t] exI[of _ c]) (simp add: c_def new_conn_def)
qed

text \<open>A client from 127.0.0.1, port 4000, accepted as descriptor 3.\<close>

definition ex_accept :: "sim_os sys_ops" where
  "ex_accept = sim_sys\<lparr>sys_accept := (\<lambda>fd k. (Inr (3, \<lparr>sin_port = htons 4000, sin_addr = 16777343\<rparr>), k))\<rparr>"

lemma ex_accepted: "accepted ex_accept fd False k 3 ''127.0.0.1'' 4000 k"
proof -
  have "accept_retry ex_accept fd k = Some (Inr (3, \<lparr>sin_port = htons 4000, sin_addr = 16777343\<rparr>), k)"
    by (subst accept_retry.simps) (simp add: ex_accept_def)
  then have "xv_tcp_accept ex_accept fd (Some []) (int XV_ADDR_LEN) (Some 0) k = Some (3, Some ''127.0.0.1'', Some 4000, k)"
    by (simp add: xv_tcp_accept_def XV_ADDR_LEN_def ntohs_htons) (simp add: ex_accept_def sim_sys_def)
  moreover have "xv_nonblock ex_accept 3 k = Some (XV_OK, k)" by (simp add: xv_nonblock_def ex_accept_def sim_sys_def)
  ultimately show ?thesis by (simp add: accepted_def)
qed

lemma ex_accept_ready:
  "\<exists>l. accept_ready ex_user ex_svc 51 50 l ex_thread \<and> ls_fd l = 2 \<and> ls_io_thread l = 60 \<and> ls_handle l = ex_handle"
proof -
  have "loop_ok ex_svc (it_loop ex_thread)" using ex_svc_loop by (simp add: ex_thread_def)
  then show ?thesis
    by (intro exI[of _ "\<lparr>ls_addr = ''0.0.0.0'', ls_port = 80, ls_fd = 2, ls_io = 51, ls_handle = ex_handle, ls_io_thread = 60, ls_next = Some NULL\<rparr>"])
       (simp add: accept_ready_def ex_svc_facts ex_svc_more, simp add: ex_svc0_def ex_io_def ex_handle_def)
qed

theorem on_new_connection_serves_witness:
  "\<exists>t c. on_new_connection ex_accept ex_user 30 51 ex_svc = Some t \<and> connections t 105 = Some c \<and> c_fd c = 3 \<and>
     c_port c = 4000 \<and> conn_at t 70 3 = 105 \<and> registered t 30 (c_read_io c)"
proof -
  obtain l where l: "accept_ready ex_user ex_svc 51 50 l ex_thread" "ls_fd l = 2" using ex_accept_ready by blast
  have table: "table_repr ex_svc (it_service ex_thread) ex_sv ((replicate 8 (Some NULL))[5 := Some 40])"
    using ex_svc_table by (simp add: ex_thread_def)
  have size: "loop_size ex_svc 30 = 8" by (simp add: loop_size_def ex_svc_more) (simp add: ex_svc0_def)
  have acc: "accepted ex_accept (ls_fd l) (tcp_nodealy (sv_config ex_sv)) (kern ex_svc) 3 ''127.0.0.1'' 4000 (kern ex_svc)"
    using ex_accepted by (simp add: ex_sv_def)
  obtain t c where "on_new_connection ex_accept ex_user (it_loop ex_thread) 51 ex_svc = Some t"
    "connections t = (connections ex_svc)(brk ex_svc + 1 \<mapsto> c)" "c_fd c = 3" "c_port c = 4000"
    "conn_at t (it_service ex_thread) = (conn_at ex_svc (it_service ex_thread))(3 := brk ex_svc + 1)" "registered t (it_loop ex_thread) (c_read_io c)"
    using on_new_connection_serves[OF l(1) table acc] by (auto simp: ex_sv_def size ex_thread_def)
  then show ?thesis by (intro exI[of _ t] exI[of _ c]) (simp add: ex_svc_facts ex_thread_def)
qed

subsection \<open>Several I/O threads\<close>

text \<open>The threads \<open>ts\<close> of a service, the leader first, each with a mailbox for connections.\<close>

definition threads_ok ::
  "('k, 'y) sys_ops_scheme \<Rightarrow> ('k \<Rightarrow> int \<Rightarrow> nat option) \<Rightarrow> ('k, 'z) sheap_scheme \<Rightarrow> addr \<Rightarrow> addr list \<Rightarrow> bool" where
  "threads_ok K ctr s service ts \<longleftrightarrow> service \<noteq> NULL \<and> (\<exists>sv. services s service = Some sv \<and>
     io_thread_count (sv_config sv) = int (length ts) \<and> length ts < 2 ^ 31 \<and> sv_io_threads sv \<noteq> NULL \<and>
     io_thread_arrays s (sv_io_threads sv) = Some (map Some ts)) \<and>
     (\<forall>t \<in> set ts. t \<noteq> NULL \<and> (\<exists>th. io_threads s t = Some th \<and> mbox_ok K ctr (it_conn_queue th) (it_async_add_conn th) s))"

lemma mod_follower:
  assumes "2 \<le> length (ts :: addr list)" "0 \<le> fd" "fd \<le> INT_MAX" "length ts < 2 ^ 31"
  defines "i \<equiv> fd mod (int (length ts) - 1)"
  shows "c_int (int (length ts) - 1) = Some (int (length ts) - 1)" "c_mod fd (int (length ts) - 1) = Some i"
    "c_int (i + 1) = Some (i + 1)" "0 \<le> i" "i + 1 < int (length ts)"
proof -
  have n: "0 < int (length ts) - 1" "int (length ts) - 1 \<le> INT_MAX" using assms by (simp_all add: INT_MAX_def)
  show b: "0 \<le> i" "i + 1 < int (length ts)"
    unfolding i_def using pos_mod_sign[OF n(1), of fd] pos_mod_bound[OF n(1), of fd] by linarith+
  show "c_int (int (length ts) - 1) = Some (int (length ts) - 1)" "c_int (i + 1) = Some (i + 1)"
    by (rule c_int_in_range; use n b in linarith)+
  show "c_mod fd (int (length ts) - 1) = Some i"
    using n b assms(2) by (simp add: c_mod_def smod_nonneg c_int_in_range i_def)
qed

text \<open>C26. A service with several I/O threads: the leader hands a connection on descriptor \<open>fd\<close> to follower
  \<open>fd mod (n - 1) + 1\<close>, which exists and is never the leader itself; the connection is appended to that
  thread's queue and to no other, and its eventfd is readable afterwards.\<close>

theorem dispatch_connection_follower:
  fixes s :: "('k, 'z) sheap_scheme"
  assumes ts: "threads_ok K ctr s service ts" "2 \<le> length ts"
    and c: "conn \<noteq> NULL" "connections s conn = Some c" "0 \<le> c_fd c" "c_fd c \<le> INT_MAX"
    and th: "io_threads s (ts ! nat (c_fd c mod (int (length ts) - 1) + 1)) = Some th"
    and room: "int (length (cq_list s (it_conn_queue th))) < INT_MAX"
  shows "nat (c_fd c mod (int (length ts) - 1) + 1) \<in> {1 ..< length ts} \<and>
     (\<exists>t. dispatch_connection K loop listener service conn s = Some t \<and>
        cq_list t = (cq_list s)(it_conn_queue th := cq_list s (it_conn_queue th) @ [conn]) \<and>
        eventfd_ready ctr t (it_async_add_conn th) \<and> connections t = connections s)"
proof -
  let ?i = "c_fd c mod (int (length ts) - 1)" and ?q = "it_conn_queue th" and ?a = "it_async_add_conn th"
  obtain sv where sv: "service \<noteq> NULL" "services s service = Some sv" "io_thread_count (sv_config sv) = int (length ts)"
    "sv_io_threads sv \<noteq> NULL" "io_thread_arrays s (sv_io_threads sv) = Some (map Some ts)" "length ts < 2 ^ 31"
    using ts(1) by (auto simp: threads_ok_def)
  note m = mod_follower[OF ts(2) c(3,4) sv(6)]
  have "ts ! nat (?i + 1) \<in> set ts" using m(4,5) by (intro nth_mem) (simp add: nat_less_iff)
  then have t: "ts ! nat (?i + 1) \<noteq> NULL" "mbox_ok K ctr ?q ?a s" using ts(1) th by (auto simp: threads_ok_def)
  have at: "io_thread_at s sv (?i + 1) = Some (ts ! nat (?i + 1))"
    using sv m(4,5) by (simp add: io_thread_at_def arr_get_def nat_less_iff)
  obtain u r k where u: "xv_concurrent_queue_push s ?q conn = Some u" "qheap.more u = qheap.more s"
    "xv_async_send K u ?a = Some (r, u\<lparr>kern := k\<rparr>)" "cq_list (u\<lparr>kern := k\<rparr>) = (cq_list s)(?q := cq_list s ?q @ [conn])"
    "eventfd_ready ctr (u\<lparr>kern := k\<rparr>) ?a"
    by (rule hand_over_law[OF t(2) room, of conn]) (rule that)
  note f = more_sheap[OF u(2)] more_sheap_l[OF more_sheap(1)[OF u(2)]]
  have run: "dispatch_connection K loop listener service conn s = Some (u\<lparr>kern := k\<rparr>)"
    using sv c(1,2) m(1,2,3) ts(2) at th t(1) u(1,3) by (simp add: dispatch_connection_def)
  have "nat (?i + 1) \<in> {1 ..< length ts}" using m(4,5) by auto
  then show ?thesis using run u(4,5) f(14) by auto
qed

text \<open>The example service with two followers, 61 and 62: descriptor 5 goes to thread 62.\<close>

definition ex_three :: "sim_os sheap" where
  "ex_three = ex_svc\<lparr>services := [70 \<mapsto> ex_sv\<lparr>sv_config := (sv_config ex_sv)\<lparr>io_thread_count := 3\<rparr>\<rparr>],
     io_thread_arrays := [72 \<mapsto> [Some 60, Some 61, Some 62]],
     io_threads := [60 \<mapsto> ex_thread, 61 \<mapsto> ex_thread, 62 \<mapsto> ex_thread\<lparr>it_async_add_conn := 2, it_conn_queue := 103\<rparr>]\<rparr>"

lemma ex_mboxes: "mbox_ok sim_sys sim_counter 101 1 ex_svc" "mbox_ok sim_sys sim_counter 103 2 ex_svc"
  using sim_eventfd_doc
  by (simp_all add: mbox_ok_def async_ok_def ex_svc_facts ex_svc_more) (simp_all add: ex_svc0_def sim_counter_def)

theorem dispatch_connection_follower_witness:
  "\<exists>t. dispatch_connection sim_sys 30 50 70 40 ex_three = Some t \<and> cq_list t 103 = [40] \<and> cq_list t 101 = [] \<and>
     eventfd_ready sim_counter t 2"
proof -
  have cq: "cq_list ex_three = cq_list ex_svc" "cq_ok ex_three = cq_ok ex_svc" "live_cq ex_three = live_cq ex_svc"
    by (rule cq_cong; simp add: ex_three_def)+
  have a: "async_ok sim_counter ex_three a = async_ok sim_counter ex_svc a" for a
    by (rule async_cong) (simp_all add: ex_three_def)
  have mb: "mbox_ok sim_sys sim_counter 101 1 ex_three" "mbox_ok sim_sys sim_counter 103 2 ex_three"
    using ex_mboxes by (simp_all add: mbox_ok_def cq a)
  have ts: "threads_ok sim_sys sim_counter ex_three 70 [60, 61, 62]"
    using mb by (auto simp: threads_ok_def ex_three_def ex_sv_def ex_thread_def)
  have c: "connections ex_three 40 = Some ex_conn" by (simp add: ex_three_def ex_svc_more) (simp add: ex_svc0_def)
  show ?thesis
    using dispatch_connection_follower[OF ts _ _ c, of "ex_thread\<lparr>it_async_add_conn := 2, it_conn_queue := 103\<rparr>" 30 50]
    by (auto simp: ex_conn_def ex_three_def cq INT_MAX_def ex_svc_facts cq[unfolded ex_three_def])
qed

subsection \<open>Responses\<close>

text \<open>C28. \<^verbatim>\<open>xv_service_send_message\<close> refuses a null or closed connection and changes nothing. On an open
  connection it returns \<open>XV_OK\<close>, creates one message that carries the package, counts it as one more
  reference, appends it to the queue of the connection's I/O thread and to no other, and wakes that thread.\<close>

theorem xv_service_send_message_spec:
  fixes s :: "('k, 'z) sheap_scheme"
  assumes c: "conn \<noteq> NULL" "connections s conn = Some c" and th: "c_io_thread c \<noteq> NULL" "io_threads s (c_io_thread c) = Some th"
    and mb: "mbox_ok K ctr (it_message_queue th) (it_async_return_message th) s"
    and room: "int (length (cq_list s (it_message_queue th))) < INT_MAX"
  shows "xv_service_send_message K s NULL package = Some (XV_ERR, s) \<and>
     (if c_status c = XV_CONN_CLOSED then xv_service_send_message K s conn package = Some (XV_ERR, s)
      else \<exists>t. xv_service_send_message K s conn package = Some (XV_OK, t) \<and>
        messages t = (messages s)(brk s + 1 \<mapsto> \<lparr>m_conn = conn, m_request = NULL, m_response = package\<rparr>) \<and>
        connections t = (connections s)(conn \<mapsto> c\<lparr>c_ref_count := snd (xv_atomic_incr (c_ref_count c))\<rparr>) \<and>
        cq_list t = (cq_list s)(it_message_queue th := cq_list s (it_message_queue th) @ [brk s + 1]) \<and>
        eventfd_ready ctr t (it_async_return_message th))"
proof (cases "c_status c = XV_CONN_CLOSED")
  case True
  then show ?thesis using c by (simp add: xv_service_send_message_def)
next
  case False
  let ?q = "it_message_queue th" and ?a = "it_async_return_message th"
  let ?c = "c\<lparr>c_ref_count := snd (xv_atomic_incr (c_ref_count c))\<rparr>"
  define s1 where "s1 = s\<lparr>brk := brk s + 1, connections := (connections s)(conn \<mapsto> ?c),
    messages := (messages s)(brk s + 1 \<mapsto> \<lparr>m_conn = conn, m_request = NULL, m_response = package\<rparr>)\<rparr>"
  have m: "mbox_ok K ctr ?q ?a s1" "cq_list s1 = cq_list s"
    using mbox_ok_frame[OF mb, of s1] by (simp_all add: s1_def)
  obtain u r k where u: "xv_concurrent_queue_push s1 ?q (brk s + 1) = Some u" "qheap.more u = qheap.more s1"
    "xv_async_send K u ?a = Some (r, u\<lparr>kern := k\<rparr>)" "cq_list (u\<lparr>kern := k\<rparr>) = (cq_list s)(?q := cq_list s ?q @ [brk s + 1])"
    "eventfd_ready ctr (u\<lparr>kern := k\<rparr>) ?a"
    by (rule hand_over_law[OF m(1), of "brk s + 1", unfolded m(2), OF room]) (rule that)
  note f = more_sheap[OF u(2)] more_sheap_l[OF more_sheap(1)[OF u(2)]]
  have "xv_service_send_message K s conn package = Some (XV_OK, u\<lparr>kern := k\<rparr>)"
    using False c th u(1,3)
    by (simp add: xv_service_send_message_def xv_message_init_def xv_malloc_def incr_ref_eq xv_message_set_response_def s1_def)
  then show ?thesis using False u(4,5) f(14,16) by (auto simp: xv_service_send_message_def s1_def)
qed

theorem xv_service_send_message_spec_witness:
  "\<exists>t. xv_service_send_message sim_sys ex_svc 40 9 = Some (XV_OK, t) \<and> cq_list t 103 = [105] \<and>
     messages t 105 = Some \<lparr>m_conn = 40, m_request = NULL, m_response = 9\<rparr> \<and> eventfd_ready sim_counter t 2"
proof -
  have c: "connections ex_svc 40 = Some ex_conn" "io_threads ex_svc (c_io_thread ex_conn) = Some ex_thread"
    by (simp_all add: ex_svc_more) (simp_all add: ex_svc0_def ex_conn_def)
  have mb: "mbox_ok sim_sys sim_counter (it_message_queue ex_thread) (it_async_return_message ex_thread) ex_svc"
    using ex_mboxes by (simp add: ex_thread_def)
  show ?thesis
    using xv_service_send_message_spec[OF _ c(1) _ c(2) mb, of 9]
    by (auto simp: ex_conn_def ex_thread_def INT_MAX_def ex_svc_facts)
qed

subsection \<open>Requests\<close>

text \<open>A \<^verbatim>\<open>decode\<close> function that accepts a request and touches the buffers only.\<close>

definition decodes ::
  "('k, 'z) sheap_scheme user_ops \<Rightarrow> nat \<Rightarrow> addr \<Rightarrow> addr \<Rightarrow> ('k, 'z) sheap_scheme \<Rightarrow> bool" where
  "decodes U f rb request s \<longleftrightarrow> (\<exists>h. u_decode U f rb s = Some (XV_OK, request, s\<lparr>buffers := h\<rparr>))"

lemma task_hash_mod: "0 < n \<Longrightarrow> nat (task_hash task mod int n) = (if task > 16 then 1 mod n else 0)"
  by (simp add: task_hash_def nat_mod_distrib)

text \<open>The message of a request and the job that carries it, and everything else that \<^verbatim>\<open>process_read_buffer\<close> changes.\<close>

definition request_msg :: "addr \<Rightarrow> addr \<Rightarrow> xv_message_t" where
  "request_msg conn request = \<lparr>m_conn = conn, m_request = request, m_response = NULL\<rparr>"

definition incr_conn :: "xv_connection_t \<Rightarrow> xv_connection_t" where
  "incr_conn c = c\<lparr>c_ref_count := snd (xv_atomic_incr (c_ref_count c))\<rparr>"

lemma read_buffer_law:
  fixes s :: "('k, 'z) sheap_scheme"
  assumes c: "conn \<noteq> NULL" "connections s conn = Some c" and th: "c_io_thread c \<noteq> NULL" "io_threads s (c_io_thread c) = Some th"
    and sv: "it_service th \<noteq> NULL" "services s (it_service th) = Some sv" "sv_worker_threads sv \<noteq> NULL"
    and l: "handle \<noteq> NULL" "listeners s handle = Some l" "h_decode (ls_handle l) = Some f" "h_process (ls_handle l) = Some g"
      "u_decode U f (c_read_buffer c) s = Some (XV_OK, request, s\<lparr>buffers := h\<rparr>)"
    and pool: "pool_ok K ctr s (sv_worker_threads sv) ths" "ths \<noteq> []"
    and w: "i = (if brk s + 2 > 16 then 1 mod length ths else 0)" "workers s (ths ! i) = Some w"
    and room: "int (length (cq_list s (w_task_queue w))) < INT_MAX"
  shows "\<exists>t k. process_read_buffer K U loop conn handle s = Some t \<and> woken K (kern s) k \<and>
     qheap.more t = qheap.more (s\<lparr>kern := k, buffers := h, connections := (connections s)(conn \<mapsto> incr_conn c),
       messages := (messages s)(brk s + 1 \<mapsto> request_msg conn request),
       pool_tasks := (pool_tasks s)(brk s + 2 \<mapsto> \<lparr>pt_cb = Some g, pt_message = brk s + 1\<rparr>),
       tasks := (tasks s)(brk s + 3 \<mapsto> \<lparr>t_cb = Some Thread_pool_task_cb, t_args = brk s + 2\<rparr>)\<rparr>) \<and>
     cq_list t = (cq_list s)(w_task_queue w := cq_list s (w_task_queue w) @ [brk s + 3]) \<and>
     eventfd_ready ctr t (w_async w) \<and> (\<forall>q a. mbox_ok K ctr q a s \<longrightarrow> mbox_ok K ctr q a t)"
proof -
  define s1 where "s1 = s\<lparr>buffers := h, connections := (connections s)(conn \<mapsto> incr_conn c),
    messages := (messages s)(brk s + 1 \<mapsto> request_msg conn request), brk := brk s + 2,
    pool_tasks := (pool_tasks s)(brk s + 2 \<mapsto> \<lparr>pt_cb = Some g, pt_message = brk s + 1\<rparr>)\<rparr>"
  have run: "process_read_buffer K U loop conn handle s =
      do { (_, t) \<leftarrow> xv_thread_pool_push_task K s1 (sv_worker_threads sv) (Some Thread_pool_task_cb) (brk s + 2) (task_hash (brk s + 2)); Some t }"
    using c th sv l
    by (simp add: process_read_buffer_def handle_at_def xv_message_init_def xv_malloc_def incr_ref_eq xv_message_set_request_def
        s1_def Let_def request_msg_def incr_conn_def)
  have p1: "pool_ok K ctr s1 (sv_worker_threads sv) ths"
    by (rule pool_ok_frame[OF pool(1)]) (simp_all add: s1_def)
  have mb: "mbox_ok K ctr q a s1" if "mbox_ok K ctr q a s" for q a
    by (rule mbox_ok_frame(1)[OF that]) (simp_all add: s1_def)
  have l1: "cq_list s1 = cq_list s" by (rule cq_brk_mono) (simp_all add: s1_def)
  have "nat (task_hash (brk s + 2) mod int (length ths)) = i"
    using pool(2) w(1) task_hash_mod[of "length ths" "brk s + 2"] by simp
  then have "ths ! i = ths ! nat (task_hash (brk s + 2) mod int (length ths))" "0 \<le> task_hash (brk s + 2)" "task_hash (brk s + 2) \<le> INT_MAX"
    "workers s1 (ths ! i) = Some w" "int (length (cq_list s1 (w_task_queue w))) < INT_MAX"
    using w(2) room l1 by (simp_all add: task_hash_def INT_MAX_def s1_def)
  then obtain t k where t: "xv_thread_pool_push_task K s1 (sv_worker_threads sv) (Some Thread_pool_task_cb) (brk s + 2) (task_hash (brk s + 2)) = Some (XV_OK, t)"
    "tasks t = (tasks s1)(Suc (brk s1) \<mapsto> \<lparr>t_cb = Some Thread_pool_task_cb, t_args = brk s + 2\<rparr>)"
    "cq_list t = (cq_list s1)(w_task_queue w := cq_list s1 (w_task_queue w) @ [Suc (brk s1)])" "eventfd_ready ctr t (w_async w)"
    "woken K (kern s1) k" "qheap.more t = qheap.more (s1\<lparr>kern := k, tasks := tasks t\<rparr>)"
    "\<forall>q a. mbox_ok K ctr q a s1 \<longrightarrow> mbox_ok K ctr q a t"
    using pool_push_law[OF p1 pool(2), of "task_hash (brk s + 2)" "ths ! i" w "Some Thread_pool_task_cb" "brk s + 2"] by blast
  have b: "Suc (brk s1) = brk s + 3" "kern s1 = kern s" "tasks s1 = tasks s" by (simp_all add: s1_def)
  have "qheap.more (s1\<lparr>kern := k, tasks := x\<rparr>) = qheap.more (s\<lparr>kern := k, buffers := h, connections := (connections s)(conn \<mapsto> incr_conn c),
       messages := (messages s)(brk s + 1 \<mapsto> request_msg conn request),
       pool_tasks := (pool_tasks s)(brk s + 2 \<mapsto> \<lparr>pt_cb = Some g, pt_message = brk s + 1\<rparr>), tasks := x\<rparr>)" for x
    by (cases s) (simp add: s1_def)
  note more = t(6)[unfolded this t(2) b]
  show ?thesis
    by (rule exI[of _ t], rule exI[of _ k]) (use run t(1,3,4,5,7) mb l1 b more in simp)
qed

text \<open>C36. The hash code of a request is the truth value of a comparison: \<^verbatim>\<open>process_read_buffer\<close> of a service with
  workers creates one message for the request, which holds a reference to the connection, and hands it to
  worker \<open>1 mod n\<close> whenever the address of the task is above 16, to worker 0 otherwise. So every request
  goes to one of the first two workers and the other workers of the pool get none.\<close>

theorem requests_reach_two_workers:
  fixes s :: "('k, 'z) sheap_scheme"
  assumes c: "conn \<noteq> NULL" "connections s conn = Some c" and th: "c_io_thread c \<noteq> NULL" "io_threads s (c_io_thread c) = Some th"
    and sv: "it_service th \<noteq> NULL" "services s (it_service th) = Some sv" "sv_worker_threads sv \<noteq> NULL"
    and l: "handle \<noteq> NULL" "listeners s handle = Some l" "h_decode (ls_handle l) = Some f" "h_process (ls_handle l) = Some g"
      "decodes U f (c_read_buffer c) request s"
    and pool: "pool_ok K ctr s (sv_worker_threads sv) ths" "ths \<noteq> []"
    and w: "i = (if brk s + 2 > 16 then 1 mod length ths else 0)" "workers s (ths ! i) = Some w"
    and room: "int (length (cq_list s (w_task_queue w))) < INT_MAX"
  shows "i < 2 \<and> i < length ths \<and> (\<exists>t. process_read_buffer K U loop conn handle s = Some t \<and>
     messages t = (messages s)(brk s + 1 \<mapsto> \<lparr>m_conn = conn, m_request = request, m_response = NULL\<rparr>) \<and>
     connections t = (connections s)(conn \<mapsto> c\<lparr>c_ref_count := snd (xv_atomic_incr (c_ref_count c))\<rparr>) \<and>
     pool_tasks t = (pool_tasks s)(brk s + 2 \<mapsto> \<lparr>pt_cb = Some g, pt_message = brk s + 1\<rparr>) \<and>
     tasks t = (tasks s)(brk s + 3 \<mapsto> \<lparr>t_cb = Some Thread_pool_task_cb, t_args = brk s + 2\<rparr>) \<and>
     cq_list t = (cq_list s)(w_task_queue w := cq_list s (w_task_queue w) @ [brk s + 3]) \<and>
     eventfd_ready ctr t (w_async w))"
proof -
  obtain h where h: "u_decode U f (c_read_buffer c) s = Some (XV_OK, request, s\<lparr>buffers := h\<rparr>)" using l(5) by (auto simp: decodes_def)
  obtain t k where t: "process_read_buffer K U loop conn handle s = Some t"
    "qheap.more t = qheap.more (s\<lparr>kern := k, buffers := h, connections := (connections s)(conn \<mapsto> incr_conn c),
       messages := (messages s)(brk s + 1 \<mapsto> request_msg conn request),
       pool_tasks := (pool_tasks s)(brk s + 2 \<mapsto> \<lparr>pt_cb = Some g, pt_message = brk s + 1\<rparr>),
       tasks := (tasks s)(brk s + 3 \<mapsto> \<lparr>t_cb = Some Thread_pool_task_cb, t_args = brk s + 2\<rparr>)\<rparr>)"
    "cq_list t = (cq_list s)(w_task_queue w := cq_list s (w_task_queue w) @ [brk s + 3])" "eventfd_ready ctr t (w_async w)"
    using read_buffer_law[OF c th sv l(1-4) h pool w room, of loop] by blast
  note f = more_sheap_l[OF more_sheap(1)[OF t(2)]]
  have "i \<le> 1" "i < length ths"
    unfolding w(1) using pool(2) mod_less_divisor[of "length ths" 1] mod_less_eq_dividend[of 1 "length ths"] by (simp_all del: mod_less_divisor)
  then have "i < 2" "i < length ths" by simp_all
  then show ?thesis using t(1,3,4) f by (intro conjI exI[of _ t]) (simp_all add: request_msg_def incr_conn_def)
qed

text \<open>The example service with a pool of workers 7 and 8.\<close>

definition ex_working :: "sim_os sheap" where
  "ex_working = ex_svc\<lparr>services := [70 \<mapsto> ex_sv\<lparr>sv_worker_threads := 90\<rparr>],
     workers := [7 \<mapsto> ex_worker 101 1, 8 \<mapsto> ex_worker 103 2],
     pools := [90 \<mapsto> \<lparr>tp_threads = 91, tp_thread_count = 2, tp_start = False\<rparr>], thread_arrays := [91 \<mapsto> [Some 7, Some 8]]\<rparr>"

theorem requests_reach_two_workers_witness:
  "\<exists>t. process_read_buffer sim_sys ex_user 30 40 50 ex_working = Some t \<and> cq_list t 103 = [107] \<and> cq_list t 101 = [] \<and>
     messages t 105 = Some \<lparr>m_conn = 40, m_request = 8, m_response = NULL\<rparr> \<and> eventfd_ready sim_counter t 2"
proof -
  have cq: "cq_list ex_working = cq_list ex_svc" "cq_ok ex_working = cq_ok ex_svc" "live_cq ex_working = live_cq ex_svc"
    by (rule cq_cong; simp add: ex_working_def)+
  have a: "async_ok sim_counter ex_working a = async_ok sim_counter ex_svc a" for a
    by (rule async_cong) (simp_all add: ex_working_def)
  have mb: "mbox_ok sim_sys sim_counter 101 1 ex_working" "mbox_ok sim_sys sim_counter 103 2 ex_working"
    using ex_mboxes by (simp_all add: mbox_ok_def cq a)
  have w: "workers ex_working 7 = Some (ex_worker 101 1)" "workers ex_working 8 = Some (ex_worker 103 2)"
    by (simp_all add: ex_working_def)
  have pool: "pool_ok sim_sys sim_counter ex_working 90 [7, 8]"
    using mb w by (auto simp: pool_ok_def worker_ok_def ex_worker_def) (simp_all add: ex_working_def)
  obtain l where l: "listeners ex_working 50 = Some l" "ls_handle l = ex_handle" using ex_listener by (auto simp: ex_working_def)
  have c: "connections ex_working 40 = Some ex_conn" "io_threads ex_working 60 = Some ex_thread" "brk ex_working = 104"
    by (simp_all add: ex_working_def ex_svc_more ex_svc_facts) (simp_all add: ex_svc0_def)
  have dec: "decodes ex_user 0 (c_read_buffer ex_conn) 8 ex_working"
    using ex_buffers(1) by (auto simp: decodes_def ex_user_def buffer_upd_def ex_conn_def ex_working_def)
  show ?thesis
    using requests_reach_two_workers[where s = ex_working and conn = 40 and c = ex_conn and th = ex_thread
        and sv = "ex_sv\<lparr>sv_worker_threads := 90\<rparr>" and handle = 50 and l = l and f = 0 and g = 2 and U = ex_user and request = 8
        and K = sim_sys and ctr = sim_counter and ths = "[7, 8]" and i = 1 and w = "ex_worker 103 2" and loop = 30] c l dec pool w(2)
    by (auto simp: ex_conn_def ex_thread_def ex_handle_def ex_worker_def ex_svc_facts cq INT_MAX_def ex_working_def[THEN arg_cong[where f = services]])
qed

end
