(* ===== verification/Xv_Follower.thy ===== *)
theory Xv_Follower
  imports Xv_Routing
begin

section \<open>The receiving ends: followers and workers\<close>

text \<open>
  The other end of the hand-overs of \<open>Xv_Routing\<close>. A woken I/O thread takes every connection waiting in its
  queue, becomes its owner and registers its reader; the job of a worker sends its message back.
\<close>

subsection \<open>Taking over connections\<close>

text \<open>A connection that waits for its thread: set up, in a queue, its reader not started.\<close>

definition conn_waiting :: "('k, 'z) sheap_scheme \<Rightarrow> addr \<Rightarrow> addr \<Rightarrow> bool" where
  "conn_waiting s loop p \<longleftrightarrow> p \<noteq> NULL \<and> (\<exists>c io. connections s p = Some c \<and> c_read_io c \<noteq> NULL \<and>
     ios s (c_read_io c) = Some io \<and> io_fd io = c_fd c \<and> io_event io = XV_READ \<and> \<not> io_start io \<and>
     0 \<le> c_fd c \<and> c_fd c < loop_size s loop)"

definition own_conn :: "addr \<Rightarrow> xv_connection_t \<Rightarrow> xv_connection_t" where
  "own_conn io_thread c = c\<lparr>c_io_thread := io_thread\<rparr>"

text \<open>One connection: its reader is started and in the table, the other descriptors are as they were.\<close>

lemma attach_law:
  fixes s :: "('k, 'z) sheap_scheme"
  assumes ok: "loop_ok s loop" and w: "conn_waiting s loop p" and c: "connections s p = Some c"
    and s1_def: "s1 = s\<lparr>connections := (connections s)(p \<mapsto> own_conn io_thread c)\<rparr>"
  shows "\<exists>r t. xv_io_start K s1 loop (c_read_io c) = Some (r, t) \<and> loop_ok t loop \<and> w_frame s1 t \<and>
     registered t loop (c_read_io c) \<and> (\<exists>io. ios t (c_read_io c) = Some io \<and> io_fd io = c_fd c) \<and>
     (\<forall>x. x \<noteq> c_read_io c \<longrightarrow> ios t x = ios s x) \<and>
     (\<forall>fd ev. fd \<noteq> c_fd c \<longrightarrow> watched t loop fd ev = watched s loop fd ev)"
proof -
  obtain io where io: "c_read_io c \<noteq> NULL" "ios s (c_read_io c) = Some io" "io_fd io = c_fd c" "io_event io = XV_READ" "\<not> io_start io"
    "0 \<le> c_fd c" "c_fd c < loop_size s loop"
    using w c by (auto simp: conn_waiting_def)
  have ok1: "loop_ok s1 loop" by (rule loop_ok_cong[OF ok]) (simp_all add: s1_def)
  have fits: "watcher_fits s1 loop (c_read_io c)" using io by (simp add: watcher_fits_def s1_def loop_size_def)
  have ws: "watched s1 loop = watched s loop" by (rule watched_cong) (simp_all add: s1_def)
  obtain r t where t: "xv_io_start K s1 loop (c_read_io c) = Some (r, t)" "w_post K (\<lambda>_ _ _. None) loop s1 (WStart (c_read_io c)) r t"
    using start_law[OF ok1 fits] by blast
  have "ios t = (ios s)(c_read_io c \<mapsto> io\<lparr>io_start := True\<rparr>)" "watched t loop = table_set (watched s loop) (c_fd c) XV_READ (c_read_io c)"
    using t(2) io ws by (simp_all add: w_post_def w_view_of_def s1_def)
  then have "registered t loop (c_read_io c)" "\<exists>io. ios t (c_read_io c) = Some io \<and> io_fd io = c_fd c" "\<forall>x. x \<noteq> c_read_io c \<longrightarrow> ios t x = ios s x"
    "\<forall>fd ev. fd \<noteq> c_fd c \<longrightarrow> watched t loop fd ev = watched s loop fd ev"
    using io by (simp_all add: registered_def table_set_def)
  then show ?thesis using t by (auto simp: w_post_def)
qed

text \<open>The whole queue.\<close>

definition owned :: "addr \<Rightarrow> addr set \<Rightarrow> (addr \<rightharpoonup> xv_connection_t) \<Rightarrow> addr \<rightharpoonup> xv_connection_t" where
  "owned io_thread P h = (\<lambda>p. if p \<in> P then map_option (own_conn io_thread) (h p) else h p)"

lemma own_conn_fields [simp]:
  "c_fd (own_conn t c) = c_fd c" "c_read_io (own_conn t c) = c_read_io c" "c_io_thread (own_conn t c) = t"
  by (simp_all add: own_conn_def)

lemma add_conn_loop_law:
  fixes s :: "('k, 'z) sheap_scheme"
  assumes th: "io_thread \<noteq> NULL" "io_threads s io_thread = Some th" and ok: "cq_ok s" "live_cq s (it_conn_queue th)" "loop_ok s loop"
    and ps: "cq_list s (it_conn_queue th) = ps" "distinct (map (conn_fd s) ps)" "\<forall>p \<in> set ps. conn_waiting s loop p"
  shows "\<exists>t. add_conn_loop K loop io_thread s = Some t \<and> cq_list t (it_conn_queue th) = [] \<and> loop_ok t loop \<and>
     connections t = owned io_thread (set ps) (connections s) \<and>
     (\<forall>p \<in> set ps. registered t loop (c_read_io (the (connections s p)))) \<and>
     (\<forall>x io. ios s x = Some io \<longrightarrow> registered s loop x \<longrightarrow> io_fd io \<notin> conn_fd s ` set ps \<longrightarrow> registered t loop x)"
  using assms
proof (induction ps arbitrary: s)
  case Nil
  have "add_conn_loop K loop io_thread s = Some s"
    using Nil.prems(1,2) cq_size_law[OF Nil.prems(3,4)] Nil.prems(6) by (subst add_conn_loop.simps) simp
  then show ?case using Nil.prems by (simp add: owned_def)
next
  case (Cons p ps)
  let ?q = "it_conn_queue th"
  obtain s1 where s1: "xv_concurrent_queue_pop s ?q = Some (p, s1)" "cq_ok s1" "live_cq s1 = live_cq s"
    "cq_list s1 = (cq_list s)(?q := ps)" "qheap.more s1 = qheap.more s"
    using cq_pop_cons_law[OF Cons.prems(3,4,6)] by blast
  note f = more_sheap[OF s1(5)] more_sheap_l[OF more_sheap(1)[OF s1(5)]]
  have wait: "conn_waiting s loop x \<Longrightarrow> conn_waiting s1 loop x" for x by (simp add: conn_waiting_def f loop_size_def)
  have ok1: "loop_ok s1 loop" by (rule loop_ok_cong[OF Cons.prems(5)]) (simp_all add: f)
  obtain c where c: "p \<noteq> NULL" "connections s p = Some c" using Cons.prems(8) by (auto simp: conn_waiting_def)
  obtain r t where t: "xv_io_start K (s1\<lparr>connections := (connections s1)(p \<mapsto> own_conn io_thread c)\<rparr>) loop (c_read_io c) = Some (r, t)"
    "loop_ok t loop" "w_frame (s1\<lparr>connections := (connections s1)(p \<mapsto> own_conn io_thread c)\<rparr>) t" "registered t loop (c_read_io c)"
    "\<forall>x. x \<noteq> c_read_io c \<longrightarrow> ios t x = ios s1 x" "\<forall>fd ev. fd \<noteq> c_fd c \<longrightarrow> watched t loop fd ev = watched s1 loop fd ev"
    "\<exists>io. ios t (c_read_io c) = Some io \<and> io_fd io = c_fd c"
    using attach_law[OF ok1 wait _ refl, of p c K io_thread] Cons.prems(8) c f by auto
  note g = more_sheap_l[OF w_frame_fields(4)[OF t(3)]]
  have run: "add_conn_loop K loop io_thread s = add_conn_loop K loop io_thread t"
    using Cons.prems(1,2,6) cq_size_law[OF Cons.prems(3,4)] s1(1) c t(1) f
    by (subst add_conn_loop.simps) (simp add: own_conn_def)
  have cq: "cq_ok t" "live_cq t = live_cq s" "cq_list t = (cq_list s)(?q := ps)"
    using cq_cong[of t s1] t(3) s1(2-4) by (simp_all add: w_frame_def)
  have ct: "connections t = (connections s)(p \<mapsto> own_conn io_thread c)" "io_threads t = io_threads s" using g f by simp_all
  have ne: "x \<noteq> p \<and> conn_fd s x \<noteq> c_fd c \<and> conn_fd t x = conn_fd s x \<and> connections t x = connections s x" if "x \<in> set ps" for x
  proof -
    have nin: "conn_fd s p \<notin> conn_fd s ` set ps" using Cons.prems(7) by simp
    have fd: "conn_fd s p = c_fd c" using c(2) by (simp add: conn_fd_def)
    have fd2: "conn_fd s x \<noteq> conn_fd s p" using nin imageI[OF that, of "conn_fd s"] by metis
    then have "x \<noteq> p" by auto
    then show ?thesis using fd fd2 ct(1) by (simp add: conn_fd_def)
  qed
  have wt: "conn_waiting t loop x" if x: "x \<in> set ps" for x
  proof -
    obtain d io where d: "x \<noteq> NULL" "connections s x = Some d" "c_read_io d \<noteq> NULL" "ios s (c_read_io d) = Some io" "io_fd io = c_fd d"
      "io_event io = XV_READ" "\<not> io_start io" "0 \<le> c_fd d" "c_fd d < loop_size s loop"
      using Cons.prems(8) x by (auto simp: conn_waiting_def)
    have "c_fd d \<noteq> c_fd c" using ne[OF x] d(2) by (simp add: conn_fd_def)
    moreover obtain io' where "ios s (c_read_io c) = Some io'" "io_fd io' = c_fd c" using Cons.prems(8) c by (auto simp: conn_waiting_def)
    ultimately have "c_read_io d \<noteq> c_read_io c" using d(4,5) by auto
    then show ?thesis
      using d ne[OF x] t(5) f w_frame_fields(1)[OF t(3)] by (auto simp: conn_waiting_def loop_size_def)
  qed
  have "distinct (map (conn_fd t) ps)" using Cons.prems(7) ne by (simp cong: map_cong)
  then obtain u where u: "add_conn_loop K loop io_thread t = Some u" "cq_list u ?q = []" "loop_ok u loop"
    "connections u = owned io_thread (set ps) (connections t)"
    "\<forall>x \<in> set ps. registered u loop (c_read_io (the (connections t x)))"
    "\<forall>x io. ios t x = Some io \<longrightarrow> registered t loop x \<longrightarrow> io_fd io \<notin> conn_fd t ` set ps \<longrightarrow> registered u loop x"
    using Cons.IH[of t] Cons.prems(1,2,4) cq ct(2) t(2) wt by auto
  have "connections u = owned io_thread (set (p # ps)) (connections s)"
    using u(4) ct(1) c(2) ne by (auto simp: owned_def fun_eq_iff)
  moreover have reg: "registered u loop x" if x: "ios s x = Some io" "registered s loop x" "io_fd io \<notin> conn_fd s ` set (p # ps)" for x io
  proof -
    obtain io' where i: "ios s (c_read_io c) = Some io'" "io_fd io' = c_fd c" using Cons.prems(8) c by (auto simp: conn_waiting_def)
    have fd: "io_fd io \<noteq> c_fd c" using x(3) c(2) by (simp add: conn_fd_def)
    then have "x \<noteq> c_read_io c" using i x(1) by auto
    then have "ios t x = Some io" "registered t loop x"
      using x fd t(5,6) f watched_cong[of s1 s loop] by (auto simp: registered_def)
    then show ?thesis using u(6) x(3) ne by auto
  qed
  moreover have "registered u loop (c_read_io c)"
    using u(6) t(4,7) ne c(2) by fastforce
  ultimately show ?case using run u c(2) ne by (intro exI[of _ u]) auto
qed

text \<open>C27. When an I/O thread is woken, \<^verbatim>\<open>io_thread_add_conn_cb\<close> returns with its queue of connections empty: every
  connection that waited is now owned by the thread and its reader is registered in the loop, no other
  connection changed, and a watcher registered before on any other descriptor still is.\<close>

theorem io_thread_add_conn_cb_attaches:
  fixes s :: "('k, 'z) sheap_scheme"
  assumes a: "async \<noteq> NULL" "asyncs s async = Some a" "as_userdata a = io_thread"
    and th: "io_thread \<noteq> NULL" "io_threads s io_thread = Some th" and ok: "cq_ok s" "live_cq s (it_conn_queue th)" "loop_ok s loop"
    and ps: "cq_list s (it_conn_queue th) = ps" "distinct (map (conn_fd s) ps)" "\<forall>p \<in> set ps. conn_waiting s loop p"
  shows "\<exists>t. io_thread_add_conn_cb K loop async s = Some t \<and> cq_list t (it_conn_queue th) = [] \<and> loop_ok t loop \<and>
     connections t = owned io_thread (set ps) (connections s) \<and>
     (\<forall>p \<in> set ps. registered t loop (c_read_io (the (connections s p)))) \<and>
     (\<forall>x io. ios s x = Some io \<longrightarrow> registered s loop x \<longrightarrow> io_fd io \<notin> conn_fd s ` set ps \<longrightarrow> registered t loop x)"
  using add_conn_loop_law[OF th ok ps, of K] a by (simp add: io_thread_add_conn_cb_def xv_async_get_userdata_def)

text \<open>Connection 45, accepted on descriptor 3, waits in the queue of thread 60.\<close>

definition ex_queued :: "sim_os sheap" where
  "ex_queued = the (xv_concurrent_queue_push ex_svc 101 45)"

lemma ex_queued_facts:
  "qheap.more ex_queued = qheap.more ex_svc0" "cq_ok ex_queued" "live_cq ex_queued 101" "cq_list ex_queued 101 = [45]"
  using cq_push_law[of ex_svc 101 45] ex_svc_facts by (auto simp: ex_queued_def INT_MAX_def)

lemmas ex_queued_more = more_sheap[OF ex_queued_facts(1)] more_sheap_l[OF more_sheap(1)[OF ex_queued_facts(1)]]

theorem io_thread_add_conn_cb_attaches_witness:
  "\<exists>t. io_thread_add_conn_cb sim_sys 30 1 ex_queued = Some t \<and> cq_list t 101 = [] \<and> registered t 30 48 \<and> registered t 30 41"
proof -
  have ok: "loop_ok ex_queued 30" by (rule loop_ok_cong[OF ex_svc_loop]) (simp_all add: ex_queued_more ex_svc_more)
  have s0: "asyncs ex_queued 1 = Some \<lparr>as_evfd = 6, as_cb = Some Io_thread_add_conn_cb, as_userdata = 60, as_read_io = 46\<rparr>"
    "io_threads ex_queued 60 = Some ex_thread" "ios ex_queued 41 = Some (ex_io 5 XV_READ On_connection_read 40 True)"
    "ios ex_queued 48 = Some (ex_io 3 XV_READ On_connection_read 45 False)" "loop_size ex_queued 30 = 8"
    "loops ex_queued 30 = Some \<lparr>l_poller_data = 31, l_events = 32, l_fired_events = 33, l_setsize = 8, l_start = True\<rparr>"
    "event_arrays ex_queued 32 = Some ex_slots"
    by (simp_all add: ex_queued_more loop_size_def) (simp_all add: ex_svc0_def)
  have reg: "registered ex_queued 30 41"
    using s0 by (simp add: registered_def watched_def ex_io_def ex_slots_def slot_ptr_def)
  obtain c where c: "connections ex_queued 45 = Some c" "c_fd c = 3" "c_read_io c = 48"
    by (simp add: ex_queued_more) (simp add: ex_svc0_def)
  have w: "\<forall>p \<in> set [45]. conn_waiting ex_queued 30 p" using s0 c by (auto simp: conn_waiting_def ex_io_def)
  obtain t where "io_thread_add_conn_cb sim_sys 30 1 ex_queued = Some t" "cq_list t 101 = []" "registered t 30 48"
    and old: "\<forall>x io. ios ex_queued x = Some io \<longrightarrow> registered ex_queued 30 x \<longrightarrow> io_fd io \<noteq> 3 \<longrightarrow> registered t 30 x"
    using io_thread_add_conn_cb_attaches[OF _ s0(1) refl _ _ ex_queued_facts(2) _ ok _ _ w, of ex_thread sim_sys] s0(2) c ex_queued_facts
    by (auto simp: ex_thread_def conn_fd_def)
  moreover have "registered t 30 41" using old reg s0(3) by (simp add: ex_io_def)
  ultimately show ?thesis by blast
qed

subsection \<open>The job of a worker\<close>

text \<open>What a \<^verbatim>\<open>process\<close> function does with a message: it sets the response and changes nothing else.\<close>

definition processes ::
  "('k, 'z) sheap_scheme user_ops \<Rightarrow> nat \<Rightarrow> addr \<Rightarrow> addr \<Rightarrow> ('k, 'z) sheap_scheme \<Rightarrow> bool" where
  "processes U f m response s \<longleftrightarrow> (\<exists>ret x. messages s m = Some x \<and>
     u_process U f m s = Some (ret, s\<lparr>messages := (messages s)(m \<mapsto> x\<lparr>m_response := response\<rparr>)\<rparr>))"

lemma task_cb_law:
  fixes s :: "('k, 'z) sheap_scheme"
  assumes task: "task \<noteq> NULL" "pool_tasks s task = Some \<lparr>pt_cb = Some f, pt_message = m\<rparr>"
    and m: "m \<noteq> NULL" "messages s m = Some x" "processes U f m response s"
    and c: "m_conn x \<noteq> NULL" "connections s (m_conn x) = Some c" "c_io_thread c \<noteq> NULL" "io_threads s (c_io_thread c) = Some th"
    and mb: "mbox_ok K ctr (it_message_queue th) (it_async_return_message th) s"
    and room: "int (length (cq_list s (it_message_queue th))) < INT_MAX"
  shows "\<exists>t k. thread_pool_task_cb K U task s = Some t \<and> woken K (kern s) k \<and>
     qheap.more t = qheap.more (s\<lparr>kern := k, messages := (messages s)(m \<mapsto> x\<lparr>m_response := response\<rparr>),
       pool_tasks := (pool_tasks s)(task := None)\<rparr>) \<and>
     cq_list t = (cq_list s)(it_message_queue th := cq_list s (it_message_queue th) @ [m]) \<and>
     eventfd_ready ctr t (it_async_return_message th) \<and> (\<forall>q a. mbox_ok K ctr q a s \<longrightarrow> mbox_ok K ctr q a t)"
proof -
  let ?q = "it_message_queue th" and ?a = "it_async_return_message th"
  define s1 where "s1 = s\<lparr>messages := (messages s)(m \<mapsto> x\<lparr>m_response := response\<rparr>)\<rparr>"
  obtain ret where p: "u_process U f m s = Some (ret, s1)" using m(2,3) by (auto simp: processes_def s1_def)
  have m1: "mbox_ok K ctr q a s1" if "mbox_ok K ctr q a s" for q a by (rule mbox_ok_frame(1)[OF that]) (simp_all add: s1_def)
  have l1: "cq_list s1 = cq_list s" by (rule cq_brk_mono) (simp_all add: s1_def)
  obtain u r k where u: "xv_concurrent_queue_push s1 ?q m = Some u" "qheap.more u = qheap.more s1"
    "xv_async_send K u ?a = Some (r, u\<lparr>kern := k\<rparr>)" "cq_list (u\<lparr>kern := k\<rparr>) = (cq_list s)(?q := cq_list s ?q @ [m])"
    "eventfd_ready ctr (u\<lparr>kern := k\<rparr>) ?a" "woken K (kern s1) k" "\<And>q a. mbox_ok K ctr q a s1 \<Longrightarrow> mbox_ok K ctr q a (u\<lparr>kern := k\<rparr>)"
    using hand_over_law[OF m1[OF mb], of m] room unfolding l1 by blast
  note f = more_sheap[OF u(2)] more_sheap_l[OF more_sheap(1)[OF u(2)]]
  define t where "t = u\<lparr>kern := k, pool_tasks := (pool_tasks s)(task := None)\<rparr>"
  have run: "thread_pool_task_cb K U task s = Some t"
    using task m(1) p c u(1,3) f
    by (simp add: thread_pool_task_cb_def xv_message_get_connection_def s1_def xv_free_def t_def)
  have l: "cq_list t = cq_list (u\<lparr>kern := k\<rparr>)" by (rule cq_cong) (simp_all add: t_def)
  have ev: "eventfd_ready ctr t ?a = eventfd_ready ctr (u\<lparr>kern := k\<rparr>) ?a" by (rule async_cong) (simp_all add: t_def)
  have mt: "mbox_ok K ctr q a t" if "mbox_ok K ctr q a s" for q a
    by (rule mbox_ok_frame(1)[OF u(7)[OF m1[OF that]]]) (simp_all add: t_def)
  have "qheap.more t = qheap.more (s\<lparr>kern := k, messages := (messages s)(m \<mapsto> x\<lparr>m_response := response\<rparr>),
       pool_tasks := (pool_tasks s)(task := None)\<rparr>)"
    using u(2) by (cases s; cases u; simp add: s1_def t_def)
  then show ?thesis using run l ev mt u(4-6) by (intro exI[of _ t] exI[of _ k]) (simp add: s1_def)
qed

text \<open>A worker that runs the job of a request calls the \<^verbatim>\<open>process\<close> function on its message, hands the message with its
  response back to the I/O thread of the connection and to no other, wakes that thread and releases the job;
  connections and their reference counts are unchanged.\<close>

theorem thread_pool_task_cb_returns:
  fixes s :: "('k, 'z) sheap_scheme"
  assumes task: "task \<noteq> NULL" "pool_tasks s task = Some \<lparr>pt_cb = Some f, pt_message = m\<rparr>"
    and m: "m \<noteq> NULL" "messages s m = Some x" "processes U f m response s"
    and c: "m_conn x \<noteq> NULL" "connections s (m_conn x) = Some c" "c_io_thread c \<noteq> NULL" "io_threads s (c_io_thread c) = Some th"
    and mb: "mbox_ok K ctr (it_message_queue th) (it_async_return_message th) s"
    and room: "int (length (cq_list s (it_message_queue th))) < INT_MAX"
  shows "\<exists>t. thread_pool_task_cb K U task s = Some t \<and>
     messages t = (messages s)(m \<mapsto> x\<lparr>m_response := response\<rparr>) \<and> connections t = connections s \<and>
     pool_tasks t = (pool_tasks s)(task := None) \<and>
     cq_list t = (cq_list s)(it_message_queue th := cq_list s (it_message_queue th) @ [m]) \<and>
     eventfd_ready ctr t (it_async_return_message th)"
proof -
  obtain t k where t: "thread_pool_task_cb K U task s = Some t"
    "qheap.more t = qheap.more (s\<lparr>kern := k, messages := (messages s)(m \<mapsto> x\<lparr>m_response := response\<rparr>),
       pool_tasks := (pool_tasks s)(task := None)\<rparr>)"
    "cq_list t = (cq_list s)(it_message_queue th := cq_list s (it_message_queue th) @ [m])"
    "eventfd_ready ctr t (it_async_return_message th)"
    using task_cb_law[OF assms] by blast
  then show ?thesis using more_sheap_l[OF more_sheap(1)[OF t(2)]] by (intro exI[of _ t]) simp
qed

text \<open>The example service with one request, message 80, given to a worker as job 82.\<close>

definition ex_job :: "sim_os sheap" where
  "ex_job = ex_svc\<lparr>messages := [80 \<mapsto> \<lparr>m_conn = 40, m_request = 8, m_response = NULL\<rparr>],
     pool_tasks := [82 \<mapsto> \<lparr>pt_cb = Some 2, pt_message = 80\<rparr>]\<rparr>"

theorem thread_pool_task_cb_returns_witness:
  "\<exists>t. thread_pool_task_cb sim_sys ex_user 82 ex_job = Some t \<and> cq_list t 103 = [80] \<and> pool_tasks t 82 = None \<and>
     messages t 80 = Some \<lparr>m_conn = 40, m_request = 8, m_response = 9\<rparr> \<and> eventfd_ready sim_counter t 2"
proof -
  have cq: "cq_list ex_job = cq_list ex_svc" "cq_ok ex_job = cq_ok ex_svc" "live_cq ex_job = live_cq ex_svc"
    by (rule cq_cong; simp add: ex_job_def)+
  have mb: "mbox_ok sim_sys sim_counter (it_message_queue ex_thread) (it_async_return_message ex_thread) ex_job"
    using ex_mboxes(2) mbox_ok_frame(1)[of sim_sys sim_counter 103 2 ex_svc ex_job] by (simp add: ex_thread_def ex_job_def)
  have c: "connections ex_job 40 = Some ex_conn" "io_threads ex_job 60 = Some ex_thread"
    by (simp_all add: ex_job_def ex_svc_more) (simp_all add: ex_svc0_def)
  have p: "processes ex_user 2 80 9 ex_job"
    by (simp add: processes_def ex_user_def ex_job_def xv_message_set_response_def)
  have job: "pool_tasks ex_job 82 = Some \<lparr>pt_cb = Some 2, pt_message = 80\<rparr>"
    "messages ex_job 80 = Some \<lparr>m_conn = 40, m_request = 8, m_response = NULL\<rparr>" by (simp_all add: ex_job_def)
  show ?thesis
    using thread_pool_task_cb_returns[OF _ job(1) _ job(2) p _ _ _ _ mb, of ex_conn] c cq ex_svc_facts
    by (auto simp: ex_conn_def ex_thread_def INT_MAX_def)
qed

end
