(* ===== verification/Xv_Answer.thy ===== *)
theory Xv_Answer
  imports Xv_Follower
begin

section \<open>Requests and their answers\<close>

text \<open>
  The end of the life of a message, and requests from the bytes in the read buffer to the bytes of the
  response: on the I/O thread alone, and by way of a worker.
\<close>

subsection \<open>Releasing a message\<close>

text \<open>The cleanup function of the application releases packets of its own; it does not touch the objects of the
  library.\<close>

definition cleanup_silent :: "('k, 'z) sheap_scheme user_ops \<Rightarrow> nat option \<Rightarrow> bool" where
  "cleanup_silent U co \<longleftrightarrow> (\<forall>f. co = Some f \<longrightarrow> (\<forall>p s. u_packet_cleanup U f p s = Some s))"

definition decr_conn :: "xv_connection_t \<Rightarrow> xv_connection_t" where
  "decr_conn c = c\<lparr>c_ref_count := snd (xv_atomic_decr (c_ref_count c))\<rparr>"

lemma decr_incr [simp]: "decr_conn (incr_conn c) = c"
  by (cases c) (simp add: decr_conn_def incr_conn_def atomic_defs Let_def)

lemma message_destroy_law:
  assumes "cleanup_silent U co" "m \<noteq> NULL" "messages s m = Some x" "m_conn x \<noteq> NULL" "connections s (m_conn x) = Some c"
  shows "xv_message_destroy U s m co = Some (s\<lparr>connections := (connections s)(m_conn x \<mapsto> decr_conn c), messages := (messages s)(m := None)\<rparr>)"
  using assms
  by (cases co) (auto simp: xv_message_destroy_def cleanup_packet_def cleanup_silent_def incr_ref_eq xv_free_def decr_conn_def)

text \<open>A connection is as before when only its counter, the buffers and objects of other kinds have changed.\<close>

lemma conn_ok_frame:
  fixes s t :: "('k, 'z) sheap_scheme"
  assumes ok: "conn_ok s conn c th" and c: "connections t conn = Some (c\<lparr>c_ref_count := a\<rparr>)"
    and f: "loops t = loops s" "pollers t = pollers s" "event_arrays t = event_arrays s" "fired_arrays t = fired_arrays s"
      "ios t = ios s" "io_threads t = io_threads s" "listeners t = listeners s"
    and b: "buffers t (c_read_buffer c) \<noteq> None" "buffers t (c_write_buffer c) \<noteq> None"
  shows "conn_ok t conn (c\<lparr>c_ref_count := a\<rparr>) th" "watched t loop = watched s loop"
proof -
  have "loop_ok s (it_loop th)" using ok by (simp add: conn_ok_def)
  then have "loop_ok t (it_loop th)" by (rule loop_ok_cong) (simp_all add: f)
  then show "conn_ok t conn (c\<lparr>c_ref_count := a\<rparr>) th"
    using ok c b f by (auto simp: conn_ok_def conn_watcher_def loop_size_def)
  show "watched t loop = watched s loop" by (rule watched_cong) (simp_all add: f)
qed

subsection \<open>Answering one message\<close>

text \<open>What answering needs: an open connection whose writer is registered if it is marked as started, with \<open>old\<close>
  still to be sent, and an \<^verbatim>\<open>on_disconnect\<close> that is absent or only looks at the connection.\<close>

definition answerable ::
  "('k, 'z) sheap_scheme user_ops \<Rightarrow> ('k, 'z) sheap_scheme \<Rightarrow> addr \<Rightarrow> xv_connection_t \<Rightarrow> xv_io_thread_t \<Rightarrow> xv_listener_t \<Rightarrow> xv_buffer_t \<Rightarrow>
   byte list \<Rightarrow> bool" where
  "answerable U s conn c th l b old \<longleftrightarrow> conn_ok s conn c th \<and> c_status c = XV_CONN_OPEN \<and>
     marked_registered s (it_loop th) (c_write_io c) \<and>
     listeners s (c_handle c) = Some l \<and> callback_silent (u_on_disconnect U) (h_on_disconnect (ls_handle l)) \<and>
     buffers s (c_write_buffer c) = Some b \<and> readable b = map Some old"

text \<open>The common end of \<^verbatim>\<open>process_read_buffer\<close> and \<^verbatim>\<open>io_thread_return_message_cb\<close>.\<close>

lemma answer_law:
  fixes s :: "('k, 'z) sheap_scheme"
  assumes ok: "answerable U s conn c th l b old" and ref: "1 < xv_atomic_get (c_ref_count c)"
    and m: "m \<noteq> NULL" "messages s m = Some x" "m_response x \<noteq> NULL" "m_conn x = conn"
    and l: "h_encode (ls_handle l) = Some f" "encodes U f (c_write_buffer c) (m_response x) s bs" "old @ bs \<noteq> []" "cleanup_silent U co"
    and K: "write_doc K output intr" "ctl_silent K output"
  obtains (fatal) u t where "process_message K U (it_loop th) m conn (c_handle c) s = Some u" "xv_message_destroy U u m co = Some t"
      "fst (sys_write K (c_fd c) (old @ bs) (kern s)) = Inl EOTHER"
      "w_frame (s\<lparr>buffers := buffers t, connections := (connections s)(conn \<mapsto> decr_conn (c\<lparr>c_status := XV_CONN_CLOSED\<rparr>)),
         messages := (messages s)(m := None)\<rparr>) t"
      "connections u conn = Some (c\<lparr>c_status := XV_CONN_CLOSED\<rparr>)" "listeners u = listeners s"
      "\<forall>fd ev. watched t (it_loop th) fd ev \<noteq> c_read_io c \<and> watched t (it_loop th) fd ev \<noteq> c_write_io c"
  | (sent) u t b' where "process_message K U (it_loop th) m conn (c_handle c) s = Some u" "xv_message_destroy U u m co = Some t"
      "w_frame (s\<lparr>buffers := (buffers s)(c_write_buffer c \<mapsto> b'), connections := (connections s)(conn \<mapsto> decr_conn c),
         messages := (messages s)(m := None)\<rparr>) t"
      "connections u conn = Some c" "listeners u = listeners s" "conn_ok t conn (decr_conn c) th" "buffer_wf b'"
      "map Some (output (kern t) (c_fd c)) @ readable b' = map Some (output (kern s) (c_fd c) @ old @ bs)"
      "readable b' \<noteq> [] \<longrightarrow> registered t (it_loop th) (c_write_io c)" "marked_registered t (it_loop th) (c_write_io c)"
      "fst (sys_write K (c_fd c) (old @ bs) (kern s)) \<noteq> Inl EOTHER"
proof -
  have d: "conn_ok s conn c th" "c_status c = XV_CONN_OPEN"
    "marked_registered s (it_loop th) (c_write_io c)"
    and l': "listeners s (c_handle c) = Some l" "callback_silent (u_on_disconnect U) (h_on_disconnect (ls_handle l))"
    and b: "buffers s (c_write_buffer c) = Some b" "readable b = map Some old"
    using ok by (simp_all add: answerable_def)
  have cn: "conn \<noteq> NULL" using d(1) by (simp add: conn_ok_def)
  show thesis
  proof (cases rule: process_message_law[OF d m(1-3) l'(1) l(1,2) b l(3) K, case_names F S])
    case (F b1 k)
    define v where "v = s\<lparr>buffers := (buffers s)(c_write_buffer c \<mapsto> b1), kern := k\<rparr>"
    have v: "conn_ok v conn c th" "listeners v (c_handle c) = Some l" using conn_ok_buffers[OF d(1) v_def] l'(1) by (simp_all add: v_def)
    obtain u r w where "xv_connection_stop K (v\<lparr>connections := (connections v)(conn \<mapsto> c\<lparr>c_status := XV_CONN_CLOSED\<rparr>)\<rparr>) (it_loop th) conn = Some u"
      and head: "xv_connection_close K U v conn =
      (if 1 < xv_atomic_get (c_ref_count c) then Some u
       else do { (_, v) \<leftarrow> xv_service_del_connection u (it_service th) conn;
         xv_connection_destroy (v\<lparr>kern := snd (sys_close K (c_fd c) (kern v))\<rparr>) conn })"
      and u: "loop_ok u (it_loop th)" "w_frame (v\<lparr>connections := (connections v)(conn \<mapsto> c\<lparr>c_status := XV_CONN_CLOSED\<rparr>)\<rparr>) u"
        "ios u = (ios v)(c_read_io c \<mapsto> r\<lparr>io_start := False\<rparr>, c_write_io c \<mapsto> w\<lparr>io_start := False\<rparr>)"
      and ne: "c_read_io c \<noteq> c_write_io c" "c_read_io c \<noteq> NULL" "c_write_io c \<noteq> NULL"
      by (rule connection_close_head[OF v(1) d(2) v(2) l'(2), of K])
    note f = more_sheap_l[OF w_frame_fields(4)[OF u(2)]]
    have run: "process_message K U (it_loop th) m conn (c_handle c) s = Some u" using F(2) head ref by (simp add: v_def)
    define t where "t = u\<lparr>connections := (connections u)(conn \<mapsto> decr_conn (c\<lparr>c_status := XV_CONN_CLOSED\<rparr>)), messages := (messages s)(m := None)\<rparr>"
    have uc: "connections u conn = Some (c\<lparr>c_status := XV_CONN_CLOSED\<rparr>)" "messages u = messages s" "listeners u = listeners s"
      using f by (simp_all add: v_def)
    have "xv_message_destroy U u m co = Some t"
      using message_destroy_law[OF l(4) m(1), of u x] m(2,4) cn uc by (simp add: t_def)
    moreover have "w_frame (s\<lparr>buffers := buffers t, connections := (connections s)(conn \<mapsto> decr_conn (c\<lparr>c_status := XV_CONN_CLOSED\<rparr>)),
         messages := (messages s)(m := None)\<rparr>) t"
      using u(2) f by (cases s; cases u; simp add: w_frame_def t_def v_def)
    moreover have "loop_ok t (it_loop th)" by (rule loop_ok_cong[OF u(1)]) (simp_all add: t_def)
    then have "\<forall>fd ev. watched t (it_loop th) fd ev \<noteq> c_read_io c \<and> watched t (it_loop th) fd ev \<noteq> c_write_io c"
      by (intro allI conjI unwatched) (use u(3) ne in \<open>auto simp: t_def split: if_splits\<close>)
    ultimately show thesis by (intro fatal[OF run _ F(1) _ uc(1,3)])
  next
    case (S u b')
    note f = more_sheap_l[OF w_frame_fields(4)[OF S(3)]]
    define t where "t = u\<lparr>connections := (connections s)(conn \<mapsto> decr_conn c), messages := (messages s)(m := None)\<rparr>"
    have uc: "connections u = connections s" "connections u conn = Some c" "messages u = messages s" "listeners u = listeners s"
      using f S(4) by (simp_all add: conn_ok_def)
    have "xv_message_destroy U u m co = Some t"
      using message_destroy_law[OF l(4) m(1), of u x] m(2,4) cn uc by (simp add: t_def)
    moreover have "w_frame (s\<lparr>buffers := (buffers s)(c_write_buffer c \<mapsto> b'), connections := (connections s)(conn \<mapsto> decr_conn c),
         messages := (messages s)(m := None)\<rparr>) t"
      using S(3) by (cases s; cases u; simp add: w_frame_def t_def)
    moreover have "conn_ok t conn (decr_conn c) th" "watched t (it_loop th) = watched u (it_loop th)"
      using conn_ok_frame[OF S(4), of t "snd (xv_atomic_decr (c_ref_count c))"] S(4) by (simp_all add: t_def decr_conn_def conn_ok_def)
    ultimately show thesis
      using S(2,5-8) by (intro sent[of u t b', OF S(1) _ _ uc(2,4)]) (simp_all add: registered_def marked_registered_def t_def)
  qed
qed

lemma map_Some_append: "map Some xs @ r = map Some ys \<Longrightarrow> \<exists>zs. r = map Some zs \<and> xs @ zs = ys"
  by (auto simp: append_eq_map_conv inj_map_eq_map)

text \<open>\<^verbatim>\<open>io_thread_return_message_cb\<close> does this for a message of an open connection.\<close>

lemma return_message_run:
  assumes ok: "conn_ok s conn c th" "c_status c = XV_CONN_OPEN" and m: "m \<noteq> NULL" "messages s m = Some x" "m_conn x = conn"
    and u: "process_message K U loop m conn (c_handle c) s = Some u" "connections u conn = Some c'" "c_handle c' = c_handle c" "listeners u = listeners s"
    and l: "listeners s (c_handle c) = Some l"
  shows "return_message K U loop m s = xv_message_destroy U u m (h_packet_cleanup (ls_handle l))"
  using assms by (simp add: return_message_def xv_message_get_connection_def conn_ok_def handle_at_def)

text \<open>When a message with a response encoded as \<open>bs\<close> comes back to its open connection and \<^verbatim>\<open>write\<close> does not fail
  for good, the I/O thread answers it: it returns with the bytes sent followed by the bytes buffered equal
  to those sent before, those buffered before and \<open>bs\<close>, with the writer registered if any are left; the message
  is released, its reference is dropped, and the connection is ready for the next message.\<close>

theorem return_message_answers:
  fixes s :: "('k, 'z) sheap_scheme"
  assumes ok: "answerable U s conn c th l b old" and ref: "1 < xv_atomic_get (c_ref_count c)"
    and m: "m \<noteq> NULL" "messages s m = Some x" "m_response x \<noteq> NULL" "m_conn x = conn"
    and l: "h_encode (ls_handle l) = Some f" "encodes U f (c_write_buffer c) (m_response x) s bs" "old @ bs \<noteq> []"
      "cleanup_silent U (h_packet_cleanup (ls_handle l))"
    and K: "write_doc K output intr" "ctl_silent K output" "fst (sys_write K (c_fd c) (old @ bs) (kern s)) \<noteq> Inl EOTHER"
  shows "\<exists>t b' old'. return_message K U (it_loop th) m s = Some t \<and> messages t = (messages s)(m := None) \<and>
     connections t = (connections s)(conn \<mapsto> decr_conn c) \<and> xv_atomic_get (c_ref_count (decr_conn c)) = xv_atomic_get (c_ref_count c) - 1 \<and>
     answerable U t conn (decr_conn c) th l b' old' \<and> buffer_wf b' \<and>
     output (kern t) (c_fd c) @ old' = output (kern s) (c_fd c) @ old @ bs \<and>
     (old' \<noteq> [] \<longrightarrow> registered t (it_loop th) (c_write_io c))"
proof (cases rule: answer_law[OF ok ref m l K(1,2), case_names fatal sent])
  case (fatal u t)
  then show ?thesis using K(3) by simp
next
  case (sent u t b')
  have d: "conn_ok s conn c th" "c_status c = XV_CONN_OPEN" "listeners s (c_handle c) = Some l" "callback_silent (u_on_disconnect U) (h_on_disconnect (ls_handle l))"
    using ok by (simp_all add: answerable_def)
  note f = more_sheap_l[OF w_frame_fields(4)[OF sent(3)]]
  have run: "return_message K U (it_loop th) m s = Some t"
    using return_message_run[OF d(1,2) m(1,2,4) sent(1,4) refl sent(5) d(3)] sent(2) by simp
  obtain old' where old': "readable b' = map Some old'" "output (kern t) (c_fd c) @ old' = output (kern s) (c_fd c) @ old @ bs"
    using map_Some_append[OF sent(8)] by blast
  have "answerable U t conn (decr_conn c) th l b' old'"
    using sent(6,10) d f old'(1) by (simp add: answerable_def decr_conn_def)
  moreover have "xv_atomic_get (c_ref_count (decr_conn c)) = xv_atomic_get (c_ref_count c) - 1"
    unfolding decr_conn_def using ref atomic_decr_get[OF refl, of "c_ref_count c"] by (simp add: INT_MIN_def)
  ultimately show ?thesis using run f sent(7,9) old' by (intro exI[of _ t] exI[of _ b'] exI[of _ old']) simp
qed

text \<open>C33. When \<^verbatim>\<open>write\<close> fails for good on the response of a message, the connection is marked as closed and both
  its watchers are unregistered, but it is not released, because the message still refers to it; the message
  is then released without another look at the connection. If it was the last message the connection is left with
  a single reference, still in the table, reached by no watcher and by no message.\<close>

theorem write_error_strands_connection:
  fixes s :: "('k, 'z) sheap_scheme"
  assumes ok: "answerable U s conn c th l b old" and ref: "1 < xv_atomic_get (c_ref_count c)"
    and m: "m \<noteq> NULL" "messages s m = Some x" "m_response x \<noteq> NULL" "m_conn x = conn"
    and l: "h_encode (ls_handle l) = Some f" "encodes U f (c_write_buffer c) (m_response x) s bs" "old @ bs \<noteq> []"
      "cleanup_silent U (h_packet_cleanup (ls_handle l))"
    and K: "write_doc K output intr" "ctl_silent K output" "fst (sys_write K (c_fd c) (old @ bs) (kern s)) = Inl EOTHER"
  shows "\<exists>t c'. return_message K U (it_loop th) m s = Some t \<and> messages t = (messages s)(m := None) \<and>
     connections t = (connections s)(conn \<mapsto> c') \<and> c_status c' = XV_CONN_CLOSED \<and>
     xv_atomic_get (c_ref_count c') = xv_atomic_get (c_ref_count c) - 1 \<and>
     conn_at t (it_service th) = conn_at s (it_service th) \<and>
     (\<forall>fd ev. watched t (it_loop th) fd ev \<noteq> c_read_io c \<and> watched t (it_loop th) fd ev \<noteq> c_write_io c)"
proof (cases rule: answer_law[OF ok ref m l K(1,2), case_names fatal sent])
  case (fatal u t)
  have d: "conn_ok s conn c th" "c_status c = XV_CONN_OPEN" "listeners s (c_handle c) = Some l"
    using ok by (simp_all add: answerable_def)
  note f = more_sheap_l[OF w_frame_fields(4)[OF fatal(4)]]
  have "return_message K U (it_loop th) m s = Some t"
    using return_message_run[OF d(1,2) m(1,2,4) fatal(1,5) _ fatal(6) d(3)] fatal(2) by simp
  moreover have "xv_atomic_get (c_ref_count (decr_conn (c\<lparr>c_status := XV_CONN_CLOSED\<rparr>))) = xv_atomic_get (c_ref_count c) - 1"
    unfolding decr_conn_def using ref atomic_decr_get[OF refl, of "c_ref_count c"] by (simp add: INT_MIN_def)
  moreover have "conn_at t (it_service th) = conn_at s (it_service th)" by (rule conn_at_cong) (simp_all add: f(13,14))
  moreover have closed: "c_status (decr_conn (c\<lparr>c_status := XV_CONN_CLOSED\<rparr>)) = XV_CONN_CLOSED" by (simp add: decr_conn_def)
  ultimately show ?thesis
    using f(7,9) fatal(7) by (intro exI[of _ t] exI[of _ "decr_conn (c\<lparr>c_status := XV_CONN_CLOSED\<rparr>)"]) (simp_all add: closed)
next
  case (sent u t b')
  then show ?thesis using K(3) by simp
qed

text \<open>Message 80, with a response, on connection 40 of the example service; and a kernel on which every \<^verbatim>\<open>write\<close> fails.\<close>

definition ex_answer :: "sim_os sheap" where
  "ex_answer = ex_msg\<lparr>connections := (connections ex_msg)(40 \<mapsto> incr_conn ex_conn)\<rparr>"

definition ex_broken :: "sim_os sys_ops" where
  "ex_broken = sim_sys\<lparr>sys_write := (\<lambda>fd bs k. (Inl EOTHER, k))\<rparr>"

lemma ex_answer_ok:
  "\<exists>l. answerable ex_user ex_answer 40 (incr_conn ex_conn) ex_thread l (xv_buffer_init 8192) [] \<and> ls_handle l = ex_handle"
  "xv_atomic_get (c_ref_count (incr_conn ex_conn)) = 2" "encodes ex_user 1 44 9 ex_answer [10, 20, 30]"
proof -
  obtain l where l: "listeners ex_svc 50 = Some l" "ls_handle l = ex_handle" using ex_listener by blast
  have "conn_ok ex_answer 40 (incr_conn ex_conn) ex_thread"
    unfolding incr_conn_def
    by (rule conn_ok_frame(1)[OF ex_conn_ok]) (simp_all add: ex_answer_def ex_msg_def incr_conn_def ex_buffers ex_conn_def)
  then show "\<exists>l. answerable ex_user ex_answer 40 (incr_conn ex_conn) ex_thread l (xv_buffer_init 8192) [] \<and> ls_handle l = ex_handle"
    using l ex_writer ex_buffers
    by (intro exI[of _ l]) (simp add: answerable_def incr_conn_def ex_conn_def marked_registered_def ex_io_def ex_answer_def ex_msg_def ex_handle_def)
  show "xv_atomic_get (c_ref_count (incr_conn ex_conn)) = 2" by (simp add: incr_conn_def ex_conn_def atomic_defs Let_def)
  obtain b' where b': "xv_buffer_write_data (xv_buffer_init 8192) [10, 20, 30] 3 = Some (3, b')" "buffer_wf b'"
    "readable b' = map Some [10, 20, 30]"
    by (rule write_data_law[OF ex_buffer_wf, of "[10, 20, 30]"]) (simp_all add: ex_buffer_size INT_MAX_def)
  show "encodes ex_user 1 44 9 ex_answer [10, 20, 30]"
    using b' ex_buffers unfolding encodes_def
    by (intro exI[of _ 0] exI[of _ "xv_buffer_init 8192"] exI[of _ b']) (simp add: ex_user_def buffer_upd_def ex_answer_def ex_msg_def)
qed

theorem return_message_answers_witness:
  "\<exists>t b' old'. return_message sim_sys ex_user 30 80 ex_answer = Some t \<and> messages t 80 = None \<and> connections t 40 = Some ex_conn \<and>
     os_out (kern t) 5 @ old' = [10, 20, 30] \<and> buffers t 44 = Some b' \<and> readable b' = map Some old' \<and> (old' \<noteq> [] \<longrightarrow> registered t 30 42)"
proof -
  obtain l where l: "answerable ex_user ex_answer 40 (incr_conn ex_conn) ex_thread l (xv_buffer_init 8192) []" "ls_handle l = ex_handle"
    using ex_answer_ok(1) by blast
  have m: "messages ex_answer 80 = Some \<lparr>m_conn = 40, m_request = NULL, m_response = 9\<rparr>" "kern ex_answer = kern ex_svc"
    by (simp_all add: ex_answer_def ex_msg_def)
  have c: "c_write_buffer (incr_conn ex_conn) = 44" "c_fd (incr_conn ex_conn) = 5" "c_write_io (incr_conn ex_conn) = 42" "it_loop ex_thread = 30"
    by (simp_all add: incr_conn_def ex_conn_def ex_thread_def)
  have cl: "cleanup_silent ex_user (h_packet_cleanup (ls_handle l))" "h_encode (ls_handle l) = Some 1" by (simp_all add: cleanup_silent_def l(2) ex_handle_def)
  have w: "fst (sys_write sim_sys 5 ([] @ [10, 20, 30]) (kern ex_answer)) \<noteq> Inl EOTHER"
    by (simp add: m(2) sim_sys_def os_write_def ex_kern Let_def)
  obtain t b' old' where t: "return_message sim_sys ex_user 30 80 ex_answer = Some t" "messages t = (messages ex_answer)(80 := None)"
    "connections t = (connections ex_answer)(40 \<mapsto> ex_conn)" "answerable ex_user t 40 ex_conn ex_thread l b' old'"
    "os_out (kern t) 5 @ old' = os_out (kern ex_answer) 5 @ [] @ [10, 20, 30]" "old' \<noteq> [] \<longrightarrow> registered t 30 42"
    using return_message_answers[OF l(1) _ _ m(1) _ _ cl(2), of "[10, 20, 30]" sim_sys os_out os_intr]
      ex_answer_ok(2,3) cl(1) sim_write_doc sim_ctl_silent w by (auto simp: c)
  moreover have "c_write_buffer ex_conn = 44" by (simp add: ex_conn_def)
  ultimately show ?thesis
    using m(2) ex_kern(3) by (intro exI[of _ t] exI[of _ b'] exI[of _ old']) (simp add: answerable_def)
qed

theorem write_error_strands_connection_witness:
  "\<exists>t c'. return_message ex_broken ex_user 30 80 ex_answer = Some t \<and> messages t 80 = None \<and> connections t 40 = Some c' \<and>
     c_status c' = XV_CONN_CLOSED \<and> xv_atomic_get (c_ref_count c') = 1 \<and> conn_at t 70 = conn_at ex_answer 70"
proof -
  obtain l where l: "answerable ex_user ex_answer 40 (incr_conn ex_conn) ex_thread l (xv_buffer_init 8192) []" "ls_handle l = ex_handle"
    using ex_answer_ok(1) by blast
  have m: "messages ex_answer 80 = Some \<lparr>m_conn = 40, m_request = NULL, m_response = 9\<rparr>" by (simp add: ex_answer_def ex_msg_def)
  have c: "c_write_buffer (incr_conn ex_conn) = 44" "c_fd (incr_conn ex_conn) = 5" "it_loop ex_thread = 30" "it_service ex_thread = 70"
    by (simp_all add: incr_conn_def ex_conn_def ex_thread_def)
  have cl: "cleanup_silent ex_user (h_packet_cleanup (ls_handle l))" "h_encode (ls_handle l) = Some 1" by (simp_all add: cleanup_silent_def l(2) ex_handle_def)
  have K: "write_doc ex_broken os_out os_intr" "ctl_silent ex_broken os_out" "fst (sys_write ex_broken fd bs k) = Inl EOTHER" for fd bs k
    using sim_ctl_silent by (simp_all add: write_doc_def ctl_silent_def ex_broken_def)
  obtain t c' where "return_message ex_broken ex_user 30 80 ex_answer = Some t" "messages t = (messages ex_answer)(80 := None)"
    "connections t = (connections ex_answer)(40 \<mapsto> c')" "c_status c' = XV_CONN_CLOSED" "xv_atomic_get (c_ref_count c') = 2 - 1"
    "conn_at t 70 = conn_at ex_answer 70"
    using write_error_strands_connection[OF l(1) _ _ m(1) _ _ cl(2) _ _ cl(1) K(1,2), of "[10, 20, 30]"]
      ex_answer_ok(2,3) K(3) by (auto simp: c)
  then show ?thesis by (intro exI[of _ t] exI[of _ c']) simp
qed

subsection \<open>From a request to its response\<close>

text \<open>What an application does with one request: its \<^verbatim>\<open>decode\<close> takes a request from the read buffer, its \<^verbatim>\<open>process\<close> answers
  it with a response, its \<^verbatim>\<open>encode\<close> appends the bytes \<open>bs\<close> of that response to the write buffer \<open>b\<close>.\<close>

definition app_doc ::
  "('k, 'z) sheap_scheme user_ops \<Rightarrow> xv_service_handle_t \<Rightarrow> addr \<Rightarrow> addr \<Rightarrow> xv_buffer_t \<Rightarrow> addr \<Rightarrow> addr \<Rightarrow> byte list \<Rightarrow> bool" where
  "app_doc U h rb wb b request response bs \<longleftrightarrow> response \<noteq> NULL \<and> cleanup_silent U (h_packet_cleanup h) \<and>
     (\<exists>d e p. h_decode h = Some d \<and> h_encode h = Some e \<and> h_process h = Some p \<and>
       (\<forall>s. buffers s rb \<noteq> None \<longrightarrow> (\<exists>b'. u_decode U d rb s = Some (XV_OK, request, s\<lparr>buffers := (buffers s)(rb \<mapsto> b')\<rparr>))) \<and>
       (\<forall>s m x. m \<noteq> NULL \<longrightarrow> messages s m = Some x \<longrightarrow> m_request x = request \<longrightarrow> processes U p m response s) \<and>
       (\<forall>s. buffers s wb = Some b \<longrightarrow> encodes U e wb response s bs))"

lemma app_docE:
  assumes "app_doc U h rb wb b request response bs"
  obtains d e p where "h_decode h = Some d" "h_encode h = Some e" "h_process h = Some p" "response \<noteq> NULL" "cleanup_silent U (h_packet_cleanup h)"
    "\<forall>s. buffers s rb \<noteq> None \<longrightarrow> (\<exists>b'. u_decode U d rb s = Some (XV_OK, request, s\<lparr>buffers := (buffers s)(rb \<mapsto> b')\<rparr>))"
    "\<forall>s m x. m \<noteq> NULL \<longrightarrow> messages s m = Some x \<longrightarrow> m_request x = request \<longrightarrow> processes U p m response s"
    "\<forall>s. buffers s wb = Some b \<longrightarrow> encodes U e wb response s bs"
  using assms unfolding app_doc_def by blast

text \<open>Addresses not handed out yet carry no message and no job.\<close>

definition unused :: "('k, 'z) sheap_scheme \<Rightarrow> bool" where
  "unused s \<longleftrightarrow> (\<forall>p > brk s. messages s p = None \<and> pool_tasks s p = None \<and> tasks s p = None)"

lemma incr_conn_ref:
  "xv_atomic_get (c_ref_count c) < INT_MAX \<Longrightarrow> xv_atomic_get (c_ref_count (incr_conn c)) = xv_atomic_get (c_ref_count c) + 1"
  using atomic_incr_get[OF refl, of "c_ref_count c"] by (simp add: incr_conn_def)

text \<open>The state in which a request is answered: one reference more, the read buffer consumed, the write buffer
  untouched.\<close>

lemma answerable_request:
  fixes s t :: "('k, 'z) sheap_scheme"
  assumes ok: "answerable U s conn c th l b old" and c: "connections t conn = Some (incr_conn c)"
    and f: "loops t = loops s" "pollers t = pollers s" "event_arrays t = event_arrays s" "fired_arrays t = fired_arrays s"
      "ios t = ios s" "io_threads t = io_threads s" "listeners t = listeners s"
    and b: "buffers t = (buffers s)(c_read_buffer c \<mapsto> b')"
  shows "answerable U t conn (incr_conn c) th l b old"
proof -
  have ne: "c_read_buffer c \<noteq> c_write_buffer c" "buffers s (c_write_buffer c) \<noteq> None" "conn_ok s conn c th"
    using ok by (simp_all add: answerable_def conn_ok_def)
  note k = conn_ok_frame[OF ne(3) c[unfolded incr_conn_def] f]
  have "conn_ok t conn (incr_conn c) th" "watched t (it_loop th) = watched s (it_loop th)"
    using k b ne by (simp_all add: incr_conn_def)
  then show ?thesis
    using ok ne(1) f b by (simp add: answerable_def marked_registered_def incr_conn_def)
qed

lemma answerable_after:
  fixes s t :: "('k, 'z) sheap_scheme"
  assumes ok: "answerable U s conn (incr_conn c) th l b old" and t: "conn_ok t conn c th" "marked_registered t (it_loop th) (c_write_io c)"
    and f: "listeners t = listeners s" "buffers t (c_write_buffer c) = Some b'" "readable b' = map Some old'"
  shows "answerable U t conn c th l b' old'"
  using assms by (simp add: answerable_def incr_conn_def)

text \<open>The last step of a request, whichever thread processed it: in the state \<open>v\<close> its message \<open>m\<close> holds a reference to the
  connection and the response. The message is answered and released, and the connection is as it was before the request.\<close>

lemma request_answer:
  fixes s v :: "('k, 'z) sheap_scheme"
  assumes a: "answerable U v conn (incr_conn c) th l b old" and conns: "connections v = (connections s)(conn \<mapsto> incr_conn c)" "connections s conn = Some c"
    and ref: "1 \<le> xv_atomic_get (c_ref_count c)" "xv_atomic_get (c_ref_count c) < INT_MAX"
    and m: "m \<noteq> NULL" "messages v m = Some x" "m_response x \<noteq> NULL" "m_conn x = conn"
    and l: "h_encode (ls_handle l) = Some e" "encodes U e (c_write_buffer c) (m_response x) v bs" "old @ bs \<noteq> []"
      "cleanup_silent U (h_packet_cleanup (ls_handle l))"
    and K: "write_doc K output intr" "ctl_silent K output" "fst (sys_write K (c_fd c) (old @ bs) (kern v)) \<noteq> Inl EOTHER"
  obtains u t b' old' where "process_message K U (it_loop th) m conn (c_handle c) v = Some u"
    "xv_message_destroy U u m (h_packet_cleanup (ls_handle l)) = Some t" "connections u conn = Some (incr_conn c)" "listeners u = listeners v"
    "brk t = brk v" "nodes t = nodes v" "queues t = queues v" "cqueues t = cqueues v" "connections t = connections s" "messages t = (messages v)(m := None)"
    "tasks t = tasks v" "pool_tasks t = pool_tasks v" "io_threads t = io_threads v" "answerable U t conn c th l b' old'" "buffer_wf b'"
    "output (kern t) (c_fd c) @ old' = output (kern v) (c_fd c) @ old @ bs" "old' \<noteq> [] \<longrightarrow> registered t (it_loop th) (c_write_io c)"
proof -
  have r: "1 < xv_atomic_get (c_ref_count (incr_conn c))" using incr_conn_ref[OF ref(2)] ref(1) by simp
  have ic: "c_handle (incr_conn c) = c_handle c" "c_fd (incr_conn c) = c_fd c" "c_write_buffer (incr_conn c) = c_write_buffer c"
    "c_write_io (incr_conn c) = c_write_io c" by (simp_all add: incr_conn_def)
  have enc: "encodes U e (c_write_buffer (incr_conn c)) (m_response x) v bs" using l(2) ic by simp
  show thesis
  proof (cases rule: answer_law[OF a r m l(1) enc l(3,4) K(1,2), case_names fatal sent])
    case (fatal u t)
    then show ?thesis using K(3) ic by simp
  next
    case (sent u t b')
    note f = more_sheap_l[OF w_frame_fields(4)[OF sent(3)]]
    obtain old' where o: "readable b' = map Some old'" "output (kern t) (c_fd c) @ old' = output (kern v) (c_fd c) @ old @ bs"
      using map_Some_append[OF sent(8)] ic by auto
    have "answerable U t conn c th l b' old'"
      by (rule answerable_after[OF a]) (use sent(6,10) f(6,8) o ic in simp_all)
    moreover have "connections t = connections s" using f(7) conns by (auto simp: fun_upd_idem_iff)
    moreover have "brk t = brk v" "nodes t = nodes v" "queues t = queues v" "cqueues t = cqueues v" using sent(3) by (simp_all add: w_frame_def)
    ultimately show thesis using that[of u t b' old'] sent f o ic by simp
  qed
qed

text \<open>C12. A service without workers answers a request on the spot: \<^verbatim>\<open>process_read_buffer\<close> returns with the response
  behind everything sent and buffered before, the writer registered if bytes are left, the message released
  and the reference count of the connection as it was: nothing is left behind and the connection is ready for the next request.\<close>

theorem request_answered_in_place:
  fixes s :: "('k, 'z) sheap_scheme"
  assumes ok: "answerable U s conn c th l b old" and ref: "1 \<le> xv_atomic_get (c_ref_count c)" "xv_atomic_get (c_ref_count c) < INT_MAX"
    and sv: "it_service th \<noteq> NULL" "services s (it_service th) = Some sv" "sv_worker_threads sv = NULL"
    and app: "app_doc U (ls_handle l) (c_read_buffer c) (c_write_buffer c) b request response bs" "old @ bs \<noteq> []" and new: "unused s"
    and K: "write_doc K output intr" "ctl_silent K output" "fst (sys_write K (c_fd c) (old @ bs) (kern s)) \<noteq> Inl EOTHER"
  shows "\<exists>t b' old'. process_read_buffer K U (it_loop th) conn (c_handle c) s = Some t \<and> messages t = messages s \<and>
     connections t = connections s \<and> answerable U t conn c th l b' old' \<and> buffer_wf b' \<and>
     output (kern t) (c_fd c) @ old' = output (kern s) (c_fd c) @ old @ bs \<and>
     (old' \<noteq> [] \<longrightarrow> registered t (it_loop th) (c_write_io c))"
proof -
  let ?m = "brk s + 1"
  have d: "conn \<noteq> NULL" "connections s conn = Some c" "c_io_thread c \<noteq> NULL" "io_threads s (c_io_thread c) = Some th" "c_handle c \<noteq> NULL"
    "listeners s (c_handle c) = Some l" "buffers s (c_read_buffer c) \<noteq> None" "buffers s (c_write_buffer c) = Some b" "c_read_buffer c \<noteq> c_write_buffer c"
    using ok by (simp_all add: answerable_def conn_ok_def)
  obtain dc e p where h: "h_decode (ls_handle l) = Some dc" "h_encode (ls_handle l) = Some e" "h_process (ls_handle l) = Some p"
    and cl: "response \<noteq> NULL" "cleanup_silent U (h_packet_cleanup (ls_handle l))"
    and dec: "\<forall>s. buffers s (c_read_buffer c) \<noteq> None \<longrightarrow>
       (\<exists>b'. u_decode U dc (c_read_buffer c) s = Some (XV_OK, request, s\<lparr>buffers := (buffers s)(c_read_buffer c \<mapsto> b')\<rparr>))"
    and proc: "\<forall>s m x. m \<noteq> NULL \<longrightarrow> messages s m = Some x \<longrightarrow> m_request x = request \<longrightarrow> processes U p m response s"
    and enc: "\<forall>s. buffers s (c_write_buffer c) = Some b \<longrightarrow> encodes U e (c_write_buffer c) response s bs"
    by (rule app_docE[OF app(1)])
  obtain br where br: "u_decode U dc (c_read_buffer c) s = Some (XV_OK, request, s\<lparr>buffers := (buffers s)(c_read_buffer c \<mapsto> br)\<rparr>)"
    using dec d(7) by blast
  define s1 where "s1 = s\<lparr>buffers := (buffers s)(c_read_buffer c \<mapsto> br), brk := ?m, connections := (connections s)(conn \<mapsto> incr_conn c),
    messages := (messages s)(?m \<mapsto> request_msg conn request)\<rparr>"
  define x where "x = (request_msg conn request)\<lparr>m_response := response\<rparr>"
  define s2 where "s2 = s1\<lparr>messages := (messages s)(?m \<mapsto> x)\<rparr>"
  obtain ret where pr: "u_process U p ?m s1 = Some (ret, s2)"
    using proc[rule_format, of ?m s1 "request_msg conn request"] by (auto simp: processes_def s1_def s2_def x_def request_msg_def)
  have run: "process_read_buffer K U (it_loop th) conn (c_handle c) s = do {
      u \<leftarrow> process_message K U (it_loop th) ?m conn (c_handle c) s2;
      h \<leftarrow> handle_at u (c_handle c); xv_message_destroy U u ?m (h_packet_cleanup h) }"
    using d sv h br pr
    by (simp add: process_read_buffer_def handle_at_def xv_message_init_def xv_malloc_def incr_ref_eq xv_message_set_request_def
        s1_def request_msg_def incr_conn_def Let_def)
  have a2: "answerable U s2 conn (incr_conn c) th l b old" by (rule answerable_request[OF ok]) (simp_all add: s2_def s1_def)
  have c2: "connections s2 = (connections s)(conn \<mapsto> incr_conn c)" by (simp add: s2_def s1_def)
  have m2: "?m \<noteq> NULL" "messages s2 ?m = Some x" "m_response x \<noteq> NULL" "m_conn x = conn" using cl(1) by (simp_all add: s2_def x_def request_msg_def)
  have e2: "encodes U e (c_write_buffer c) (m_response x) s2 bs" using enc[rule_format, of s2] d(8,9) by (simp add: x_def s2_def s1_def)
  have k: "kern s2 = kern s" "listeners s2 = listeners s" "(messages s2)(?m := None) = messages s"
    using new by (auto simp: s2_def s1_def unused_def fun_upd_idem_iff)
  obtain u t b' old' where t: "process_message K U (it_loop th) ?m conn (c_handle c) s2 = Some u"
    "xv_message_destroy U u ?m (h_packet_cleanup (ls_handle l)) = Some t" "connections u conn = Some (incr_conn c)" "listeners u = listeners s2"
    "brk t = brk s2" "nodes t = nodes s2" "queues t = queues s2" "cqueues t = cqueues s2" "connections t = connections s"
    "messages t = (messages s2)(?m := None)" "tasks t = tasks s2" "pool_tasks t = pool_tasks s2" "io_threads t = io_threads s2"
    "answerable U t conn c th l b' old'" "buffer_wf b'" "output (kern t) (c_fd c) @ old' = output (kern s2) (c_fd c) @ old @ bs"
    "old' \<noteq> [] \<longrightarrow> registered t (it_loop th) (c_write_io c)"
    by (rule request_answer[OF a2 c2 d(2) ref m2 h(2) e2 app(2) cl(2) K(1,2) K(3)[folded k(1)]])
  have "process_read_buffer K U (it_loop th) conn (c_handle c) s = Some t" using run t(1,2,4) d(5,6) k(2) by (simp add: handle_at_def)
  then show ?thesis using t k by (intro exI[of _ t] exI[of _ b'] exI[of _ old']) simp
qed

subsection \<open>By way of a worker\<close>

text \<open>Eventfds are written without output on any connection.\<close>

definition eventfd_silent :: "('k, 'y) sys_ops_scheme \<Rightarrow> ('k \<Rightarrow> int \<Rightarrow> byte list) \<Rightarrow> bool" where
  "eventfd_silent K output \<longleftrightarrow> (\<forall>fd n k. output (snd (eventfd_write K fd n k)) = output k)"

lemma woken_silent: "eventfd_silent K output \<Longrightarrow> woken K k k' \<Longrightarrow> output k' = output k"
  by (auto simp: eventfd_silent_def woken_def)

text \<open>Taking the only element out of a mailbox.\<close>

lemma pop_only:
  fixes s :: "('k, 'z) sheap_scheme"
  assumes mb: "mbox_ok K ctr q a s" and one: "cq_list s q = [x]"
  obtains t where "xv_concurrent_queue_size s q = Some (1, s)" "xv_concurrent_queue_pop s q = Some (x, t)" "qheap.more t = qheap.more s"
    "cq_list t = (cq_list s)(q := [])" "\<forall>q' a'. mbox_ok K ctr q' a' s \<longrightarrow> mbox_ok K ctr q' a' t"
proof -
  have d: "cq_ok s" "live_cq s q" using mb by (simp_all add: mbox_ok_def)
  obtain t where t: "xv_concurrent_queue_pop s q = Some (x, t)" "cq_ok t" "live_cq t = live_cq s" "cq_list t = (cq_list s)(q := [])"
    "qheap.more t = qheap.more s"
    using cq_pop_cons_law[OF d one] by blast
  show thesis
    by (rule that[OF _ t(1,5,4)]) (use t cq_size_law[OF d] one async_cong(1)[OF more_fields(1,2)[OF t(5)]] in \<open>simp_all add: mbox_ok_def\<close>)
qed

lemma empty_size: "mbox_ok K ctr q a s \<Longrightarrow> cq_list s q = [] \<Longrightarrow> xv_concurrent_queue_size s q = Some (0, s)"
  using cq_size_law[of s q] by (simp add: mbox_ok_def)

text \<open>A worker with one job of the service in its queue.\<close>

lemma worker_one_law:
  fixes s :: "('k, 'z) sheap_scheme"
  assumes wk: "wt \<noteq> NULL" "workers s wt = Some w" "w_start w" and as: "w_async w \<noteq> NULL" "asyncs s (w_async w) = Some aw" "as_userdata aw = wt"
    and mw: "mbox_ok K ctr (w_task_queue w) (w_async w) s" "cq_list s (w_task_queue w) = [p]"
    and p: "p \<noteq> NULL" "tasks s p = Some \<lparr>t_cb = Some Thread_pool_task_cb, t_args = task\<rparr>"
    and task: "task \<noteq> NULL" "pool_tasks s task = Some \<lparr>pt_cb = Some f, pt_message = m\<rparr>"
    and m: "m \<noteq> NULL" "messages s m = Some x" "\<And>s. messages s m = Some x \<Longrightarrow> processes U f m response s"
    and c: "m_conn x \<noteq> NULL" "connections s (m_conn x) = Some c" "c_io_thread c \<noteq> NULL" "io_threads s (c_io_thread c) = Some th"
    and mb: "mbox_ok K ctr (it_message_queue th) (it_async_return_message th) s" "w_task_queue w \<noteq> it_message_queue th"
      "int (length (cq_list s (it_message_queue th))) < INT_MAX"
  shows "\<exists>t k. worker_async_cb (task_run K U urun) wloop (w_async w) s = Some t \<and> woken K (kern s) k \<and>
     qheap.more t = qheap.more (s\<lparr>kern := k, messages := (messages s)(m \<mapsto> x\<lparr>m_response := response\<rparr>),
       pool_tasks := (pool_tasks s)(task := None), tasks := (tasks s)(p := None)\<rparr>) \<and>
     cq_list t = (cq_list s)(w_task_queue w := [], it_message_queue th := cq_list s (it_message_queue th) @ [m]) \<and>
     (\<forall>q a. mbox_ok K ctr q a s \<longrightarrow> mbox_ok K ctr q a t)"
proof -
  let ?q = "w_task_queue w" and ?mq = "it_message_queue th"
  obtain s1 where s1: "xv_concurrent_queue_size s ?q = Some (1, s)" "xv_concurrent_queue_pop s ?q = Some (p, s1)" "qheap.more s1 = qheap.more s"
    "cq_list s1 = (cq_list s)(?q := [])" "\<forall>q a. mbox_ok K ctr q a s \<longrightarrow> mbox_ok K ctr q a s1"
    by (rule pop_only[OF mw])
  note f1 = more_sheap[OF s1(3)] more_sheap_l[OF more_sheap(1)[OF s1(3)]]
  obtain s2 k where s2: "thread_pool_task_cb K U task s1 = Some s2" "woken K (kern s) k"
    "qheap.more s2 = qheap.more (s1\<lparr>kern := k, messages := (messages s)(m \<mapsto> x\<lparr>m_response := response\<rparr>), pool_tasks := (pool_tasks s)(task := None)\<rparr>)"
    "cq_list s2 = (cq_list s1)(?mq := cq_list s1 ?mq @ [m])" "\<forall>q a. mbox_ok K ctr q a s1 \<longrightarrow> mbox_ok K ctr q a s2"
    using task_cb_law[of task s1 f m x U response c th K ctr] f1 task m c s1(4,5) mb by auto
  note f2 = more_sheap[OF s2(3)] more_sheap_l[OF more_sheap(1)[OF s2(3)]]
  define t where "t = s2\<lparr>tasks := (tasks s)(p := None)\<rparr>"
  have tq: "cq_list t = cq_list s2" "\<And>q a. mbox_ok K ctr q a s2 \<Longrightarrow> mbox_ok K ctr q a t"
    by (rule cq_cong, simp_all add: t_def) (rule mbox_ok_frame(1), simp_all)
  have tw: "workers t wt = Some w" using f1 f2 wk(2) by (simp add: t_def)
  have "mbox_ok K ctr ?q (w_async w) t" using tq(2) s2(5) s1(5) mw(1) by blast
  then have "xv_concurrent_queue_size t ?q = Some (0, t)" using empty_size s1(4) s2(4) tq(1) mb(2) by fastforce
  then have "worker_drain (task_run K U urun) wt t = Some t" using wk(1) tw by (subst worker_drain.simps) simp
  then have "worker_drain (task_run K U urun) wt s = Some t"
    using wk(1,2) s1(1,2) p f1 f2 s2(1) by (subst worker_drain.simps) (simp add: task_run_def xv_free_def t_def)
  then have run: "worker_async_cb (task_run K U urun) wloop (w_async w) s = Some t"
    using as wk(1,3) tw by (simp add: worker_async_cb_def xv_async_get_userdata_def)
  have "qheap.more t = qheap.more (s\<lparr>kern := k, messages := (messages s)(m \<mapsto> x\<lparr>m_response := response\<rparr>),
       pool_tasks := (pool_tasks s)(task := None), tasks := (tasks s)(p := None)\<rparr>)"
    using s2(3) s1(3) by (cases s; cases s1; cases s2; simp add: t_def)
  then show ?thesis
    using run s2(2,4,5) s1(4,5) tq mb(2) by (intro exI[of _ t] exI[of _ k]) (auto simp: fun_upd_twist)
qed

text \<open>An I/O thread with one answered message in its queue.\<close>

lemma return_one_law:
  fixes s :: "('k, 'z) sheap_scheme"
  assumes ar: "a \<noteq> NULL" "asyncs s a = Some x" "as_userdata x = io_thread" and th: "io_thread \<noteq> NULL" "io_threads s io_thread = Some th"
    and mb: "mbox_ok K ctr (it_message_queue th) a s" "cq_list s (it_message_queue th) = [m]" "m \<noteq> NULL"
    and s1: "xv_concurrent_queue_pop s (it_message_queue th) = Some (m, s1)" "return_message K U loop m s1 = Some t"
    and t: "brk t = brk s1" "nodes t = nodes s1" "queues t = queues s1" "cqueues t = cqueues s1" "io_threads t = io_threads s"
  shows "io_thread_return_message_cb K U loop a s = Some t \<and> cq_list t = (cq_list s)(it_message_queue th := []) \<and> cq_ok t \<and> live_cq t = live_cq s"
proof -
  let ?q = "it_message_queue th"
  have d: "cq_ok s" "live_cq s ?q" using mb(1) by (simp_all add: mbox_ok_def)
  have p: "cq_ok s1" "live_cq s1 = live_cq s" "cq_list s1 = (cq_list s)(?q := [])" using cq_pop_cons_law[OF d mb(2)] s1(1) by auto
  have q: "cq_ok t" "live_cq t = live_cq s" "cq_list t = (cq_list s)(?q := [])" using cq_cong[OF t(1-4)] p by simp_all
  have "return_message_loop K U loop io_thread t = Some t"
    using th t(5) cq_size_law[OF q(1), of ?q] q(2,3) d(2) by (subst return_message_loop.simps) simp
  then have "return_message_loop K U loop io_thread s = Some t"
    using th s1 mb(2,3) cq_size_law[OF d] by (subst return_message_loop.simps) simp
  then show ?thesis using ar q by (simp add: io_thread_return_message_cb_def xv_async_get_userdata_def)
qed

text \<open>The first two steps: the message comes back with its response, and everything else but the counter of the
  connection and the read buffer is as it was.\<close>

lemma request_comes_back:
  fixes s :: "('k, 'z) sheap_scheme"
  assumes c: "conn \<noteq> NULL" "connections s conn = Some c" "c_io_thread c \<noteq> NULL" "io_threads s (c_io_thread c) = Some th"
    and sv: "it_service th \<noteq> NULL" "services s (it_service th) = Some sv" "sv_worker_threads sv \<noteq> NULL"
    and l: "c_handle c \<noteq> NULL" "listeners s (c_handle c) = Some l" "h_decode (ls_handle l) = Some d" "h_process (ls_handle l) = Some p"
      "u_decode U d (c_read_buffer c) s = Some (XV_OK, request, s\<lparr>buffers := h\<rparr>)"
      "\<forall>s m x. m \<noteq> NULL \<longrightarrow> messages s m = Some x \<longrightarrow> m_request x = request \<longrightarrow> processes U p m response s"
    and pool: "pool_ok K ctr s (sv_worker_threads sv) ths" "ths \<noteq> []"
    and w: "i = (if brk s + 2 > 16 then 1 mod length ths else 0)" "workers s (ths ! i) = Some w" "w_start w"
    and aw: "asyncs s (w_async w) = Some aw" "as_userdata aw = ths ! i"
    and mb: "mbox_ok K ctr (it_message_queue th) (it_async_return_message th) s" "w_task_queue w \<noteq> it_message_queue th"
    and empty: "cq_list s (w_task_queue w) = []" "cq_list s (it_message_queue th) = []" and new: "unused s"
  shows "\<exists>s1 s2 k k'. process_read_buffer K U loop conn (c_handle c) s = Some s1 \<and>
     worker_async_cb (task_run K U urun) wloop (w_async w) s1 = Some s2 \<and> woken K (kern s) k \<and> woken K k k' \<and>
     qheap.more s2 = qheap.more (s\<lparr>kern := k', buffers := h, connections := (connections s)(conn \<mapsto> incr_conn c),
       messages := (messages s)(brk s + 1 \<mapsto> (request_msg conn request)\<lparr>m_response := response\<rparr>)\<rparr>) \<and>
     cq_list s2 = (cq_list s)(it_message_queue th := [brk s + 1]) \<and> (\<forall>q a. mbox_ok K ctr q a s \<longrightarrow> mbox_ok K ctr q a s2)"
proof -
  let ?m = "brk s + 1" and ?q = "w_task_queue w" and ?mq = "it_message_queue th"
  obtain s1 k where s1: "process_read_buffer K U loop conn (c_handle c) s = Some s1" "woken K (kern s) k"
    "qheap.more s1 = qheap.more (s\<lparr>kern := k, buffers := h, connections := (connections s)(conn \<mapsto> incr_conn c),
       messages := (messages s)(?m \<mapsto> request_msg conn request),
       pool_tasks := (pool_tasks s)(brk s + 2 \<mapsto> \<lparr>pt_cb = Some p, pt_message = ?m\<rparr>),
       tasks := (tasks s)(brk s + 3 \<mapsto> \<lparr>t_cb = Some Thread_pool_task_cb, t_args = brk s + 2\<rparr>)\<rparr>)"
    "cq_list s1 = (cq_list s)(?q := [brk s + 3])" "\<forall>q a. mbox_ok K ctr q a s \<longrightarrow> mbox_ok K ctr q a s1"
    using read_buffer_law[OF c sv l(1-5) pool w(1,2), of loop] empty(1) by (auto simp: INT_MAX_def)
  note f = more_sheap[OF s1(3)] more_sheap_l[OF more_sheap(1)[OF s1(3)]]
  have wok: "ths ! i \<noteq> NULL" "mbox_ok K ctr ?q (w_async w) s" "w_async w \<noteq> NULL"
  proof -
    have "ths ! i \<in> set ths" using w(1) pool(2) by (intro nth_mem) (cases "length ths"; auto)
    then show "ths ! i \<noteq> NULL" "mbox_ok K ctr ?q (w_async w) s" using pool(1) w(2) by (auto simp: pool_ok_def worker_ok_def)
    then show "w_async w \<noteq> NULL" by (simp add: mbox_ok_def async_ok_def)
  qed
  obtain s2 k' where s2: "worker_async_cb (task_run K U urun) wloop (w_async w) s1 = Some s2" "woken K (kern s1) k'"
    "qheap.more s2 = qheap.more (s1\<lparr>kern := k', messages := (messages s1)(?m \<mapsto> (request_msg conn request)\<lparr>m_response := response\<rparr>),
       pool_tasks := (pool_tasks s1)(brk s + 2 := None), tasks := (tasks s1)(brk s + 3 := None)\<rparr>)"
    "cq_list s2 = (cq_list s1)(?q := [], ?mq := cq_list s1 ?mq @ [?m])" "\<forall>q a. mbox_ok K ctr q a s1 \<longrightarrow> mbox_ok K ctr q a s2"
    using worker_one_law[of "ths ! i" s1 w aw K ctr "brk s + 3" "brk s + 2" p ?m "request_msg conn request" U response "incr_conn c" th urun wloop]
      wok f w aw s1(4,5) c l(6) mb empty by (auto simp: request_msg_def incr_conn_def INT_MAX_def)
  have u: "(pool_tasks s)(brk s + 2 := None) = pool_tasks s" "(tasks s)(brk s + 3 := None) = tasks s"
    using new by (auto simp: unused_def fun_upd_idem_iff)
  have "qheap.more s2 = qheap.more (s\<lparr>kern := k', buffers := h, connections := (connections s)(conn \<mapsto> incr_conn c),
       messages := (messages s)(?m \<mapsto> (request_msg conn request)\<lparr>m_response := response\<rparr>)\<rparr>)"
    using s2(3) s1(3) u by (cases s; cases s1; cases s2; simp)
  moreover have "cq_list s2 = (cq_list s)(?mq := [?m])" using s2(4) s1(4) empty mb(2) by (auto simp: fun_eq_iff)
  ultimately show ?thesis using s1(1,2,5) s2(1,2,5) f(2) by (intro exI[of _ s1] exI[of _ s2] exI[of _ k] exI[of _ k']) simp
qed

text \<open>C10. A service with workers answers a request in three steps on two threads: \<^verbatim>\<open>process_read_buffer\<close> hands it to a
  worker, the woken worker (\<^verbatim>\<open>worker_async_cb\<close>) processes it and hands it back, and the woken I/O thread
  (\<^verbatim>\<open>io_thread_return_message_cb\<close>) sends the response. All three return; in the end the response stands behind everything
  sent and buffered before, both queues are empty again, message, job and task are released and the reference count is as
  it was.\<close>

theorem request_answered_by_worker:
  fixes s :: "('k, 'z) sheap_scheme"
  assumes ok: "answerable U s conn c th l b old" and ref: "1 \<le> xv_atomic_get (c_ref_count c)" "xv_atomic_get (c_ref_count c) < INT_MAX"
    and sv: "it_service th \<noteq> NULL" "services s (it_service th) = Some sv" "sv_worker_threads sv \<noteq> NULL"
    and pool: "pool_ok K ctr s (sv_worker_threads sv) ths" "ths \<noteq> []"
    and w: "i = (if brk s + 2 > 16 then 1 mod length ths else 0)" "workers s (ths ! i) = Some w" "w_start w"
    and aw: "asyncs s (w_async w) = Some aw" "as_userdata aw = ths ! i"
    and ar: "asyncs s (it_async_return_message th) = Some ar" "as_userdata ar = c_io_thread c"
    and mb: "mbox_ok K ctr (it_message_queue th) (it_async_return_message th) s" "w_task_queue w \<noteq> it_message_queue th"
    and empty: "cq_list s (w_task_queue w) = []" "cq_list s (it_message_queue th) = []"
    and app: "app_doc U (ls_handle l) (c_read_buffer c) (c_write_buffer c) b request response bs" "old @ bs \<noteq> []" and new: "unused s"
    and K: "write_doc K output intr" "ctl_silent K output" "eventfd_silent K output"
      "\<forall>k k'. woken K (kern s) k \<longrightarrow> woken K k k' \<longrightarrow> fst (sys_write K (c_fd c) (old @ bs) k') \<noteq> Inl EOTHER"
  shows "\<exists>s1 s2 t b' old'. process_read_buffer K U (it_loop th) conn (c_handle c) s = Some s1 \<and>
     worker_async_cb (task_run K U urun) wloop (w_async w) s1 = Some s2 \<and>
     io_thread_return_message_cb K U (it_loop th) (it_async_return_message th) s2 = Some t \<and>
     messages t = messages s \<and> connections t = connections s \<and> tasks t = tasks s \<and> pool_tasks t = pool_tasks s \<and>
     cq_list t = cq_list s \<and> answerable U t conn c th l b' old' \<and> buffer_wf b' \<and>
     output (kern t) (c_fd c) @ old' = output (kern s) (c_fd c) @ old @ bs \<and>
     (old' \<noteq> [] \<longrightarrow> registered t (it_loop th) (c_write_io c))"
proof -
  let ?m = "brk s + 1" and ?mq = "it_message_queue th" and ?ra = "it_async_return_message th"
  have d: "conn \<noteq> NULL" "connections s conn = Some c" "c_io_thread c \<noteq> NULL" "io_threads s (c_io_thread c) = Some th" "c_handle c \<noteq> NULL"
    "listeners s (c_handle c) = Some l" "buffers s (c_read_buffer c) \<noteq> None" "buffers s (c_write_buffer c) = Some b" "c_read_buffer c \<noteq> c_write_buffer c"
    using ok by (simp_all add: answerable_def conn_ok_def)
  obtain dc e p where h: "h_decode (ls_handle l) = Some dc" "h_encode (ls_handle l) = Some e" "h_process (ls_handle l) = Some p"
    and cl: "response \<noteq> NULL" "cleanup_silent U (h_packet_cleanup (ls_handle l))"
    and dec: "\<forall>s. buffers s (c_read_buffer c) \<noteq> None \<longrightarrow>
       (\<exists>b'. u_decode U dc (c_read_buffer c) s = Some (XV_OK, request, s\<lparr>buffers := (buffers s)(c_read_buffer c \<mapsto> b')\<rparr>))"
    and proc: "\<forall>s m x. m \<noteq> NULL \<longrightarrow> messages s m = Some x \<longrightarrow> m_request x = request \<longrightarrow> processes U p m response s"
    and enc: "\<forall>s. buffers s (c_write_buffer c) = Some b \<longrightarrow> encodes U e (c_write_buffer c) response s bs"
    by (rule app_docE[OF app(1)])
  obtain br where br: "u_decode U dc (c_read_buffer c) s = Some (XV_OK, request, s\<lparr>buffers := (buffers s)(c_read_buffer c \<mapsto> br)\<rparr>)"
    using dec d(7) by blast
  define x where "x = (request_msg conn request)\<lparr>m_response := response\<rparr>"
  obtain s1 s2 k k' where s2: "process_read_buffer K U (it_loop th) conn (c_handle c) s = Some s1"
    "worker_async_cb (task_run K U urun) wloop (w_async w) s1 = Some s2" "woken K (kern s) k" "woken K k k'"
    "qheap.more s2 = qheap.more (s\<lparr>kern := k', buffers := (buffers s)(c_read_buffer c \<mapsto> br), connections := (connections s)(conn \<mapsto> incr_conn c),
       messages := (messages s)(?m \<mapsto> x)\<rparr>)"
    "cq_list s2 = (cq_list s)(?mq := [?m])" "\<forall>q a. mbox_ok K ctr q a s \<longrightarrow> mbox_ok K ctr q a s2"
    unfolding x_def
    using request_comes_back[OF d(1-4) sv d(5,6) h(1,3) br proc pool w aw mb empty new, of "it_loop th" urun wloop] by blast
  have mb2: "mbox_ok K ctr ?mq ?ra s2" "cq_list s2 ?mq = [?m]" using s2(6,7) mb(1) by simp_all
  obtain s3 where s3: "xv_concurrent_queue_pop s2 ?mq = Some (?m, s3)" "qheap.more s3 = qheap.more s2"
    by (rule pop_only[OF mb2])
  note more = s3(2)[unfolded s2(5)]
  note f2 = more_sheap[OF s2(5)] more_sheap_l[OF more_sheap(1)[OF s2(5)]] and f3 = more_sheap[OF more] more_sheap_l[OF more_sheap(1)[OF more]]
  have a: "answerable U s3 conn (incr_conn c) th l b old" by (rule answerable_request[OF ok]) (simp_all add: f3)
  have m3: "?m \<noteq> NULL" "messages s3 ?m = Some x" "m_response x \<noteq> NULL" "m_conn x = conn" using cl(1) f3 by (simp_all add: x_def request_msg_def)
  have e3: "encodes U e (c_write_buffer c) (m_response x) s3 bs" using enc[rule_format, of s3] d(8,9) f3 by (simp add: x_def)
  have k: "kern s3 = k'" "output k' = output (kern s)" "fst (sys_write K (c_fd c) (old @ bs) (kern s3)) \<noteq> Inl EOTHER"
    using f3(2) K(4) s2(3,4) woken_silent[OF K(3) s2(3)] woken_silent[OF K(3) s2(4)] by simp_all
  have c3: "connections s3 = (connections s)(conn \<mapsto> incr_conn c)" using f3 by simp
  obtain u t b' old' where t: "process_message K U (it_loop th) ?m conn (c_handle c) s3 = Some u"
    "xv_message_destroy U u ?m (h_packet_cleanup (ls_handle l)) = Some t" "connections u conn = Some (incr_conn c)" "listeners u = listeners s3"
    "brk t = brk s3" "nodes t = nodes s3" "queues t = queues s3" "cqueues t = cqueues s3" "connections t = connections s"
    "messages t = (messages s3)(?m := None)" "tasks t = tasks s3" "pool_tasks t = pool_tasks s3" "io_threads t = io_threads s3"
    "answerable U t conn c th l b' old'" "buffer_wf b'" "output (kern t) (c_fd c) @ old' = output (kern s3) (c_fd c) @ old @ bs"
    "old' \<noteq> [] \<longrightarrow> registered t (it_loop th) (c_write_io c)"
    by (rule request_answer[OF a c3 d(2) ref m3 h(2) e3 app(2) cl(2) K(1,2) k(3)])
  have ra: "?ra \<noteq> NULL" using mb(1) by (simp add: mbox_ok_def async_ok_def)
  have a3: "conn_ok s3 conn (incr_conn c) th" "c_status (incr_conn c) = XV_CONN_OPEN" "listeners s3 (c_handle c) = Some l" "c_handle (incr_conn c) = c_handle c"
    using a by (simp_all add: answerable_def incr_conn_def)
  have rm: "return_message K U (it_loop th) ?m s3 = Some t"
    using return_message_run[OF a3(1,2) m3(1,2,4), of K U "it_loop th" u "incr_conn c" l] t(1-4) a3 by simp
  have "io_thread_return_message_cb K U (it_loop th) ?ra s2 = Some t \<and> cq_list t = (cq_list s2)(?mq := [])"
    using return_one_law[OF ra _ ar(2) d(3) _ mb2 m3(1) s3(1) rm t(5-8)] f2 f3 t(13) ar(1) d(4) by simp
  then have run: "io_thread_return_message_cb K U (it_loop th) ?ra s2 = Some t" "cq_list t = cq_list s"
    using s2(6) empty(2) by (auto simp: fun_upd_idem_iff)
  have "messages t = messages s" "tasks t = tasks s" "pool_tasks t = pool_tasks s"
    using t(10-12) f3 new by (auto simp: unused_def fun_upd_idem_iff)
  then show ?thesis
    using s2(1,2) run t k by (intro exI[of _ s1] exI[of _ s2] exI[of _ t] exI[of _ b'] exI[of _ old']) simp
qed

subsection \<open>The example service answers\<close>

lemma ex_app: "app_doc ex_user ex_handle 43 44 (xv_buffer_init 8192) 8 9 [10, 20, 30]"
proof -
  obtain b' where b': "xv_buffer_write_data (xv_buffer_init 8192) [10, 20, 30] 3 = Some (3, b')" "buffer_wf b'"
    "readable b' = map Some [10, 20, 30]"
    by (rule write_data_law[OF ex_buffer_wf, of "[10, 20, 30]"]) (simp_all add: ex_buffer_size INT_MAX_def)
  have "\<exists>b'. u_decode ex_user 0 43 s = Some (XV_OK, 8, s\<lparr>buffers := (buffers s)(43 \<mapsto> b')\<rparr>)" if "buffers s 43 \<noteq> None" for s
    using that by (auto simp: ex_user_def buffer_upd_def)
  moreover have "processes ex_user 2 m 9 s" if "m \<noteq> NULL" "messages s m = Some x" for s m x
    using that by (simp add: processes_def ex_user_def xv_message_set_response_def)
  moreover have "encodes ex_user 1 44 9 s [10, 20, 30]" if "buffers s 44 = Some (xv_buffer_init 8192)" for s
    using that b' unfolding encodes_def
    by (intro exI[of _ 0] exI[of _ "xv_buffer_init 8192"] exI[of _ b']) (simp add: ex_user_def buffer_upd_def)
  ultimately show ?thesis
    unfolding app_doc_def ex_handle_def by (simp add: cleanup_silent_def)
qed

lemma ex_svc_answerable:
  fixes t :: "sim_os sheap"
  assumes "loops t = loops ex_svc" "pollers t = pollers ex_svc" "event_arrays t = event_arrays ex_svc" "fired_arrays t = fired_arrays ex_svc"
    "ios t = ios ex_svc" "io_threads t = io_threads ex_svc" "listeners t = listeners ex_svc" "buffers t = buffers ex_svc" "connections t = connections ex_svc"
  shows "\<exists>l. answerable ex_user t 40 ex_conn ex_thread l (xv_buffer_init 8192) [] \<and> ls_handle l = ex_handle"
proof -
  obtain l where l: "listeners ex_svc 50 = Some l" "ls_handle l = ex_handle" using ex_listener by blast
  have "conn_ok t 40 (ex_conn\<lparr>c_ref_count := c_ref_count ex_conn\<rparr>) ex_thread"
    by (rule conn_ok_frame(1)[OF ex_conn_ok]) (use ex_conn_ok assms in \<open>simp_all add: conn_ok_def\<close>)
  then show ?thesis
    using l ex_writer ex_buffers assms
    by (intro exI[of _ l]) (simp add: answerable_def ex_conn_def marked_registered_def ex_io_def ex_handle_def)
qed

lemma ex_unused: "unused ex_svc"
  by (simp add: unused_def ex_svc_facts ex_svc_more) (simp add: ex_svc0_def)

lemma ex_write_ok: "os_intr k = 0 \<Longrightarrow> fst (sys_write sim_sys fd bs k) \<noteq> Inl EOTHER"
  by (simp add: sim_sys_def os_write_def Let_def)

theorem request_answered_in_place_witness:
  "\<exists>t b' old'. process_read_buffer sim_sys ex_user 30 40 50 ex_svc = Some t \<and> messages t = messages ex_svc \<and>
     connections t = connections ex_svc \<and> buffers t 44 = Some b' \<and> readable b' = map Some old' \<and> os_out (kern t) 5 @ old' = [10, 20, 30]"
proof -
  obtain l where l: "answerable ex_user ex_svc 40 ex_conn ex_thread l (xv_buffer_init 8192) []" "ls_handle l = ex_handle"
    using ex_svc_answerable[of ex_svc] by auto
  have c: "c_read_buffer ex_conn = 43" "c_write_buffer ex_conn = 44" "c_fd ex_conn = 5" "c_handle ex_conn = 50" "it_loop ex_thread = 30"
    "it_service ex_thread = 70" "xv_atomic_get (c_ref_count ex_conn) = 1" "sv_worker_threads ex_sv = NULL"
    by (simp_all add: ex_conn_def ex_thread_def ex_sv_def xv_atomic_get_def)
  have sv: "services ex_svc 70 = Some ex_sv" by (simp add: ex_svc_more) (simp add: ex_svc0_def)
  have app: "app_doc ex_user (ls_handle l) (c_read_buffer ex_conn) (c_write_buffer ex_conn) (xv_buffer_init 8192) 8 9 [10, 20, 30]"
    using ex_app by (simp add: l(2) c)
  obtain t b' old' where t: "process_read_buffer sim_sys ex_user 30 40 50 ex_svc = Some t" "messages t = messages ex_svc"
    "connections t = connections ex_svc" "answerable ex_user t 40 ex_conn ex_thread l b' old'"
    "os_out (kern t) 5 @ old' = os_out (kern ex_svc) 5 @ [] @ [10, 20, 30]"
    using request_answered_in_place[OF l(1) _ _ _ _ _ app _ ex_unused sim_write_doc sim_ctl_silent, of ex_sv] sv ex_write_ok ex_kern(1)
    by (auto simp: c INT_MAX_def)
  then show ?thesis
    using ex_kern(3) c(2) by (intro exI[of _ t] exI[of _ b'] exI[of _ old']) (simp add: answerable_def)
qed

text \<open>The example service with one worker, 7, started, whose async object is 1.\<close>

definition ex_round :: "sim_os sheap" where
  "ex_round = ex_svc\<lparr>services := [70 \<mapsto> ex_sv\<lparr>sv_worker_threads := 90\<rparr>],
     asyncs := (asyncs ex_svc)(1 \<mapsto> \<lparr>as_evfd = 6, as_cb = Some Worker_async_cb, as_userdata = 7, as_read_io = 46\<rparr>),
     workers := [7 \<mapsto> (ex_worker 101 1)\<lparr>w_start := True\<rparr>],
     pools := [90 \<mapsto> \<lparr>tp_threads = 91, tp_thread_count = 1, tp_start = False\<rparr>], thread_arrays := [91 \<mapsto> [Some 7]]\<rparr>"

lemma sim_eventfd_silent: "eventfd_silent sim_sys os_out"
  by (auto simp: eventfd_silent_def sim_sys_def split: option.split)

lemma sim_woken_intr: "woken sim_sys k k' \<Longrightarrow> os_intr k' = os_intr k"
  by (auto simp: woken_def sim_sys_def split: option.split)

theorem request_answered_by_worker_witness:
  "\<exists>s1 s2 t b' old'. process_read_buffer sim_sys ex_user 30 40 50 ex_round = Some s1 \<and>
     worker_async_cb (task_run sim_sys ex_user (\<lambda>_ _. Some)) 11 1 s1 = Some s2 \<and> io_thread_return_message_cb sim_sys ex_user 30 2 s2 = Some t \<and>
     messages t = messages ex_round \<and> connections t = connections ex_round \<and> cq_list t = cq_list ex_round \<and>
     buffers t 44 = Some b' \<and> readable b' = map Some old' \<and> os_out (kern t) 5 @ old' = [10, 20, 30]"
proof -
  let ?w = "(ex_worker 101 1)\<lparr>w_start := True\<rparr>" and ?sv = "ex_sv\<lparr>sv_worker_threads := 90\<rparr>"
  obtain l where l: "answerable ex_user ex_round 40 ex_conn ex_thread l (xv_buffer_init 8192) []" "ls_handle l = ex_handle"
    using ex_svc_answerable[of ex_round] by (auto simp: ex_round_def)
  have c: "c_read_buffer ex_conn = 43" "c_write_buffer ex_conn = 44" "c_fd ex_conn = 5" "c_handle ex_conn = 50" "it_loop ex_thread = 30"
    "it_service ex_thread = 70" "xv_atomic_get (c_ref_count ex_conn) = 1" "c_io_thread ex_conn = 60" "it_message_queue ex_thread = 103"
    "it_async_return_message ex_thread = 2" "w_task_queue ?w = 101" "w_async ?w = 1" "w_start ?w"
    by (simp_all add: ex_conn_def ex_thread_def ex_worker_def xv_atomic_get_def)
  have cq: "cq_list ex_round = cq_list ex_svc" "cq_ok ex_round = cq_ok ex_svc" "live_cq ex_round = live_cq ex_svc"
    by (rule cq_cong; simp add: ex_round_def)+
  have as: "asyncs ex_round 1 = Some \<lparr>as_evfd = 6, as_cb = Some Worker_async_cb, as_userdata = 7, as_read_io = 46\<rparr>"
    "asyncs ex_round 2 = Some \<lparr>as_evfd = 7, as_cb = Some Io_thread_return_message_cb, as_userdata = 60, as_read_io = 47\<rparr>" "kern ex_round = kern ex_svc"
    by (simp_all add: ex_round_def ex_svc_more) (simp_all add: ex_svc0_def)
  have ctr: "sim_counter (kern ex_svc) 6 = Some 0" "sim_counter (kern ex_svc) 7 = Some 0"
    by (simp_all add: ex_svc_more) (simp_all add: ex_svc0_def sim_counter_def)
  have mb: "mbox_ok sim_sys sim_counter 101 1 ex_round" "mbox_ok sim_sys sim_counter 103 2 ex_round"
    using sim_eventfd_doc cq ex_svc_facts as ctr by (simp_all add: mbox_ok_def async_ok_def)
  have wk: "workers ex_round 7 = Some ?w" "services ex_round 70 = Some ?sv" "brk ex_round = 104" by (simp_all add: ex_round_def ex_svc_facts)
  have pool: "pool_ok sim_sys sim_counter ex_round 90 [7]"
  proof -
    have "worker_ok sim_sys sim_counter ex_round 7 ?w" using mb wk by (simp add: worker_ok_def ex_worker_def)
    moreover have "pools ex_round 90 = Some \<lparr>tp_threads = 91, tp_thread_count = 1, tp_start = False\<rparr>" "thread_arrays ex_round 91 = Some [Some 7]"
      by (simp_all add: ex_round_def)
    ultimately show ?thesis by (auto simp: pool_ok_def)
  qed
  have app: "app_doc ex_user (ls_handle l) (c_read_buffer ex_conn) (c_write_buffer ex_conn) (xv_buffer_init 8192) 8 9 [10, 20, 30]"
    using ex_app by (simp add: l(2) c)
  have un: "unused ex_round" using ex_unused by (simp add: unused_def ex_round_def)
  have wr: "\<forall>k k'. woken sim_sys (kern ex_round) k \<longrightarrow> woken sim_sys k k' \<longrightarrow> fst (sys_write sim_sys 5 ([] @ [10, 20, 30]) k') \<noteq> Inl EOTHER"
    using ex_write_ok sim_woken_intr ex_kern(1) as(3) by metis
  have "\<exists>s1 s2 t b' old'. process_read_buffer sim_sys ex_user (it_loop ex_thread) 40 (c_handle ex_conn) ex_round = Some s1 \<and>
     worker_async_cb (task_run sim_sys ex_user (\<lambda>_ _. Some)) 11 (w_async ?w) s1 = Some s2 \<and>
     io_thread_return_message_cb sim_sys ex_user (it_loop ex_thread) (it_async_return_message ex_thread) s2 = Some t \<and>
     messages t = messages ex_round \<and> connections t = connections ex_round \<and> tasks t = tasks ex_round \<and> pool_tasks t = pool_tasks ex_round \<and>
     cq_list t = cq_list ex_round \<and> answerable ex_user t 40 ex_conn ex_thread l b' old' \<and> buffer_wf b' \<and>
     os_out (kern t) (c_fd ex_conn) @ old' = os_out (kern ex_round) (c_fd ex_conn) @ [] @ [10, 20, 30] \<and>
     (old' \<noteq> [] \<longrightarrow> registered t (it_loop ex_thread) (c_write_io ex_conn))"
    by (rule request_answered_by_worker[where sv = ?sv and ctr = sim_counter and ths = "[7]" and i = 0 and intr = os_intr
        and aw = "\<lparr>as_evfd = 6, as_cb = Some Worker_async_cb, as_userdata = 7, as_read_io = 46\<rparr>"
        and ar = "\<lparr>as_evfd = 7, as_cb = Some Io_thread_return_message_cb, as_userdata = 60, as_read_io = 47\<rparr>", OF l(1)])
       (use c as mb wk pool app un wr cq ex_svc_facts sim_write_doc sim_ctl_silent sim_eventfd_silent in \<open>simp_all add: INT_MAX_def\<close>)
  then obtain s1 s2 t b' old' where t: "process_read_buffer sim_sys ex_user 30 40 50 ex_round = Some s1"
    "worker_async_cb (task_run sim_sys ex_user (\<lambda>_ _. Some)) 11 1 s1 = Some s2" "io_thread_return_message_cb sim_sys ex_user 30 2 s2 = Some t"
    "messages t = messages ex_round" "connections t = connections ex_round" "cq_list t = cq_list ex_round" "answerable ex_user t 40 ex_conn ex_thread l b' old'"
    "os_out (kern t) 5 @ old' = os_out (kern ex_round) 5 @ [] @ [10, 20, 30]"
    unfolding c by blast
  then show ?thesis
    using ex_kern(3) as(3) c(2) by (intro exI[of _ s1] exI[of _ s2] exI[of _ t] exI[of _ b'] exI[of _ old']) (simp add: answerable_def)
qed

end
