(* ===== verification/Xv_Lifecycle.thy ===== *)
theory Xv_Lifecycle
  imports Xv_Answer
begin

section \<open>The life of a service\<close>

text \<open>
  Creating a service allocates, for each I/O thread, thirteen objects in a row, and nine for each worker; the theorems follow them from
  \<^verbatim>\<open>xv_service_init\<close> to \<^verbatim>\<open>xv_service_destroy\<close>.
\<close>

subsection \<open>The objects of an I/O thread\<close>

text \<open>The thread at address \<open>p\<close> and its objects: the loop with its poller and two arrays, a queue and an async object
  with its watcher for connections, and the same for messages.\<close>

definition new_thread :: "addr \<Rightarrow> int \<Rightarrow> addr \<Rightarrow> xv_io_thread_t" where
  "new_thread p i service = \<lparr>it_idx = i, it_id = None, it_loop = p + 1, it_service = service,
     it_async_add_conn = p + 7, it_conn_queue = p + 5, it_async_return_message = p + 11, it_message_queue = p + 9\<rparr>"

definition new_loop :: "addr \<Rightarrow> xv_loop_t" where
  "new_loop p = \<lparr>l_poller_data = p + 2, l_events = p + 3, l_fired_events = p + 4, l_setsize = XV_DEFAULT_LOOP_SIZE, l_start = True\<rparr>"

definition new_async :: "int \<Rightarrow> async_cb \<Rightarrow> addr \<Rightarrow> addr \<Rightarrow> xv_async_t" where
  "new_async fd cb p io = \<lparr>as_evfd = fd, as_cb = Some cb, as_userdata = p, as_read_io = io\<rparr>"

definition empty_queue :: xv_queue_t where
  "empty_queue = \<lparr>q_head = NULL, q_tail = NULL, q_size = 0\<rparr>"

definition add_thread ::
  "addr \<Rightarrow> int \<Rightarrow> addr \<Rightarrow> int \<Rightarrow> int \<Rightarrow> int \<Rightarrow> 'k \<Rightarrow> ('k, 'z) sheap_scheme \<Rightarrow> ('k, 'z) sheap_scheme" where
  "add_thread p i service epfd e1 e2 k s = s\<lparr>brk := p + 12,
     queues := (queues s)(p + 6 \<mapsto> empty_queue, p + 10 \<mapsto> empty_queue),
     cqueues := (cqueues s)(p + 5 \<mapsto> \<lparr>cq_queue = p + 6, cq_mutex = False\<rparr>, p + 9 \<mapsto> \<lparr>cq_queue = p + 10, cq_mutex = False\<rparr>),
     kern := k, pollers := (pollers s)(p + 2 \<mapsto>
       \<lparr>p_epfd = epfd, p_setsize = XV_DEFAULT_LOOP_SIZE, p_events = replicate (nat XV_DEFAULT_LOOP_SIZE) None\<rparr>),
     fired_arrays := (fired_arrays s)(p + 4 \<mapsto> replicate (nat XV_DEFAULT_LOOP_SIZE) None),
     ios := (ios s)(p + 8 \<mapsto> new_io e1 XV_READ Common_async_cb (p + 7), p + 12 \<mapsto> new_io e2 XV_READ Common_async_cb (p + 11)),
     loops := (loops s)(p + 1 \<mapsto> new_loop p),
     event_arrays := (event_arrays s)(p + 3 \<mapsto> replicate (nat XV_DEFAULT_LOOP_SIZE) empty_slot),
     asyncs := (asyncs s)(p + 7 \<mapsto> new_async e1 Io_thread_add_conn_cb p (p + 8),
       p + 11 \<mapsto> new_async e2 Io_thread_return_message_cb p (p + 12)),
     io_threads := (io_threads s)(p \<mapsto> new_thread p i service)\<rparr>"

lemma io_thread_init_eq:
  assumes "epoll_create K XV_DEFAULT_LOOP_SIZE (kern s) = (epfd, k1)" "sys_eventfd K k1 = (e1, k2)" "sys_eventfd K k2 = (e2, k3)" "0 \<le> e1" "0 \<le> e2"
  shows "xv_io_thread_init K s i service = Some (brk s + 1, add_thread (brk s + 1) i service epfd e1 e2 k3 s)"
  using assms
  by (cases s) (simp add: xv_io_thread_init_def xv_malloc_def xv_loop_init_def xv_poller_init_def xv_concurrent_queue_init_def xv_queue_init_def
      xv_async_init_def xv_async_set_userdata_def xv_io_init_def xv_io_set_userdata_def add_thread_def new_thread_def new_loop_def new_async_def
      empty_queue_def new_io_def Let_def eval_nat_numeral)

definition del_thread :: "addr \<Rightarrow> 'k \<Rightarrow> ('k, 'z) sheap_scheme \<Rightarrow> ('k, 'z) sheap_scheme" where
  "del_thread p k s = s\<lparr>queues := (queues s)(p + 6 := None, p + 10 := None), cqueues := (cqueues s)(p + 5 := None, p + 9 := None),
     kern := k, pollers := (pollers s)(p + 2 := None), fired_arrays := (fired_arrays s)(p + 4 := None),
     ios := (ios s)(p + 8 := None, p + 12 := None), loops := (loops s)(p + 1 := None), event_arrays := (event_arrays s)(p + 3 := None),
     asyncs := (asyncs s)(p + 7 := None, p + 11 := None), io_threads := (io_threads s)(p := None)\<rparr>"

text \<open>The thread at \<open>p\<close> with all its objects, as they were created.\<close>

definition thread_repr :: "('k, 'z) sheap_scheme \<Rightarrow> addr \<Rightarrow> int \<Rightarrow> addr \<Rightarrow> bool" where
  "thread_repr s p i service \<longleftrightarrow> p \<noteq> NULL \<and> io_threads s p = Some (new_thread p i service) \<and> loops s (p + 1) = Some (new_loop p) \<and>
     (\<exists>epfd. pollers s (p + 2) = Some \<lparr>p_epfd = epfd, p_setsize = XV_DEFAULT_LOOP_SIZE, p_events = replicate (nat XV_DEFAULT_LOOP_SIZE) None\<rparr>) \<and>
     event_arrays s (p + 3) = Some (replicate (nat XV_DEFAULT_LOOP_SIZE) empty_slot) \<and>
     fired_arrays s (p + 4) = Some (replicate (nat XV_DEFAULT_LOOP_SIZE) None) \<and>
     queues s (p + 6) = Some empty_queue \<and> queues s (p + 10) = Some empty_queue \<and>
     cqueues s (p + 5) = Some \<lparr>cq_queue = p + 6, cq_mutex = False\<rparr> \<and> cqueues s (p + 9) = Some \<lparr>cq_queue = p + 10, cq_mutex = False\<rparr> \<and>
     (\<exists>e. asyncs s (p + 7) = Some (new_async e Io_thread_add_conn_cb p (p + 8)) \<and> ios s (p + 8) = Some (new_io e XV_READ Common_async_cb (p + 7))) \<and>
     (\<exists>e. asyncs s (p + 11) = Some (new_async e Io_thread_return_message_cb p (p + 12)) \<and>
       ios s (p + 12) = Some (new_io e XV_READ Common_async_cb (p + 11)))"

lemma add_thread_repr: "p \<noteq> NULL \<Longrightarrow> thread_repr (add_thread p i service epfd e1 e2 k s) p i service"
  by (auto simp: thread_repr_def add_thread_def)

lemma io_thread_destroy_eq:
  assumes "thread_repr s p i service"
  shows "\<exists>k. xv_io_thread_destroy K s p = Some (del_thread p k s)"
proof -
  obtain epfd e1 e2 where r: "p \<noteq> NULL" "io_threads s p = Some (new_thread p i service)" "loops s (p + 1) = Some (new_loop p)"
    "pollers s (p + 2) = Some \<lparr>p_epfd = epfd, p_setsize = XV_DEFAULT_LOOP_SIZE, p_events = replicate (nat XV_DEFAULT_LOOP_SIZE) None\<rparr>"
    "event_arrays s (p + 3) = Some (replicate (nat XV_DEFAULT_LOOP_SIZE) empty_slot)"
    "fired_arrays s (p + 4) = Some (replicate (nat XV_DEFAULT_LOOP_SIZE) None)"
    "queues s (p + 6) = Some empty_queue" "queues s (p + 10) = Some empty_queue"
    "cqueues s (p + 5) = Some \<lparr>cq_queue = p + 6, cq_mutex = False\<rparr>" "cqueues s (p + 9) = Some \<lparr>cq_queue = p + 10, cq_mutex = False\<rparr>"
    "asyncs s (p + 7) = Some (new_async e1 Io_thread_add_conn_cb p (p + 8))" "ios s (p + 8) = Some (new_io e1 XV_READ Common_async_cb (p + 7))"
    "asyncs s (p + 11) = Some (new_async e2 Io_thread_return_message_cb p (p + 12))" "ios s (p + 12) = Some (new_io e2 XV_READ Common_async_cb (p + 11))"
    using assms unfolding thread_repr_def by blast
  show ?thesis
    using r
    by (cases s) (simp add: xv_io_thread_destroy_def xv_concurrent_queue_destroy_def xv_queue_destroy_def destroy_nodes.simps xv_free_def
        xv_async_destroy_def xv_io_destroy_def xv_loop_destroy_def xv_poller_destroy_def new_thread_def new_loop_def new_async_def new_io_def
        empty_queue_def del_thread_def case_prod_beta Let_def)
qed

text \<open>Two heaps that differ in the objects of the threads at \<open>ps\<close> only (and in the objects of the service itself).\<close>

definition eq_off :: "addr set \<Rightarrow> (addr \<Rightarrow> 'a) \<Rightarrow> (addr \<Rightarrow> 'a) \<Rightarrow> bool" where
  "eq_off A f g \<longleftrightarrow> (\<forall>a. a \<notin> A \<longrightarrow> f a = g a)"

definition away :: "('k, 'z) sheap_scheme \<Rightarrow> ('k, 'z) sheap_scheme \<Rightarrow> addr set \<Rightarrow> bool" where
  "away s t ps \<longleftrightarrow> eq_off ps (io_threads t) (io_threads s) \<and> eq_off ((\<lambda>p. p + 1) ` ps) (loops t) (loops s) \<and>
     eq_off ((\<lambda>p. p + 2) ` ps) (pollers t) (pollers s) \<and> eq_off ((\<lambda>p. p + 3) ` ps) (event_arrays t) (event_arrays s) \<and>
     eq_off ((\<lambda>p. p + 4) ` ps) (fired_arrays t) (fired_arrays s) \<and>
     eq_off ((\<lambda>p. p + 5) ` ps \<union> (\<lambda>p. p + 9) ` ps) (cqueues t) (cqueues s) \<and>
     eq_off ((\<lambda>p. p + 6) ` ps \<union> (\<lambda>p. p + 10) ` ps) (queues t) (queues s) \<and>
     eq_off ((\<lambda>p. p + 7) ` ps \<union> (\<lambda>p. p + 11) ` ps) (asyncs t) (asyncs s) \<and>
     eq_off ((\<lambda>p. p + 8) ` ps \<union> (\<lambda>p. p + 12) ` ps) (ios t) (ios s) \<and>
     nodes t = nodes s \<and> tasks t = tasks s \<and> workers t = workers s \<and> pools t = pools s \<and> thread_arrays t = thread_arrays s \<and>
     buffers t = buffers s \<and> connections t = connections s \<and> listeners t = listeners s \<and> messages t = messages s \<and>
     pool_tasks t = pool_tasks s \<and> sheap.more t = sheap.more s"

definition blank_above :: "addr \<Rightarrow> ('k, 'z) sheap_scheme \<Rightarrow> bool" where
  "blank_above b s \<longleftrightarrow> (\<forall>a > b. nodes s a = None \<and> queues s a = None \<and> cqueues s a = None \<and> pollers s a = None \<and> fired_arrays s a = None \<and>
     ios s a = None \<and> loops s a = None \<and> event_arrays s a = None \<and> asyncs s a = None \<and> io_threads s a = None \<and>
     io_thread_arrays s a = None \<and> conn_arrays s a = None \<and> services s a = None \<and> pools s a = None \<and> workers s a = None \<and> thread_arrays s a = None)"

lemma away_refl: "away s s {}"
  by (simp add: away_def eq_off_def)

lemma away_add: "away s t ps \<Longrightarrow> away s (add_thread p i service epfd e1 e2 k t) (insert p ps)"
  by (simp add: away_def eq_off_def add_thread_def)

lemma away_del: "away s t (insert p ps) \<Longrightarrow> blank_above b s \<Longrightarrow> b < p \<Longrightarrow> away s (del_thread p k t) ps"
  by (simp add: away_def eq_off_def del_thread_def blank_above_def)

lemma away_trans: "away s t ps \<Longrightarrow> away t u qs \<Longrightarrow> away s u (ps \<union> qs)"
  by (simp add: away_def eq_off_def image_Un)

text \<open>Threads whose objects do not overlap do not disturb each other.\<close>

definition apart :: "addr \<Rightarrow> addr \<Rightarrow> bool" where
  "apart p q \<longleftrightarrow> p + 12 < q \<or> q + 12 < p"

lemma repr_away:
  assumes r: "thread_repr s p i service" and a: "away s t ps" and d: "\<forall>q \<in> ps. apart p q"
  shows "thread_repr t p i service"
proof -
  have off: "p + m \<notin> (\<lambda>q. q + n) ` ps" if "m \<le> 12" "n \<le> 12" for m n using d that by (fastforce simp: apart_def)
  have off0: "p \<notin> ps" using d by (auto simp: apart_def)
  show ?thesis
    using r a off0 off off[of 1 1, simplified] off[of 2 2, simplified] unfolding thread_repr_def away_def eq_off_def by simp
qed

subsection \<open>Creating and destroying the threads\<close>

text \<open>The process has descriptors to spare.\<close>

definition fds_available :: "('k, 'y) sys_ops_scheme \<Rightarrow> bool" where
  "fds_available K \<longleftrightarrow> (\<forall>k. 0 \<le> fst (sys_eventfd K k))"

lemma thread_init_law:
  assumes "fds_available K"
  shows "\<exists>epfd e1 e2 k. xv_io_thread_init K s i service = Some (brk s + 1, add_thread (brk s + 1) i service epfd e1 e2 k s)"
proof -
  obtain epfd k1 where k1: "epoll_create K XV_DEFAULT_LOOP_SIZE (kern s) = (epfd, k1)" by fastforce
  obtain e1 k2 where k2: "sys_eventfd K k1 = (e1, k2)" by fastforce
  obtain e2 k3 where k3: "sys_eventfd K k2 = (e2, k3)" by fastforce
  have "0 \<le> e1" "0 \<le> e2" using assms k2 k3 by (metis fds_available_def fst_conv)+
  then show ?thesis using io_thread_init_eq[OF k1 k2 k3] by blast
qed

lemma init_loop_law:
  assumes "fds_available K" "io_thread_arrays s threads = Some arr" "threads \<noteq> NULL" "0 \<le> i" "length arr = nat i + n"
  shows "\<exists>t ps. io_thread_init_loop K service threads n i s = Some t \<and> length ps = n \<and> sorted_wrt (\<lambda>p q. p + 12 < q) ps \<and>
     (\<forall>p \<in> set ps. brk s < p \<and> p + 12 \<le> brk t) \<and> brk s \<le> brk t \<and> away s t (set ps) \<and>
     (\<forall>j < n. thread_repr t (ps ! j) (i + int j) service) \<and>
     io_thread_arrays t = (io_thread_arrays s)(threads \<mapsto> take (nat i) arr @ map Some ps) \<and>
     conn_arrays t = conn_arrays s \<and> services t = services s"
  using assms
proof (induction n arbitrary: i s arr)
  case 0
  then have "io_thread_init_loop K service threads 0 i s = Some s" "(io_thread_arrays s)(threads \<mapsto> arr) = io_thread_arrays s" by auto
  then show ?case using 0 by (intro exI[of _ s] exI[of _ "[]"]) (simp add: away_refl)
next
  case (Suc n)
  let ?p = "brk s + 1"
  obtain epfd e1 e2 k where th: "xv_io_thread_init K s i service = Some (?p, add_thread ?p i service epfd e1 e2 k s)"
    using thread_init_law[OF Suc.prems(1)] by blast
  define s1 where "s1 = (add_thread ?p i service epfd e1 e2 k s)\<lparr>io_thread_arrays := (io_thread_arrays s)(threads \<mapsto> arr[nat i := Some ?p])\<rparr>"
  have i: "arr_set arr i (Some ?p) = Some (arr[nat i := Some ?p])" using Suc.prems(4,5) by (simp add: arr_set_def nat_less_iff)
  have a1: "away s s1 {?p}" using away_add[OF away_refl[of s], of ?p i service epfd e1 e2 k] by (simp add: away_def s1_def)
  have r1: "thread_repr s1 ?p i service" using add_thread_repr[of ?p i service epfd e1 e2 k s] by (simp add: thread_repr_def s1_def)
  have b1: "brk s1 = brk s + 13" by (simp add: s1_def add_thread_def)
  have pre: "io_thread_arrays s1 threads = Some (arr[nat i := Some ?p])" "0 \<le> i + 1" "length (arr[nat i := Some ?p]) = nat (i + 1) + n"
    using Suc.prems(4,5) by (simp_all add: s1_def nat_add_distrib)
  obtain t ps where t: "io_thread_init_loop K service threads n (i + 1) s1 = Some t" "length ps = n" "sorted_wrt (\<lambda>p q. p + 12 < q) ps"
    "\<forall>p \<in> set ps. brk s1 < p \<and> p + 12 \<le> brk t" "brk s1 \<le> brk t" "away s1 t (set ps)" "\<forall>j < n. thread_repr t (ps ! j) (i + 1 + int j) service"
    "io_thread_arrays t = (io_thread_arrays s1)(threads \<mapsto> take (nat (i + 1)) (arr[nat i := Some ?p]) @ map Some ps)"
    "conn_arrays t = conn_arrays s1" "services t = services s1"
    using Suc.IH[OF Suc.prems(1) pre(1) Suc.prems(3) pre(2,3)] by blast
  have run: "io_thread_init_loop K service threads (Suc n) i s = Some t"
    using th t(1) i Suc.prems(2,3) by (simp add: s1_def add_thread_def)
  have "thread_repr t ?p i service" by (rule repr_away[OF r1 t(6)]) (use t(4) b1 in \<open>auto simp: apart_def\<close>)
  then have rep: "\<forall>j < Suc n. thread_repr t ((?p # ps) ! j) (i + int j) service"
    using t(7) by (auto simp: nth_Cons algebra_simps split: nat.split)
  have "take (nat (i + 1)) (arr[nat i := Some ?p]) = take (nat i) arr @ [Some ?p]"
    using Suc.prems(4,5) by (simp add: nat_add_distrib take_Suc_conv_app_nth)
  then have "io_thread_arrays t = (io_thread_arrays s)(threads \<mapsto> take (nat i) arr @ map Some (?p # ps))" using t(8) by (simp add: s1_def)
  then show ?case
    using run t rep b1 away_trans[OF a1 t(6)]
    by (intro exI[of _ t] exI[of _ "?p # ps"]) (auto simp: s1_def add_thread_def)
qed

lemma destroy_threads_keep:
  fixes t :: "('k, 'z) sheap_scheme"
  assumes "sorted_wrt (\<lambda>p q. p + 12 < q) ps" "\<forall>j < length ps. \<exists>n. thread_repr t (ps ! j) n service"
    "svc \<noteq> NULL" "services t svc = Some sv" "sv_io_threads sv \<noteq> NULL" "io_thread_arrays t (sv_io_threads sv) = Some arr"
    "0 \<le> i" "drop (nat i) arr = map Some ps"
  shows "\<exists>u. each_io_thread (xv_io_thread_destroy K) svc (length ps) i t = Some u \<and> brk u = brk t \<and>
     io_thread_arrays u = io_thread_arrays t \<and> conn_arrays u = conn_arrays t \<and> services u = services t \<and>
     workers u = workers t \<and> pools u = pools t \<and> thread_arrays u = thread_arrays t \<and>
     (\<forall>s b. blank_above b s \<longrightarrow> away s t (set ps) \<longrightarrow> (\<forall>p \<in> set ps. b < p) \<longrightarrow> away s u {})"
  using assms
proof (induction ps arbitrary: i t)
  case Nil
  then show ?case by simp
next
  case (Cons p ps)
  obtain n where r: "thread_repr t p n service" using Cons.prems(2)[rule_format, of 0] by auto
  obtain k where k: "xv_io_thread_destroy K t p = Some (del_thread p k t)" using io_thread_destroy_eq[OF r] by blast
  have at: "io_thread_at t sv i = Some p"
  proof -
    have "nat i < length arr" by (rule ccontr) (use Cons.prems(8) in simp)
    moreover have "arr ! nat i = Some p" using Cons.prems(8) hd_drop_conv_nth[OF calculation] by simp
    ultimately show ?thesis using Cons.prems(5,6,7) by (simp add: io_thread_at_def arr_get_def nat_less_iff)
  qed
  define t1 where "t1 = del_thread p k t"
  have f: "services t1 = services t" "io_thread_arrays t1 = io_thread_arrays t" "conn_arrays t1 = conn_arrays t" "brk t1 = brk t"
    "workers t1 = workers t" "pools t1 = pools t" "thread_arrays t1 = thread_arrays t"
    by (simp_all add: t1_def del_thread_def)
  have d: "away t t1 {p}" by (simp add: away_def eq_off_def t1_def del_thread_def)
  have r1: "\<exists>n. thread_repr t1 (ps ! j) n service" if j: "j < length ps" for j
  proof -
    obtain n where "thread_repr t (ps ! j) n service" using Cons.prems(2)[rule_format, of "Suc j"] j by auto
    moreover have "p + 12 < ps ! j" using Cons.prems(1) j by simp
    ultimately have "thread_repr t1 (ps ! j) n service" by (intro repr_away[OF _ d]) (simp_all add: apart_def)
    then show ?thesis by blast
  qed
  have "drop (nat (i + 1)) arr = map Some ps"
    using Cons.prems(7,8) drop_drop[of 1 "nat i" arr] by (simp add: nat_add_distrib drop_Suc)
  then obtain u where u: "each_io_thread (xv_io_thread_destroy K) svc (length ps) (i + 1) t1 = Some u" "brk u = brk t1"
    "io_thread_arrays u = io_thread_arrays t1" "conn_arrays u = conn_arrays t1" "services u = services t1"
    "workers u = workers t1" "pools u = pools t1" "thread_arrays u = thread_arrays t1"
    "\<forall>s b. blank_above b s \<longrightarrow> away s t1 (set ps) \<longrightarrow> (\<forall>p \<in> set ps. b < p) \<longrightarrow> away s u {}"
    using Cons.IH[of t1 "i + 1"] Cons.prems r1 f by auto
  have "away s u {}" if "blank_above b s" "away s t (set (p # ps))" "\<forall>p \<in> set (p # ps). b < p" for s b
    using u(9) away_del[of s t p "set ps" b k] that by (auto simp: t1_def)
  then show ?case using u(1-8) k at f Cons.prems(3,4) by (intro exI[of _ u]) (simp add: t1_def)
qed

subsection \<open>Creating and destroying a service\<close>

text \<open>The service object that \<^verbatim>\<open>xv_service_init\<close> sets up when no workers are configured.\<close>

definition new_service :: "xv_service_config_t \<Rightarrow> addr \<Rightarrow> addr \<Rightarrow> xv_service_t" where
  "new_service config threads table = \<lparr>sv_config = config, sv_io_threads = threads, sv_worker_threads = NULL, sv_listeners = NULL,
     sv_conn_setsize = XV_DEFAULT_LOOP_SIZE, sv_connections = table, sv_conn_count = \<lparr>counter = 0\<rparr>, sv_start = False\<rparr>"

lemma service_init_law:
  fixes s :: "('k, 'z) sheap_scheme"
  assumes K: "fds_available K" and c: "0 < io_thread_count config" "worker_thread_count config = 0"
  obtains t t1 ps where "xv_service_init K s config = Some (brk s + 1, t)" "length ps = nat (io_thread_count config)"
    "sorted_wrt (\<lambda>p q. p + 12 < q) ps" "\<forall>p \<in> set ps. brk s + 2 < p" "away s t (set ps)" "\<forall>j < length ps. thread_repr t (ps ! j) (int j) (brk s + 1)"
    "services t = (services s)(brk s + 1 \<mapsto> new_service config (brk s + 2) (brk t))"
    "io_thread_arrays t = (io_thread_arrays s)(brk s + 2 \<mapsto> map Some ps)"
    "conn_arrays t = (conn_arrays s)(brk t \<mapsto> replicate (nat XV_DEFAULT_LOOP_SIZE) (Some NULL))" "brk s + 2 < brk t"
    "io_thread_init_loop K (brk s + 1) (brk s + 2) (length ps) 0
       (s\<lparr>brk := brk s + 2, io_thread_arrays := (io_thread_arrays s)(brk s + 2 \<mapsto> replicate (length ps) None)\<rparr>) = Some t1"
    "t = t1\<lparr>brk := brk t, conn_arrays := conn_arrays t, services := services t\<rparr>" "brk t = Suc (brk t1)"
proof -
  let ?n = "nat (io_thread_count config)"
  define s1 where "s1 = s\<lparr>brk := brk s + 2, io_thread_arrays := (io_thread_arrays s)(brk s + 2 \<mapsto> replicate ?n None)\<rparr>"
  obtain t1 ps where t1: "io_thread_init_loop K (brk s + 1) (brk s + 2) ?n 0 s1 = Some t1" "length ps = ?n" "sorted_wrt (\<lambda>p q. p + 12 < q) ps"
    "\<forall>p \<in> set ps. brk s1 < p \<and> p + 12 \<le> brk t1" "brk s1 \<le> brk t1" "away s1 t1 (set ps)"
    "\<forall>j < ?n. thread_repr t1 (ps ! j) (0 + int j) (brk s + 1)"
    "io_thread_arrays t1 = (io_thread_arrays s1)(brk s + 2 \<mapsto> take (nat 0) (replicate ?n None) @ map Some ps)"
    "conn_arrays t1 = conn_arrays s1" "services t1 = services s1"
    using init_loop_law[OF K, of s1 "brk s + 2" "replicate ?n None" 0 ?n "brk s + 1"] by (auto simp: s1_def)
  define t where "t = t1\<lparr>brk := Suc (brk t1), conn_arrays := (conn_arrays t1)(Suc (brk t1) \<mapsto> replicate (nat XV_DEFAULT_LOOP_SIZE) (Some NULL)),
    services := (services s)(brk s + 1 \<mapsto> new_service config (brk s + 2) (Suc (brk t1)))\<rparr>"
  have run: "xv_service_init K s config = Some (brk s + 1, t)"
    using c t1(1,10) by (simp add: xv_service_init_def xv_malloc_def s1_def t_def new_service_def xv_atomic_set_def Let_def)
  show thesis
  proof (rule that[OF run t1(2,3)])
    show "away s t (set ps)" using t1(6) by (simp add: away_def s1_def t_def)
    show "\<forall>j < length ps. thread_repr t (ps ! j) (int j) (brk s + 1)" using t1(2,7) by (simp add: thread_repr_def t_def)
    show "t = t1\<lparr>brk := brk t, conn_arrays := conn_arrays t, services := services t\<rparr>" by (simp add: t_def)
  qed (use t1 in \<open>auto simp: t_def s1_def\<close>)
qed

text \<open>The table of a service without connections.\<close>

lemma each_connection_none:
  assumes "svc \<noteq> NULL" "services s svc = Some sv" "sv_connections sv \<noteq> NULL" "conn_arrays s (sv_connections sv) = Some arr"
    "\<forall>j < length arr. arr ! j = Some NULL" "0 \<le> i" "i + int n \<le> int (length arr)"
  shows "each_connection f svc n i s = Some s"
  using assms(6,7)
proof (induction n arbitrary: i)
  case (Suc n)
  then have "arr_get arr i = Some (Some NULL)" using assms(5) by (simp add: arr_get_def)
  then show ?case using assms(1-4) Suc by simp
qed simp

text \<open>C16. A service without workers that was created but never started can be destroyed: whatever the number of I/O
  threads, \<^verbatim>\<open>xv_service_destroy\<close> returns and gives back every object that \<^verbatim>\<open>xv_service_init\<close> allocated; the heap is
  the one before, up to the position of the allocator and the state of the kernel.\<close>

theorem xv_service_roundtrip:
  fixes s :: "('k, 'z) sheap_scheme"
  assumes K: "fds_available K" and c: "0 < io_thread_count config" "worker_thread_count config = 0" and blank: "blank_above (brk s) s"
  shows "\<exists>service t u. xv_service_init K s config = Some (service, t) \<and> service \<noteq> NULL \<and>
     xv_service_destroy K P t service = Some u \<and> u = s\<lparr>brk := brk u, kern := kern u\<rparr>"
proof -
  obtain t t1 ps where t: "xv_service_init K s config = Some (brk s + 1, t)" "length ps = nat (io_thread_count config)"
    "sorted_wrt (\<lambda>p q. p + 12 < q) ps" "\<forall>p \<in> set ps. brk s + 2 < p" "away s t (set ps)" "\<forall>j < length ps. thread_repr t (ps ! j) (int j) (brk s + 1)"
    "services t = (services s)(brk s + 1 \<mapsto> new_service config (brk s + 2) (brk t))"
    "io_thread_arrays t = (io_thread_arrays s)(brk s + 2 \<mapsto> map Some ps)"
    "conn_arrays t = (conn_arrays s)(brk t \<mapsto> replicate (nat XV_DEFAULT_LOOP_SIZE) (Some NULL))" "brk s + 2 < brk t"
    by (rule service_init_law[OF K c, of s])
  let ?svc = "brk s + 1" and ?sv = "new_service config (brk s + 2) (brk t)"
  have sv: "services t ?svc = Some ?sv" "sv_listeners ?sv = NULL" "\<not> sv_start ?sv" "sv_conn_setsize ?sv = XV_DEFAULT_LOOP_SIZE"
    "sv_connections ?sv = brk t" "sv_io_threads ?sv = brk s + 2" "sv_worker_threads ?sv = NULL" "sv_config ?sv = config"
    using t(7) by (simp_all add: new_service_def)
  define t2 where "t2 = t\<lparr>conn_arrays := (conn_arrays t)(brk t := None)\<rparr>"
  have conns: "each_connection xv_connection_destroy ?svc (nat XV_DEFAULT_LOOP_SIZE) 0 t = Some t"
    by (rule each_connection_none[OF _ sv(1), where arr = "replicate (nat XV_DEFAULT_LOOP_SIZE) (Some NULL)"]) (use t(9,10) sv in \<open>simp_all add: XV_DEFAULT_LOOP_SIZE_def\<close>)
  have a2: "away s t2 (set ps)" using t(5) by (simp add: away_def t2_def)
  have r2: "\<forall>j < length ps. \<exists>n. thread_repr t2 (ps ! j) n ?svc" using t(6) by (auto simp: thread_repr_def t2_def)
  have above: "\<forall>p \<in> set ps. brk s < p" using t(4) by auto
  obtain u2 where u2: "each_io_thread (xv_io_thread_destroy K) ?svc (length ps) 0 t2 = Some u2" "away s u2 {}" "brk u2 = brk t2"
    "io_thread_arrays u2 = io_thread_arrays t2" "conn_arrays u2 = conn_arrays t2" "services u2 = services t2"
    using destroy_threads_keep[OF t(3) r2, of ?svc ?sv "map Some ps" 0 K] t(8) sv a2 blank above by (auto simp: t2_def)
  define u where "u = u2\<lparr>io_thread_arrays := io_thread_arrays s, services := services s\<rparr>"
  have b: "(io_thread_arrays s)(brk s + 2 := None) = io_thread_arrays s" "(services s)(?svc := None) = services s" "(conn_arrays s)(brk t := None) = conn_arrays s"
    using blank t(10) by (auto simp: blank_above_def fun_upd_idem_iff)
  have "xv_service_destroy K P t ?svc = Some u"
    using sv conns u2(1,4-6) t(2,7,8,9) t(10) b
    by (simp add: xv_service_destroy_def xv_service_stop_def destroy_listeners.simps xv_free_def t2_def u_def Let_def)
  moreover have "conn_arrays u = conn_arrays s" using u2(5) t(9) b(3) by (simp add: u_def t2_def)
  then have "u = s\<lparr>brk := brk u, kern := kern u\<rparr>"
    using u2(2) by (cases s; cases u2; simp add: away_def eq_off_def u_def fun_eq_iff)
  ultimately show ?thesis using t(1) by (intro exI[of _ ?svc] exI[of _ t] exI[of _ u]) simp
qed

subsection \<open>A new service is ready\<close>

lemma new_loop_ok:
  assumes r: "thread_repr s p i service"
  shows "loop_ok s (p + 1)" "loop_size s (p + 1) = XV_DEFAULT_LOOP_SIZE" "watched s (p + 1) fd ev = NULL"
proof -
  obtain epfd where d: "pollers s (p + 2) = Some \<lparr>p_epfd = epfd, p_setsize = XV_DEFAULT_LOOP_SIZE, p_events = replicate (nat XV_DEFAULT_LOOP_SIZE) None\<rparr>"
    and l: "loops s (p + 1) = Some (new_loop p)" "event_arrays s (p + 3) = Some (replicate (nat XV_DEFAULT_LOOP_SIZE) empty_slot)"
      "fired_arrays s (p + 4) = Some (replicate (nat XV_DEFAULT_LOOP_SIZE) None)"
    using r by (auto simp: thread_repr_def)
  show "loop_ok s (p + 1)"
    unfolding loop_ok_def loop_repr_def
    by (rule exI[of _ "new_loop p"], rule exI[of _ "\<lparr>p_epfd = epfd, p_setsize = XV_DEFAULT_LOOP_SIZE, p_events = replicate (nat XV_DEFAULT_LOOP_SIZE) None\<rparr>"], rule exI[of _ "replicate (nat XV_DEFAULT_LOOP_SIZE) empty_slot"])
       (use d l in \<open>simp add: new_loop_def slots_ok_replicate XV_DEFAULT_LOOP_SIZE_def INT_MAX_def\<close>)
  show "loop_size s (p + 1) = XV_DEFAULT_LOOP_SIZE" using l(1) by (simp add: loop_size_def new_loop_def)
  show "watched s (p + 1) fd ev = NULL"
    using l by (auto simp: watched_def new_loop_def slot_ptr_def empty_slot_def nat_less_iff)
qed

text \<open>\<^verbatim>\<open>epoll_create\<close> does not touch eventfds.\<close>

definition create_keeps_eventfds :: "('k, 'y) sys_ops_scheme \<Rightarrow> ('k \<Rightarrow> int \<Rightarrow> nat option) \<Rightarrow> bool" where
  "create_keeps_eventfds K ctr \<longleftrightarrow> (\<forall>n k. ctr (snd (epoll_create K n k)) = ctr k)"

lemma thread_init_kernel:
  assumes K: "fds_available K" "eventfd_doc K ctr" "create_keeps_eventfds K ctr"
  shows "\<exists>epfd e1 e2 k. xv_io_thread_init K s i service = Some (brk s + 1, add_thread (brk s + 1) i service epfd e1 e2 k s) \<and>
     ctr k = (ctr (kern s))(e1 \<mapsto> 0, e2 \<mapsto> 0)"
proof -
  obtain epfd k1 where k1: "epoll_create K XV_DEFAULT_LOOP_SIZE (kern s) = (epfd, k1)" by fastforce
  obtain e1 k2 where k2: "sys_eventfd K k1 = (e1, k2)" by fastforce
  obtain e2 k3 where k3: "sys_eventfd K k2 = (e2, k3)" by fastforce
  have e: "0 \<le> e1" "0 \<le> e2" using K(1) k2 k3 by (metis fds_available_def fst_conv)+
  have "ctr k1 = ctr (kern s)" using K(3) k1 by (metis create_keeps_eventfds_def snd_conv)
  then have "ctr k3 = (ctr (kern s))(e1 \<mapsto> 0, e2 \<mapsto> 0)" using eventfd_newD(1)[OF K(2) k2] eventfd_newD(1)[OF K(2) k3] e by simp
  then show ?thesis using io_thread_init_eq[OF k1 k2 k3 e] by blast
qed

lemma add_thread_queues:
  fixes s :: "('k, 'z) sheap_scheme"
  assumes ok: "cq_ok s" and p: "p = brk s + 1" and t_def: "t = add_thread p i service epfd e1 e2 k s"
  shows "cq_ok t" "cq_list t = (cq_list s)(p + 5 := [], p + 9 := [])" "live_cq t = (live_cq s)(p + 5 := True, p + 9 := True)"
proof -
  define s0 where "s0 = s\<lparr>brk := p + 4\<rparr>"
  have b0: "cq_ok s0" "cq_list s0 = cq_list s" "live_cq s0 = live_cq s" using cq_brk_mono[of s s0] ok by (simp_all add: s0_def p)
  obtain c1 s1 where i1: "xv_concurrent_queue_init s0 = (c1, s1)" by fastforce
  note l1 = cq_init_law[OF b0(1) i1]
  define s2 where "s2 = s1\<lparr>brk := p + 8\<rparr>"
  have b2: "cq_ok s2" "cq_list s2 = cq_list s1" "live_cq s2 = live_cq s1" using cq_brk_mono[of s1 s2] l1(1,7) by (simp_all add: s2_def s0_def)
  obtain c2 s3 where i2: "xv_concurrent_queue_init s2 = (c2, s3)" by fastforce
  note l2 = cq_init_law[OF b2(1) i2]
  have c: "c1 = p + 5" "c2 = p + 9" "brk s3 = p + 10" using l1(5) l2(5,7) by (simp_all add: s0_def s2_def)
  have "nodes t = nodes s3" "queues t = queues s3" "cqueues t = cqueues s3" "brk s3 \<le> brk t"
    using i1 i2 c(3) by (auto simp: xv_concurrent_queue_init_def xv_queue_init_def xv_malloc_def s0_def s2_def t_def add_thread_def empty_queue_def Let_def)
  note q = cq_brk_mono[OF this(4,1-3)]
  show "cq_ok t" "cq_list t = (cq_list s)(p + 5 := [], p + 9 := [])" "live_cq t = (live_cq s)(p + 5 := True, p + 9 := True)"
    using q l1(2,3) l2(1,2,3) b0 b2 c by simp_all
qed

text \<open>The mailboxes of a thread, empty.\<close>

definition mailboxes_ok :: "('k, 'y) sys_ops_scheme \<Rightarrow> ('k \<Rightarrow> int \<Rightarrow> nat option) \<Rightarrow> addr \<Rightarrow> ('k, 'z) sheap_scheme \<Rightarrow> bool" where
  "mailboxes_ok K ctr p s \<longleftrightarrow> mbox_ok K ctr (p + 5) (p + 7) s \<and> mbox_ok K ctr (p + 9) (p + 11) s \<and> cq_list s (p + 5) = [] \<and> cq_list s (p + 9) = []"

lemma mailboxes_frame:
  fixes s t :: "('k, 'z) sheap_scheme"
  assumes "mailboxes_ok K ctr p s" "brk s \<le> brk t" "nodes t = nodes s" "queues t = queues s" "cqueues t = cqueues s" "kern t = kern s" "asyncs t = asyncs s"
  shows "mailboxes_ok K ctr p t"
  using assms(1) mbox_ok_frame(1)[OF _ assms(2-7)] cq_brk_mono(2)[OF assms(2-5)] unfolding mailboxes_ok_def by metis

lemma add_thread_mailboxes:
  fixes s :: "('k, 'z) sheap_scheme"
  assumes ok: "cq_ok s" "eventfd_doc K ctr" and p: "p = brk s + 1" and t_def: "t = add_thread p i service epfd e1 e2 k s"
    and k: "ctr k = (ctr (kern s))(e1 \<mapsto> 0, e2 \<mapsto> 0)"
  shows "mailboxes_ok K ctr p t" "mailboxes_ok K ctr q s \<Longrightarrow> q + 12 \<le> brk s \<Longrightarrow> mailboxes_ok K ctr q t"
proof -
  note l = add_thread_queues[OF ok(1) p t_def]
  have a: "asyncs t = (asyncs s)(p + 7 \<mapsto> new_async e1 Io_thread_add_conn_cb p (p + 8), p + 11 \<mapsto> new_async e2 Io_thread_return_message_cb p (p + 12))"
    "kern t = k" by (simp_all add: t_def add_thread_def)
  show "mailboxes_ok K ctr p t"
    using l ok k a by (simp add: mailboxes_ok_def mbox_ok_def async_ok_def new_async_def)
  have keep: "async_ok ctr t x" if "async_ok ctr s x" "x \<le> brk s" for x using that k a p by (auto simp: async_ok_def)
  show "mailboxes_ok K ctr q t" if "mailboxes_ok K ctr q s" "q + 12 \<le> brk s"
    using that l ok keep p by (auto simp: mailboxes_ok_def mbox_ok_def)
qed

lemma init_loop_mailboxes:
  fixes s t :: "('k, 'z) sheap_scheme"
  assumes K: "fds_available K" "eventfd_doc K ctr" "create_keeps_eventfds K ctr"
    and "cq_ok s" "\<forall>p > brk s. io_threads s p = None" "io_thread_init_loop K service threads n i s = Some t"
  shows "cq_ok t \<and> brk s \<le> brk t \<and> (\<forall>q. mailboxes_ok K ctr q s \<longrightarrow> q + 12 \<le> brk s \<longrightarrow> mailboxes_ok K ctr q t) \<and>
     (\<forall>p \<le> brk s. io_threads t p = io_threads s p) \<and> (\<forall>p > brk s. io_threads t p \<noteq> None \<longrightarrow> mailboxes_ok K ctr p t)"
  using assms(4-6)
proof (induction n arbitrary: i s)
  case 0
  then show ?case by auto
next
  case (Suc n)
  let ?p = "brk s + 1"
  obtain epfd e1 e2 k where th: "xv_io_thread_init K s i service = Some (?p, add_thread ?p i service epfd e1 e2 k s)"
    and ctr: "ctr k = (ctr (kern s))(e1 \<mapsto> 0, e2 \<mapsto> 0)"
    using thread_init_kernel[OF K] by blast
  define s0 where "s0 = add_thread ?p i service epfd e1 e2 k s"
  note m0 = add_thread_mailboxes[OF Suc.prems(1) K(2) refl s0_def ctr] and q0 = add_thread_queues(1)[OF Suc.prems(1) refl s0_def]
  obtain arr where "io_thread_init_loop K service threads n (i + 1) (s0\<lparr>io_thread_arrays := (io_thread_arrays s0)(threads \<mapsto> arr)\<rparr>) = Some t"
    using Suc.prems(3) th by (auto simp: s0_def elim!: bind_SomeE)
  moreover define s1 where "s1 = s0\<lparr>io_thread_arrays := (io_thread_arrays s0)(threads \<mapsto> arr)\<rparr>"
  ultimately have run: "io_thread_init_loop K service threads n (i + 1) s1 = Some t" by simp
  have m: "mailboxes_ok K ctr q s1" if "mailboxes_ok K ctr q s0" for q
    by (rule mailboxes_frame[OF that]) (simp_all add: s1_def)
  have q1: "cq_ok s1" using q0 cq_brk_mono(1)[of s0 s1] by (simp add: s1_def)
  have b1: "brk s1 = brk s + 13" "io_threads s1 = (io_threads s)(?p \<mapsto> new_thread ?p i service)" by (simp_all add: s1_def s0_def add_thread_def)
  note ih = Suc.IH[OF q1 _ run]
  have IH: "cq_ok t" "brk s1 \<le> brk t" "\<forall>q. mailboxes_ok K ctr q s1 \<longrightarrow> q + 12 \<le> brk s1 \<longrightarrow> mailboxes_ok K ctr q t"
    "\<forall>p \<le> brk s1. io_threads t p = io_threads s1 p" "\<forall>p > brk s1. io_threads t p \<noteq> None \<longrightarrow> mailboxes_ok K ctr p t"
    using ih Suc.prems(2) b1 by simp_all
  have "mailboxes_ok K ctr p t" if p: "brk s < p" "io_threads t p \<noteq> None" for p
  proof (cases "p \<le> brk s1")
    case True
    then have "p = ?p" using IH(4) p b1(2) Suc.prems(2) by (metis fun_upd_other)
    then show ?thesis using IH(3) m[OF m0(1)] b1(1) by simp
  qed (use IH(5) p in simp)
  moreover have "mailboxes_ok K ctr q t" if "mailboxes_ok K ctr q s" "q + 12 \<le> brk s" for q
    using IH(3) m[OF m0(2)[OF that]] that(2) b1(1) by simp
  ultimately show ?case using IH(1,2,4) b1 by auto
qed

text \<open>A thread as it was created is ready to run.\<close>

definition thread_ready ::
  "('k, 'y) sys_ops_scheme \<Rightarrow> ('k \<Rightarrow> int \<Rightarrow> nat option) \<Rightarrow> ('k, 'z) sheap_scheme \<Rightarrow> addr \<Rightarrow> int \<Rightarrow> addr \<Rightarrow> bool" where
  "thread_ready K ctr t p i service \<longleftrightarrow> (\<exists>th. io_threads t p = Some th \<and> it_idx th = i \<and> it_service th = service \<and>
     loop_ok t (it_loop th) \<and> loop_size t (it_loop th) = XV_DEFAULT_LOOP_SIZE \<and> (\<forall>fd ev. watched t (it_loop th) fd ev = NULL) \<and>
     mbox_ok K ctr (it_conn_queue th) (it_async_add_conn th) t \<and> mbox_ok K ctr (it_message_queue th) (it_async_return_message th) t \<and>
     cq_list t (it_conn_queue th) = [] \<and> cq_list t (it_message_queue th) = [])"

lemma new_thread_ready:
  assumes "thread_repr t p i service" "mailboxes_ok K ctr p t"
  shows "thread_ready K ctr t p i service"
  using assms(2) new_loop_ok[OF assms(1)] assms(1)
  by (auto simp: thread_ready_def new_thread_def mailboxes_ok_def thread_repr_def)

lemma ready_threads_ok:
  assumes "\<forall>j < length ts. ts ! j \<noteq> NULL \<and> thread_ready K ctr t (ts ! j) (int j) service" "services t service = Some sv" "service \<noteq> NULL"
    "sv_io_threads sv \<noteq> NULL" "io_thread_arrays t (sv_io_threads sv) = Some (map Some ts)" "io_thread_count (sv_config sv) = int (length ts)"
    "ts \<noteq> []" "int (length ts) \<le> INT_MAX"
  shows "threads_ok K ctr t service ts"
proof -
  have "p \<noteq> NULL \<and> (\<exists>th. io_threads t p = Some th \<and> mbox_ok K ctr (it_conn_queue th) (it_async_add_conn th) t)" if "p \<in> set ts" for p
    using assms(1) that by (auto simp: in_set_conv_nth thread_ready_def)
  then show ?thesis using assms(2-8) by (auto simp: threads_ok_def INT_MAX_def)
qed

subsection \<open>The objects of a worker\<close>

text \<open>The worker at address \<open>p\<close> and its objects: the queue of tasks, the loop with its poller and two arrays, the async object with its
  watcher.\<close>

definition new_worker :: "addr \<Rightarrow> xv_worker_thread_t" where
  "new_worker p = \<lparr>w_task_queue = p + 1, w_loop = p + 3, w_async = p + 7, w_id = None, w_start = False\<rparr>"

definition worker_loop_of :: "addr \<Rightarrow> xv_loop_t" where
  "worker_loop_of p = \<lparr>l_poller_data = p + 4, l_events = p + 5, l_fired_events = p + 6, l_setsize = 1024, l_start = True\<rparr>"

definition add_worker :: "addr \<Rightarrow> int \<Rightarrow> int \<Rightarrow> 'k \<Rightarrow> ('k, 'z) sheap_scheme \<Rightarrow> ('k, 'z) sheap_scheme" where
  "add_worker p epfd e k s = s\<lparr>brk := p + 8, queues := (queues s)(p + 2 \<mapsto> empty_queue),
     cqueues := (cqueues s)(p + 1 \<mapsto> \<lparr>cq_queue = p + 2, cq_mutex = False\<rparr>), kern := k,
     pollers := (pollers s)(p + 4 \<mapsto> \<lparr>p_epfd = epfd, p_setsize = 1024, p_events = replicate 1024 None\<rparr>),
     fired_arrays := (fired_arrays s)(p + 6 \<mapsto> replicate 1024 None),
     ios := (ios s)(p + 8 \<mapsto> new_io e XV_READ Common_async_cb (p + 7)),
     loops := (loops s)(p + 3 \<mapsto> worker_loop_of p), event_arrays := (event_arrays s)(p + 5 \<mapsto> replicate 1024 empty_slot),
     asyncs := (asyncs s)(p + 7 \<mapsto> new_async e Worker_async_cb p (p + 8)), workers := (workers s)(p \<mapsto> new_worker p)\<rparr>"

lemma worker_init_eq:
  fixes s :: "('k, 'z) sheap_scheme"
  assumes "epoll_create K 1024 (kern s) = (epfd, k1)" "sys_eventfd K k1 = (e, k2)" "0 \<le> e"
  shows "xv_worker_thread_init K s = Some (brk s + 1, add_worker (brk s + 1) epfd e k2 s)"
  using assms
  by (cases s) (simp add: xv_worker_thread_init_def xv_malloc_def xv_loop_init_def xv_poller_init_def xv_concurrent_queue_init_def xv_queue_init_def
      xv_async_init_def xv_async_set_userdata_def xv_io_init_def xv_io_set_userdata_def add_worker_def new_worker_def worker_loop_of_def new_async_def
      empty_queue_def new_io_def Let_def eval_nat_numeral)

lemma worker_init_kernel:
  fixes s :: "('k, 'z) sheap_scheme"
  assumes K: "fds_available K" "eventfd_doc K ctr" "create_keeps_eventfds K ctr"
  shows "\<exists>epfd e k. xv_worker_thread_init K s = Some (brk s + 1, add_worker (brk s + 1) epfd e k s) \<and> ctr k = (ctr (kern s))(e \<mapsto> 0)"
proof -
  obtain epfd k1 where k1: "epoll_create K 1024 (kern s) = (epfd, k1)" by fastforce
  obtain e k2 where k2: "sys_eventfd K k1 = (e, k2)" by fastforce
  have e: "0 \<le> e" using K(1) k2 by (metis fds_available_def fst_conv)
  have "ctr k1 = ctr (kern s)" using K(3) k1 by (metis create_keeps_eventfds_def snd_conv)
  then have "ctr k2 = (ctr (kern s))(e \<mapsto> 0)" using eventfd_newD(1)[OF K(2) k2] e by simp
  then show ?thesis using worker_init_eq[OF k1 k2 e] by blast
qed

text \<open>An I/O thread and a worker as they were created.\<close>

definition thread_made ::
  "('k, 'y) sys_ops_scheme \<Rightarrow> ('k \<Rightarrow> int \<Rightarrow> nat option) \<Rightarrow> ('k, 'z) sheap_scheme \<Rightarrow> addr \<Rightarrow> int \<Rightarrow> addr \<Rightarrow> bool" where
  "thread_made K ctr s p i service \<longleftrightarrow> thread_repr s p i service \<and> mailboxes_ok K ctr p s"

definition worker_made :: "('k, 'y) sys_ops_scheme \<Rightarrow> ('k \<Rightarrow> int \<Rightarrow> nat option) \<Rightarrow> ('k, 'z) sheap_scheme \<Rightarrow> addr \<Rightarrow> bool" where
  "worker_made K ctr s p \<longleftrightarrow> p \<noteq> NULL \<and> workers s p = Some (new_worker p) \<and> loops s (p + 3) = Some (worker_loop_of p) \<and>
     (\<exists>epfd. pollers s (p + 4) = Some \<lparr>p_epfd = epfd, p_setsize = 1024, p_events = replicate 1024 None\<rparr>) \<and>
     event_arrays s (p + 5) = Some (replicate 1024 empty_slot) \<and> fired_arrays s (p + 6) = Some (replicate 1024 None) \<and>
     mbox_ok K ctr (p + 1) (p + 7) s \<and> cq_list s (p + 1) = []"

lemma add_worker_queues:
  fixes s :: "('k, 'z) sheap_scheme"
  assumes ok: "cq_ok s" and p: "p = brk s + 1" and t_def: "t = add_worker p epfd e k s"
  shows "cq_ok t" "cq_list t = (cq_list s)(p + 1 := [])" "live_cq t = (live_cq s)(p + 1 := True)"
proof -
  define s0 where "s0 = s\<lparr>brk := p\<rparr>"
  have b0: "cq_ok s0" "cq_list s0 = cq_list s" "live_cq s0 = live_cq s" using cq_brk_mono[of s s0] ok by (simp_all add: s0_def p)
  obtain c s1 where i: "xv_concurrent_queue_init s0 = (c, s1)" by fastforce
  note l = cq_init_law[OF b0(1) i]
  have c: "c = p + 1" "brk s1 = p + 2" using l(5,7) by (simp_all add: s0_def)
  have "nodes t = nodes s1" "queues t = queues s1" "cqueues t = cqueues s1" "brk s1 \<le> brk t"
    using i c(2) by (auto simp: xv_concurrent_queue_init_def xv_queue_init_def xv_malloc_def s0_def t_def add_worker_def empty_queue_def Let_def)
  note q = cq_brk_mono[OF this(4,1-3)]
  show "cq_ok t" "cq_list t = (cq_list s)(p + 1 := [])" "live_cq t = (live_cq s)(p + 1 := True)" using q l(1-3) b0 c by simp_all
qed

lemma add_worker_made:
  fixes s :: "('k, 'z) sheap_scheme"
  assumes ok: "cq_ok s" "eventfd_doc K ctr" and p: "p = brk s + 1" and t_def: "t = add_worker p epfd e k s" and k: "ctr k = (ctr (kern s))(e \<mapsto> 0)"
  shows "worker_made K ctr t p" "worker_made K ctr s q \<Longrightarrow> q + 8 \<le> brk s \<Longrightarrow> worker_made K ctr t q"
    "thread_made K ctr s q i service \<Longrightarrow> q + 12 \<le> brk s \<Longrightarrow> thread_made K ctr t q i service"
proof -
  note l = add_worker_queues[OF ok(1) p t_def]
  have a: "asyncs t = (asyncs s)(p + 7 \<mapsto> new_async e Worker_async_cb p (p + 8))" "kern t = k" by (simp_all add: t_def add_worker_def)
  have "mbox_ok K ctr (p + 1) (p + 7) t" using l ok k a by (simp add: mbox_ok_def async_ok_def new_async_def)
  then show "worker_made K ctr t p" using l(2) p by (simp add: worker_made_def) (simp add: t_def add_worker_def)
  have keep: "mbox_ok K ctr c x t" "cq_list t c = cq_list s c" if "mbox_ok K ctr c x s" "c \<le> brk s" "x \<le> brk s" for c x
    using that l ok k a p by (auto simp: mbox_ok_def async_ok_def)
  show "worker_made K ctr t q" if "worker_made K ctr s q" "q + 8 \<le> brk s"
    using that keep[of "q + 1" "q + 7"] p by (auto simp: worker_made_def) (simp_all add: t_def add_worker_def)
  show "thread_made K ctr t q i service" if "thread_made K ctr s q i service" "q + 12 \<le> brk s"
  proof -
    have "mailboxes_ok K ctr q t" using that keep[of "q + 5" "q + 7"] keep[of "q + 9" "q + 11"] by (auto simp: thread_made_def mailboxes_ok_def)
    moreover have "thread_repr t q i service" using that p by (auto simp: thread_made_def thread_repr_def t_def add_worker_def)
    ultimately show ?thesis by (simp add: thread_made_def)
  qed
qed

text \<open>Objects that are assigned to do not disturb what was created.\<close>

lemma made_frame:
  fixes s t :: "('k, 'z) sheap_scheme"
  assumes b: "brk s \<le> brk t" and f: "nodes t = nodes s" "queues t = queues s" "cqueues t = cqueues s" "kern t = kern s" "asyncs t = asyncs s"
    "pollers t = pollers s" "fired_arrays t = fired_arrays s" "ios t = ios s" "loops t = loops s" "event_arrays t = event_arrays s"
    "workers t = workers s" "io_threads t = io_threads s"
  shows "cq_ok s \<Longrightarrow> cq_ok t" "worker_made K ctr s q \<Longrightarrow> worker_made K ctr t q" "thread_made K ctr s q i service \<Longrightarrow> thread_made K ctr t q i service"
proof -
  show "cq_ok s \<Longrightarrow> cq_ok t" by (rule cq_brk_mono(1)[OF b f(1-3)])
  have "mbox_ok K ctr c a t \<and> cq_list t = cq_list s" if "mbox_ok K ctr c a s" for c a using mbox_ok_frame[OF that b f(1-5)] by blast
  then show "worker_made K ctr s q \<Longrightarrow> worker_made K ctr t q" by (auto simp: worker_made_def f)
  show "thread_made K ctr s q i service \<Longrightarrow> thread_made K ctr t q i service"
    using mailboxes_frame[OF _ b f(1-5)] by (auto simp: thread_made_def thread_repr_def f)
qed

text \<open>The workers of a pool, created one after the other.\<close>

definition beside_workers :: "('k, 'z) sheap_scheme \<Rightarrow> ('k, 'z) sheap_scheme \<Rightarrow> bool" where
  "beside_workers s t \<longleftrightarrow> io_threads t = io_threads s \<and> io_thread_arrays t = io_thread_arrays s \<and> conn_arrays t = conn_arrays s \<and>
     services t = services s \<and> pools t = pools s"

lemma pool_init_loop_law:
  fixes s :: "('k, 'z) sheap_scheme"
  assumes K: "fds_available K" "eventfd_doc K ctr" "create_keeps_eventfds K ctr"
    and "cq_ok s" "thread_arrays s threads = Some arr" "threads \<noteq> NULL" "0 \<le> i" "length arr = nat i + n"
  shows "\<exists>t ws. pool_init_loop K threads n i s = Some t \<and> length ws = n \<and> cq_ok t \<and> brk s \<le> brk t \<and> beside_workers s t \<and>
     (\<forall>w \<in> set ws. worker_made K ctr t w \<and> brk s < w \<and> w + 8 \<le> brk t) \<and> sorted_wrt (\<lambda>p q. p + 8 < q) ws \<and>
     thread_arrays t threads = Some (take (nat i) arr @ map Some ws) \<and>
     (\<forall>q. worker_made K ctr s q \<longrightarrow> q + 8 \<le> brk s \<longrightarrow> worker_made K ctr t q) \<and>
     (\<forall>q j service. thread_made K ctr s q j service \<longrightarrow> q + 12 \<le> brk s \<longrightarrow> thread_made K ctr t q j service)"
  using assms(4-8)
proof (induction n arbitrary: i s arr)
  case 0
  then show ?case by (intro exI[of _ s] exI[of _ "[]"]) (simp add: beside_workers_def)
next
  case (Suc n)
  let ?p = "brk s + 1"
  obtain epfd e k where th: "xv_worker_thread_init K s = Some (?p, add_worker ?p epfd e k s)" and ctr: "ctr k = (ctr (kern s))(e \<mapsto> 0)"
    using worker_init_kernel[OF K] by blast
  define s0 where "s0 = add_worker ?p epfd e k s"
  define s1 where "s1 = s0\<lparr>thread_arrays := (thread_arrays s0)(threads \<mapsto> arr[nat i := Some ?p])\<rparr>"
  note m0 = add_worker_made[OF Suc.prems(1) K(2) refl s0_def ctr] and q0 = add_worker_queues(1)[OF Suc.prems(1) refl s0_def]
  have b1: "brk s1 = brk s + 9" "beside_workers s s1" by (simp_all add: s1_def s0_def add_worker_def beside_workers_def)
  have fr: "cq_ok s1" "worker_made K ctr s0 q \<Longrightarrow> worker_made K ctr s1 q" "thread_made K ctr s0 q j service \<Longrightarrow> thread_made K ctr s1 q j service" for q j service
    using made_frame[of s0 s1] q0 by (simp_all add: s1_def)
  have i: "arr_set arr i (Some ?p) = Some (arr[nat i := Some ?p])" using Suc.prems(4,5) by (simp add: arr_set_def nat_less_iff)
  have pre: "thread_arrays s1 threads = Some (arr[nat i := Some ?p])" "0 \<le> i + 1" "length (arr[nat i := Some ?p]) = nat (i + 1) + n"
    using Suc.prems(4,5) by (simp_all add: s1_def nat_add_distrib)
  obtain t ws where t: "pool_init_loop K threads n (i + 1) s1 = Some t" "length ws = n" "cq_ok t" "brk s1 \<le> brk t" "beside_workers s1 t"
    "\<forall>w \<in> set ws. worker_made K ctr t w \<and> brk s1 < w \<and> w + 8 \<le> brk t" "sorted_wrt (\<lambda>p q. p + 8 < q) ws"
    "thread_arrays t threads = Some (take (nat (i + 1)) (arr[nat i := Some ?p]) @ map Some ws)"
    "\<forall>q. worker_made K ctr s1 q \<longrightarrow> q + 8 \<le> brk s1 \<longrightarrow> worker_made K ctr t q"
    "\<forall>q j service. thread_made K ctr s1 q j service \<longrightarrow> q + 12 \<le> brk s1 \<longrightarrow> thread_made K ctr t q j service"
    using Suc.IH[OF fr(1) pre(1) Suc.prems(3) pre(2,3)] by blast
  have run: "pool_init_loop K threads (Suc n) i s = Some t"
    using th t(1) i Suc.prems(2,3) by (simp add: s1_def s0_def add_worker_def)
  have new: "worker_made K ctr t ?p" using t(9) fr(2)[OF m0(1)] b1(1) by simp
  have arr: "take (nat (i + 1)) (arr[nat i := Some ?p]) = take (nat i) arr @ [Some ?p]"
    using Suc.prems(4,5) by (simp add: nat_add_distrib take_Suc_conv_app_nth)
  have "worker_made K ctr t q" if "worker_made K ctr s q" "q + 8 \<le> brk s" for q
    using t(9) fr(2)[OF m0(2)[OF that]] that(2) b1(1) by simp
  moreover have "thread_made K ctr t q j service" if "thread_made K ctr s q j service" "q + 12 \<le> brk s" for q j service
    using t(10) fr(3)[OF m0(3)[OF that]] that(2) b1(1) by simp
  moreover have "beside_workers s t" using b1(2) t(5) by (simp add: beside_workers_def)
  moreover have "\<forall>w \<in> set (?p # ws). worker_made K ctr t w \<and> brk s < w \<and> w + 8 \<le> brk t" using t(4,6) new b1(1) by auto
  moreover have "sorted_wrt (\<lambda>p q. p + 8 < q) (?p # ws)" using t(6,7) b1(1) by auto
  moreover have "thread_arrays t threads = Some (take (nat i) arr @ map Some (?p # ws))" using t(8) arr by simp
  moreover have "length (?p # ws) = Suc n" "brk s \<le> brk t" using t(2,4) b1(1) by simp_all
  ultimately show ?case using run t(3) by blast
qed

text \<open>The pool, if there are to be workers.\<close>

lemma pool_init_law:
  fixes s :: "('k, 'z) sheap_scheme"
  assumes K: "fds_available K" "eventfd_doc K ctr" "create_keeps_eventfds K ctr" and "cq_ok s" "0 \<le> n"
  obtains pool t ws where "(if n > 0 then xv_thread_pool_init K s n else Some (NULL, s)) = Some (pool, t)" "int (length ws) = n" "cq_ok t" "brk s \<le> brk t"
    "if n = 0 then pool = NULL else pool_ok K ctr t pool ws" "io_threads t = io_threads s" "io_thread_arrays t = io_thread_arrays s"
    "conn_arrays t = conn_arrays s" "services t = services s"
    "\<forall>w \<in> set ws. worker_made K ctr t w \<and> brk s < w" "sorted_wrt (\<lambda>p q. p + 8 < q) ws"
    "\<forall>q j service. thread_made K ctr s q j service \<longrightarrow> q + 12 \<le> brk s \<longrightarrow> thread_made K ctr t q j service"
proof (cases "n = 0")
  case True
  show thesis by (rule that[of NULL s "[]"]) (use True assms(4) in simp_all)
next
  case False
  let ?pool = "brk s + 1" and ?ths = "brk s + 2"
  define s1 where "s1 = s\<lparr>brk := ?ths, thread_arrays := (thread_arrays s)(?ths \<mapsto> replicate (nat n) None)\<rparr>"
  have fr: "cq_ok s1" "thread_made K ctr s q j service \<Longrightarrow> thread_made K ctr s1 q j service" for q j service
    using made_frame[of s s1] assms(4) by (simp_all add: s1_def)
  obtain t1 ws where t1: "pool_init_loop K ?ths (nat n) 0 s1 = Some t1" "length ws = nat n" "cq_ok t1" "brk s1 \<le> brk t1" "beside_workers s1 t1"
    "\<forall>w \<in> set ws. worker_made K ctr t1 w \<and> brk s1 < w \<and> w + 8 \<le> brk t1" "sorted_wrt (\<lambda>p q. p + 8 < q) ws"
    "thread_arrays t1 ?ths = Some (map Some ws)"
    "\<forall>q j service. thread_made K ctr s1 q j service \<longrightarrow> q + 12 \<le> brk s1 \<longrightarrow> thread_made K ctr t1 q j service"
    using pool_init_loop_law[OF K fr(1), of ?ths "replicate (nat n) None" 0 "nat n"] by (auto simp: s1_def)
  define t where "t = t1\<lparr>pools := (pools t1)(?pool \<mapsto> \<lparr>tp_threads = ?ths, tp_thread_count = n, tp_start = False\<rparr>)\<rparr>"
  have ft: "cq_ok t" "worker_made K ctr t1 q \<Longrightarrow> worker_made K ctr t q" "thread_made K ctr t1 q j service \<Longrightarrow> thread_made K ctr t q j service" for q j service
    using made_frame[of t1 t] t1(3) by (simp_all add: t_def)
  have run: "xv_thread_pool_init K s n = Some (?pool, t)"
    using t1(1) by (simp add: xv_thread_pool_init_def xv_malloc_def s1_def t_def Let_def)
  have made: "\<forall>w \<in> set ws. worker_made K ctr t w \<and> brk s < w" using t1(6) ft(2) by (auto simp: s1_def)
  then have "\<exists>v. worker_ok K ctr t w v" if "w \<in> set ws" for w
    using that by (intro exI[of _ "new_worker w"]) (simp add: worker_ok_def worker_made_def new_worker_def)
  then have pool: "pool_ok K ctr t ?pool ws" using t1(2,8) assms(5) by (simp add: pool_ok_def t_def)
  show thesis
  proof (rule that[of ?pool t ws])
    show "\<forall>q j service. thread_made K ctr s q j service \<longrightarrow> q + 12 \<le> brk s \<longrightarrow> thread_made K ctr t q j service"
    proof (intro allI impI)
      fix q j service assume h: "thread_made K ctr s q j service" "q + 12 \<le> brk s"
      have "q + 12 \<le> brk s1" using h(2) by (simp add: s1_def)
      then show "thread_made K ctr t q j service" using t1(9) fr(2)[OF h(1)] ft(3) by blast
    qed
  qed (use False run made pool t1 ft assms(5) in \<open>auto simp: s1_def t_def beside_workers_def\<close>)
qed

text \<open>A worker as it was created is ready to be started.\<close>

definition worker_ready ::
  "('k, 'y) sys_ops_scheme \<Rightarrow> ('k \<Rightarrow> int \<Rightarrow> nat option) \<Rightarrow> ('k, 'z) sheap_scheme \<Rightarrow> addr \<Rightarrow> bool" where
  "worker_ready K ctr t p \<longleftrightarrow> (\<exists>w. workers t p = Some w \<and> \<not> w_start w \<and> w_id w = None \<and> loop_ok t (w_loop w) \<and> loop_size t (w_loop w) = 1024 \<and>
     (\<forall>fd ev. watched t (w_loop w) fd ev = NULL) \<and> mbox_ok K ctr (w_task_queue w) (w_async w) t \<and> cq_list t (w_task_queue w) = [])"

lemma new_worker_ready:
  fixes t :: "('k, 'z) sheap_scheme"
  assumes m: "worker_made K ctr t p"
  shows "worker_ready K ctr t p"
proof -
  obtain epfd where r: "loop_repr t (p + 3) (worker_loop_of p) \<lparr>p_epfd = epfd, p_setsize = 1024, p_events = replicate 1024 None\<rparr> (replicate 1024 empty_slot)"
    using m by (auto simp: worker_made_def loop_repr_def worker_loop_of_def slots_ok_replicate)
  then have "loop_ok t (p + 3)" by (auto simp: loop_ok_def)
  moreover have "loop_size t (p + 3) = 1024" using loop_size_repr[OF r] by (simp add: worker_loop_of_def)
  moreover have "watched t (p + 3) fd ev = NULL" for fd ev
    by (simp add: watched_repr[OF r] worker_loop_of_def slot_ptr_def empty_slot_def nat_less_iff)
  ultimately show ?thesis using m by (simp add: worker_ready_def worker_made_def new_worker_def)
qed

text \<open>Telling workers to end keeps their thread ids; a worker that was never started has none.\<close>

lemma pool_stop_ids:
  fixes s :: "('k, 'z) sheap_scheme"
  assumes "pool_iter (\<lambda>s thread. map_option snd (xv_worker_thread_stop s thread)) pool n i s = Some t"
  shows "pools t = pools s \<and> thread_arrays t = thread_arrays s \<and> (\<forall>p. map_option w_id (workers t p) = map_option w_id (workers s p))"
  using assms
proof (induction n arbitrary: i s)
  case (Suc n)
  obtain p th s1 where p: "deref (pools s) pool = Some p" "pool_thread s p i = Some th" "map_option snd (xv_worker_thread_stop s th) = Some s1"
    "pool_iter (\<lambda>s thread. map_option snd (xv_worker_thread_stop s thread)) pool n (i + 1) s1 = Some t"
    using Suc.prems by (auto elim!: bind_SomeE)
  obtain w where w: "deref (workers s) th = Some w" "s1 = s\<lparr>workers := (workers s)(th \<mapsto> w\<lparr>w_start := False\<rparr>)\<rparr>"
    using p(3) by (auto simp: xv_worker_thread_stop_def elim!: bind_SomeE)
  then have "map_option w_id (workers s1 q) = map_option w_id (workers s q)" for q by (auto simp: deref_def split: if_splits)
  then show ?case using Suc.IH[OF p(4)] w(2) by simp
qed simp

lemma destroy_unstarted_pool:
  fixes s :: "('k, 'z) sheap_scheme"
  assumes p: "pools s pool = Some p" "0 < tp_thread_count p" "thread_arrays s (tp_threads p) = Some arr" "arr_get arr 0 = Some (Some w)"
    and w: "map_option w_id (workers s w) = Some None"
  shows "xv_thread_pool_destroy K P s pool = None"
proof (rule ccontr)
  assume "xv_thread_pool_destroy K P s pool \<noteq> None"
  then obtain r t p' u where t: "xv_thread_pool_stop s pool = Some (r, t)" "deref (pools t) pool = Some p'"
    "pool_iter (xv_worker_thread_destroy K P) pool (nat (tp_thread_count p')) 0 t = Some u"
    by (auto simp: xv_thread_pool_destroy_def elim!: bind_SomeE)
  obtain q :: xv_thread_pool_t where "pool_iter (\<lambda>s thread. map_option snd (xv_worker_thread_stop s thread)) pool (nat (tp_thread_count q)) 0 s = Some t"
    using t(1) by (auto simp: xv_thread_pool_stop_def elim!: bind_SomeE)
  from pool_stop_ids[OF this] have f: "pools t = pools s" "thread_arrays t = thread_arrays s" "map_option w_id (workers t w) = Some None"
    using w by simp_all
  have "p' = p" using t(2) p(1) f(1) by (auto simp: deref_def split: if_splits)
  moreover obtain n where "nat (tp_thread_count p) = Suc n" using p(2) by (cases "nat (tp_thread_count p)") auto
  ultimately obtain v where v: "pool_thread t p 0 = Some v" "xv_worker_thread_destroy K P t v \<noteq> None"
    using t(2,3) by (auto elim!: bind_SomeE)
  then have "v = w" using p(3,4) f(2) by (auto simp: pool_thread_def deref_def split: if_splits elim!: bind_SomeE)
  then have "xv_worker_thread_destroy K P t w \<noteq> None" using v(2) by simp
  then obtain x r1 t1 x1 r2 t2 x2 i where d: "xv_worker_thread_stop t w = Some (r1, t1)" "deref (workers t1) w = Some x1"
    "xv_async_send K t1 (w_async x1) = Some (r2, t2)" "deref (workers t2) w = Some x2" "w_id x2 = Some i"
    by (auto simp: xv_worker_thread_destroy_def elim!: bind_SomeE)
  have "workers t2 = workers t1" using d(3) by (auto simp: xv_async_send_def Let_def split: prod.splits if_splits elim!: bind_SomeE)
  moreover have "map_option w_id (workers t1 w) = Some None"
    using d(1) f(3) by (auto simp: xv_worker_thread_stop_def deref_def split: if_splits elim!: bind_SomeE)
  ultimately show False using d(4,5) by (auto simp: deref_def split: if_splits)
qed

text \<open>What \<^verbatim>\<open>xv_service_init\<close> leaves behind.\<close>

definition made_service :: "xv_service_config_t \<Rightarrow> addr \<Rightarrow> addr \<Rightarrow> addr \<Rightarrow> xv_service_t" where
  "made_service config threads table pool = (new_service config threads table)\<lparr>sv_worker_threads := pool\<rparr>"

lemma service_init_made:
  fixes s :: "('k, 'z) sheap_scheme"
  assumes K: "fds_available K" "eventfd_doc K ctr" "create_keeps_eventfds K ctr"
    and c: "0 < io_thread_count config" "0 \<le> worker_thread_count config" and s: "blank_above (brk s) s" "cq_ok s"
  obtains t ps pool ws where "xv_service_init K s config = Some (brk s + 1, t)" "length ps = nat (io_thread_count config)"
    "sorted_wrt (\<lambda>p q. p + 12 < q) ps" "\<forall>j < length ps. thread_made K ctr t (ps ! j) (int j) (brk s + 1)"
    "services t (brk s + 1) = Some (made_service config (brk s + 2) (brk t) pool)" "io_thread_arrays t (brk s + 2) = Some (map Some ps)"
    "conn_arrays t (brk t) = Some (replicate (nat XV_DEFAULT_LOOP_SIZE) (Some NULL))" "brk t \<noteq> NULL"
    "int (length ws) = worker_thread_count config" "\<forall>w \<in> set ws. worker_made K ctr t w" "sorted_wrt (\<lambda>p q. p + 8 < q) ws"
    "\<forall>p \<in> set ps. \<forall>w \<in> set ws. p < w" "if worker_thread_count config = 0 then pool = NULL else pool_ok K ctr t pool ws"
proof -
  let ?svc = "brk s + 1" and ?ths = "brk s + 2" and ?n = "nat (io_thread_count config)"
  define s1 where "s1 = s\<lparr>brk := ?ths, io_thread_arrays := (io_thread_arrays s)(?ths \<mapsto> replicate ?n None)\<rparr>"
  obtain t1 ps where t1: "io_thread_init_loop K ?svc ?ths ?n 0 s1 = Some t1" "length ps = ?n" "sorted_wrt (\<lambda>p q. p + 12 < q) ps"
    "\<forall>p \<in> set ps. brk s1 < p \<and> p + 12 \<le> brk t1" "brk s1 \<le> brk t1" "\<forall>j < ?n. thread_repr t1 (ps ! j) (0 + int j) ?svc"
    "io_thread_arrays t1 = (io_thread_arrays s1)(?ths \<mapsto> take (nat 0) (replicate ?n None) @ map Some ps)" "services t1 = services s1"
    using init_loop_law[OF K(1), of s1 ?ths "replicate ?n None" 0 ?n ?svc] by (auto simp: s1_def)
  have q1: "cq_ok s1" by (rule cq_brk_mono(1)[OF _ _ _ _ s(2)]) (simp_all add: s1_def)
  have m1: "cq_ok t1" "\<forall>p > brk s1. io_threads t1 p \<noteq> None \<longrightarrow> mailboxes_ok K ctr p t1"
    using init_loop_mailboxes[OF K q1 _ t1(1)] s(1) by (auto simp: blank_above_def s1_def)
  have made1: "thread_made K ctr t1 (ps ! j) (int j) ?svc" if "j < length ps" for j
    using t1(2,4,6) m1(2) that unfolding thread_made_def by (metis add_0 nth_mem option.distinct(1) thread_repr_def)
  obtain pool t2 ws where t2: "(if worker_thread_count config > 0 then xv_thread_pool_init K t1 (worker_thread_count config) else Some (NULL, t1)) = Some (pool, t2)"
    "int (length ws) = worker_thread_count config" "cq_ok t2" "brk t1 \<le> brk t2"
    "if worker_thread_count config = 0 then pool = NULL else pool_ok K ctr t2 pool ws"
    "io_threads t2 = io_threads t1" "io_thread_arrays t2 = io_thread_arrays t1" "conn_arrays t2 = conn_arrays t1" "services t2 = services t1"
    "\<forall>w \<in> set ws. worker_made K ctr t2 w \<and> brk t1 < w" "sorted_wrt (\<lambda>p q. p + 8 < q) ws"
    "\<forall>q j service. thread_made K ctr t1 q j service \<longrightarrow> q + 12 \<le> brk t1 \<longrightarrow> thread_made K ctr t2 q j service"
    by (rule pool_init_law[OF K m1(1) c(2)])
  define t where "t = t2\<lparr>brk := brk t2 + 1, conn_arrays := (conn_arrays t2)(brk t2 + 1 \<mapsto> replicate (nat XV_DEFAULT_LOOP_SIZE) (Some NULL)),
    services := (services t2)(?svc \<mapsto> made_service config ?ths (brk t2 + 1) pool)\<rparr>"
  have ft: "worker_made K ctr t2 q \<Longrightarrow> worker_made K ctr t q" "thread_made K ctr t2 q j service \<Longrightarrow> thread_made K ctr t q j service" for q j service
    using made_frame[of t2 t] by (simp_all add: t_def)
  show thesis
  proof (rule that[of t ps pool ws])
    show "xv_service_init K s config = Some (brk s + 1, t)"
      using c t1(1) t2(1) by (simp add: xv_service_init_def xv_malloc_def s1_def t_def made_service_def new_service_def xv_atomic_set_def Let_def)
    show "\<forall>j < length ps. thread_made K ctr t (ps ! j) (int j) ?svc" using t2(12) made1 t1(4) ft(2) by auto
    show "\<forall>w \<in> set ws. worker_made K ctr t w" using t2(10) ft(1) by blast
    show "\<forall>p \<in> set ps. \<forall>w \<in> set ws. p < w" using t1(4) t2(10) by fastforce
    show "if worker_thread_count config = 0 then pool = NULL else pool_ok K ctr t pool ws"
      using t2(5) pool_ok_frame[of K ctr t2 pool ws t] by (simp add: t_def split: if_splits)
  qed (use t1(2,3,7) t2(2,7,11) in \<open>simp_all add: t_def\<close>)
qed

text \<open>C15. What \<^verbatim>\<open>xv_service_init\<close> returns satisfies the hypotheses under which the rest of the service is correct, for any number of
  I/O threads and of workers: a well-formed, empty table of connections with count 0, not started and without listeners; I/O threads in the
  order of their index, each with a well-formed loop that watches nothing, and with two empty mailboxes that work; no pool if no workers are
  asked for, otherwise a pool of that many workers, not started, each with a well-formed loop that watches nothing and an empty
  mailbox of tasks that works. No loop is shared.\<close>

theorem xv_service_init_ready:
  fixes s :: "('k, 'z) sheap_scheme"
  assumes K: "fds_available K" "eventfd_doc K ctr" "create_keeps_eventfds K ctr"
    and c: "0 < io_thread_count config" "io_thread_count config \<le> INT_MAX" "0 \<le> worker_thread_count config"
    and s: "blank_above (brk s) s" "cq_ok s"
  shows "\<exists>service t sv ts ws. xv_service_init K s config = Some (service, t) \<and>
     table_repr t service sv (replicate (nat XV_DEFAULT_LOOP_SIZE) (Some NULL)) \<and> sv_config sv = config \<and>
     xv_atomic_get (sv_conn_count sv) = 0 \<and> \<not> sv_start sv \<and> sv_listeners sv = NULL \<and>
     threads_ok K ctr t service ts \<and> int (length ts) = io_thread_count config \<and>
     (\<forall>j < length ts. thread_ready K ctr t (ts ! j) (int j) service) \<and>
     int (length ws) = worker_thread_count config \<and> (\<forall>w \<in> set ws. worker_ready K ctr t w) \<and>
     (if worker_thread_count config = 0 then sv_worker_threads sv = NULL else pool_ok K ctr t (sv_worker_threads sv) ws) \<and>
     distinct (map (\<lambda>p. it_loop (the (io_threads t p))) ts @ map (\<lambda>w. w_loop (the (workers t w))) ws)"
proof -
  obtain t ps pool ws where t: "xv_service_init K s config = Some (brk s + 1, t)" "length ps = nat (io_thread_count config)"
    "sorted_wrt (\<lambda>p q. p + 12 < q) ps" "\<forall>j < length ps. thread_made K ctr t (ps ! j) (int j) (brk s + 1)"
    "services t (brk s + 1) = Some (made_service config (brk s + 2) (brk t) pool)" "io_thread_arrays t (brk s + 2) = Some (map Some ps)"
    "conn_arrays t (brk t) = Some (replicate (nat XV_DEFAULT_LOOP_SIZE) (Some NULL))" "brk t \<noteq> NULL"
    "int (length ws) = worker_thread_count config" "\<forall>w \<in> set ws. worker_made K ctr t w" "sorted_wrt (\<lambda>p q. p + 8 < q) ws"
    "\<forall>p \<in> set ps. \<forall>w \<in> set ws. p < w" "if worker_thread_count config = 0 then pool = NULL else pool_ok K ctr t pool ws"
    by (rule service_init_made[OF K c(1,3) s])
  let ?svc = "brk s + 1" and ?sv = "made_service config (brk s + 2) (brk t) pool"
  have ready: "\<forall>j < length ps. ps ! j \<noteq> NULL \<and> thread_ready K ctr t (ps ! j) (int j) ?svc"
    using t(4) new_thread_ready unfolding thread_made_def by (metis thread_repr_def)
  have "table_repr t ?svc ?sv (replicate (nat XV_DEFAULT_LOOP_SIZE) (Some NULL))"
    using t(5,7,8) by (simp add: table_repr_def made_service_def new_service_def XV_DEFAULT_LOOP_SIZE_def INT_MAX_def)
  moreover have "threads_ok K ctr t ?svc ps"
    by (rule ready_threads_ok[OF ready, where sv = ?sv]) (use t(2,5,6) c(1,2) in \<open>auto simp: made_service_def new_service_def\<close>)
  moreover have "distinct (map (\<lambda>p. it_loop (the (io_threads t p))) ps @ map (\<lambda>w. w_loop (the (workers t w))) ws)"
  proof -
    have "map (\<lambda>p. it_loop (the (io_threads t p))) ps = map (\<lambda>p. p + 1) ps"
      using t(4) by (auto simp: in_set_conv_nth thread_made_def thread_repr_def new_thread_def)
    moreover have "map (\<lambda>w. w_loop (the (workers t w))) ws = map (\<lambda>w. w + 3) ws" using t(10) by (simp add: worker_made_def new_worker_def)
    moreover have "distinct ps" "distinct ws" using t(3,11) by (auto simp: sorted_wrt_iff_nth_less distinct_conv_nth) (metis add_lessD1 nat_neq_iff)+
    moreover have "p + 1 \<noteq> w + 3" if "p \<in> set ps" "w \<in> set ws" for p w using that t(12) by fastforce
    ultimately show ?thesis by (auto simp: distinct_map inj_on_def)
  qed
  moreover have "if worker_thread_count config = 0 then sv_worker_threads ?sv = NULL else pool_ok K ctr t (sv_worker_threads ?sv) ws"
    using t(13) by (simp add: made_service_def)
  moreover have "sv_config ?sv = config" "xv_atomic_get (sv_conn_count ?sv) = 0" "\<not> sv_start ?sv" "sv_listeners ?sv = NULL"
    "int (length ps) = io_thread_count config"
    using t(2) c(1) by (auto simp: made_service_def new_service_def xv_atomic_get_def)
  moreover have "\<forall>w \<in> set ws. worker_ready K ctr t w" using t(10) new_worker_ready by blast
  ultimately show ?thesis
    using t(1,9) ready
    by - (rule exI[of _ ?svc], rule exI[of _ t], rule exI[of _ ?sv], rule exI[of _ ps], rule exI[of _ ws], simp)
qed

text \<open>C20. But a service that has workers and is destroyed before it was started has undefined behaviour: each worker is joined, and its
  thread id was never assigned.\<close>

theorem destroy_unstarted_service_undefined:
  fixes s :: "('k, 'z) sheap_scheme"
  assumes K: "fds_available K" "eventfd_doc K ctr" "create_keeps_eventfds K ctr"
    and c: "0 < io_thread_count config" "0 < worker_thread_count config" and s: "blank_above (brk s) s" "cq_ok s"
  shows "\<exists>service t. xv_service_init K s config = Some (service, t) \<and> service \<noteq> NULL \<and> xv_service_destroy K P t service = None"
proof -
  obtain t ps pool ws where t: "xv_service_init K s config = Some (brk s + 1, t)" "length ps = nat (io_thread_count config)"
    "sorted_wrt (\<lambda>p q. p + 12 < q) ps" "\<forall>j < length ps. thread_made K ctr t (ps ! j) (int j) (brk s + 1)"
    "services t (brk s + 1) = Some (made_service config (brk s + 2) (brk t) pool)" "io_thread_arrays t (brk s + 2) = Some (map Some ps)"
    "conn_arrays t (brk t) = Some (replicate (nat XV_DEFAULT_LOOP_SIZE) (Some NULL))" "brk t \<noteq> NULL"
    "int (length ws) = worker_thread_count config" "\<forall>w \<in> set ws. worker_made K ctr t w" "sorted_wrt (\<lambda>p q. p + 8 < q) ws"
    "\<forall>p \<in> set ps. \<forall>w \<in> set ws. p < w" "if worker_thread_count config = 0 then pool = NULL else pool_ok K ctr t pool ws"
    using service_init_made[OF K c(1) less_imp_le[OF c(2)] s] .
  let ?svc = "brk s + 1" and ?sv = "made_service config (brk s + 2) (brk t) pool"
  have sv: "sv_listeners ?sv = NULL" "\<not> sv_start ?sv" "sv_conn_setsize ?sv = XV_DEFAULT_LOOP_SIZE" "sv_connections ?sv = brk t"
    "sv_io_threads ?sv = brk s + 2" "sv_worker_threads ?sv = pool" "sv_config ?sv = config" by (simp_all add: made_service_def new_service_def)
  have conns: "each_connection xv_connection_destroy ?svc (nat XV_DEFAULT_LOOP_SIZE) 0 t = Some t"
    by (rule each_connection_none[OF _ t(5), where arr = "replicate (nat XV_DEFAULT_LOOP_SIZE) (Some NULL)"]) (use t(7,8) sv in \<open>simp_all add: XV_DEFAULT_LOOP_SIZE_def\<close>)
  define t2 where "t2 = t\<lparr>conn_arrays := (conn_arrays t)(brk t := None)\<rparr>"
  have "\<forall>j < length ps. \<exists>n. thread_repr t2 (ps ! j) n ?svc" using t(4) by (auto simp: thread_made_def thread_repr_def t2_def)
  then obtain u where u: "each_io_thread (xv_io_thread_destroy K) ?svc (length ps) 0 t2 = Some u" "io_thread_arrays u = io_thread_arrays t2"
    "workers u = workers t2" "pools u = pools t2" "thread_arrays u = thread_arrays t2"
    using destroy_threads_keep[OF t(3), of t2 ?svc ?svc ?sv "map Some ps" 0 K] t(5,6) sv by (auto simp: t2_def)
  have ok: "pool_ok K ctr t pool ws" using t(13) c(2) by simp
  obtain w vs where ws: "ws = w # vs" using t(9) c(2) by (cases ws) auto
  obtain p where p: "pool \<noteq> NULL" "pools t pool = Some p" "tp_thread_count p = int (length ws)" "thread_arrays t (tp_threads p) = Some (map Some ws)"
    using ok by (auto simp: pool_ok_def)
  have "map_option w_id (workers t w) = Some None" using t(10) ws by (simp add: worker_made_def new_worker_def)
  then have none: "xv_thread_pool_destroy K P (u\<lparr>io_thread_arrays := h\<rparr>) pool = None" for h
    using p ws u by (intro destroy_unstarted_pool[of _ _ p "map Some ws" w]) (simp_all add: t2_def arr_get_def)
  have "xv_service_destroy K P t ?svc = None"
    using sv conns u(1,2) t(2,5,6,7,8) p(1) none
    by (simp add: xv_service_destroy_def xv_service_stop_def destroy_listeners.simps xv_free_def t2_def Let_def)
  then show ?thesis using t(1) by (intro exI[of _ ?svc] exI[of _ t]) simp
qed

subsection \<open>Stopping too early\<close>

text \<open>Threads that have been created but have not run yet: only the kernel knows about them.\<close>

definition not_scheduled :: "('k, 'z) sheap_scheme pthread_ops \<Rightarrow> bool" where
  "not_scheduled P \<longleftrightarrow> (\<forall>e a s. \<exists>r id k. pth_create P e a s = (r, id, s\<lparr>kern := k\<rparr>))"

lemma create_threads_frame:
  assumes "not_scheduled P" "create_threads P service n i s = Some (r, t)"
  shows "listeners t = listeners s \<and> services t = services s"
  using assms(2)
proof (induction n arbitrary: i s)
  case (Suc n)
  obtain sv th where sv: "deref (services s) service = Some sv" "io_thread_at s sv i = Some th"
    using Suc.prems by (auto elim!: bind_SomeE)
  obtain ret id k where c: "pth_create P Io_thread_entry th s = (ret, id, s\<lparr>kern := k\<rparr>)" using assms(1) unfolding not_scheduled_def by blast
  show ?case
    using Suc.prems Suc.IH sv c by (fastforce split: if_splits elim!: bind_SomeE)
qed simp

text \<open>C34. A service with a listener that is stopped right after \<^verbatim>\<open>xv_service_start\<close>, before the leader thread has run, has
  undefined behaviour: \<^verbatim>\<open>xv_service_stop\<close> follows \<^verbatim>\<open>listener->io_thread\<close>, which only the leader assigns.\<close>

theorem stop_before_leader_undefined:
  fixes s :: "('k, 'z) sheap_scheme"
  assumes listen: "xv_service_add_listen K s service a port h = Some (XV_OK, t)"
    and sv: "service \<noteq> NULL" "services s service = Some sv" "sv_worker_threads sv = NULL" "\<not> sv_start sv"
    and start: "not_scheduled P" "xv_service_start K P t service = Some (r, u)"
  shows "xv_service_stop K u service = None"
proof -
  define n where "n = Suc (brk s)"
  have "\<exists>l. listeners t n = Some l \<and> ls_io_thread l = NULL \<and> services t service = Some (sv\<lparr>sv_listeners := n\<rparr>)"
    using listen sv(1,2)
    by (auto simp: xv_service_add_listen_def xv_listener_init_def xv_malloc_def xv_io_init_def xv_io_set_userdata_def XV_OK_def XV_ERR_def Let_def n_def
        split: prod.splits if_splits elim!: bind_SomeE)
  then obtain l where t: "n \<noteq> NULL" "listeners t n = Some l" "ls_io_thread l = NULL" "services t service = Some (sv\<lparr>sv_listeners := n\<rparr>)"
    by (auto simp: n_def)
  define t1 where "t1 = t\<lparr>services := (services t)(service \<mapsto> sv\<lparr>sv_listeners := n, sv_start := True\<rparr>)\<rparr>"
  have "create_threads P service (nat (io_thread_count (sv_config sv))) 0 t1 = Some (r, u)"
    using start(2) sv t by (simp add: xv_service_start_def t1_def)
  then have u: "listeners u = listeners t1" "services u = services t1" using create_threads_frame[OF start(1)] by blast+
  have "stop_all_listeners K n v = None" if "listeners v = listeners t" for v :: "('k, 'z) sheap_scheme"
    using t that by (subst stop_all_listeners.simps) (simp add: deref_def)
  then show ?thesis
    using sv(1) u t by (simp add: xv_service_stop_def t1_def)
qed

subsection \<open>Examples\<close>

text \<open>A process in which nothing has been allocated.\<close>

definition blank_svc :: "sim_os sheap" where
  "blank_svc = \<lparr>brk = 0, nodes = Map.empty, queues = Map.empty, cqueues = Map.empty, kern = os_start, pollers = Map.empty,
     fired_arrays = Map.empty, ios = Map.empty, loops = Map.empty, event_arrays = Map.empty, asyncs = Map.empty, tasks = Map.empty,
     workers = Map.empty, pools = Map.empty, thread_arrays = Map.empty, buffers = Map.empty, connections = Map.empty, listeners = Map.empty,
     messages = Map.empty, pool_tasks = Map.empty, io_threads = Map.empty, io_thread_arrays = Map.empty, conn_arrays = Map.empty,
     services = Map.empty\<rparr>"

definition three_threads :: xv_service_config_t where
  "three_threads = \<lparr>io_thread_count = 3, worker_thread_count = 0, tcp_nodealy = True, io_affinity_enable = False\<rparr>"

definition two_workers :: xv_service_config_t where
  "two_workers = three_threads\<lparr>worker_thread_count := 2\<rparr>"

definition idle_pth :: "sim_os sheap pthread_ops" where
  "idle_pth = \<lparr>pth_create = (\<lambda>e a s. (0, a, s)), pth_join = (\<lambda>i s. Some (0, s))\<rparr>"

definition ex_unstarted :: "sim_os sheap" where
  "ex_unstarted = ex_svc0\<lparr>services := [70 \<mapsto> ex_sv\<lparr>sv_start := False\<rparr>]\<rparr>"

lemma blank_svc_facts: "blank_above (brk blank_svc) blank_svc" "cq_ok blank_svc"
  by (simp_all add: blank_above_def blank_svc_def cq_ok_def qheap_ok_def queue_nodes_def)

lemma sim_fds: "fds_available sim_sys"
proof -
  have "\<not> foldr max xs (3 :: int) + 1 < 0" for xs using fresh_fd(2)[of xs] by simp
  then show ?thesis
    by (auto simp: fds_available_def sim_sys_def os_new_fd_def Let_def linorder_not_less simp del: foldr_append)
qed

lemma sim_create_keeps: "create_keeps_eventfds sim_sys sim_counter"
  by (simp add: create_keeps_eventfds_def sim_sys_def sim_ops_def sim_counter_def)

theorem xv_service_roundtrip_witness:
  "\<exists>service t u. xv_service_init sim_sys blank_svc three_threads = Some (service, t) \<and> service \<noteq> NULL \<and>
     xv_service_destroy sim_sys idle_pth t service = Some u \<and> io_threads u = Map.empty \<and> ios u = Map.empty \<and> cqueues u = Map.empty"
proof -
  obtain service t u where r: "xv_service_init sim_sys blank_svc three_threads = Some (service, t)" "service \<noteq> NULL"
    "xv_service_destroy sim_sys idle_pth t service = Some u" "u = blank_svc\<lparr>brk := brk u, kern := kern u\<rparr>"
    using xv_service_roundtrip[OF sim_fds _ _ blank_svc_facts(1), of three_threads idle_pth] by (auto simp: three_threads_def)
  have "io_threads u = Map.empty" "ios u = Map.empty" "cqueues u = Map.empty" by (subst r(4), simp add: blank_svc_def)+
  then show ?thesis using r(1-3) by blast
qed

theorem xv_service_init_ready_witness:
  "\<exists>service t sv ts ws. xv_service_init sim_sys blank_svc two_workers = Some (service, t) \<and>
     table_repr t service sv (replicate (nat XV_DEFAULT_LOOP_SIZE) (Some NULL)) \<and> threads_ok sim_sys sim_counter t service ts \<and> length ts = 3 \<and>
     pool_ok sim_sys sim_counter t (sv_worker_threads sv) ws \<and> length ws = 2"
proof -
  obtain service t sv ts ws where r: "xv_service_init sim_sys blank_svc two_workers = Some (service, t)"
    "table_repr t service sv (replicate (nat XV_DEFAULT_LOOP_SIZE) (Some NULL))" "threads_ok sim_sys sim_counter t service ts"
    "int (length ts) = io_thread_count two_workers" "int (length ws) = worker_thread_count two_workers"
    "if worker_thread_count two_workers = 0 then sv_worker_threads sv = NULL else pool_ok sim_sys sim_counter t (sv_worker_threads sv) ws"
    using xv_service_init_ready[OF sim_fds sim_eventfd_doc sim_create_keeps _ _ _ blank_svc_facts, of two_workers]
    by (auto simp: two_workers_def three_threads_def INT_MAX_def)
  have c: "io_thread_count two_workers = 3" "worker_thread_count two_workers = 2" by (simp_all add: two_workers_def three_threads_def)
  have "length ts = 3" "length ws = 2" "pool_ok sim_sys sim_counter t (sv_worker_threads sv) ws" using r(4-6) c by simp_all
  then show ?thesis using r(1-3) by blast
qed

theorem destroy_unstarted_service_undefined_witness:
  "\<exists>service t. xv_service_init sim_sys blank_svc two_workers = Some (service, t) \<and> xv_service_destroy sim_sys idle_pth t service = None"
proof -
  have c: "0 < io_thread_count two_workers" "0 < worker_thread_count two_workers" by (simp_all add: two_workers_def three_threads_def)
  show ?thesis
    using destroy_unstarted_service_undefined[OF sim_fds sim_eventfd_doc sim_create_keeps c blank_svc_facts, of idle_pth] by blast
qed

theorem stop_before_leader_undefined_witness:
  "\<exists>t r u. xv_service_add_listen sim_sys ex_unstarted 70 ''0.0.0.0'' 8080 ex_handle = Some (XV_OK, t) \<and>
     xv_service_start sim_sys idle_pth t 70 = Some (r, u) \<and> xv_service_stop sim_sys u 70 = None"
proof -
  obtain k where listen: "xv_tcp_listen sim_sys ''0.0.0.0'' 8080 1024 (kern ex_unstarted) = Some (8, k)"
    by (simp add: xv_tcp_listen_def xv_socket_def xv_tcp_reuse_addr_def fill_sockaddr_def sim_sys_def os_new_fd_def ex_unstarted_def
        ex_svc0_def os_start_def XV_ERR_def XV_OK_def htons_def swap16_def)
  have nb: "xv_nonblock sim_sys 8 k = Some (XV_OK, k)" by (simp add: xv_nonblock_def sim_sys_def)
  have ex: "brk ex_unstarted = 100" "services ex_unstarted = [70 \<mapsto> ex_sv\<lparr>sv_start := False\<rparr>]"
    "io_thread_arrays ex_unstarted = [72 \<mapsto> [Some 60]]" "io_threads ex_unstarted = [60 \<mapsto> ex_thread]"
    by (simp_all add: ex_unstarted_def ex_svc0_def)
  obtain t where t: "xv_service_add_listen sim_sys ex_unstarted 70 ''0.0.0.0'' 8080 ex_handle = Some (XV_OK, t)"
    "services t = [70 \<mapsto> ex_sv\<lparr>sv_start := False, sv_listeners := 101\<rparr>]" "io_thread_arrays t = [72 \<mapsto> [Some 60]]"
    "io_threads t = [60 \<mapsto> ex_thread]"
    by (simp add: xv_service_add_listen_def listen nb xv_listener_init_def xv_malloc_def xv_io_init_def xv_io_set_userdata_def ex)
  have "\<exists>r u. xv_service_start sim_sys idle_pth t 70 = Some (r, u)"
    by (simp add: xv_service_start_def t(2-4) ex_sv_def io_thread_at_def arr_get_def idle_pth_def)
  then obtain r u where u: "xv_service_start sim_sys idle_pth t 70 = Some (r, u)" by blast
  have "s = s\<lparr>kern := kern s\<rparr>" for s :: "sim_os sheap" by simp
  then have "not_scheduled idle_pth" unfolding not_scheduled_def idle_pth_def by (simp only: pthread_ops.simps) blast
  then show ?thesis
    using stop_before_leader_undefined[OF t(1) _ _ _ _ _ u] t(1) u by (auto simp: ex_unstarted_def ex_sv_def)
qed

end
