(* ===== verification/Xv_Shutdown.thy ===== *)
theory Xv_Shutdown
  imports Xv_Lifecycle
begin

section \<open>Stopping a running service\<close>

text \<open>
  What \<^verbatim>\<open>xv_service_stop\<close> does to the watchers of all I/O threads together, as the thread that calls it sees it,
  with the I/O threads idle.
\<close>

subsection \<open>Stopping watchers of several loops\<close>

text \<open>What the kernel is asked for, as a record of what matters: descriptors that are closed, eventfds that are written and threads
  that are joined, in order, with any number of changes of registrations in between and nothing else. \<open>J\<close> is what a join does to the
  kernel.\<close>

datatype shut_ev = Closed int | Woken int | Joined tid

inductive shut_run ::
  "('k, 'y) sys_ops_scheme \<Rightarrow> (tid \<Rightarrow> 'k \<Rightarrow> 'k \<Rightarrow> bool) \<Rightarrow> shut_ev list \<Rightarrow> 'k \<Rightarrow> 'k \<Rightarrow> bool" for K J where
  shut_done: "shut_run K J [] k k"
| shut_ctl: "shut_run K J es k k' \<Longrightarrow> shut_run K J es k (snd (epoll_ctl K ep op fd e k'))"
| shut_close: "shut_run K J es k k' \<Longrightarrow> shut_run K J (es @ [Closed fd]) k (snd (sys_close K fd k'))"
| shut_wake: "shut_run K J es k k' \<Longrightarrow> shut_run K J (es @ [Woken fd]) k (snd (eventfd_write K fd 1 k'))"
| shut_join: "shut_run K J es k k' \<Longrightarrow> J i k' k'' \<Longrightarrow> shut_run K J (es @ [Joined i]) k k''"

lemma shut_run_trans:
  assumes "shut_run K J fs k' k''" "shut_run K J es k k'"
  shows "shut_run K J (es @ fs) k k''"
  using assms
  by (induction rule: shut_run.induct) (auto intro: shut_run.intros simp flip: append_assoc)

lemma shut_run_one:
  "shut_run K J [] k (snd (epoll_ctl K ep op fd e k))" "shut_run K J [Closed fd] k (snd (sys_close K fd k))"
  "shut_run K J [Woken fd] k (snd (eventfd_write K fd 1 k))" "J i k k' \<Longrightarrow> shut_run K J [Joined i] k k'"
  using shut_close[OF shut_done] shut_wake[OF shut_done] shut_join[OF shut_done] by (auto intro: shut_ctl shut_done)

text \<open>Stopping the watchers in \<open>A\<close>, and breaking the loops in \<open>B\<close>.\<close>

definition stop_in :: "addr set \<Rightarrow> (addr \<rightharpoonup> xv_io_t) \<Rightarrow> addr \<rightharpoonup> xv_io_t" where
  "stop_in A h = (\<lambda>p. if p \<in> A then map_option (\<lambda>io. io\<lparr>io_start := False\<rparr>) (h p) else h p)"

definition break_in :: "addr set \<Rightarrow> (addr \<rightharpoonup> xv_loop_t) \<Rightarrow> addr \<rightharpoonup> xv_loop_t" where
  "break_in B h = (\<lambda>p. if p \<in> B then map_option (\<lambda>l. l\<lparr>l_start := False\<rparr>) (h p) else h p)"

text \<open>Well-formed loops that share no table of watchers, and a watcher that belongs to one of them.\<close>

definition loops_ok :: "('k, 'z) sheap_scheme \<Rightarrow> addr set \<Rightarrow> bool" where
  "loops_ok s Ls \<longleftrightarrow> (\<forall>L \<in> Ls. loop_ok s L) \<and>
     (\<forall>L \<in> Ls. \<forall>M \<in> Ls. L \<noteq> M \<longrightarrow> map_option l_events (loops s L) \<noteq> map_option l_events (loops s M))"

definition homed :: "('k, 'z) sheap_scheme \<Rightarrow> addr set \<Rightarrow> addr \<Rightarrow> addr \<Rightarrow> bool" where
  "homed s Ls L p \<longleftrightarrow> L \<in> Ls \<and> watcher_fits s L p \<and> marked_registered s L p \<and> (\<forall>M \<in> Ls - {L}. \<forall>fd ev. watched s M fd ev \<noteq> p)"

definition halted ::
  "('k, 'y) sys_ops_scheme \<Rightarrow> (tid \<Rightarrow> 'k \<Rightarrow> 'k \<Rightarrow> bool) \<Rightarrow> shut_ev list \<Rightarrow> addr set \<Rightarrow> addr set \<Rightarrow> addr set \<Rightarrow>
   ('k, 'z) sheap_scheme \<Rightarrow> ('k, 'z) sheap_scheme \<Rightarrow> bool" where
  "halted K J es Ls A B s t \<longleftrightarrow> brk t = brk s \<and> nodes t = nodes s \<and> queues t = queues s \<and> cqueues t = cqueues s \<and>
     pollers t = pollers s \<and> fired_arrays t = fired_arrays s \<and> lheap.more t = lheap.more s \<and> shut_run K J es (kern s) (kern t) \<and>
     ios t = stop_in A (ios s) \<and> loops t = break_in B (loops s) \<and> loops_ok t Ls \<and>
     (\<forall>L \<in> Ls. \<forall>fd ev. watched t L fd ev = (if watched s L fd ev \<in> A then NULL else watched s L fd ev))"

lemma stop_in_simps [simp]: "stop_in {} h = h" "stop_in B (stop_in A h) = stop_in (A \<union> B) h"
  by (auto simp: stop_in_def fun_eq_iff option.map_comp o_def)

lemma break_in_simps [simp]: "break_in {} h = h" "break_in B (break_in A h) = break_in (A \<union> B) h"
  by (auto simp: break_in_def fun_eq_iff option.map_comp o_def)

lemma halted_refl: "loops_ok s Ls \<Longrightarrow> halted K J [] Ls {} {} s s"
  by (simp add: halted_def shut_done)

lemma halted_trans: "halted K J es Ls A B s t \<Longrightarrow> halted K J fs Ls A' B' t u \<Longrightarrow> halted K J (es @ fs) Ls (A \<union> A') (B \<union> B') s u"
  by (auto simp: halted_def intro: shut_run_trans)

lemma halted_fields:
  assumes "halted K J es Ls A B s t"
  shows "loops_ok t Ls" "lheap.more t = lheap.more s" "shut_run K J es (kern s) (kern t)" "ios t = stop_in A (ios s)"
    "loops t = break_in B (loops s)" "L \<in> Ls \<Longrightarrow> watched t L fd ev = (if watched s L fd ev \<in> A then NULL else watched s L fd ev)"
  using assms by (simp_all add: halted_def)

lemma break_in_size: "loops t = break_in B (loops s) \<Longrightarrow> loop_size t L = loop_size s L"
  by (simp add: loop_size_def break_in_def option.map_sel split: option.split)

lemma halted_fits:
  assumes h: "halted K J es Ls A B s t" and p: "L \<in> Ls" "watcher_fits s L p"
  shows "watcher_fits t L p" "marked_registered s L p \<Longrightarrow> marked_registered t L p"
proof -
  note f = halted_fields[OF h]
  show "watcher_fits t L p"
    using p(2) break_in_size[OF f(5)] by (auto simp: watcher_fits_def f(4) stop_in_def)
  show "marked_registered t L p" if "marked_registered s L p"
    using that p f(6)[OF p(1)] by (fastforce simp: watcher_fits_def marked_registered_def f(4) stop_in_def split: if_splits)
qed

lemma halted_homed:
  assumes h: "halted K J es Ls A B s t" and p: "homed s Ls L p"
  shows "homed t Ls L p"
proof -
  have "p \<noteq> NULL" using p by (simp add: homed_def watcher_fits_def)
  then show ?thesis using p halted_fits[OF h, of L p] halted_fields(6)[OF h] by (auto simp: homed_def)
qed

lemma loop_repr_other:
  assumes r: "loop_repr s M m d arr" and a: "a \<noteq> l_events m" and p: "\<And>fd ev. watched s M fd ev \<noteq> p"
    and t: "t = s\<lparr>ios := (ios s)(p \<mapsto> x), kern := k, event_arrays := (event_arrays s)(a \<mapsto> y)\<rparr>"
  shows "loop_repr t M m d arr"
proof -
  have "slot_ok (ios t) (int i) (arr ! i)" if i: "i < length arr" for i
  proof -
    have "slot_ok (ios s) (int i) (arr ! i)" using loop_reprD(11)[OF r] i by (simp add: slots_ok_def)
    moreover have "e_read_io (arr ! i) \<noteq> p" "e_write_io (arr ! i) \<noteq> p"
      using p[of "int i" XV_READ] p[of "int i" XV_WRITE] i loop_reprD(9)[OF r]
      by (auto simp: watched_repr[OF r] slot_ptr_def code_defs split: if_splits)
    ultimately show ?thesis by (auto simp: slot_ok_def t intro: watcher_ok_upd_other)
  qed
  then show ?thesis using r a by (auto simp: loop_repr_def t slots_ok_def)
qed

lemma watched_unique:
  assumes "loop_ok s L" "watched s L fd ev = p" "p \<noteq> NULL" "ios s p = Some io"
  shows "io_start io \<and> fd = io_fd io \<and> ev = io_event io"
  using watched_started[OF assms(1), of fd ev p] assms(2-4) by auto

lemma io_stop_halts:
  fixes s :: "('k, 'z) sheap_scheme"
  assumes ok: "loops_ok s Ls" and p: "homed s Ls L p"
  shows "\<exists>r t. xv_io_stop K s L p = Some (r, t) \<and> halted K J [] Ls {p} {} s t"
proof -
  have L: "L \<in> Ls" "loop_ok s L" using ok p by (auto simp: homed_def loops_ok_def)
  obtain l d arr where r: "loop_repr s L l d arr" using L(2) by (auto simp: loop_ok_def)
  obtain io where io: "ios s p = Some io" "p \<noteq> NULL" "0 \<le> io_fd io" "io_fd io < l_setsize l" "io_event io \<in> {XV_READ, XV_WRITE}"
    using p by (auto simp: homed_def watcher_fits_def loop_size_repr[OF r])
  show ?thesis
  proof (cases "io_start io")
    case False
    have "watched s M fd ev \<noteq> p" if "M \<in> Ls" for M fd ev
      using ok that watched_unique[of s M fd ev p io] io False by (auto simp: loops_ok_def)
    moreover have "stop_in {p} (ios s) = ios s" using io(1) False by (auto simp: stop_in_def)
    ultimately have "halted K J [] Ls {p} {} s s" using ok by (simp add: halted_def shut_done)
    then show ?thesis using io False by (simp add: xv_io_stop_def)
  next
    case True
    define slot where "slot = arr ! nat (io_fd io)"
    define rest where "rest = e_event slot AND NOT (io_event io)"
    obtain rc k where ctl: "epoll_ctl K (p_epfd d) (if rest = XV_NONE then EPOLL_CTL_DEL else EPOLL_CTL_MOD) (io_fd io)
        \<lparr>ev_events = epoll_mask (if rest = XV_NONE then io_event io else rest), ev_fd = io_fd io\<rparr> (kern s) = (rc, k)" by fastforce
    define t where "t = s\<lparr>ios := (ios s)(p \<mapsto> io\<lparr>io_start := False\<rparr>), kern := k, event_arrays := (event_arrays s)(l_events l \<mapsto>
       arr[nat (io_fd io) := slot_set (io_event io) NULL (slot\<lparr>e_event := rest\<rparr>)])\<rparr>"
    have run: "xv_io_stop K s L p = Some (if rc = 0 then XV_OK else XV_ERR, t)"
      unfolding t_def by (rule stop_eq[OF r io(1,2) True io(3,4) _ slot_def rest_def ctl]) (use io(5) in simp)
    obtain r' t' where "xv_io_stop K s L p = Some (r', t')" "w_post K (\<lambda>_ _ _. None) L s (WStop p) r' t'"
      using stop_law[OF L(2), of p K] p unfolding homed_def by blast
    then have post: "loop_ok t L" "watched t L = table_set (watched s L) (io_fd io) (io_event io) NULL"
      using run io(1) True by (auto simp: w_post_def w_view_of_def)
    have other: "loop_ok t M \<and> watched t M = watched s M" if M: "M \<in> Ls" "M \<noteq> L" for M
    proof -
      obtain m e brr where m: "loop_repr s M m e brr" using ok M(1) by (auto simp: loops_ok_def loop_ok_def)
      have "l_events l \<noteq> l_events m"
        using ok L(1) M loop_reprD(2)[OF r] loop_reprD(2)[OF m] unfolding loops_ok_def by fastforce
      moreover have "watched s M fd ev \<noteq> p" for fd ev using p M by (simp add: homed_def)
      ultimately have t: "loop_repr t M m e brr" by (intro loop_repr_other[OF m _ _ t_def])
      then show ?thesis by (auto simp: loop_ok_def fun_eq_iff watched_repr[OF t] watched_repr[OF m])
    qed
    have at: "watched s L (io_fd io) (io_event io) = p" using p io(1) True by (simp add: homed_def marked_registered_def)
    have "watched t L fd ev = (if watched s L fd ev \<in> {p} then NULL else watched s L fd ev)" for fd ev
    proof (cases "fd = io_fd io \<and> ev = io_event io")
      case True
      then show ?thesis using at by (simp add: post(2) table_set_def)
    next
      case False
      then have "watched t L fd ev = watched s L fd ev" by (auto simp: post(2) table_set_def)
      moreover have "watched s L fd ev \<noteq> p" using False watched_unique[OF L(2) _ io(2,1), of fd ev] by blast
      ultimately show ?thesis by simp
    qed
    moreover have "watched t M fd ev = (if watched s M fd ev \<in> {p} then NULL else watched s M fd ev)" if "M \<in> Ls" "M \<noteq> L" for M fd ev
      using other[OF that] p that by (simp add: homed_def)
    ultimately have w: "\<forall>M \<in> Ls. \<forall>fd ev. watched t M fd ev = (if watched s M fd ev \<in> {p} then NULL else watched s M fd ev)" by metis
    have "loops_ok t Ls" using ok other post(1) by (auto simp: loops_ok_def t_def)
    moreover have "k = snd (epoll_ctl K (p_epfd d) (if rest = XV_NONE then EPOLL_CTL_DEL else EPOLL_CTL_MOD) (io_fd io)
        \<lparr>ev_events = epoll_mask (if rest = XV_NONE then io_event io else rest), ev_fd = io_fd io\<rparr> (kern s))" using ctl by simp
    then have "shut_run K J [] (kern s) (kern t)" by (simp add: t_def shut_run_one(1))
    moreover have "ios t = stop_in {p} (ios s)" using io(1) by (auto simp: stop_in_def t_def)
    ultimately have "halted K J [] Ls {p} {} s t" using w by (simp add: halted_def t_def)
    then show ?thesis using run by blast
  qed
qed

lemma loop_break_halts:
  fixes s :: "('k, 'z) sheap_scheme"
  assumes ok: "loops_ok s Ls" and L: "L \<in> Ls"
  shows "\<exists>t. xv_loop_break s L = Some t \<and> halted K J [] Ls {} {L} s t"
proof -
  obtain l d arr where r: "loop_repr s L l d arr" using ok L by (auto simp: loops_ok_def loop_ok_def)
  define t where "t = s\<lparr>loops := (loops s)(L \<mapsto> l\<lparr>l_start := False\<rparr>)\<rparr>"
  have lt: "loops t = break_in {L} (loops s)" using loop_reprD(2)[OF r] by (auto simp: t_def break_in_def)
  have repr: "loop_ok t M \<and> watched t M = watched s M" if M: "loop_ok s M" for M
  proof -
    obtain m e brr where m: "loop_repr s M m e brr" using M by (auto simp: loop_ok_def)
    then have t: "loop_repr t M (if M = L then m\<lparr>l_start := False\<rparr> else m) e brr"
      using loop_reprD(2)[OF r] by (auto simp: loop_repr_def t_def)
    then show ?thesis by (auto simp: loop_ok_def fun_eq_iff watched_repr[OF t] watched_repr[OF m])
  qed
  have "map_option l_events (loops t M) = map_option l_events (loops s M)" for M by (simp add: lt break_in_def option.map_comp o_def)
  then have "loops_ok t Ls" using ok repr by (simp add: loops_ok_def)
  moreover have "brk t = brk s" "nodes t = nodes s" "queues t = queues s" "cqueues t = cqueues s" "pollers t = pollers s"
    "fired_arrays t = fired_arrays s" "lheap.more t = lheap.more s" "kern t = kern s" "ios t = ios s" by (simp_all add: t_def)
  ultimately have "halted K J [] Ls {} {L} s t" using ok repr lt by (simp add: halted_def loops_ok_def shut_done)
  then show ?thesis using loop_reprD(1,2)[OF r] by (simp add: xv_loop_break_def t_def)
qed

subsection \<open>The parts of a running service\<close>

text \<open>Their watchers, and what it takes to stop them: every watcher belongs to the loop of one I/O thread.\<close>

definition listener_ios :: "('k, 'z) sheap_scheme \<Rightarrow> addr \<Rightarrow> addr set" where
  "listener_ios s x = (case listeners s x of None \<Rightarrow> {} | Some l \<Rightarrow> {ls_io l})"

definition listener_fd :: "('k, 'z) sheap_scheme \<Rightarrow> addr \<Rightarrow> int" where
  "listener_fd s x = (case listeners s x of None \<Rightarrow> - 1 | Some l \<Rightarrow> ls_fd l)"

definition conn_ios :: "('k, 'z) sheap_scheme \<Rightarrow> addr \<Rightarrow> addr set" where
  "conn_ios s c = (case connections s c of None \<Rightarrow> {} | Some x \<Rightarrow> {c_read_io x, c_write_io x})"

definition thread_ios :: "('k, 'z) sheap_scheme \<Rightarrow> addr \<Rightarrow> addr set" where
  "thread_ios s p = (case io_threads s p of None \<Rightarrow> {} | Some th \<Rightarrow>
     {as_read_io (the (asyncs s (it_async_add_conn th))), as_read_io (the (asyncs s (it_async_return_message th)))})"

definition thread_loop :: "('k, 'z) sheap_scheme \<Rightarrow> addr \<Rightarrow> addr" where
  "thread_loop s p = (case io_threads s p of None \<Rightarrow> NULL | Some th \<Rightarrow> it_loop th)"

definition listener_fit :: "('k, 'z) sheap_scheme \<Rightarrow> addr set \<Rightarrow> addr \<Rightarrow> bool" where
  "listener_fit s Ls x \<longleftrightarrow> x \<noteq> NULL \<and> (\<exists>l th. listeners s x = Some l \<and> ls_io_thread l \<noteq> NULL \<and>
     io_threads s (ls_io_thread l) = Some th \<and> homed s Ls (it_loop th) (ls_io l))"

definition conn_fit :: "('k, 'z) sheap_scheme \<Rightarrow> addr set \<Rightarrow> addr \<Rightarrow> bool" where
  "conn_fit s Ls c \<longleftrightarrow> c \<noteq> NULL \<and> (\<exists>x th. connections s c = Some x \<and> c_io_thread x \<noteq> NULL \<and> io_threads s (c_io_thread x) = Some th \<and>
     homed s Ls (it_loop th) (c_read_io x) \<and> homed s Ls (it_loop th) (c_write_io x))"

definition thread_fit :: "('k, 'z) sheap_scheme \<Rightarrow> addr set \<Rightarrow> addr \<Rightarrow> bool" where
  "thread_fit s Ls p \<longleftrightarrow> p \<noteq> NULL \<and> (\<exists>th x y. io_threads s p = Some th \<and> it_loop th \<in> Ls \<and>
     it_async_add_conn th \<noteq> NULL \<and> asyncs s (it_async_add_conn th) = Some x \<and> homed s Ls (it_loop th) (as_read_io x) \<and>
     it_async_return_message th \<noteq> NULL \<and> asyncs s (it_async_return_message th) = Some y \<and> homed s Ls (it_loop th) (as_read_io y))"

text \<open>The listeners of a service are linked by \<^verbatim>\<open>next\<close>.\<close>

fun chain :: "(addr \<rightharpoonup> xv_listener_t) \<Rightarrow> addr list \<Rightarrow> addr \<Rightarrow> bool" where
  "chain h [] p \<longleftrightarrow> p = NULL"
| "chain h (x # xs) p \<longleftrightarrow> p = x \<and> (\<exists>l n. h x = Some l \<and> ls_next l = Some n \<and> chain h xs n)"

lemma halted_parts:
  assumes h: "halted K J es Ls A B s t"
  shows "listener_ios t = listener_ios s" "conn_ios t = conn_ios s" "thread_ios t = thread_ios s" "thread_loop t = thread_loop s"
    "listener_fit s Ls x \<Longrightarrow> listener_fit t Ls x" "conn_fit s Ls x \<Longrightarrow> conn_fit t Ls x" "thread_fit s Ls x \<Longrightarrow> thread_fit t Ls x"
  using halted_homed[OF h] more_sheap_l[OF halted_fields(2)[OF h]]
  by (auto simp: fun_eq_iff listener_ios_def conn_ios_def thread_ios_def thread_loop_def listener_fit_def conn_fit_def thread_fit_def split: option.splits)

lemma listener_stop_law:
  fixes s :: "('k, 'z) sheap_scheme"
  assumes ok: "loops_ok s Ls" and x: "listener_fit s Ls x"
  shows "\<exists>l th t. listeners s x = Some l \<and> deref (io_threads s) (ls_io_thread l) = Some th \<and>
     xv_listener_stop K s (it_loop th) x = Some t \<and> halted K J [Closed (listener_fd s x)] Ls (listener_ios s x) {} s t"
proof -
  obtain l th where l: "x \<noteq> NULL" "listeners s x = Some l" "ls_io_thread l \<noteq> NULL" "io_threads s (ls_io_thread l) = Some th"
    "homed s Ls (it_loop th) (ls_io l)" using x by (auto simp: listener_fit_def)
  obtain r s1 where s1: "xv_io_stop K s (it_loop th) (ls_io l) = Some (r, s1)" "halted K J [] Ls {ls_io l} {} s s1"
    using io_stop_halts[OF ok l(5)] by blast
  note f = more_sheap_l(8)[OF halted_fields(2)[OF s1(2)]]
  define t where "t = s1\<lparr>kern := snd (xv_close K (ls_fd l) (kern s1))\<rparr>"
  have "shut_run K J [Closed (ls_fd l)] (kern s1) (kern t)" by (simp add: t_def xv_close_def shut_run_one(2))
  moreover have "\<And>L. watched t L = watched s1 L" by (rule watched_cong) (simp_all add: t_def)
  moreover have "loops_ok t Ls"
    using halted_fields(1)[OF s1(2)] by (auto simp: loops_ok_def t_def intro: loop_ok_cong)
  ultimately have "halted K J [Closed (ls_fd l)] Ls {} {} s1 t" by (auto simp: halted_def t_def)
  from halted_trans[OF s1(2) this] show ?thesis
    using l s1(1) f by (intro exI[of _ l] exI[of _ th] exI[of _ t]) (simp add: xv_listener_stop_def t_def listener_ios_def listener_fd_def)
qed

lemma stop_all_listeners_law:
  fixes s :: "('k, 'z) sheap_scheme"
  assumes "loops_ok s Ls" "\<forall>x \<in> set xs. listener_fit s Ls x" "chain (listeners s) xs p"
  shows "\<exists>t. stop_all_listeners K p s = Some t \<and> halted K J (map (\<lambda>x. Closed (listener_fd s x)) xs) Ls (\<Union> (listener_ios s ` set xs)) {} s t"
  using assms
proof (induction xs arbitrary: p s)
  case Nil
  then show ?case by (simp add: stop_all_listeners.simps halted_refl)
next
  case (Cons x xs)
  obtain l th s1 where s1: "listeners s x = Some l" "deref (io_threads s) (ls_io_thread l) = Some th"
    "xv_listener_stop K s (it_loop th) x = Some s1" "halted K J [Closed (listener_fd s x)] Ls (listener_ios s x) {} s s1"
    using listener_stop_law[where J = J, OF Cons.prems(1), of x K] Cons.prems(2) by auto
  obtain n where n: "p = x" "ls_next l = Some n" "chain (listeners s) xs n" using Cons.prems(3) s1(1) by auto
  have f: "listeners s1 = listeners s" using more_sheap_l(8)[OF halted_fields(2)[OF s1(4)]] .
  have "\<forall>y \<in> set xs. listener_fit s1 Ls y" using Cons.prems(2) halted_parts(5)[OF s1(4)] by simp
  then obtain t where t: "stop_all_listeners K n s1 = Some t" "halted K J (map (\<lambda>x. Closed (listener_fd s1 x)) xs) Ls (\<Union> (listener_ios s1 ` set xs)) {} s1 t"
    using Cons.IH[OF halted_fields(1)[OF s1(4)], of n] n(3) f by auto
  have "x \<noteq> NULL" using Cons.prems(2) by (simp add: listener_fit_def)
  then have "stop_all_listeners K p s = Some t"
    using s1 t(1) n f by (subst stop_all_listeners.simps) (simp add: deref_def)
  then show ?case using halted_trans[OF s1(4) t(2)] halted_parts(1)[OF s1(4)] f by (intro exI[of _ t]) (simp add: listener_fd_def)
qed

lemma stop_connection_law:
  fixes s :: "('k, 'z) sheap_scheme"
  assumes ok: "loops_ok s Ls" and c: "conn_fit s Ls c"
  shows "\<exists>t. stop_connection K s c = Some t \<and> halted K J [] Ls (conn_ios s c) {} s t"
proof -
  obtain x th where x: "c \<noteq> NULL" "connections s c = Some x" "c_io_thread x \<noteq> NULL" "io_threads s (c_io_thread x) = Some th"
    "homed s Ls (it_loop th) (c_read_io x)" "homed s Ls (it_loop th) (c_write_io x)" using c by (auto simp: conn_fit_def)
  obtain r1 s1 where s1: "xv_io_stop K s (it_loop th) (c_read_io x) = Some (r1, s1)" "halted K J [] Ls {c_read_io x} {} s s1"
    using io_stop_halts[OF ok x(5)] by blast
  obtain r2 s2 where s2: "xv_io_stop K s1 (it_loop th) (c_write_io x) = Some (r2, s2)" "halted K J [] Ls {c_write_io x} {} s1 s2"
    using io_stop_halts[OF halted_fields(1)[OF s1(2)] halted_homed[OF s1(2) x(6)]] by blast
  note f = more_sheap_l(7)[OF halted_fields(2)[OF s1(2)]]
  show ?thesis
    using x s1(1) s2(1) f halted_trans[OF s1(2) s2(2)]
    by (intro exI[of _ s2]) (simp add: stop_connection_def xv_connection_stop_def conn_ios_def insert_commute)
qed

lemma io_thread_stop_law:
  fixes s :: "('k, 'z) sheap_scheme"
  assumes ok: "loops_ok s Ls" and p: "thread_fit s Ls p"
  shows "\<exists>t. xv_io_thread_stop K s p = Some t \<and> halted K J [] Ls (thread_ios s p) {thread_loop s p} s t"
proof -
  obtain th x y where th: "p \<noteq> NULL" "io_threads s p = Some th" "it_loop th \<in> Ls"
    "it_async_add_conn th \<noteq> NULL" "asyncs s (it_async_add_conn th) = Some x" "homed s Ls (it_loop th) (as_read_io x)"
    "it_async_return_message th \<noteq> NULL" "asyncs s (it_async_return_message th) = Some y" "homed s Ls (it_loop th) (as_read_io y)"
    using p by (auto simp: thread_fit_def)
  obtain r1 s1 where s1: "xv_io_stop K s (it_loop th) (as_read_io x) = Some (r1, s1)" "halted K J [] Ls {as_read_io x} {} s s1"
    using io_stop_halts[OF ok th(6)] by blast
  obtain r2 s2 where s2: "xv_io_stop K s1 (it_loop th) (as_read_io y) = Some (r2, s2)" "halted K J [] Ls {as_read_io y} {} s1 s2"
    using io_stop_halts[OF halted_fields(1)[OF s1(2)] halted_homed[OF s1(2) th(9)]] by blast
  obtain t where t: "xv_loop_break s2 (it_loop th) = Some t" "halted K J [] Ls {} {it_loop th} s2 t"
    using loop_break_halts[OF halted_fields(1)[OF s2(2)] th(3)] by blast
  note f1 = more_sheap_l(1,11)[OF halted_fields(2)[OF s1(2)]]
  note f2 = more_sheap_l(1,11)[OF halted_fields(2)[OF s2(2)]]
  show ?thesis
    using th s1(1) s2(1) t(1) f1 f2 halted_trans[OF halted_trans[OF s1(2) s2(2)] t(2)]
    by (intro exI[of _ t]) (simp add: xv_io_thread_stop_def xv_async_stop_def thread_ios_def thread_loop_def insert_commute)
qed

text \<open>The loops over the table of connections and over the I/O threads, with an invariant.\<close>

lemma each_connection_iter:
  assumes a: "service \<noteq> NULL" "sv_connections sv \<noteq> NULL"
    and keep: "\<And>j s. Inv j s \<Longrightarrow> services s service = Some sv \<and> conn_arrays s (sv_connections sv) = Some (map Some cs)"
    and step: "\<And>j s. Inv j s \<Longrightarrow> j < length cs \<Longrightarrow> \<exists>t. (if cs ! j = NULL then Some s else f s (cs ! j)) = Some t \<and> Inv (Suc j) t"
    and i: "Inv j s" "j + n = length cs"
  shows "\<exists>t. each_connection f service n (int j) s = Some t \<and> Inv (length cs) t"
  using i
proof (induction n arbitrary: j s)
  case (Suc n)
  have j: "j < length cs" "Suc j + n = length cs" using Suc.prems(2) by simp_all
  obtain t where t: "(if cs ! j = NULL then Some s else f s (cs ! j)) = Some t" "Inv (Suc j) t" using step[OF Suc.prems(1) j(1)] by blast
  obtain u where u: "each_connection f service n (int (Suc j)) t = Some u" "Inv (length cs) u" using Suc.IH[OF t(2) j(2)] by blast
  have "arr_get (map Some cs) (int j) = Some (Some (cs ! j))" using j(1) by (simp add: arr_get_def)
  then show ?case using keep[OF Suc.prems(1)] a t(1) u by (intro exI[of _ u]) (simp add: add.commute)
qed auto

lemma each_io_thread_iter:
  assumes a: "service \<noteq> NULL" "sv_io_threads sv \<noteq> NULL"
    and keep: "\<And>j s. Inv j s \<Longrightarrow> services s service = Some sv \<and> io_thread_arrays s (sv_io_threads sv) = Some (map Some ts)"
    and step: "\<And>j s. Inv j s \<Longrightarrow> j < length ts \<Longrightarrow> \<exists>t. f s (ts ! j) = Some t \<and> Inv (Suc j) t"
    and i: "Inv j s" "j + n = length ts"
  shows "\<exists>t. each_io_thread f service n (int j) s = Some t \<and> Inv (length ts) t"
  using i
proof (induction n arbitrary: j s)
  case (Suc n)
  have j: "j < length ts" "Suc j + n = length ts" using Suc.prems(2) by simp_all
  obtain t where t: "f s (ts ! j) = Some t" "Inv (Suc j) t" using step[OF Suc.prems(1) j(1)] by blast
  obtain u where u: "each_io_thread f service n (int (Suc j)) t = Some u" "Inv (length ts) u" using Suc.IH[OF t(2) j(2)] by blast
  have "io_thread_at s sv (int j) = Some (ts ! j)" using j(1) keep[OF Suc.prems(1)] a(2) by (simp add: io_thread_at_def arr_get_def)
  then show ?case using keep[OF Suc.prems(1)] a(1) t(1) u by (intro exI[of _ u]) (simp add: add.commute)
qed auto

subsection \<open>Stopping a service\<close>

text \<open>The pool of workers, if there is one.\<close>

definition pool_live :: "('k, 'z) sheap_scheme \<Rightarrow> addr \<Rightarrow> addr list \<Rightarrow> bool" where
  "pool_live s pool ws \<longleftrightarrow> (if pool = NULL then ws = [] else
     (\<exists>p. pools s pool = Some p \<and> tp_thread_count p = int (length ws) \<and> tp_threads p \<noteq> NULL \<and> thread_arrays s (tp_threads p) = Some (map Some ws)) \<and>
     (\<forall>w \<in> set ws. w \<noteq> NULL \<and> workers s w \<noteq> None))"

definition worker_loop :: "('k, 'z) sheap_scheme \<Rightarrow> addr \<Rightarrow> addr" where
  "worker_loop s p = (case workers s p of None \<Rightarrow> NULL | Some w \<Rightarrow> w_loop w)"

definition service_loops :: "('k, 'z) sheap_scheme \<Rightarrow> addr list \<Rightarrow> addr list \<Rightarrow> addr set" where
  "service_loops s ts ws = thread_loop s ` set ts \<union> worker_loop s ` set ws"

text \<open>A running service: I/O threads \<open>ts\<close>, listeners \<open>ls\<close> in the order of their links, the table \<open>cs\<close> of connections, the
  workers \<open>ws\<close>.\<close>

definition running ::
  "('k, 'z) sheap_scheme \<Rightarrow> addr \<Rightarrow> xv_service_t \<Rightarrow> addr list \<Rightarrow> addr list \<Rightarrow> addr list \<Rightarrow> addr list \<Rightarrow> bool" where
  "running s service sv ts ls cs ws \<longleftrightarrow> service \<noteq> NULL \<and> services s service = Some sv \<and>
     sv_io_threads sv \<noteq> NULL \<and> io_thread_arrays s (sv_io_threads sv) = Some (map Some ts) \<and> io_thread_count (sv_config sv) = int (length ts) \<and>
     sv_connections sv \<noteq> NULL \<and> conn_arrays s (sv_connections sv) = Some (map Some cs) \<and> sv_conn_setsize sv = int (length cs) \<and>
     chain (listeners s) ls (sv_listeners sv) \<and> pool_live s (sv_worker_threads sv) ws \<and> loops_ok s (service_loops s ts ws) \<and>
     (\<forall>p \<in> set ts. thread_fit s (service_loops s ts ws) p) \<and> (\<forall>x \<in> set ls. listener_fit s (service_loops s ts ws) x) \<and>
     (\<forall>c \<in> set cs - {NULL}. conn_fit s (service_loops s ts ws) c)"

definition service_ios :: "('k, 'z) sheap_scheme \<Rightarrow> addr list \<Rightarrow> addr list \<Rightarrow> addr list \<Rightarrow> addr set" where
  "service_ios s ts ls cs = \<Union> (listener_ios s ` set ls) \<union> \<Union> (conn_ios s ` (set cs - {NULL})) \<union> \<Union> (thread_ios s ` set ts)"

lemma take_Suc_diff: "j < length xs \<Longrightarrow> set (take (Suc j) xs) - A = (set (take j xs) - A) \<union> ({xs ! j} - A)"
  by (auto simp: take_Suc_conv_app_nth)

lemma stop_connections_law:
  fixes s :: "('k, 'z) sheap_scheme"
  assumes "loops_ok s Ls" "\<forall>c \<in> set cs - {NULL}. conn_fit s Ls c" "service \<noteq> NULL" "sv_connections sv \<noteq> NULL"
    "services s service = Some sv" "conn_arrays s (sv_connections sv) = Some (map Some cs)"
  shows "\<exists>t. each_connection (stop_connection K) service (length cs) 0 s = Some t \<and> halted K J [] Ls (\<Union> (conn_ios s ` (set cs - {NULL}))) {} s t"
proof -
  let ?Inv = "\<lambda>j t. halted K J [] Ls (\<Union> (conn_ios s ` (set (take j cs) - {NULL}))) {} s t"
  have "\<exists>t. each_connection (stop_connection K) service (length cs) (int 0) s = Some t \<and> ?Inv (length cs) t"
  proof (rule each_connection_iter[OF assms(3,4), where Inv = ?Inv])
    fix j t assume h: "?Inv j t"
    show "services t service = Some sv \<and> conn_arrays t (sv_connections sv) = Some (map Some cs)"
      using assms(5,6) more_sheap_l(13,14)[OF halted_fields(2)[OF h]] by simp
    assume j: "j < length cs"
    show "\<exists>u. (if cs ! j = NULL then Some t else stop_connection K t (cs ! j)) = Some u \<and> ?Inv (Suc j) u"
    proof (cases "cs ! j = NULL")
      case True
      then show ?thesis using h j by (simp add: take_Suc_diff)
    next
      case False
      then have "conn_fit t Ls (cs ! j)" using assms(2) j halted_parts(6)[OF h] by simp
      then obtain u where u: "stop_connection K t (cs ! j) = Some u" "halted K J [] Ls (conn_ios t (cs ! j)) {} t u"
        using stop_connection_law[OF halted_fields(1)[OF h]] by blast
      then show ?thesis using False j halted_trans[OF h u(2)] halted_parts(2)[OF h] by (simp add: take_Suc_diff Un_commute)
    qed
  qed (use assms(1) in \<open>simp_all add: halted_refl\<close>)
  then show ?thesis by simp
qed

lemma stop_threads_law:
  fixes s :: "('k, 'z) sheap_scheme"
  assumes "loops_ok s Ls" "\<forall>p \<in> set ts. thread_fit s Ls p" "service \<noteq> NULL" "sv_io_threads sv \<noteq> NULL"
    "services s service = Some sv" "io_thread_arrays s (sv_io_threads sv) = Some (map Some ts)"
  shows "\<exists>t. each_io_thread (xv_io_thread_stop K) service (length ts) 0 s = Some t \<and>
     halted K J [] Ls (\<Union> (thread_ios s ` set ts)) (thread_loop s ` set ts) s t"
proof -
  let ?Inv = "\<lambda>j t. halted K J [] Ls (\<Union> (thread_ios s ` set (take j ts))) (thread_loop s ` set (take j ts)) s t"
  have "\<exists>t. each_io_thread (xv_io_thread_stop K) service (length ts) (int 0) s = Some t \<and> ?Inv (length ts) t"
  proof (rule each_io_thread_iter[OF assms(3,4), where Inv = ?Inv])
    fix j t assume h: "?Inv j t"
    show "services t service = Some sv \<and> io_thread_arrays t (sv_io_threads sv) = Some (map Some ts)"
      using assms(5,6) more_sheap_l(12,14)[OF halted_fields(2)[OF h]] by simp
    assume j: "j < length ts"
    then have "thread_fit t Ls (ts ! j)" using assms(2) halted_parts(7)[OF h] by simp
    then obtain u where u: "xv_io_thread_stop K t (ts ! j) = Some u" "halted K J [] Ls (thread_ios t (ts ! j)) {thread_loop t (ts ! j)} t u"
      using io_thread_stop_law[OF halted_fields(1)[OF h]] by blast
    then show "\<exists>u. xv_io_thread_stop K t (ts ! j) = Some u \<and> ?Inv (Suc j) u"
      using j halted_trans[OF h u(2)] halted_parts(3,4)[OF h] by (simp add: take_Suc_conv_app_nth Un_commute)
  qed (use assms(1) in \<open>simp_all add: halted_refl\<close>)
  then show ?thesis by simp
qed

text \<open>The workers of the pool, if there is one.\<close>

definition halt_workers :: "addr set \<Rightarrow> (addr \<rightharpoonup> xv_worker_thread_t) \<Rightarrow> addr \<rightharpoonup> xv_worker_thread_t" where
  "halt_workers W h = (\<lambda>p. if p \<in> W then map_option (\<lambda>w. w\<lparr>w_start := False\<rparr>) (h p) else h p)"

lemma halt_workers_simps [simp]: "halt_workers {} h = h" "halt_workers B (halt_workers A h) = halt_workers (A \<union> B) h"
  by (auto simp: halt_workers_def fun_eq_iff option.map_comp o_def)

lemma pool_stop_iter:
  fixes s :: "('k, 'z) sheap_scheme"
  assumes "pool \<noteq> NULL" "pools s pool = Some p" "tp_threads p \<noteq> NULL" "thread_arrays s (tp_threads p) = Some (map Some ws)"
    "\<forall>w \<in> set ws. w \<noteq> NULL \<and> workers s w \<noteq> None" "j + n = length ws"
  shows "pool_iter (\<lambda>s th. map_option snd (xv_worker_thread_stop s th)) pool n (int j) s =
     Some (s\<lparr>workers := halt_workers (set (drop j ws)) (workers s)\<rparr>)"
  using assms
proof (induction n arbitrary: j s)
  case (Suc n)
  have j: "j < length ws" "Suc j + n = length ws" using Suc.prems(6) by simp_all
  then obtain w where w: "ws ! j \<noteq> NULL" "workers s (ws ! j) = Some w" using Suc.prems(5) by (metis nth_mem not_None_eq)
  define t where "t = s\<lparr>workers := (workers s)(ws ! j \<mapsto> w\<lparr>w_start := False\<rparr>)\<rparr>"
  have one: "workers t = halt_workers {ws ! j} (workers s)" using w by (auto simp: t_def halt_workers_def)
  have "\<forall>v \<in> set ws. v \<noteq> NULL \<and> workers t v \<noteq> None" using Suc.prems(5) by (simp add: t_def)
  then have "pool_iter (\<lambda>s th. map_option snd (xv_worker_thread_stop s th)) pool n (int (Suc j)) t =
      Some (t\<lparr>workers := halt_workers (set (drop (Suc j) ws)) (workers t)\<rparr>)"
    using Suc.prems(1-4) j(2) by (intro Suc.IH) (simp_all add: t_def)
  moreover have "set (drop j ws) = {ws ! j} \<union> set (drop (Suc j) ws)" using j(1) by (metis Cons_nth_drop_Suc list.simps(15) insert_is_Un)
  moreover have "pool_thread s p (int j) = Some (ws ! j)" using j(1) Suc.prems(3,4) by (simp add: pool_thread_def arr_get_def)
  moreover have "xv_worker_thread_stop s (ws ! j) = Some (XV_OK, t)" using w by (simp add: xv_worker_thread_stop_def t_def)
  moreover have "t\<lparr>workers := h\<rparr> = s\<lparr>workers := h\<rparr>" for h by (simp add: t_def)
  ultimately show ?case using Suc.prems(1,2) one by (simp add: add.commute)
qed simp

lemma pool_stop_law:
  fixes s :: "('k, 'z) sheap_scheme"
  assumes "pool_live s pool ws"
  shows "(if pool = NULL then Some s else map_option snd (xv_thread_pool_stop s pool)) = Some (s\<lparr>workers := halt_workers (set ws) (workers s)\<rparr>)"
proof (cases "pool = NULL")
  case False
  then obtain p where p: "pools s pool = Some p" "tp_thread_count p = int (length ws)" "tp_threads p \<noteq> NULL"
    "thread_arrays s (tp_threads p) = Some (map Some ws)" "\<forall>w \<in> set ws. w \<noteq> NULL \<and> workers s w \<noteq> None"
    using assms by (auto simp: pool_live_def)
  have "pool_iter (\<lambda>s th. map_option snd (xv_worker_thread_stop s th)) pool (length ws) (int 0) s =
     Some (s\<lparr>workers := halt_workers (set (drop 0 ws)) (workers s)\<rparr>)"
    by (rule pool_stop_iter[OF False p(1,3,4,5)]) simp
  then show ?thesis using False p(1,2) by (simp add: xv_thread_pool_stop_def)
qed (use assms in \<open>simp add: pool_live_def\<close>)

text \<open>What holds of the loops and watchers does not depend on the objects of the service.\<close>

lemma halt_service_upd:
  "loops_ok (s\<lparr>services := h\<rparr>) Ls = loops_ok s Ls" "homed (s\<lparr>services := h\<rparr>) Ls L p = homed s Ls L p"
  "watched (s\<lparr>services := h\<rparr>) = watched s" "watched (s\<lparr>workers := g\<rparr>) = watched s" "loop_ok (s\<lparr>workers := g\<rparr>) L = loop_ok s L"
  "listener_fit (s\<lparr>services := h\<rparr>) Ls x = listener_fit s Ls x" "conn_fit (s\<lparr>services := h\<rparr>) Ls c = conn_fit s Ls c"
  "thread_fit (s\<lparr>services := h\<rparr>) Ls q = thread_fit s Ls q" "listener_ios (s\<lparr>services := h\<rparr>) = listener_ios s"
  "conn_ios (s\<lparr>services := h\<rparr>) = conn_ios s" "thread_ios (s\<lparr>services := h\<rparr>) = thread_ios s" "thread_loop (s\<lparr>services := h\<rparr>) = thread_loop s"
proof -
  show w: "watched (s\<lparr>services := h\<rparr>) = watched s" "watched (s\<lparr>workers := g\<rparr>) = watched s" by (rule ext, rule watched_cong; simp)+
  show "loop_ok (s\<lparr>workers := g\<rparr>) L = loop_ok s L" by (simp add: loop_ok_def loop_repr_def)
  show "loops_ok (s\<lparr>services := h\<rparr>) Ls = loops_ok s Ls" by (simp add: loops_ok_def loop_ok_def loop_repr_def)
  show hm: "homed (s\<lparr>services := h\<rparr>) Ls L p = homed s Ls L p" for L p
    by (simp add: homed_def watcher_fits_def marked_registered_def loop_size_def w)
  show "listener_fit (s\<lparr>services := h\<rparr>) Ls x = listener_fit s Ls x" "conn_fit (s\<lparr>services := h\<rparr>) Ls c = conn_fit s Ls c"
    "thread_fit (s\<lparr>services := h\<rparr>) Ls q = thread_fit s Ls q" by (simp_all add: listener_fit_def conn_fit_def thread_fit_def hm)
  show "listener_ios (s\<lparr>services := h\<rparr>) = listener_ios s" "conn_ios (s\<lparr>services := h\<rparr>) = conn_ios s" "thread_ios (s\<lparr>services := h\<rparr>) = thread_ios s"
    "thread_loop (s\<lparr>services := h\<rparr>) = thread_loop s" by (simp_all add: fun_eq_iff listener_ios_def conn_ios_def thread_ios_def thread_loop_def split: option.split)
qed

lemma service_stop_law:
  fixes s :: "('k, 'z) sheap_scheme"
  assumes run: "running s service sv ts ls cs ws" "sv_start sv"
  defines "s0 \<equiv> s\<lparr>services := (services s)(service \<mapsto> sv\<lparr>sv_start := False\<rparr>)\<rparr>"
  shows "\<exists>t. xv_service_stop K s service = Some (XV_OK, t\<lparr>workers := halt_workers (set ws) (workers s)\<rparr>) \<and>
     halted K J (map (\<lambda>x. Closed (listener_fd s x)) ls) (service_loops s ts ws) (service_ios s ts ls cs) (thread_loop s ` set ts) s0 t"
proof -
  let ?Ls = "service_loops s ts ws" and ?sv = "sv\<lparr>sv_start := False\<rparr>"
  have r: "service \<noteq> NULL" "services s service = Some sv" "sv_io_threads sv \<noteq> NULL" "io_thread_arrays s (sv_io_threads sv) = Some (map Some ts)"
    "io_thread_count (sv_config sv) = int (length ts)" "sv_connections sv \<noteq> NULL" "conn_arrays s (sv_connections sv) = Some (map Some cs)"
    "sv_conn_setsize sv = int (length cs)" "chain (listeners s) ls (sv_listeners sv)" "loops_ok s0 ?Ls" "\<forall>p \<in> set ts. thread_fit s0 ?Ls p"
    "\<forall>x \<in> set ls. listener_fit s0 ?Ls x" "\<forall>c \<in> set cs - {NULL}. conn_fit s0 ?Ls c" and pool: "pool_live s (sv_worker_threads sv) ws"
    using run(1) by (simp_all add: running_def s0_def halt_service_upd)
  have ios: "listener_ios s0 = listener_ios s" "conn_ios s0 = conn_ios s" "thread_ios s0 = thread_ios s" "thread_loop s0 = thread_loop s"
    by (simp_all add: s0_def halt_service_upd)
  obtain s1 where s1: "stop_all_listeners K (sv_listeners sv) s0 = Some s1" "halted K J (map (\<lambda>x. Closed (listener_fd s x)) ls) ?Ls (\<Union> (listener_ios s ` set ls)) {} s0 s1"
    using stop_all_listeners_law[where J = J, OF r(10,12), of "sv_listeners sv" K] r(9) ios by (auto simp: s0_def listener_fd_def)
  note f1 = more_sheap_l[OF halted_fields(2)[OF s1(2)]] and p1 = halted_parts[OF s1(2)]
  obtain s2 where s2: "each_connection (stop_connection K) service (length cs) 0 s1 = Some s2"
    "halted K J [] ?Ls (\<Union> (conn_ios s1 ` (set cs - {NULL}))) {} s1 s2"
    using stop_connections_law[where J = J, OF halted_fields(1)[OF s1(2)], of cs service ?sv K] r p1(6) f1(13,14) by (auto simp: s0_def)
  note f2 = more_sheap_l[OF halted_fields(2)[OF s2(2)]] and p2 = halted_parts[OF s2(2)]
  obtain s3 where s3: "each_io_thread (xv_io_thread_stop K) service (length ts) 0 s2 = Some s3"
    "halted K J [] ?Ls (\<Union> (thread_ios s2 ` set ts)) (thread_loop s2 ` set ts) s2 s3"
    using stop_threads_law[where J = J, OF halted_fields(1)[OF s2(2)], of ts service ?sv K] r p1(7) p2(7) f1(12,14) f2(12,14) by (auto simp: s0_def)
  note f3 = more_sheap_l[OF halted_fields(2)[OF s3(2)]]
  have h: "halted K J (map (\<lambda>x. Closed (listener_fd s x)) ls) ?Ls (service_ios s ts ls cs) (thread_loop s ` set ts) s0 s3"
    using halted_trans[OF halted_trans[OF s1(2) s2(2)] s3(2)] p1(1-4) p2(1-4) ios by (simp add: service_ios_def)
  have same: "pools s3 = pools s" "thread_arrays s3 = thread_arrays s" "workers s3 = workers s" using f1 f2 f3 by (simp_all add: s0_def)
  have "pool_live s3 (sv_worker_threads sv) ws" using pool unfolding pool_live_def same .
  from pool_stop_law[OF this] show ?thesis
    using run(2) r s1(1) s2(1) s3(1) h same by (intro exI[of _ s3]) (simp add: xv_service_stop_def s0_def)
qed

text \<open>C17. \<^verbatim>\<open>xv_service_stop\<close> on a running service returns \<^verbatim>\<open>XV_OK\<close>, whatever \<^verbatim>\<open>epoll_ctl\<close> answers: every watcher of a
  listener, of a connection and of the two async objects of each I/O thread is stopped and in no loop any more, the loops of
  the I/O threads and of the workers are still well-formed and watch nothing else and nothing less (the watchers of the workers' async objects stay
  registered), every I/O thread's loop and every
  worker is told to end; nothing is released, and the kernel is asked only to change registrations and to close the listening sockets,
  each once and in the order of the list of listeners.\<close>

theorem xv_service_stop_halts:
  fixes s :: "('k, 'z) sheap_scheme"
  assumes run: "running s service sv ts ls cs ws" "sv_start sv"
  shows "\<exists>t. xv_service_stop K s service = Some (XV_OK, t) \<and> ios t = stop_in (service_ios s ts ls cs) (ios s) \<and>
     (\<forall>p \<in> set ts. \<exists>l. loops t (thread_loop s p) = Some l \<and> \<not> l_start l) \<and>
     (\<forall>L \<in> service_loops s ts ws. loop_ok t L \<and>
        (\<forall>fd ev. watched t L fd ev = (let w = watched s L fd ev in if w \<in> service_ios s ts ls cs then NULL else w))) \<and>
     workers t = halt_workers (set ws) (workers s) \<and> services t = (services s)(service \<mapsto> sv\<lparr>sv_start := False\<rparr>) \<and>
     connections t = connections s \<and> listeners t = listeners s \<and> buffers t = buffers s \<and>
     shut_run K (\<lambda>_ _ _. False) (map (\<lambda>x. Closed (listener_fd s x)) ls) (kern s) (kern t)"
proof -
  let ?Ls = "service_loops s ts ws" and ?Ts = "thread_loop s ` set ts" and ?s0 = "s\<lparr>services := (services s)(service \<mapsto> sv\<lparr>sv_start := False\<rparr>)\<rparr>"
  obtain t where t: "xv_service_stop K s service = Some (XV_OK, t\<lparr>workers := halt_workers (set ws) (workers s)\<rparr>)"
    "halted K (\<lambda>_ _ _. False) (map (\<lambda>x. Closed (listener_fd s x)) ls) ?Ls (service_ios s ts ls cs) ?Ts ?s0 t"
    using service_stop_law[OF assms] by blast
  have sub: "?Ts \<subseteq> ?Ls" by (auto simp: service_loops_def)
  note f = more_sheap_l[OF halted_fields(2)[OF t(2)]] and h = halted_fields[OF t(2)]
  have "\<exists>l. loops t L = Some l \<and> \<not> l_start l" if L: "L \<in> ?Ts" for L
  proof -
    have "loop_ok s L" using run(1) subsetD[OF sub L] by (simp add: running_def loops_ok_def)
    then obtain l where "loops s L = Some l" by (auto simp: loop_ok_def loop_repr_def)
    then show ?thesis using L by (auto simp: h(5) break_in_def)
  qed
  moreover have "loop_ok t L" if "L \<in> ?Ls" for L using h(1) that unfolding loops_ok_def by blast
  moreover have "watched t L fd ev = (if watched s L fd ev \<in> service_ios s ts ls cs then NULL else watched s L fd ev)" if "L \<in> ?Ls" for L fd ev
    using h(6)[OF that] by (simp add: halt_service_upd)
  ultimately show ?thesis
    using t(1) f h by (intro exI[of _ "t\<lparr>workers := halt_workers (set ws) (workers s)\<rparr>"]) (simp add: halt_service_upd Let_def)
qed

subsection \<open>Examples\<close>

text \<open>The example service with empty queues and one idle worker, 82, on the loop 83; descriptor 2 belongs to the listener, 4, 6 and 7 are
  the eventfds.\<close>

definition ex_down_sv :: xv_service_t where
  "ex_down_sv = ex_sv\<lparr>sv_worker_threads := 80\<rparr>"

definition ex_idle_worker :: xv_worker_thread_t where
  "ex_idle_worker = \<lparr>w_task_queue = 105, w_loop = 83, w_async = 87, w_id = Some 9, w_start = True\<rparr>"

definition ex_down :: "sim_os sheap" where
  "ex_down = ex_svc0\<lparr>queues := [102 \<mapsto> empty_queue, 104 \<mapsto> empty_queue, 106 \<mapsto> empty_queue],
     cqueues := [101 \<mapsto> \<lparr>cq_queue = 102, cq_mutex = False\<rparr>, 103 \<mapsto> \<lparr>cq_queue = 104, cq_mutex = False\<rparr>,
       105 \<mapsto> \<lparr>cq_queue = 106, cq_mutex = False\<rparr>],
     pollers := (pollers ex_svc0)(84 \<mapsto> \<lparr>p_epfd = 10, p_setsize = 8, p_events = replicate 8 None\<rparr>),
     fired_arrays := (fired_arrays ex_svc0)(86 \<mapsto> replicate 8 None),
     ios := (ios ex_svc0)(88 \<mapsto> ex_io 4 XV_READ Common_async_cb 87 True),
     loops := (loops ex_svc0)(83 \<mapsto> \<lparr>l_poller_data = 84, l_events = 85, l_fired_events = 86, l_setsize = 8, l_start = True\<rparr>),
     event_arrays := (event_arrays ex_svc0)(85 \<mapsto> (replicate 8 empty_slot)[4 := \<lparr>e_event = XV_READ, e_read_io = 88, e_write_io = NULL\<rparr>]),
     asyncs := (asyncs ex_svc0)(87 \<mapsto> \<lparr>as_evfd = 4, as_cb = Some Worker_async_cb, as_userdata = 82, as_read_io = 88\<rparr>),
     workers := [82 \<mapsto> ex_idle_worker], thread_arrays := [81 \<mapsto> [Some 82]],
     pools := [80 \<mapsto> \<lparr>tp_threads = 81, tp_thread_count = 1, tp_start = False\<rparr>], services := [70 \<mapsto> ex_down_sv]\<rparr>"

definition ex_table :: "addr list" where
  "ex_table = (replicate 8 NULL)[5 := 40]"

lemma ex_down_repr:
  "loop_repr ex_down 30 \<lparr>l_poller_data = 31, l_events = 32, l_fired_events = 33, l_setsize = 8, l_start = True\<rparr>
     \<lparr>p_epfd = 9, p_setsize = 8, p_events = replicate 8 None\<rparr> ex_slots"
  "loop_repr ex_down 83 \<lparr>l_poller_data = 84, l_events = 85, l_fired_events = 86, l_setsize = 8, l_start = True\<rparr>
     \<lparr>p_epfd = 10, p_setsize = 8, p_events = replicate 8 None\<rparr> ((replicate 8 empty_slot)[4 := \<lparr>e_event = XV_READ, e_read_io = 88, e_write_io = NULL\<rparr>])"
proof -
  have i: "ios ex_down = (ios ex_svc0)(88 \<mapsto> ex_io 4 XV_READ Common_async_cb 87 True)" by (simp add: ex_down_def)
  have "slots_ok (ios ex_down) ex_slots" "slots_ok (ios ex_down) ((replicate 8 empty_slot)[4 := \<lparr>e_event = XV_READ, e_read_io = 88, e_write_io = NULL\<rparr>])"
    unfolding i by (auto simp: slots_ok_def ex_slots_def nth_list_update slot_ok_def slot_mask_def watcher_ok_def empty_slot_def
        ex_svc0_def ex_io_def code_defs)
  then show "loop_repr ex_down 30 \<lparr>l_poller_data = 31, l_events = 32, l_fired_events = 33, l_setsize = 8, l_start = True\<rparr>
     \<lparr>p_epfd = 9, p_setsize = 8, p_events = replicate 8 None\<rparr> ex_slots"
    "loop_repr ex_down 83 \<lparr>l_poller_data = 84, l_events = 85, l_fired_events = 86, l_setsize = 8, l_start = True\<rparr>
     \<lparr>p_epfd = 10, p_setsize = 8, p_events = replicate 8 None\<rparr> ((replicate 8 empty_slot)[4 := \<lparr>e_event = XV_READ, e_read_io = 88, e_write_io = NULL\<rparr>])"
    by (simp_all add: loop_repr_def) (simp_all add: ex_down_def ex_svc0_def ex_slots_def)
qed

lemma ex_down_watched:
  "watched ex_down 30 fd ev = (if fd = 5 \<and> ev = XV_READ then 41 else NULL)" "watched ex_down 83 fd ev = (if fd = 4 \<and> ev = XV_READ then 88 else NULL)"
  by (auto simp: watched_repr[OF ex_down_repr(1)] watched_repr[OF ex_down_repr(2)] ex_slots_def slot_ptr_def empty_slot_def nth_list_update nat_eq_iff code_defs)

lemma ex_down_homed:
  assumes "p \<in> {41, 42, 46, 47, 51}"
  shows "homed ex_down {30, 83} 30 p"
  using assms loop_size_repr[OF ex_down_repr(1)]
  by (auto simp: homed_def watcher_fits_def marked_registered_def ex_down_watched) (auto simp: ex_down_def ex_svc0_def ex_io_def)

lemma ex_down_loops: "service_loops ex_down [60] [82] = {30, 83}"
  by (auto simp: service_loops_def thread_loop_def worker_loop_def ex_down_def ex_svc0_def ex_thread_def ex_idle_worker_def)

lemma ex_down_running: "running ex_down 70 ex_down_sv [60] [50] ex_table [82]"
proof -
  have "loops_ok ex_down {30, 83}" using ex_down_repr by (auto simp: loops_ok_def loop_ok_def) (simp_all add: ex_down_def ex_svc0_def)
  moreover have "thread_fit ex_down {30, 83} 60"
    using ex_down_homed by (auto simp: thread_fit_def) (simp add: ex_down_def ex_svc0_def ex_thread_def)
  moreover have "listener_fit ex_down {30, 83} 50"
    using ex_down_homed by (auto simp: listener_fit_def) (simp add: ex_down_def ex_svc0_def ex_thread_def)
  moreover have "conn_fit ex_down {30, 83} 40"
    using ex_down_homed by (auto simp: conn_fit_def) (simp add: ex_down_def ex_svc0_def ex_thread_def ex_conn_def)
  moreover have "set ex_table - {NULL} = {40}" by (auto simp: ex_table_def eval_nat_numeral)
  ultimately show ?thesis
    by (simp add: running_def ex_down_loops)
       (simp add: pool_live_def ex_down_def ex_svc0_def ex_sv_def ex_down_sv_def ex_idle_worker_def ex_table_def eval_nat_numeral)
qed

theorem xv_service_stop_halts_witness:
  "\<exists>t. xv_service_stop sim_sys ex_down 70 = Some (XV_OK, t) \<and> map_option io_start (ios t 41) = Some False \<and> watched t 30 5 XV_READ = NULL \<and>
     map_option w_start (workers t 82) = Some False \<and> watched t 83 4 XV_READ = 88 \<and>
     connections t 40 = Some ex_conn \<and> shut_run sim_sys (\<lambda>_ _ _. False) [Closed 2] (kern ex_down) (kern t)"
proof -
  have st: "sv_start ex_down_sv" by (simp add: ex_sv_def ex_down_sv_def)
  have ex: "connections ex_down 40 = Some ex_conn" "listener_fd ex_down 50 = 2" "ios ex_down 41 = Some (ex_io 5 XV_READ On_connection_read 40 True)" "thread_loop ex_down 60 = 30"
    "workers ex_down 82 = Some ex_idle_worker"
    by (simp_all add: ex_down_def ex_svc0_def thread_loop_def ex_thread_def listener_fd_def)
  have "40 \<in> set ex_table - {NULL}" by (simp add: ex_table_def eval_nat_numeral)
  then have "41 \<in> service_ios ex_down [60] [50] ex_table"
    using ex(1) unfolding service_ios_def by (auto simp: conn_ios_def ex_conn_def split: option.splits intro!: bexI[of _ 40])
  moreover have svc_other: "88 \<notin> service_ios ex_down [60] [50] ex_table"
    by (auto simp: service_ios_def ex_table_def eval_nat_numeral listener_ios_def conn_ios_def thread_ios_def ex_down_def ex_svc0_def ex_thread_def ex_conn_def
        split: option.splits if_splits)
  ultimately show ?thesis
    using xv_service_stop_halts[OF ex_down_running st, of sim_sys] ex
    by (auto simp: stop_in_def ex_down_watched ex_down_loops halt_workers_def svc_other)
qed

end
