(* ===== verification/Xv_Release.thy ===== *)
theory Xv_Release
  imports Xv_Shutdown
begin

section \<open>Destroying a running service\<close>

text \<open>
  The objects of a service are grouped into parts (listeners, connections, I/O threads); the functions that destroy a part
  share one contract, the locale \<open>part_destroyer\<close>, and the loops of \<^verbatim>\<open>xv_service_destroy\<close> are followed with it.
\<close>

subsection \<open>Releasing the objects of a service\<close>

text \<open>The objects of a service, by the heap they live in, and the heap without the objects in \<open>D\<close>.\<close>

datatype obj = O_queue addr | O_cqueue addr | O_poller addr | O_fired addr | O_io addr | O_loop addr | O_events addr | O_async addr |
  O_buffer addr | O_conn addr | O_listener addr | O_thread addr | O_threads addr | O_table addr | O_service addr |
  O_worker addr | O_workers addr | O_pool addr

definition without :: "(addr \<Rightarrow> obj) \<Rightarrow> obj set \<Rightarrow> (addr \<rightharpoonup> 'a) \<Rightarrow> addr \<rightharpoonup> 'a" where
  "without C D h = (\<lambda>a. if C a \<in> D then None else h a)"

definition remains :: "obj set \<Rightarrow> 'k \<Rightarrow> ('k, 'z) sheap_scheme \<Rightarrow> ('k, 'z) sheap_scheme" where
  "remains D k s = s\<lparr>queues := without O_queue D (queues s), cqueues := without O_cqueue D (cqueues s), kern := k,
     pollers := without O_poller D (pollers s), fired_arrays := without O_fired D (fired_arrays s), ios := without O_io D (ios s),
     loops := without O_loop D (loops s), event_arrays := without O_events D (event_arrays s), asyncs := without O_async D (asyncs s),
     buffers := without O_buffer D (buffers s), connections := without O_conn D (connections s),
     listeners := without O_listener D (listeners s), io_threads := without O_thread D (io_threads s),
     io_thread_arrays := without O_threads D (io_thread_arrays s), conn_arrays := without O_table D (conn_arrays s),
     services := without O_service D (services s), workers := without O_worker D (workers s),
     thread_arrays := without O_workers D (thread_arrays s), pools := without O_pool D (pools s)\<rparr>"

lemma without_apply [simp]: "C a \<notin> D \<Longrightarrow> without C D h a = h a"
  by (simp add: without_def)

lemma without_empty [simp]: "without C {} h = h"
  by (simp add: without_def)

lemma without_skip: "\<forall>a. C a \<noteq> x \<Longrightarrow> without C (insert x D) h = without C D h"
  by (auto simp: without_def)

lemma without_upd:
  "without O_queue (insert (O_queue a) D) h = (without O_queue D h)(a := None)" "without O_cqueue (insert (O_cqueue a) D) h = (without O_cqueue D h)(a := None)"
  "without O_poller (insert (O_poller a) D) h = (without O_poller D h)(a := None)" "without O_fired (insert (O_fired a) D) h = (without O_fired D h)(a := None)"
  "without O_io (insert (O_io a) D) h = (without O_io D h)(a := None)" "without O_loop (insert (O_loop a) D) h = (without O_loop D h)(a := None)"
  "without O_events (insert (O_events a) D) h = (without O_events D h)(a := None)" "without O_async (insert (O_async a) D) h = (without O_async D h)(a := None)"
  "without O_buffer (insert (O_buffer a) D) h = (without O_buffer D h)(a := None)" "without O_conn (insert (O_conn a) D) h = (without O_conn D h)(a := None)"
  "without O_listener (insert (O_listener a) D) h = (without O_listener D h)(a := None)" "without O_thread (insert (O_thread a) D) h = (without O_thread D h)(a := None)"
  "without O_threads (insert (O_threads a) D) h = (without O_threads D h)(a := None)" "without O_table (insert (O_table a) D) h = (without O_table D h)(a := None)"
  "without O_service (insert (O_service a) D) h = (without O_service D h)(a := None)" "without O_worker (insert (O_worker a) D) h = (without O_worker D h)(a := None)"
  "without O_workers (insert (O_workers a) D) h = (without O_workers D h)(a := None)" "without O_pool (insert (O_pool a) D) h = (without O_pool D h)(a := None)"
  by (auto simp: without_def)

lemmas remains_simps = remains_def without_skip without_upd

lemma remains_none: "remains {} (kern s) s = s"
  by (simp add: remains_def)

lemma break_in_sel:
  "l_poller_data (the (break_in B h L)) = l_poller_data (the (h L))" "l_events (the (break_in B h L)) = l_events (the (h L))"
  "l_fired_events (the (break_in B h L)) = l_fired_events (the (h L))"
  by (cases "h L"; simp add: break_in_def)+

datatype part = Listener addr | Conn addr | Thread addr | Worker addr

definition queue_objs :: "('k, 'z) sheap_scheme \<Rightarrow> addr \<Rightarrow> obj set" where
  "queue_objs s q = {O_cqueue q, O_queue (cq_queue (the (cqueues s q)))}"

definition async_objs :: "('k, 'z) sheap_scheme \<Rightarrow> addr \<Rightarrow> obj set" where
  "async_objs s a = {O_async a, O_io (as_read_io (the (asyncs s a)))}"

definition loop_objs :: "('k, 'z) sheap_scheme \<Rightarrow> addr \<Rightarrow> obj set" where
  "loop_objs s L = (let l = the (loops s L) in {O_loop L, O_poller (l_poller_data l), O_events (l_events l), O_fired (l_fired_events l)})"

fun objs :: "('k, 'z) sheap_scheme \<Rightarrow> part \<Rightarrow> obj set" where
  "objs s (Listener x) = {O_listener x, O_io (ls_io (the (listeners s x)))}"
| "objs s (Conn c) = (let x = the (connections s c) in
     {O_conn c, O_io (c_read_io x), O_io (c_write_io x), O_buffer (c_read_buffer x), O_buffer (c_write_buffer x)})"
| "objs s (Thread p) = (let th = the (io_threads s p) in
     queue_objs s (it_conn_queue th) \<union> async_objs s (it_async_add_conn th) \<union> queue_objs s (it_message_queue th) \<union>
     async_objs s (it_async_return_message th) \<union> loop_objs s (it_loop th) \<union> {O_thread p})"
| "objs s (Worker p) = (let w = the (workers s p) in
     async_objs s (w_async w) \<union> loop_objs s (w_loop w) \<union> queue_objs s (w_task_queue w) \<union> {O_worker p})"

text \<open>A part that is complete: its objects are live and are not the same twice; the queues of a thread are empty. A worker was
  started, no other worker has its thread id, and its loop watches its async object only.\<close>

definition queue_whole :: "('k, 'z) sheap_scheme \<Rightarrow> addr \<Rightarrow> bool" where
  "queue_whole s q \<longleftrightarrow> q \<noteq> NULL \<and> (\<exists>c x. cqueues s q = Some c \<and> cq_queue c \<noteq> NULL \<and> queues s (cq_queue c) = Some x \<and> q_head x = NULL)"

definition async_whole :: "('k, 'z) sheap_scheme \<Rightarrow> addr \<Rightarrow> bool" where
  "async_whole s a \<longleftrightarrow> a \<noteq> NULL \<and> (\<exists>x. asyncs s a = Some x \<and> as_read_io x \<noteq> NULL \<and> ios s (as_read_io x) \<noteq> None)"

fun whole :: "('k, 'z) sheap_scheme \<Rightarrow> part \<Rightarrow> bool" where
  "whole s (Listener x) \<longleftrightarrow> x \<noteq> NULL \<and> (\<exists>l. listeners s x = Some l \<and> ls_io l \<noteq> NULL \<and> ios s (ls_io l) \<noteq> None)"
| "whole s (Conn c) \<longleftrightarrow> c \<noteq> NULL \<and> (\<exists>x. connections s c = Some x \<and> c_read_io x \<noteq> NULL \<and> ios s (c_read_io x) \<noteq> None \<and>
     c_write_io x \<noteq> NULL \<and> ios s (c_write_io x) \<noteq> None \<and> c_read_io x \<noteq> c_write_io x \<and> c_read_buffer x \<noteq> NULL \<and>
     buffers s (c_read_buffer x) \<noteq> None \<and> c_write_buffer x \<noteq> NULL \<and> buffers s (c_write_buffer x) \<noteq> None \<and> c_read_buffer x \<noteq> c_write_buffer x)"
| "whole s (Thread p) \<longleftrightarrow> p \<noteq> NULL \<and> (\<exists>th. io_threads s p = Some th \<and> queue_whole s (it_conn_queue th) \<and> queue_whole s (it_message_queue th) \<and>
     queue_objs s (it_conn_queue th) \<inter> queue_objs s (it_message_queue th) = {} \<and>
     async_whole s (it_async_add_conn th) \<and> async_whole s (it_async_return_message th) \<and>
     async_objs s (it_async_add_conn th) \<inter> async_objs s (it_async_return_message th) = {} \<and> loop_ok s (it_loop th))"
| "whole s (Worker p) \<longleftrightarrow> p \<noteq> NULL \<and> (\<exists>w i a. workers s p = Some w \<and> w_id w = Some i \<and>
     (\<forall>q v. workers s q = Some v \<longrightarrow> w_id v = Some i \<longrightarrow> q = p) \<and> queue_whole s (w_task_queue w) \<and>
     async_whole s (w_async w) \<and> asyncs s (w_async w) = Some a \<and> loop_ok s (w_loop w) \<and>
     watcher_fits s (w_loop w) (as_read_io a) \<and> marked_registered s (w_loop w) (as_read_io a) \<and>
     (\<forall>fd ev. watched s (w_loop w) fd ev = NULL \<or> watched s (w_loop w) fd ev = as_read_io a))"

text \<open>The eventfd of an async object, and what destroying a part asks the kernel for: the watchers of an I/O thread end with their
  eventfds; a worker is woken, joined, and its eventfd is closed. Sockets of connections are not closed, nor are epoll descriptors.\<close>

definition evfd :: "('k, 'z) sheap_scheme \<Rightarrow> addr \<Rightarrow> int" where
  "evfd s a = as_evfd (the (asyncs s a))"

fun part_evs :: "('k, 'z) sheap_scheme \<Rightarrow> part \<Rightarrow> shut_ev list" where
  "part_evs s (Thread p) = (let th = the (io_threads s p) in [Closed (evfd s (it_async_add_conn th)), Closed (evfd s (it_async_return_message th))])"
| "part_evs s (Worker p) = (let w = the (workers s p) in [Woken (evfd s (w_async w)), Joined (the (w_id w)), Closed (evfd s (w_async w))])"
| "part_evs s _ = []"

text \<open>Joining a worker that was told to end returns when it has: its loop is broken. In the meantime it has changed the kernel, the
  events its poller received and the events its loop fired, and nothing else. \<open>joins\<close> is what a join does to the kernel.\<close>

definition ended_loops :: "('k, 'z) sheap_scheme \<Rightarrow> tid \<Rightarrow> addr set" where
  "ended_loops s i = {w_loop w |p w. workers s p = Some w \<and> w_id w = Some i \<and> \<not> w_start w}"

definition waited ::
  "('k, 'z) sheap_scheme \<Rightarrow> addr set \<Rightarrow> (addr \<rightharpoonup> xv_poller_data_t) \<Rightarrow> (addr \<rightharpoonup> xv_fired_event_t option list) \<Rightarrow> bool" where
  "waited s Ls p f \<longleftrightarrow>
     (\<forall>a. p a \<noteq> pollers s a \<longrightarrow> (\<exists>L \<in> Ls. \<exists>l d es. loops s L = Some l \<and> l_poller_data l = a \<and> pollers s a = Some d \<and>
        length es = length (p_events d) \<and> p a = Some (d\<lparr>p_events := es\<rparr>))) \<and>
     (\<forall>a. f a \<noteq> fired_arrays s a \<longrightarrow> (\<exists>L \<in> Ls. \<exists>l d es. loops s L = Some l \<and> l_fired_events l = a \<and> fired_arrays s a = Some d \<and>
        length es = length d \<and> f a = Some es))"

definition join_idle :: "('k, 'z) sheap_scheme pthread_ops \<Rightarrow> bool" where
  "join_idle P \<longleftrightarrow> (\<forall>i s. \<exists>r k p f. waited s (ended_loops s i) p f \<and>
     pth_join P i s = Some (r, s\<lparr>kern := k, pollers := p, fired_arrays := f, loops := break_in (ended_loops s i) (loops s)\<rparr>))"

definition joins :: "('k, 'z) sheap_scheme pthread_ops \<Rightarrow> tid \<Rightarrow> 'k \<Rightarrow> 'k \<Rightarrow> bool" where
  "joins P i k k' \<longleftrightarrow> (\<exists>s r t. kern s = k \<and> pth_join P i s = Some (r, t) \<and> kern t = k')"

definition ios_stopped :: "('k, 'z) sheap_scheme \<Rightarrow> obj set \<Rightarrow> bool" where
  "ios_stopped s D \<longleftrightarrow> (\<forall>a io. O_io a \<in> D \<longrightarrow> ios s a = Some io \<longrightarrow> \<not> io_start io)"

lemma queue_release:
  fixes s :: "('k, 'z) sheap_scheme"
  assumes "queue_whole s q" "D \<inter> queue_objs s q = {}"
  shows "xv_concurrent_queue_destroy (remains D k s) q f = Some (remains (D \<union> queue_objs s q) k s)"
proof -
  obtain c x where c: "q \<noteq> NULL" "cqueues s q = Some c" "cq_queue c \<noteq> NULL" "queues s (cq_queue c) = Some x" "q_head x = NULL"
    using assms(1) by (auto simp: queue_whole_def)
  have "O_cqueue q \<notin> D" "O_queue (cq_queue c) \<notin> D" using assms(2) c(2) by (auto simp: queue_objs_def)
  then show ?thesis
    using c by (simp add: remains_simps queue_objs_def xv_concurrent_queue_destroy_def xv_queue_destroy_def destroy_nodes.simps xv_free_def)
qed

lemma async_release:
  fixes s :: "('k, 'z) sheap_scheme"
  assumes "async_whole s a" "D \<inter> async_objs s a = {}" "ios_stopped s (async_objs s a)"
  shows "\<exists>k'. xv_async_destroy K (remains D k s) a = Some (XV_OK, remains (D \<union> async_objs s a) k' s) \<and> shut_run K J [Closed (evfd s a)] k k'"
proof -
  obtain x io where x: "a \<noteq> NULL" "asyncs s a = Some x" "as_read_io x \<noteq> NULL" "ios s (as_read_io x) = Some io" "\<not> io_start io"
    using assms(1,3) by (auto simp: async_whole_def ios_stopped_def async_objs_def)
  have "O_async a \<notin> D" "O_io (as_read_io x) \<notin> D" using assms(2) x(2) by (auto simp: async_objs_def)
  then have "xv_async_destroy K (remains D k s) a = Some (XV_OK, remains (D \<union> async_objs s a) (snd (sys_close K (as_evfd x) k)) s)"
    using x by (simp add: remains_simps async_objs_def xv_async_destroy_def xv_io_destroy_def xv_free_def case_prod_beta)
  moreover have "as_evfd x = evfd s a" using x(2) by (simp add: evfd_def)
  ultimately show ?thesis by (metis shut_run_one(2))
qed

lemma loop_release:
  fixes s :: "('k, 'z) sheap_scheme"
  assumes "loop_ok s L" "D \<inter> loop_objs s L = {}"
  shows "xv_loop_destroy (remains D k s) L = Some (remains (D \<union> loop_objs s L) k s)"
proof -
  obtain l d arr where r: "loop_repr s L l d arr" using assms(1) by (auto simp: loop_ok_def)
  obtain farr where f: "fired_arrays s (l_fired_events l) = Some farr" by (rule loop_repr_fired[OF r])
  note d = loop_reprD[OF r]
  have "O_loop L \<notin> D" "O_poller (l_poller_data l) \<notin> D" "O_events (l_events l) \<notin> D" "O_fired (l_fired_events l) \<notin> D"
    using assms(2) d(2) by (auto simp: loop_objs_def)
  then show ?thesis
    using d f by (simp add: remains_simps loop_objs_def xv_loop_destroy_def xv_poller_destroy_def xv_free_def)
qed

definition still :: "('k, 'z) sheap_scheme \<Rightarrow> part \<Rightarrow> bool" where
  "still s p \<longleftrightarrow> whole s p \<and> ios_stopped s (objs s p)"

text \<open>The contract of the functions that destroy a part: called on what remains of a heap in which the part is in the
  condition \<open>sound\<close>, it returns, takes away exactly the objects of the part and asks the kernel for exactly the events of the part.\<close>

locale part_destroyer =
  fixes destroy :: "('k, 'y) sys_ops_scheme \<Rightarrow> ('k, 'z) sheap_scheme \<Rightarrow> addr \<Rightarrow> ('k, 'z) sheap_scheme option"
    and part :: "addr \<Rightarrow> part" and sound :: "(tid \<Rightarrow> 'k \<Rightarrow> 'k \<Rightarrow> bool) \<Rightarrow> ('k, 'z) sheap_scheme \<Rightarrow> addr \<Rightarrow> bool"
  assumes releases: "sound J s x \<Longrightarrow> D \<inter> objs s (part x) = {} \<Longrightarrow>
     \<exists>k'. destroy K (remains D k s) x = Some (remains (D \<union> objs s (part x)) k' s) \<and> shut_run K J (part_evs s (part x)) k k'"
begin

text \<open>Destroying the first parts of a list, apart from null pointers.\<close>

definition gone :: "('k, 'z) sheap_scheme \<Rightarrow> addr list \<Rightarrow> nat \<Rightarrow> obj set" where
  "gone s xs j = \<Union> ((\<lambda>x. objs s (part x)) ` (set (take j xs) - {NULL}))"

definition asked :: "('k, 'z) sheap_scheme \<Rightarrow> addr list \<Rightarrow> nat \<Rightarrow> shut_ev list" where
  "asked s xs j = concat (map (\<lambda>x. part_evs s (part x)) (filter (\<lambda>x. x \<noteq> NULL) (take j xs)))"

definition progress ::
  "('k, 'y) sys_ops_scheme \<Rightarrow> (tid \<Rightarrow> 'k \<Rightarrow> 'k \<Rightarrow> bool) \<Rightarrow> ('k, 'z) sheap_scheme \<Rightarrow> obj set \<Rightarrow> 'k \<Rightarrow> addr list \<Rightarrow> nat \<Rightarrow> ('k, 'z) sheap_scheme \<Rightarrow> bool" where
  "progress K J s D k0 xs j t \<longleftrightarrow> (\<exists>k. t = remains (D \<union> gone s xs j) k s \<and> shut_run K J (asked s xs j) k0 k)"

definition ready :: "(tid \<Rightarrow> 'k \<Rightarrow> 'k \<Rightarrow> bool) \<Rightarrow> ('k, 'z) sheap_scheme \<Rightarrow> obj set \<Rightarrow> addr list \<Rightarrow> bool" where
  "ready J s D xs \<longleftrightarrow> (\<forall>j < length xs. xs ! j \<noteq> NULL \<longrightarrow> sound J s (xs ! j) \<and>
     (D \<union> gone s xs j) \<inter> objs s (part (xs ! j)) = {})"

lemma gone_Suc: "j < length xs \<Longrightarrow> gone s xs (Suc j) = gone s xs j \<union> (if xs ! j = NULL then {} else objs s (part (xs ! j)))"
  by (simp add: gone_def take_Suc_diff Un_commute)

lemma asked_Suc: "j < length xs \<Longrightarrow> asked s xs (Suc j) = asked s xs j @ (if xs ! j = NULL then [] else part_evs s (part (xs ! j)))"
  by (simp add: asked_def take_Suc_conv_app_nth)

lemma progress_start: "progress K J s D k xs 0 (remains D k s)"
  by (auto simp: progress_def gone_def asked_def shut_done)

lemma progress_step:
  assumes "ready J s D xs" "progress K J s D k0 xs j t" "j < length xs"
  shows "\<exists>u. (if xs ! j = NULL then Some t else destroy K t (xs ! j)) = Some u \<and> progress K J s D k0 xs (Suc j) u"
proof (cases "xs ! j = NULL")
  case True
  then show ?thesis using assms by (simp add: progress_def gone_Suc asked_Suc)
next
  case False
  obtain k where k: "t = remains (D \<union> gone s xs j) k s" "shut_run K J (asked s xs j) k0 k" using assms(2) by (auto simp: progress_def)
  obtain k' where k': "destroy K t (xs ! j) = Some (remains (D \<union> gone s xs j \<union> objs s (part (xs ! j))) k' s)"
    "shut_run K J (part_evs s (part (xs ! j))) k k'"
    using releases[of J s "xs ! j" "D \<union> gone s xs j" K k] assms(1,3) False k(1) unfolding ready_def by blast
  then show ?thesis
    using False shut_run_trans[OF k'(2) k(2)] assms(3) by (auto simp: progress_def gone_Suc asked_Suc Un_assoc)
qed

lemma progress_end: "progress K J s D k0 xs (length xs) t \<Longrightarrow>
    \<exists>k. t = remains (D \<union> \<Union> ((\<lambda>x. objs s (part x)) ` (set xs - {NULL}))) k s \<and>
      shut_run K J (concat (map (\<lambda>x. part_evs s (part x)) (filter (\<lambda>x. x \<noteq> NULL) xs))) k0 k"
  by (simp add: progress_def gone_def asked_def)

end

interpretation listener_part: part_destroyer "\<lambda>K. xv_listener_destroy" Listener "\<lambda>J s x. still s (Listener x)"
proof unfold_locales
  fix J :: "tid \<Rightarrow> 'k \<Rightarrow> 'k \<Rightarrow> bool" and s :: "('k, 'z) sheap_scheme" and x D k and K :: "('k, 'y) sys_ops_scheme"
  assume "still s (Listener x)" "D \<inter> objs s (Listener x) = {}"
  then have w: "whole s (Listener x)" "ios_stopped s (objs s (Listener x))" "D \<inter> objs s (Listener x) = {}" by (simp_all only: still_def)
  obtain l io where l: "x \<noteq> NULL" "listeners s x = Some l" "ls_io l \<noteq> NULL" "ios s (ls_io l) = Some io" "\<not> io_start io"
    using w(1,2) by (auto simp: ios_stopped_def)
  have "O_listener x \<notin> D" "O_io (ls_io l) \<notin> D" using w(3) l(2) by auto
  then have "xv_listener_destroy (remains D k s) x = Some (remains (D \<union> objs s (Listener x)) k s)"
    using l by (simp add: remains_simps xv_listener_destroy_def xv_io_destroy_def xv_free_def)
  then show "\<exists>k'. xv_listener_destroy (remains D k s) x = Some (remains (D \<union> objs s (Listener x)) k' s) \<and> shut_run K J (part_evs s (Listener x)) k k'" by (auto intro: shut_done)
qed

interpretation conn_part: part_destroyer "\<lambda>K. xv_connection_destroy" Conn "\<lambda>J s x. still s (Conn x)"
proof unfold_locales
  fix J :: "tid \<Rightarrow> 'k \<Rightarrow> 'k \<Rightarrow> bool" and s :: "('k, 'z) sheap_scheme" and c D k and K :: "('k, 'y) sys_ops_scheme"
  assume "still s (Conn c)" "D \<inter> objs s (Conn c) = {}"
  then have w: "whole s (Conn c)" "ios_stopped s (objs s (Conn c))" "D \<inter> objs s (Conn c) = {}" by (simp_all only: still_def)
  obtain x r v where x: "c \<noteq> NULL" "connections s c = Some x" "c_read_io x \<noteq> NULL" "ios s (c_read_io x) = Some r" "\<not> io_start r"
    "c_write_io x \<noteq> NULL" "ios s (c_write_io x) = Some v" "\<not> io_start v" "c_read_io x \<noteq> c_write_io x"
    "c_read_buffer x \<noteq> NULL" "buffers s (c_read_buffer x) \<noteq> None" "c_write_buffer x \<noteq> NULL" "buffers s (c_write_buffer x) \<noteq> None"
    "c_read_buffer x \<noteq> c_write_buffer x" using w(1,2) by (auto simp: ios_stopped_def)
  have D: "O_conn c \<notin> D" "O_io (c_read_io x) \<notin> D" "O_io (c_write_io x) \<notin> D" "O_buffer (c_read_buffer x) \<notin> D" "O_buffer (c_write_buffer x) \<notin> D"
    using w(3) x(2) by auto
  have "xv_connection_destroy (remains D k s) c = Some (remains (D \<union> objs s (Conn c)) k s)"
    by (subst connection_destroy_law[of c _ x r v]) (use x D in \<open>simp_all add: remains_simps fun_upd_twist\<close>)
  then show "\<exists>k'. xv_connection_destroy (remains D k s) c = Some (remains (D \<union> objs s (Conn c)) k' s) \<and> shut_run K J (part_evs s (Conn c)) k k'" by (auto intro: shut_done)
qed

lemma remains_thread:
  fixes s :: "('k, 'z) sheap_scheme"
  assumes "p \<noteq> NULL" "io_threads s p = Some th" "O_thread p \<notin> D"
  shows "deref (io_threads (remains D k s)) p = Some th" "xv_free (io_threads (remains D k s)) p = Some ((io_threads (remains D k s))(p := None))"
    "(remains D k s)\<lparr>io_threads := (io_threads (remains D k s))(p := None)\<rparr> = remains (D \<union> {O_thread p}) k s"
  using assms by (simp_all add: remains_simps xv_free_def)

interpretation thread_part: part_destroyer xv_io_thread_destroy Thread "\<lambda>J s x. still s (Thread x)"
proof unfold_locales
  fix J :: "tid \<Rightarrow> 'k \<Rightarrow> 'k \<Rightarrow> bool" and s :: "('k, 'z) sheap_scheme" and p D k and K :: "('k, 'y) sys_ops_scheme"
  assume "still s (Thread p)" "D \<inter> objs s (Thread p) = {}"
  then have w: "whole s (Thread p)" "ios_stopped s (objs s (Thread p))" "D \<inter> objs s (Thread p) = {}" by (simp_all only: still_def)
  obtain th where th: "p \<noteq> NULL" "io_threads s p = Some th" "queue_whole s (it_conn_queue th)" "queue_whole s (it_message_queue th)"
    "queue_objs s (it_conn_queue th) \<inter> queue_objs s (it_message_queue th) = {}"
    "async_whole s (it_async_add_conn th)" "async_whole s (it_async_return_message th)"
    "async_objs s (it_async_add_conn th) \<inter> async_objs s (it_async_return_message th) = {}" "loop_ok s (it_loop th)" using w(1) by auto
  define Q1 A1 Q2 A2 L where parts: "Q1 = queue_objs s (it_conn_queue th)" "A1 = async_objs s (it_async_add_conn th)"
    "Q2 = queue_objs s (it_message_queue th)" "A2 = async_objs s (it_async_return_message th)" "L = loop_objs s (it_loop th)"
  have kinds: "Q1 \<inter> A1 = {}" "Q2 \<inter> A1 = {}" "Q1 \<inter> A2 = {}" "Q2 \<inter> A2 = {}" "L \<inter> (Q1 \<union> A1 \<union> Q2 \<union> A2) = {}" "O_thread p \<notin> Q1 \<union> A1 \<union> Q2 \<union> A2 \<union> L"
    by (auto simp: parts queue_objs_def async_objs_def loop_objs_def Let_def)
  have D: "D \<inter> (Q1 \<union> A1 \<union> Q2 \<union> A2 \<union> L) = {}" "O_thread p \<notin> D" and st: "ios_stopped s A1" "ios_stopped s A2"
    using w(2,3) th(2) by (auto simp: parts Let_def ios_stopped_def)
  have q1: "xv_concurrent_queue_destroy (remains D k s) (it_conn_queue th) f = Some (remains (D \<union> Q1) k s)" for f
    unfolding parts by (rule queue_release[OF th(3)]) (use D(1) in \<open>auto simp: parts\<close>)
  obtain k1 where k1: "xv_async_destroy K (remains (D \<union> Q1) k s) (it_async_add_conn th) = Some (XV_OK, remains (D \<union> Q1 \<union> A1) k1 s)"
    "shut_run K J [Closed (evfd s (it_async_add_conn th))] k k1"
    using async_release[OF th(6), of "D \<union> Q1" K k J] D(1) kinds(1) st(1) unfolding parts by blast
  have q2: "xv_concurrent_queue_destroy (remains (D \<union> Q1 \<union> A1) k1 s) (it_message_queue th) f = Some (remains (D \<union> Q1 \<union> A1 \<union> Q2) k1 s)" for f
    unfolding parts by (rule queue_release[OF th(4)]) (use D(1) kinds(2) th(5) in \<open>auto simp: parts\<close>)
  obtain k2 where k2: "xv_async_destroy K (remains (D \<union> Q1 \<union> A1 \<union> Q2) k1 s) (it_async_return_message th) =
      Some (XV_OK, remains (D \<union> Q1 \<union> A1 \<union> Q2 \<union> A2) k2 s)" "shut_run K J [Closed (evfd s (it_async_return_message th))] k1 k2"
    using async_release[OF th(7), of "D \<union> Q1 \<union> A1 \<union> Q2" K k1 J] D(1) kinds(3,4) th(8) st(2) unfolding parts by blast
  have l: "xv_loop_destroy (remains (D \<union> Q1 \<union> A1 \<union> Q2 \<union> A2) k2 s) (it_loop th) = Some (remains (D \<union> Q1 \<union> A1 \<union> Q2 \<union> A2 \<union> L) k2 s)"
    unfolding parts by (rule loop_release[OF th(9)]) (use D(1) kinds(5) in \<open>auto simp: parts\<close>)
  have no: "O_thread p \<notin> D \<union> Q1 \<union> A1 \<union> Q2 \<union> A2 \<union> L" using D(2) kinds(6) by blast
  have "objs s (Thread p) = Q1 \<union> A1 \<union> Q2 \<union> A2 \<union> L \<union> {O_thread p}" by (simp add: parts th(2))
  then have set: "D \<union> objs s (Thread p) = D \<union> Q1 \<union> A1 \<union> Q2 \<union> A2 \<union> L \<union> {O_thread p}" by (simp add: Un_assoc)
  have "xv_io_thread_destroy K (remains D k s) p = Some (remains (D \<union> objs s (Thread p)) k2 s)"
    unfolding xv_io_thread_destroy_def set remains_thread(1)[OF th(1,2) D(2)] bind.bind_lunit q1 k1(1) prod.case q2 k2(1) l remains_thread(2,3)[OF th(1,2) no] ..
  then show "\<exists>k'. xv_io_thread_destroy K (remains D k s) p = Some (remains (D \<union> objs s (Thread p)) k' s) \<and> shut_run K J (part_evs s (Thread p)) k k'"
    using shut_run_trans[OF k2(2) k1(2)] th(2) by (auto simp: Let_def)
qed

text \<open>Destroying a worker changes its flag, its watcher, the table and the flag of its loop before they are released, so the heap just before the
  releases agrees with what remained only off the objects of the worker.\<close>

lemma without_rebase: "(\<And>a. C a \<notin> W \<Longrightarrow> h a = without C D g a) \<Longrightarrow> without C W h = without C (D \<union> W) g"
  by (auto simp: without_def fun_eq_iff)

lemma remains_rebase:
  fixes s u :: "('k, 'z) sheap_scheme"
  assumes "queues u = without O_queue D (queues s)" "cqueues u = without O_cqueue D (cqueues s)" "\<And>a. O_poller a \<notin> W \<Longrightarrow> pollers u a = without O_poller D (pollers s) a"
    "\<And>a. O_fired a \<notin> W \<Longrightarrow> fired_arrays u a = without O_fired D (fired_arrays s) a" "asyncs u = without O_async D (asyncs s)"
    "\<And>a. O_io a \<notin> W \<Longrightarrow> ios u a = without O_io D (ios s) a" "\<And>a. O_loop a \<notin> W \<Longrightarrow> loops u a = without O_loop D (loops s) a"
    "\<And>a. O_events a \<notin> W \<Longrightarrow> event_arrays u a = without O_events D (event_arrays s) a"
    "\<And>a. O_worker a \<notin> W \<Longrightarrow> workers u a = without O_worker D (workers s) a" "brk u = brk s" "nodes u = nodes s"
    "aheap.more u = aheap.more ((remains D k s)\<lparr>workers := workers u\<rparr>)"
  shows "remains W k u = remains (D \<union> W) k s"
proof -
  have m: "thread_arrays u = without O_workers D (thread_arrays s)" "pools u = without O_pool D (pools s)"
    "buffers u = without O_buffer D (buffers s)" "connections u = without O_conn D (connections s)" "listeners u = without O_listener D (listeners s)"
    "io_threads u = without O_thread D (io_threads s)" "io_thread_arrays u = without O_threads D (io_thread_arrays s)"
    "conn_arrays u = without O_table D (conn_arrays s)" "services u = without O_service D (services s)"
    "tasks u = tasks s" "messages u = messages s" "pool_tasks u = pool_tasks s" "sheap.more u = sheap.more s"
    using assms(12) by (cases s; cases u; simp add: remains_def)+
  have w: "without O_queue W (queues u) = without O_queue (D \<union> W) (queues s)" "without O_cqueue W (cqueues u) = without O_cqueue (D \<union> W) (cqueues s)"
    "without O_poller W (pollers u) = without O_poller (D \<union> W) (pollers s)" "without O_fired W (fired_arrays u) = without O_fired (D \<union> W) (fired_arrays s)"
    "without O_async W (asyncs u) = without O_async (D \<union> W) (asyncs s)" "without O_io W (ios u) = without O_io (D \<union> W) (ios s)"
    "without O_loop W (loops u) = without O_loop (D \<union> W) (loops s)" "without O_events W (event_arrays u) = without O_events (D \<union> W) (event_arrays s)"
    "without O_worker W (workers u) = without O_worker (D \<union> W) (workers s)" "without O_workers W (thread_arrays u) = without O_workers (D \<union> W) (thread_arrays s)"
    "without O_pool W (pools u) = without O_pool (D \<union> W) (pools s)" "without O_buffer W (buffers u) = without O_buffer (D \<union> W) (buffers s)"
    "without O_conn W (connections u) = without O_conn (D \<union> W) (connections s)" "without O_listener W (listeners u) = without O_listener (D \<union> W) (listeners s)"
    "without O_thread W (io_threads u) = without O_thread (D \<union> W) (io_threads s)" "without O_threads W (io_thread_arrays u) = without O_threads (D \<union> W) (io_thread_arrays s)"
    "without O_table W (conn_arrays u) = without O_table (D \<union> W) (conn_arrays s)" "without O_service W (services u) = without O_service (D \<union> W) (services s)"
    by (rule without_rebase; simp add: assms(1-9) m)+
  show ?thesis
    unfolding remains_def w using assms(10,11) m(10-13) by (cases s; cases u; simp)
qed

lemma io_stop_arrays:
  assumes "xv_io_stop K s L p = Some (r, t)" "loops s L = Some l" "a \<noteq> l_events l"
  shows "event_arrays t a = event_arrays s a"
  using assms by (auto simp: xv_io_stop_def xv_loop_del_event_def poller_del_eq xv_poller_modify_event_def Let_def case_prod_beta
      deref_def elim!: bind_SomeE split: if_splits)

text \<open>The worker is told to end, woken and joined.\<close>

definition worker_joined ::
  "obj set \<Rightarrow> 'k \<Rightarrow> (addr \<rightharpoonup> xv_poller_data_t) \<Rightarrow> (addr \<rightharpoonup> xv_fired_event_t option list) \<Rightarrow> ('k, 'z) sheap_scheme \<Rightarrow> addr \<Rightarrow>
   xv_worker_thread_t \<Rightarrow> ('k, 'z) sheap_scheme" where
  "worker_joined D k p f s x w = (remains D k s)\<lparr>pollers := p, fired_arrays := f,
     workers := (without O_worker D (workers s))(x \<mapsto> w\<lparr>w_start := False\<rparr>),
     loops := break_in {w_loop w} (without O_loop D (loops s))\<rparr>"

lemma worker_join_law:
  fixes s :: "('k, 'z) sheap_scheme"
  assumes x: "x \<noteq> NULL" "workers s x = Some w" "w_id w = Some i" "\<forall>q v. workers s q = Some v \<longrightarrow> w_id v = Some i \<longrightarrow> q = x"
    and a: "w_async w \<noteq> NULL" "asyncs s (w_async w) = Some a" and D: "O_worker x \<notin> D" "O_async (w_async w) \<notin> D"
    and P: "join_idle P"
  shows "\<exists>k' p f. xv_worker_thread_destroy K P (remains D k s) x = do {
       (_, s) \<leftarrow> xv_async_stop K (worker_joined D k' p f s x w) (w_loop w) (w_async w);
       (_, s) \<leftarrow> xv_async_destroy K s (w_async w);
       s \<leftarrow> xv_loop_destroy s (w_loop w);
       s \<leftarrow> xv_concurrent_queue_destroy s (w_task_queue w) (Some free_task);
       h \<leftarrow> xv_free (workers s) x;
       Some (s\<lparr>workers := h\<rparr>) } \<and> waited (remains D k s) {w_loop w} p f \<and> shut_run K (joins P) [Woken (as_evfd a), Joined i] k k'"
proof -
  define u1 where "u1 = (remains D k s)\<lparr>workers := (without O_worker D (workers s))(x \<mapsto> w\<lparr>w_start := False\<rparr>)\<rparr>"
  obtain r k1 where k1: "eventfd_write K (as_evfd a) 1 k = (r, k1)" by fastforce
  obtain r2 k2 p f where k2: "pth_join P i (u1\<lparr>kern := k1\<rparr>) =
      Some (r2, u1\<lparr>kern := k2, pollers := p, fired_arrays := f, loops := break_in (ended_loops (u1\<lparr>kern := k1\<rparr>) i) (loops u1)\<rparr>)"
    "waited (u1\<lparr>kern := k1\<rparr>) (ended_loops (u1\<lparr>kern := k1\<rparr>) i) p f"
    using P[unfolded join_idle_def, rule_format, of "u1\<lparr>kern := k1\<rparr>" i] by auto
  have ended: "ended_loops (u1\<lparr>kern := k1\<rparr>) i = {w_loop w}"
  proof -
    have "v = w\<lparr>w_start := False\<rparr>" if "workers u1 p = Some v" "w_id v = Some i" for p v
      using that x(4) D(1) by (auto simp: u1_def without_def split: if_splits)
    moreover have "workers u1 x = Some (w\<lparr>w_start := False\<rparr>)" by (simp add: u1_def)
    ultimately show ?thesis using x(3) by (fastforce simp: ended_loops_def)
  qed
  then have joined: "u1\<lparr>kern := k2, pollers := p, fired_arrays := f, loops := break_in (ended_loops (u1\<lparr>kern := k1\<rparr>) i) (loops u1)\<rparr> =
      worker_joined D k2 p f s x w"
    by (simp add: u1_def worker_joined_def remains_def)
  have w: "waited (remains D k s) {w_loop w} p f" using k2(2) unfolding ended by (simp add: waited_def u1_def)
  have one: "xv_worker_thread_stop (remains D k s) x = Some (XV_OK, u1)"
    using x(1,2) D(1) by (simp add: xv_worker_thread_stop_def u1_def remains_def)
  have w1: "workers u1 x = Some (w\<lparr>w_start := False\<rparr>)" "asyncs u1 (w_async w) = Some a" "kern u1 = k"
    using a D(2) by (simp_all add: u1_def remains_def)
  then have two: "xv_async_send K u1 (w_async w) = Some (if r < 0 then XV_ERR else XV_OK, u1\<lparr>kern := k1\<rparr>)"
    using a(1) k1 by (simp add: xv_async_send_def)
  have w2: "workers (worker_joined D k2 p f s x w) x = Some (w\<lparr>w_start := False\<rparr>)" by (simp add: worker_joined_def)
  have "shut_run K (joins P) [Woken (as_evfd a)] k k1" using shut_run_one(3)[of K "joins P" "as_evfd a" k] k1 by simp
  moreover have "kern (worker_joined D k2 p f s x w) = k2" by (simp add: worker_joined_def remains_def)
  then have "joins P i k1 k2" unfolding joins_def using k2(1)[unfolded joined] by (intro exI[of _ "u1\<lparr>kern := k1\<rparr>"]) simp
  ultimately have run: "shut_run K (joins P) [Woken (as_evfd a), Joined i] k k2" using shut_join by fastforce
  show ?thesis
    using one two w1 w2 x(1,3) k2(1)[unfolded joined] run w
    by (intro exI[of _ k2] exI[of _ p] exI[of _ f]) (simp add: xv_worker_thread_destroy_def)
qed

text \<open>What the releases find: a well-formed loop whose only watcher is that of the async object.\<close>

lemma waited_fields:
  assumes "waited s {L} p f" "loops s L = Some l"
  shows "pollers s (l_poller_data l) = Some d \<Longrightarrow>
      \<exists>d'. p (l_poller_data l) = Some d' \<and> p_setsize d' = p_setsize d \<and> length (p_events d') = length (p_events d)"
    "fired_arrays s (l_fired_events l) = Some arr \<Longrightarrow> \<exists>brr. f (l_fired_events l) = Some brr \<and> length brr = length arr"
    "a \<noteq> l_poller_data l \<Longrightarrow> p a = pollers s a" "a \<noteq> l_fired_events l \<Longrightarrow> f a = fired_arrays s a"
proof -
  have w: "p b \<noteq> pollers s b \<Longrightarrow> \<exists>d es. l_poller_data l = b \<and> pollers s b = Some d \<and> length es = length (p_events d) \<and> p b = Some (d\<lparr>p_events := es\<rparr>)"
    "f b \<noteq> fired_arrays s b \<Longrightarrow> \<exists>d es. l_fired_events l = b \<and> fired_arrays s b = Some d \<and> length es = length d \<and> f b = Some es" for b
    using assms by (simp_all add: waited_def)
  show "a \<noteq> l_poller_data l \<Longrightarrow> p a = pollers s a" "a \<noteq> l_fired_events l \<Longrightarrow> f a = fired_arrays s a"
    using w(1)[of a] w(2)[of a] by auto
  show "\<exists>d'. p (l_poller_data l) = Some d' \<and> p_setsize d' = p_setsize d \<and> length (p_events d') = length (p_events d)"
    if "pollers s (l_poller_data l) = Some d" using w(1)[of "l_poller_data l"] that by (cases "p (l_poller_data l) = pollers s (l_poller_data l)") auto
  show "\<exists>brr. f (l_fired_events l) = Some brr \<and> length brr = length arr" if "fired_arrays s (l_fired_events l) = Some arr"
    using w(2)[of "l_fired_events l"] that by (cases "f (l_fired_events l) = fired_arrays s (l_fired_events l)") auto
qed

lemma worker_joined_fit:
  fixes s :: "('k, 'z) sheap_scheme"
  assumes w: "workers s x = Some w" "asyncs s (w_async w) = Some a" "loop_ok s (w_loop w)" "watcher_fits s (w_loop w) (as_read_io a)"
      "marked_registered s (w_loop w) (as_read_io a)" "\<forall>fd ev. watched s (w_loop w) fd ev = NULL \<or> watched s (w_loop w) fd ev = as_read_io a"
    and D: "D \<inter> loop_objs s (w_loop w) = {}" "O_io (as_read_io a) \<notin> D" and j: "waited (remains D k0 s) {w_loop w} p f"
  shows "loops_ok (worker_joined D k p f s x w) {w_loop w} \<and> homed (worker_joined D k p f s x w) {w_loop w} (w_loop w) (as_read_io a)"
proof -
  let ?L = "w_loop w" and ?p = "as_read_io a" and ?u = "worker_joined D k p f s x w"
  obtain l d arr where r: "loop_repr s ?L l d arr" using w(3) by (auto simp: loop_ok_def)
  obtain farr where fa: "fired_arrays s (l_fired_events l) = Some farr" "length farr = nat (l_setsize l)" by (rule loop_repr_fired[OF r])
  note d = loop_reprD[OF r]
  have no: "O_loop ?L \<notin> D" "O_poller (l_poller_data l) \<notin> D" "O_events (l_events l) \<notin> D" "O_fired (l_fired_events l) \<notin> D"
    using D(1) d(2) by (auto simp: loop_objs_def)
  have lk: "loops (remains D k0 s) ?L = Some l" "pollers (remains D k0 s) (l_poller_data l) = Some d" "fired_arrays (remains D k0 s) (l_fired_events l) = Some farr"
    using d fa no by (simp_all add: remains_def)
  obtain d' farr' where j': "p (l_poller_data l) = Some d'" "p_setsize d' = p_setsize d" "length (p_events d') = length (p_events d)"
    "f (l_fired_events l) = Some farr'" "length farr' = nat (l_setsize l)"
    using waited_fields(1)[OF j lk(1,2)] waited_fields(2)[OF j lk(1,3)] fa(2) by auto
  have "slot_ok (ios ?u) (int i) (arr ! i)" if i: "i < length arr" for i
  proof -
    have q: "q = NULL \<or> q = ?p" if "q \<in> {e_read_io (arr ! i), e_write_io (arr ! i)}" for q
      using w(6)[rule_format, of "int i" XV_READ] w(6)[rule_format, of "int i" XV_WRITE] that i d(9)
      by (auto simp: watched_repr[OF r] slot_ptr_def code_defs split: if_splits)
    have "ios ?u ?p = ios s ?p" using D(2) by (simp add: worker_joined_def remains_def)
    then have "watcher_ok (ios ?u) fd ev q" if "watcher_ok (ios s) fd ev q" "q = NULL \<or> q = ?p" for fd ev q
      using that by (auto simp: watcher_ok_def)
    moreover have "slot_ok (ios s) (int i) (arr ! i)" using d(11) i by (simp add: slots_ok_def)
    ultimately show ?thesis using q by (simp add: slot_ok_def)
  qed
  then have "slots_ok (ios ?u) arr" by (simp add: slots_ok_def)
  then have u: "loop_repr ?u ?L (l\<lparr>l_start := False\<rparr>) d' arr"
    using r no j' by (auto simp: loop_repr_def worker_joined_def remains_def break_in_def)
  have "watched ?u ?L = watched s ?L" by (simp add: fun_eq_iff watched_repr[OF u] watched_repr[OF r])
  moreover have "loop_size ?u ?L = loop_size s ?L" by (simp add: loop_size_repr[OF u] loop_size_repr[OF r])
  moreover have "ios ?u ?p = ios s ?p" using D(2) by (simp add: worker_joined_def remains_def)
  ultimately have "homed ?u {?L} ?L ?p" using w(4,5) by (simp add: homed_def watcher_fits_def marked_registered_def)
  then show ?thesis using u by (auto simp: loops_ok_def loop_ok_def)
qed

text \<open>The state \<open>t\<close> after the watcher of the worker is stopped too: from here on everything is released.\<close>

lemma worker_stopped:
  fixes s :: "('k, 'z) sheap_scheme"
  assumes x: "x \<noteq> NULL" "workers s x = Some w" "w_id w = Some i" "\<forall>q v. workers s q = Some v \<longrightarrow> w_id v = Some i \<longrightarrow> q = x"
    and q: "queue_whole s (w_task_queue w)" and aw: "async_whole s (w_async w)" and a: "asyncs s (w_async w) = Some a"
    and l: "loop_ok s (w_loop w)" "watcher_fits s (w_loop w) (as_read_io a)" "marked_registered s (w_loop w) (as_read_io a)"
      "\<forall>fd ev. watched s (w_loop w) fd ev = NULL \<or> watched s (w_loop w) fd ev = as_read_io a"
    and P: "join_idle P" and off: "D \<inter> objs s (Worker x) = {}"
  obtains t where "xv_worker_thread_destroy K P (remains D k s) x = do {
       (_, s) \<leftarrow> xv_async_destroy K t (w_async w);
       s \<leftarrow> xv_loop_destroy s (w_loop w);
       s \<leftarrow> xv_concurrent_queue_destroy s (w_task_queue w) (Some free_task);
       h \<leftarrow> xv_free (workers s) x;
       Some (s\<lparr>workers := h\<rparr>) }" "shut_run K (joins P) [Woken (evfd s (w_async w)), Joined i] k (kern t)"
    "async_objs t (w_async w) = async_objs s (w_async w)" "loop_objs t (w_loop w) = loop_objs s (w_loop w)"
    "queue_objs t (w_task_queue w) = queue_objs s (w_task_queue w)" "evfd t (w_async w) = evfd s (w_async w)" "async_whole t (w_async w)" "queue_whole t (w_task_queue w)"
    "loop_ok t (w_loop w)" "ios_stopped t (async_objs s (w_async w))" "workers t x = Some (w\<lparr>w_start := False\<rparr>)"
    "\<forall>k'. remains (objs s (Worker x)) k' t = remains (D \<union> objs s (Worker x)) k' s"
proof -
  let ?L = "w_loop w" and ?p = "as_read_io a"
  define A Lo Q where parts: "A = async_objs s (w_async w)" "Lo = loop_objs s ?L" "Q = queue_objs s (w_task_queue w)"
  have obj: "objs s (Worker x) = A \<union> Lo \<union> Q \<union> {O_worker x}" by (simp add: parts x(2) Let_def)
  have D: "O_worker x \<notin> D" "D \<inter> A = {}" "D \<inter> Lo = {}" "D \<inter> Q = {}" using off obj by auto
  have Da: "O_async (w_async w) \<notin> D" "O_io ?p \<notin> D" using D(2) a by (auto simp: parts async_objs_def)
  have ax: "w_async w \<noteq> NULL" "as_evfd a = evfd s (w_async w)" using aw a by (auto simp: async_whole_def evfd_def)
  obtain k1 p f where k1: "xv_worker_thread_destroy K P (remains D k s) x = do {
       (_, s) \<leftarrow> xv_async_stop K (worker_joined D k1 p f s x w) ?L (w_async w);
       (_, s) \<leftarrow> xv_async_destroy K s (w_async w);
       s \<leftarrow> xv_loop_destroy s ?L;
       s \<leftarrow> xv_concurrent_queue_destroy s (w_task_queue w) (Some free_task);
       h \<leftarrow> xv_free (workers s) x;
       Some (s\<lparr>workers := h\<rparr>) }"
    and j: "waited (remains D k s) {?L} p f" and run: "shut_run K (joins P) [Woken (as_evfd a), Joined i] k k1"
    using worker_join_law[OF x ax(1) a D(1) Da(1) P, of K k] by blast
  define u where "u = worker_joined D k1 p f s x w"
  note fit = worker_joined_fit[OF x(2) a l D(3)[unfolded parts] Da(2) j, of k1, folded u_def]
  obtain r t where t: "xv_io_stop K u ?L ?p = Some (r, t)" "halted K (joins P) [] {?L} {?p} {} u t"
    using io_stop_halts[where J = "joins P", OF conjunct1[OF fit] conjunct2[OF fit]] by blast
  note f = more_sheap_l[OF halted_fields(2)[OF t(2)]] and h = halted_fields[OF t(2)]
  have un: "asyncs u = without O_async D (asyncs s)" "queues u = without O_queue D (queues s)" "cqueues u = without O_cqueue D (cqueues s)"
    "pollers u = p" "fired_arrays u = f" "ios u = without O_io D (ios s)"
    "loops u = break_in {?L} (without O_loop D (loops s))" "event_arrays u = without O_events D (event_arrays s)"
    "workers u = (without O_worker D (workers s))(x \<mapsto> w\<lparr>w_start := False\<rparr>)" "brk u = brk s" "nodes u = nodes s" "kern u = k1"
    by (simp_all add: u_def worker_joined_def remains_def)
  have un_more: "lheap.more u = lheap.more ((remains D k1 s)\<lparr>workers := workers u\<rparr>)"
    by (cases s) (simp add: u_def worker_joined_def remains_def)
  have tq: "queues t = queues u" "cqueues t = cqueues u" "pollers t = pollers u" "fired_arrays t = fired_arrays u" "brk t = brk u" "nodes t = nodes u"
    using t(2) by (simp_all add: halted_def)
  obtain lo where lo: "loops s ?L = Some lo" using l(1) by (auto simp: loop_ok_def loop_repr_def)
  have noL: "O_loop ?L \<notin> D" using D(3) by (auto simp: parts loop_objs_def Let_def)
  have wf: "p e = without O_poller D (pollers s) e" if "e \<noteq> l_poller_data lo" for e
    using waited_fields(3)[OF j, of lo e] lo noL that by (simp add: remains_def)
  have ff: "f e = without O_fired D (fired_arrays s) e" if "e \<noteq> l_fired_events lo" for e
    using waited_fields(4)[OF j, of lo e] lo noL that by (simp add: remains_def)
  have ev: "event_arrays t e = event_arrays u e" if "e \<noteq> l_events lo" for e
    using io_stop_arrays[OF t(1), of "lo\<lparr>l_start := False\<rparr>" e] lo noL that by (simp add: un(7) break_in_def)
  have objs_t: "async_objs t (w_async w) = A" "loop_objs t ?L = Lo" "queue_objs t (w_task_queue w) = Q"
  proof -
    show "async_objs t (w_async w) = A" using Da(1) by (simp add: async_objs_def parts f(1) un(1))
    show "loop_objs t ?L = Lo" using noL by (simp add: loop_objs_def parts h(5) un(7) break_in_sel Let_def)
    have "O_cqueue (w_task_queue w) \<notin> D" using D(4) by (auto simp: parts queue_objs_def)
    then show "queue_objs t (w_task_queue w) = Q" by (simp add: queue_objs_def parts tq(2) un(3))
  qed
  have whole_t: "async_whole t (w_async w)" "queue_whole t (w_task_queue w)" "loop_ok t ?L" "ios_stopped t A"
  proof -
    show "async_whole t (w_async w)" using aw a Da by (auto simp: async_whole_def f(1) un(1,6) h(4) stop_in_def)
    have "O_cqueue (w_task_queue w) \<notin> D" "O_queue (cq_queue (the (cqueues s (w_task_queue w)))) \<notin> D" using D(4) by (auto simp: parts queue_objs_def)
    then show "queue_whole t (w_task_queue w)" using q by (auto simp: queue_whole_def tq(1,2) un(2,3))
    show "loop_ok t ?L" using h(1) by (simp add: loops_ok_def)
    show "ios_stopped t A" using a by (auto simp: ios_stopped_def parts async_objs_def h(4) stop_in_def)
  qed
  have stop: "xv_async_stop K u ?L (w_async w) = Some (r, t)" using t(1) ax(1) a Da(1) by (simp add: xv_async_stop_def un(1))
  have rebase: "remains (objs s (Worker x)) k' t = remains (D \<union> objs s (Worker x)) k' s" for k'
  proof (rule remains_rebase)
    have mem: "O_io ?p \<in> objs s (Worker x)" "O_loop ?L \<in> objs s (Worker x)" "O_events (l_events lo) \<in> objs s (Worker x)" "O_worker x \<in> objs s (Worker x)"
      "O_poller (l_poller_data lo) \<in> objs s (Worker x)" "O_fired (l_fired_events lo) \<in> objs s (Worker x)"
      unfolding obj using a lo by (simp_all add: parts async_objs_def loop_objs_def Let_def)
    show "pollers t e = without O_poller D (pollers s) e" if "O_poller e \<notin> objs s (Worker x)" for e
      using that mem(5) wf[of e] by (auto simp: tq(3) un(4))
    show "fired_arrays t e = without O_fired D (fired_arrays s) e" if "O_fired e \<notin> objs s (Worker x)" for e
      using that mem(6) ff[of e] by (auto simp: tq(4) un(5))
    show "ios t e = without O_io D (ios s) e" if "O_io e \<notin> objs s (Worker x)" for e
      using that mem(1) by (auto simp: h(4) un(6) stop_in_def)
    show "loops t e = without O_loop D (loops s) e" if "O_loop e \<notin> objs s (Worker x)" for e
      using that mem(2) by (auto simp: h(5) un(7) break_in_def)
    show "event_arrays t e = without O_events D (event_arrays s) e" if "O_events e \<notin> objs s (Worker x)" for e
      using that mem(3) ev[of e] un(8) by auto
    show "workers t e = without O_worker D (workers s) e" if "O_worker e \<notin> objs s (Worker x)" for e
      using that mem(4) by (auto simp: f(3) un(9))
    show "aheap.more t = aheap.more ((remains D k' s)\<lparr>workers := workers t\<rparr>)"
      using halted_fields(2)[OF t(2)] un_more f(3) by (cases s; cases t; cases u; simp add: remains_def)
  qed (simp_all add: tq un f(1))
  show thesis
  proof (rule that[of t])
    show "xv_worker_thread_destroy K P (remains D k s) x = do {
       (_, s) \<leftarrow> xv_async_destroy K t (w_async w);
       s \<leftarrow> xv_loop_destroy s (w_loop w);
       s \<leftarrow> xv_concurrent_queue_destroy s (w_task_queue w) (Some free_task);
       h \<leftarrow> xv_free (workers s) x;
       Some (s\<lparr>workers := h\<rparr>) }" unfolding k1 u_def[symmetric] stop bind.bind_lunit prod.case ..
    show "shut_run K (joins P) [Woken (evfd s (w_async w)), Joined i] k (kern t)" using shut_run_trans[OF h(3) run[unfolded un(12)[symmetric]]] ax(2) by simp
    show "evfd t (w_async w) = evfd s (w_async w)" using Da(1) by (simp add: evfd_def f(1) un(1))
    show "workers t x = Some (w\<lparr>w_start := False\<rparr>)" using f(3) un(9) by simp
  qed (use objs_t whole_t rebase in \<open>simp_all add: parts\<close>)
qed

lemma worker_release:
  fixes s :: "('k, 'z) sheap_scheme"
  assumes w: "whole s (Worker x)" and P: "join_idle P" and off: "D \<inter> objs s (Worker x) = {}"
  shows "\<exists>k'. xv_worker_thread_destroy K P (remains D k s) x = Some (remains (D \<union> objs s (Worker x)) k' s) \<and>
    shut_run K (joins P) (part_evs s (Worker x)) k k'"
proof -
  obtain w i a where x: "x \<noteq> NULL" "workers s x = Some w" "w_id w = Some i" "\<forall>q v. workers s q = Some v \<longrightarrow> w_id v = Some i \<longrightarrow> q = x"
    and q: "queue_whole s (w_task_queue w)" and aw: "async_whole s (w_async w)" and a: "asyncs s (w_async w) = Some a"
    and l: "loop_ok s (w_loop w)" "watcher_fits s (w_loop w) (as_read_io a)" "marked_registered s (w_loop w) (as_read_io a)"
      "\<forall>fd ev. watched s (w_loop w) fd ev = NULL \<or> watched s (w_loop w) fd ev = as_read_io a" using w(1) unfolding whole.simps by blast
  define A Lo Q where parts: "A = async_objs s (w_async w)" "Lo = loop_objs s (w_loop w)" "Q = queue_objs s (w_task_queue w)"
  have obj: "objs s (Worker x) = A \<union> Lo \<union> Q \<union> {O_worker x}" by (simp add: parts x(2) Let_def)
  have kinds: "A \<inter> Lo = {}" "(A \<union> Lo) \<inter> Q = {}" "O_worker x \<notin> A \<union> Lo \<union> Q"
    by (auto simp: parts queue_objs_def async_objs_def loop_objs_def Let_def)
  obtain t where t: "xv_worker_thread_destroy K P (remains D k s) x = do {
       (_, s) \<leftarrow> xv_async_destroy K t (w_async w);
       s \<leftarrow> xv_loop_destroy s (w_loop w);
       s \<leftarrow> xv_concurrent_queue_destroy s (w_task_queue w) (Some free_task);
       h \<leftarrow> xv_free (workers s) x;
       Some (s\<lparr>workers := h\<rparr>) }" "shut_run K (joins P) [Woken (evfd s (w_async w)), Joined i] k (kern t)"
    "async_objs t (w_async w) = A" "loop_objs t (w_loop w) = Lo" "queue_objs t (w_task_queue w) = Q" "evfd t (w_async w) = evfd s (w_async w)" "async_whole t (w_async w)"
    "queue_whole t (w_task_queue w)" "loop_ok t (w_loop w)" "ios_stopped t A" "workers t x = Some (w\<lparr>w_start := False\<rparr>)"
    "\<forall>k'. remains (objs s (Worker x)) k' t = remains (D \<union> objs s (Worker x)) k' s"
    unfolding parts by (rule worker_stopped[OF x q aw a l P off, where k = k])
  obtain k2 where k2: "xv_async_destroy K t (w_async w) = Some (XV_OK, remains A k2 t)"
    "shut_run K (joins P) [Closed (evfd s (w_async w))] (kern t) k2"
    using async_release[of t "w_async w" "{}" K "kern t" "joins P"] t(3,6,7,10) by (auto simp: remains_none)
  have k3: "xv_loop_destroy (remains A k2 t) (w_loop w) = Some (remains (A \<union> Lo) k2 t)"
    using loop_release[OF t(9), of A k2] t(4) kinds(1) by simp
  have k4: "xv_concurrent_queue_destroy (remains (A \<union> Lo) k2 t) (w_task_queue w) g = Some (remains (A \<union> Lo \<union> Q) k2 t)" for g
    using queue_release[OF t(8), of "A \<union> Lo" k2] t(5) kinds(2) by simp
  have k5: "xv_free (workers (remains (A \<union> Lo \<union> Q) k2 t)) x = Some (workers (remains (A \<union> Lo \<union> Q \<union> {O_worker x}) k2 t))"
    "(remains (A \<union> Lo \<union> Q) k2 t)\<lparr>workers := workers (remains (A \<union> Lo \<union> Q \<union> {O_worker x}) k2 t)\<rparr> = remains (A \<union> Lo \<union> Q \<union> {O_worker x}) k2 t"
    using t(11) x(1) kinds(3) by (simp_all add: remains_simps xv_free_def)
  have "xv_worker_thread_destroy K P (remains D k s) x = Some (remains (objs s (Worker x)) k2 t)"
    unfolding t(1) obj by (simp only: bind.bind_lunit prod.case k2(1) k3 k4 k5)
  then show ?thesis using t(12)[rule_format, of k2] shut_run_trans[OF k2(2) t(2)] x(2,3) by (auto simp: Let_def)
qed

interpretation worker_part: part_destroyer "\<lambda>K. xv_worker_thread_destroy K P" Worker "\<lambda>J s x. whole s (Worker x) \<and> join_idle P \<and> J = joins P"
  for P :: "('k, 'z) sheap_scheme pthread_ops"
  by unfold_locales (blast intro: worker_release)


subsection \<open>Releasing the pool of workers\<close>

definition pool_objs :: "('k, 'z) sheap_scheme \<Rightarrow> addr \<Rightarrow> obj set" where
  "pool_objs s pool = (if pool = NULL then {} else {O_workers (tp_threads (the (pools s pool))), O_pool pool})"

text \<open>Objects of the service and of the pool itself belong to no part.\<close>

lemma objs_kinds: "O_service a \<notin> objs s p" "O_threads a \<notin> objs s p" "O_table a \<notin> objs s p" "O_workers a \<notin> objs s p" "O_pool a \<notin> objs s p"
  by (cases p; simp add: queue_objs_def async_objs_def loop_objs_def Let_def)+

lemma pool_iter_iter:
  fixes s :: "('k, 'z) sheap_scheme"
  assumes a: "pool \<noteq> NULL" "tp_threads p \<noteq> NULL"
    and keep: "\<And>j s. Inv j s \<Longrightarrow> pools s pool = Some p \<and> thread_arrays s (tp_threads p) = Some (map Some ws)"
    and step: "\<And>j s. Inv j s \<Longrightarrow> j < length ws \<Longrightarrow> \<exists>t. f s (ws ! j) = Some t \<and> Inv (Suc j) t"
    and i: "Inv j s" "j + n = length ws"
  shows "\<exists>t. pool_iter f pool n (int j) s = Some t \<and> Inv (length ws) t"
  using i
proof (induction n arbitrary: j s)
  case (Suc n)
  have j: "j < length ws" "Suc j + n = length ws" using Suc.prems(2) by simp_all
  obtain t where t: "f s (ws ! j) = Some t" "Inv (Suc j) t" using step[OF Suc.prems(1) j(1)] by blast
  obtain u where u: "pool_iter f pool n (int (Suc j)) t = Some u" "Inv (length ws) u" using Suc.IH[OF t(2) j(2)] by blast
  have "pool_thread s p (int j) = Some (ws ! j)" using j(1) keep[OF Suc.prems(1)] a(2) by (simp add: pool_thread_def arr_get_def)
  then show ?case using keep[OF Suc.prems(1)] a(1) t(1) u by (intro exI[of _ u]) (simp add: add.commute)
qed auto

text \<open>A pool whose workers were told to end: stopping it again changes nothing, then every worker is joined and released.\<close>

lemma pool_release:
  fixes s :: "('k, 'z) sheap_scheme" and P :: "('k, 'z) sheap_scheme pthread_ops"
  assumes live: "pool_live s pool ws" "halt_workers (set ws) (workers s) = workers s" and ready: "worker_part.ready P (joins P) s D ws"
    and D: "D \<inter> pool_objs s pool = {}"
  shows "\<exists>k'. (if pool = NULL then Some (remains D k s) else xv_thread_pool_destroy K P (remains D k s) pool) =
     Some (remains (D \<union> \<Union> ((\<lambda>x. objs s (Worker x)) ` set ws) \<union> pool_objs s pool) k' s) \<and>
     shut_run K (joins P) (concat (map (\<lambda>x. part_evs s (Worker x)) ws)) k k'"
proof (cases "pool = NULL")
  case True
  then have "ws = []" using live(1) by (simp add: pool_live_def)
  then show ?thesis using True by (auto simp: pool_objs_def shut_done)
next
  case False
  let ?Inv = "worker_part.progress K (joins P) s D k ws"
  define W where "W = \<Union> ((\<lambda>x. objs s (Worker x)) ` set ws)"
  obtain p where p: "pools s pool = Some p" "tp_thread_count p = int (length ws)" "tp_threads p \<noteq> NULL"
    "thread_arrays s (tp_threads p) = Some (map Some ws)" and nn: "\<forall>w \<in> set ws. w \<noteq> NULL \<and> workers s w \<noteq> None"
    using live(1) False by (auto simp: pool_live_def)
  have no: "O_pool pool \<notin> D" "O_workers (tp_threads p) \<notin> D" using D p(1) False by (auto simp: pool_objs_def)
  have gone: "O_pool a \<notin> worker_part.gone s ws j" "O_workers a \<notin> worker_part.gone s ws j" "O_pool a \<notin> W" "O_workers a \<notin> W" for a j
    by (simp_all add: W_def worker_part.gone_def objs_kinds del: objs.simps)
  have alive: "O_worker w \<notin> D" if "w \<in> set ws" for w
  proof -
    obtain j where j: "j < length ws" "ws ! j = w" using \<open>w \<in> set ws\<close> by (auto simp: in_set_conv_nth)
    have "O_worker w \<in> objs s (Worker w)" by (simp add: Let_def)
    then show ?thesis using ready j nn \<open>w \<in> set ws\<close> unfolding worker_part.ready_def by blast
  qed
  have "\<forall>w \<in> set ws. w \<noteq> NULL \<and> workers (remains D k s) w \<noteq> None" using nn alive by (simp add: remains_def)
  moreover have "pools (remains D k s) pool = Some p" "thread_arrays (remains D k s) (tp_threads p) = Some (map Some ws)"
    using p(1,4) no by (simp_all add: remains_def)
  ultimately have live': "pool_live (remains D k s) pool ws" using False p(2,3) unfolding pool_live_def by auto
  have "halt_workers (set ws) (workers (remains D k s)) = workers (remains D k s)"
    using live(2) by (auto simp: remains_def halt_workers_def without_def fun_eq_iff)
  then have "(remains D k s)\<lparr>workers := halt_workers (set ws) (workers (remains D k s))\<rparr> = remains D k s" by simp
  then obtain r where stop: "xv_thread_pool_stop (remains D k s) pool = Some (r, remains D k s)"
    using pool_stop_law[OF live'] False by auto
  have "\<exists>u. pool_iter (xv_worker_thread_destroy K P) pool (length ws) (int 0) (remains D k s) = Some u \<and> ?Inv (length ws) u"
  proof (rule pool_iter_iter[where Inv = ?Inv, OF False p(3)])
    fix j u assume i: "?Inv j u"
    show "pools u pool = Some p \<and> thread_arrays u (tp_threads p) = Some (map Some ws)"
      using i p(1,4) no gone(1,2) by (auto simp: worker_part.progress_def remains_def)
    show "\<exists>v. xv_worker_thread_destroy K P u (ws ! j) = Some v \<and> ?Inv (Suc j) v" if "j < length ws"
      using worker_part.progress_step[OF ready i that] nn that by simp
  qed (simp_all add: worker_part.progress_start)
  then obtain u where u: "pool_iter (xv_worker_thread_destroy K P) pool (length ws) 0 (remains D k s) = Some u" "?Inv (length ws) u" by auto
  have "set ws - {NULL} = set ws" "filter (\<lambda>x. x \<noteq> NULL) ws = ws" using nn by (auto simp: filter_id_conv)
  then obtain k' where k': "u = remains (D \<union> W) k' s" "shut_run K (joins P) (concat (map (\<lambda>x. part_evs s (Worker x)) ws)) k k'"
    using worker_part.progress_end[OF u(2)] by (auto simp: W_def simp del: objs.simps part_evs.simps)
  have own: "pools (remains X h s) pool = Some p" "xv_free (thread_arrays (remains X h s)) (tp_threads p) = Some (without O_workers (insert (O_workers (tp_threads p)) X) (thread_arrays s))"
    "xv_free (pools (remains X h s)) pool = Some (without O_pool (insert (O_pool pool) X) (pools s))"
    if "O_pool pool \<notin> X" "O_workers (tp_threads p) \<notin> X" for X h
    using that p False by (simp_all add: remains_def xv_free_def without_upd)
  have "O_pool pool \<notin> D \<union> W" "O_workers (tp_threads p) \<notin> D \<union> W" using no gone(3,4) by auto
  note own = own[OF no] own[OF this]
  have "D \<union> W \<union> pool_objs s pool = insert (O_pool pool) (insert (O_workers (tp_threads p)) (D \<union> W))" using False p(1) by (auto simp: pool_objs_def)
  then have last: "(remains (D \<union> W) k' s)\<lparr>thread_arrays := without O_workers (insert (O_workers (tp_threads p)) (D \<union> W)) (thread_arrays s),
      pools := without O_pool (insert (O_pool pool) (D \<union> W)) (pools s)\<rparr> = remains (D \<union> W \<union> pool_objs s pool) k' s"
    by (simp add: remains_def without_skip without_upd)
  have "xv_thread_pool_destroy K P (remains D k s) pool = Some (remains (D \<union> W \<union> pool_objs s pool) k' s)"
    unfolding last[symmetric] using stop own u(1) k'(1) p(2) False by (simp add: xv_thread_pool_destroy_def)
  then show ?thesis using k'(2) False by (auto simp: W_def simp del: objs.simps part_evs.simps)
qed

lemma destroy_listeners_iter:
  assumes keep: "\<And>j t. Inv j t \<Longrightarrow> j < length xs \<Longrightarrow> listeners t (xs ! j) = h (xs ! j)"
    and step: "\<And>j t. Inv j t \<Longrightarrow> j < length xs \<Longrightarrow> \<exists>u. xv_listener_destroy t (xs ! j) = Some u \<and> Inv (Suc j) u"
    and nn: "\<And>j. j < length xs \<Longrightarrow> xs ! j \<noteq> NULL"
    and i: "Inv j s" "chain h (drop j xs) p" "j + n = length xs"
  shows "\<exists>t. destroy_listeners p s = Some t \<and> Inv (length xs) t"
  using i
proof (induction n arbitrary: j p s)
  case 0
  then show ?case by (simp add: destroy_listeners.simps)
next
  case (Suc n)
  have j: "j < length xs" "Suc j + n = length xs" using Suc.prems(3) by simp_all
  obtain l m where l: "p = xs ! j" "h (xs ! j) = Some l" "ls_next l = Some m" "chain h (drop (Suc j) xs) m"
    using Suc.prems(2) Cons_nth_drop_Suc[OF j(1), symmetric] by auto
  obtain t where t: "xv_listener_destroy s (xs ! j) = Some t" "Inv (Suc j) t" using step[OF Suc.prems(1) j(1)] by blast
  obtain u where u: "destroy_listeners m t = Some u" "Inv (length xs) u" using Suc.IH[OF t(2) l(4) j(2)] by blast
  have "destroy_listeners p s = Some u"
    using l t(1) u(1) keep[OF Suc.prems(1) j(1)] nn[OF j(1)] by (subst destroy_listeners.simps) simp
  then show ?case using u(2) by blast
qed

text \<open>All parts of a service; different parts share no object.\<close>

definition parts :: "addr list \<Rightarrow> addr list \<Rightarrow> addr list \<Rightarrow> addr list \<Rightarrow> part list" where
  "parts ts ls cs ws = map Listener ls @ map Conn (filter (\<lambda>c. c \<noteq> NULL) cs) @ map Thread ts @ map Worker ws"

definition separate :: "('k, 'z) sheap_scheme \<Rightarrow> part list \<Rightarrow> bool" where
  "separate s ps \<longleftrightarrow> distinct ps \<and> (\<forall>a \<in> set ps. \<forall>b \<in> set ps. a \<noteq> b \<longrightarrow> objs s a \<inter> objs s b = {})"

definition parts_objs :: "('k, 'z) sheap_scheme \<Rightarrow> part list \<Rightarrow> obj set" where
  "parts_objs s ps = \<Union> (objs s ` set ps)"

lemma parts_set: "set (parts ts ls cs ws) = Listener ` set ls \<union> Conn ` (set cs - {NULL}) \<union> Thread ` set ts \<union> Worker ` set ws"
  by (auto simp: parts_def)

lemma separate_take:
  assumes sep: "separate s (ps @ map C (filter (\<lambda>x. x \<noteq> NULL) xs) @ qs)" and inj: "inj C" and j: "j < length xs" "xs ! j \<noteq> NULL"
  shows "(parts_objs s ps \<union> \<Union> ((\<lambda>x. objs s (C x)) ` (set (take j xs) - {NULL}))) \<inter> objs s (C (xs ! j)) = {}"
proof -
  let ?F = "filter (\<lambda>x. x \<noteq> NULL)"
  have split: "xs = take j xs @ xs ! j # drop (Suc j) xs" using id_take_nth_drop[OF j(1)] .
  have "distinct (ps @ map C (?F (take j xs @ xs ! j # drop (Suc j) xs)) @ qs)" using sep split by (simp add: separate_def)
  then have ne: "C (xs ! j) \<notin> set ps" "xs ! j \<notin> set (take j xs)" using j(2) by auto
  have mem: "C (xs ! j) \<in> set (ps @ map C (?F xs) @ qs)" using j by simp
  have "objs s a \<inter> objs s (C (xs ! j)) = {}" if "a \<in> set ps" for a
    using sep that mem ne(1) unfolding separate_def by (metis UnCI set_append)
  moreover have "objs s (C x) \<inter> objs s (C (xs ! j)) = {}" if x: "x \<in> set (take j xs) - {NULL}" for x
  proof -
    have "C x \<in> set (ps @ map C (?F xs) @ qs)" using x in_set_takeD[of x j xs] by auto
    moreover have "C x \<noteq> C (xs ! j)" using x ne(2) inj by (auto dest: injD)
    ultimately show ?thesis using sep mem unfolding separate_def by metis
  qed
  ultimately show ?thesis unfolding parts_objs_def by blast
qed

text \<open>A service at rest: stopped, every part complete, every watcher of the I/O threads stopped, every worker told to end.\<close>

definition at_rest ::
  "('k, 'z) sheap_scheme \<Rightarrow> addr \<Rightarrow> xv_service_t \<Rightarrow> addr list \<Rightarrow> addr list \<Rightarrow> addr list \<Rightarrow> addr list \<Rightarrow> bool" where
  "at_rest s service sv ts ls cs ws \<longleftrightarrow> service \<noteq> NULL \<and> services s service = Some sv \<and>
     pool_live s (sv_worker_threads sv) ws \<and> halt_workers (set ws) (workers s) = workers s \<and>
     sv_io_threads sv \<noteq> NULL \<and> io_thread_arrays s (sv_io_threads sv) = Some (map Some ts) \<and> io_thread_count (sv_config sv) = int (length ts) \<and>
     sv_connections sv \<noteq> NULL \<and> conn_arrays s (sv_connections sv) = Some (map Some cs) \<and> sv_conn_setsize sv = int (length cs) \<and>
     chain (listeners s) ls (sv_listeners sv) \<and> separate s (parts ts ls cs ws) \<and>
     (\<forall>p \<in> set (parts ts ls cs []). still s p) \<and> (\<forall>p \<in> set (parts ts ls cs ws). whole s p)"

definition service_objs :: "('k, 'z) sheap_scheme \<Rightarrow> addr \<Rightarrow> xv_service_t \<Rightarrow> part list \<Rightarrow> obj set" where
  "service_objs s service sv ps = parts_objs s ps \<union> pool_objs s (sv_worker_threads sv) \<union>
     {O_table (sv_connections sv), O_threads (sv_io_threads sv), O_service service}"

lemma at_rest_nonnull:
  assumes "at_rest s service sv ts ls cs ws"
  shows "NULL \<notin> set ls" "NULL \<notin> set ts" "NULL \<notin> set ws"
proof -
  have w: "whole s p" if "p \<in> set (parts ts ls cs ws)" for p using assms that by (simp add: at_rest_def)
  show "NULL \<notin> set ls" "NULL \<notin> set ts" "NULL \<notin> set ws"
    using w[of "Listener NULL"] w[of "Thread NULL"] w[of "Worker NULL"] by (auto simp: parts_set)
qed

lemma nonnull_filter: "NULL \<notin> set xs \<Longrightarrow> filter (\<lambda>x. x \<noteq> NULL) xs = xs"
  by (rule filter_True) metis

lemma at_restD:
  assumes rest: "at_rest s service sv ts ls cs ws" and P: "ws = [] \<or> join_idle P"
  shows "listener_part.ready (joins P) s {} ls" "conn_part.ready (joins P) s (parts_objs s (map Listener ls)) cs"
    "thread_part.ready (joins P) s (parts_objs s (parts [] ls cs []) \<union> {O_table (sv_connections sv)}) ts"
    "worker_part.ready P (joins P) s (parts_objs s (parts ts ls cs []) \<union> {O_table (sv_connections sv), O_threads (sv_io_threads sv)}) ws"
proof -
  have w: "still s p" if "p \<in> set (parts ts ls cs [])" for p using rest that by (simp add: at_rest_def)
  have ww: "whole s p" if "p \<in> set (parts ts ls cs ws)" for p using rest that by (simp add: at_rest_def)
  have wl: "still s (Listener x)" if "x \<in> set ls" for x using w[of "Listener x"] that by (simp add: parts_set)
  have wt: "still s (Thread x)" if "x \<in> set ts" for x using w[of "Thread x"] that by (simp add: parts_set)
  have wc: "still s (Conn x)" if "x \<in> set cs" "x \<noteq> NULL" for x using w[of "Conn x"] that by (simp add: parts_set)
  have wk: "whole s (Worker x) \<and> join_idle P" if "x \<in> set ws" for x
  proof
    show "whole s (Worker x)" using ww[of "Worker x"] that by (simp add: parts_set)
    show "join_idle P" using P that by auto
  qed
  have sep: "separate s (parts ts ls cs ws)" using rest by (simp add: at_rest_def)
  note fl = at_rest_nonnull[OF rest, THEN nonnull_filter]
  have "separate s ([] @ map Listener (filter (\<lambda>x. x \<noteq> NULL) ls) @ parts ts [] cs ws)" using sep fl by (simp add: parts_def)
  from separate_take[OF this] show "listener_part.ready (joins P) s {} ls"
    unfolding listener_part.ready_def listener_part.gone_def using wl by (auto simp: inj_def parts_objs_def simp del: objs.simps)
  have "separate s (map Listener ls @ map Conn (filter (\<lambda>x. x \<noteq> NULL) cs) @ map Thread ts @ map Worker ws)" using sep by (simp add: parts_def)
  from separate_take[OF this] show "conn_part.ready (joins P) s (parts_objs s (map Listener ls)) cs"
    unfolding conn_part.ready_def conn_part.gone_def using wc by (auto simp: inj_def simp del: objs.simps)
  have "separate s (parts [] ls cs [] @ map Thread (filter (\<lambda>x. x \<noteq> NULL) ts) @ map Worker ws)" using sep fl by (simp add: parts_def)
  from separate_take[OF this] show "thread_part.ready (joins P) s (parts_objs s (parts [] ls cs []) \<union> {O_table (sv_connections sv)}) ts"
    unfolding thread_part.ready_def thread_part.gone_def using wt by (auto simp: inj_def objs_kinds simp del: objs.simps)
  have "separate s (parts ts ls cs [] @ map Worker (filter (\<lambda>x. x \<noteq> NULL) ws) @ [])" using sep fl by (simp add: parts_def)
  from separate_take[OF this]
  show "worker_part.ready P (joins P) s (parts_objs s (parts ts ls cs []) \<union> {O_table (sv_connections sv), O_threads (sv_io_threads sv)}) ws"
    unfolding worker_part.ready_def worker_part.gone_def using wk[OF nth_mem] by (auto simp: inj_def objs_kinds simp del: objs.simps whole.simps)
qed

lemma parts_objs_kinds: "O_service a \<notin> parts_objs s ps" "O_threads a \<notin> parts_objs s ps" "O_table a \<notin> parts_objs s ps"
  "O_workers a \<notin> parts_objs s ps" "O_pool a \<notin> parts_objs s ps"
  by (auto simp: parts_objs_def objs_kinds)

lemma parts_objs_simps:
  "parts_objs s (map Listener ls) = \<Union> ((\<lambda>x. objs s (Listener x)) ` set ls)"
  "parts_objs s (parts [] ls cs []) = parts_objs s (map Listener ls) \<union> \<Union> ((\<lambda>x. objs s (Conn x)) ` (set cs - {NULL}))"
  "parts_objs s (parts ts ls cs []) = parts_objs s (parts [] ls cs []) \<union> \<Union> ((\<lambda>x. objs s (Thread x)) ` set ts)"
  "parts_objs s (parts ts ls cs ws) = parts_objs s (parts ts ls cs []) \<union> \<Union> ((\<lambda>x. objs s (Worker x)) ` set ws)"
  by (auto simp: parts_objs_def parts_def simp del: objs.simps)

lemma concat_none [simp]: "concat (map (\<lambda>x. []) xs) = []"
  by (induction xs) simp_all

lemma destroy_parts_listeners:
  fixes t :: "('k, 'z) sheap_scheme" and P :: "('k, 'z) sheap_scheme pthread_ops"
  assumes rest: "at_rest t service sv ts ls cs ws" and P: "ws = [] \<or> join_idle P"
  shows "\<exists>k. destroy_listeners (sv_listeners sv) t = Some (remains (parts_objs t (map Listener ls)) k t) \<and> shut_run K (joins P) [] (kern t) k"
proof -
  note d = at_restD[OF rest P]
  have nn: "ls ! j \<noteq> NULL" if "j < length ls" for j using at_rest_nonnull(1)[OF rest] that by (metis nth_mem)
  let ?Inv = "listener_part.progress K (joins P) t {} (kern t) ls"
  have "\<exists>u. destroy_listeners (sv_listeners sv) t = Some u \<and> ?Inv (length ls) u"
  proof (rule destroy_listeners_iter[where Inv = ?Inv and h = "listeners t" and j = 0 and n = "length ls", OF _ _ nn])
    fix j u assume i: "?Inv j u" "j < length ls"
    have "O_listener (ls ! j) \<notin> {} \<union> listener_part.gone t ls j" using d(1) nn[OF i(2)] i(2) unfolding listener_part.ready_def by fastforce
    then show "listeners u (ls ! j) = listeners t (ls ! j)" using i(1) by (auto simp: listener_part.progress_def remains_def)
    show "\<exists>v. xv_listener_destroy u (ls ! j) = Some v \<and> ?Inv (Suc j) v" using listener_part.progress_step[OF d(1) i] nn[OF i(2)] by simp
  next
    show "?Inv 0 t" using listener_part.progress_start[of K "joins P" t "{}" "kern t" ls] by (simp add: remains_none)
  qed (use rest in \<open>simp_all add: at_rest_def\<close>)
  then obtain u where u: "destroy_listeners (sv_listeners sv) t = Some u" "?Inv (length ls) u" by blast
  have "set ls - {NULL} = set ls" using at_rest_nonnull(1)[OF rest] by auto
  then show ?thesis using u(1) listener_part.progress_end[OF u(2)] by (auto simp: parts_objs_simps(1) simp del: objs.simps)
qed

lemma destroy_parts_conns:
  fixes t :: "('k, 'z) sheap_scheme" and P :: "('k, 'z) sheap_scheme pthread_ops"
  assumes rest: "at_rest t service sv ts ls cs ws" and P: "ws = [] \<or> join_idle P"
  shows "\<exists>k'. each_connection xv_connection_destroy service (length cs) 0 (remains (parts_objs t (map Listener ls)) k t) =
     Some (remains (parts_objs t (parts [] ls cs [])) k' t) \<and> shut_run K (joins P) [] k k'"
proof -
  let ?Inv = "conn_part.progress K (joins P) t (parts_objs t (map Listener ls)) k cs"
  have r: "service \<noteq> NULL" "sv_connections sv \<noteq> NULL" using rest by (simp_all add: at_rest_def)
  have "\<exists>u. each_connection xv_connection_destroy service (length cs) (int 0) (remains (parts_objs t (map Listener ls)) k t) = Some u \<and> ?Inv (length cs) u"
  proof (rule each_connection_iter[where Inv = ?Inv, OF r])
    fix j u assume i: "?Inv j u"
    have no: "O_service a \<notin> conn_part.gone t cs j" "O_table a \<notin> conn_part.gone t cs j" for a
      by (auto simp: conn_part.gone_def objs_kinds simp del: objs.simps)
    show "services u service = Some sv \<and> conn_arrays u (sv_connections sv) = Some (map Some cs)"
      using i rest no by (auto simp: conn_part.progress_def remains_def parts_objs_kinds at_rest_def)
    show "\<exists>v. (if cs ! j = NULL then Some u else xv_connection_destroy u (cs ! j)) = Some v \<and> ?Inv (Suc j) v" if "j < length cs"
      by (rule conn_part.progress_step[OF at_restD(2)[OF rest P] i that])
  qed (simp_all add: conn_part.progress_start)
  then obtain u where u: "each_connection xv_connection_destroy service (length cs) 0 (remains (parts_objs t (map Listener ls)) k t) = Some u" "?Inv (length cs) u"
    by auto
  then show ?thesis using u(1) conn_part.progress_end[OF u(2)] by (auto simp: parts_objs_simps(2) simp del: objs.simps)
qed

lemma destroy_parts_threads:
  fixes t :: "('k, 'z) sheap_scheme" and P :: "('k, 'z) sheap_scheme pthread_ops"
  assumes rest: "at_rest t service sv ts ls cs ws" and P: "ws = [] \<or> join_idle P"
  shows "\<exists>k'. each_io_thread (xv_io_thread_destroy K) service (length ts) 0 (remains (parts_objs t (parts [] ls cs []) \<union> {O_table (sv_connections sv)}) k t) =
     Some (remains (parts_objs t (parts ts ls cs []) \<union> {O_table (sv_connections sv)}) k' t) \<and>
     shut_run K (joins P) (concat (map (\<lambda>x. part_evs t (Thread x)) ts)) k k'"
proof -
  note d = at_restD[OF rest P]
  let ?D = "parts_objs t (parts [] ls cs []) \<union> {O_table (sv_connections sv)}"
  let ?Inv = "thread_part.progress K (joins P) t ?D k ts"
  have r: "service \<noteq> NULL" "sv_io_threads sv \<noteq> NULL" using rest by (simp_all add: at_rest_def)
  have "\<exists>u. each_io_thread (xv_io_thread_destroy K) service (length ts) (int 0) (remains ?D k t) = Some u \<and> ?Inv (length ts) u"
  proof (rule each_io_thread_iter[where Inv = ?Inv, OF r])
    fix j u assume i: "?Inv j u"
    have no: "O_service a \<notin> thread_part.gone t ts j" "O_threads a \<notin> thread_part.gone t ts j" for a
      by (auto simp: thread_part.gone_def objs_kinds simp del: objs.simps)
    show "services u service = Some sv \<and> io_thread_arrays u (sv_io_threads sv) = Some (map Some ts)"
      using i rest no by (auto simp: thread_part.progress_def remains_def parts_objs_kinds at_rest_def)
    show "\<exists>v. xv_io_thread_destroy K u (ts ! j) = Some v \<and> ?Inv (Suc j) v" if "j < length ts"
      using thread_part.progress_step[OF d(3) i that] at_rest_nonnull(2)[OF rest] that by (metis (full_types) nth_mem)
  qed (simp_all only: thread_part.progress_start add_0)
  then obtain u where u: "each_io_thread (xv_io_thread_destroy K) service (length ts) 0 (remains ?D k t) = Some u" "?Inv (length ts) u" by auto
  have "set ts - {NULL} = set ts" using at_rest_nonnull(2)[OF rest] by auto
  then have "?D \<union> \<Union> ((\<lambda>x. objs t (Thread x)) ` (set ts - {NULL})) = parts_objs t (parts ts ls cs []) \<union> {O_table (sv_connections sv)}"
    using parts_objs_simps(3)[of t ts ls cs] by (metis Un_assoc Un_commute)
  then show ?thesis using u(1) thread_part.progress_end[OF u(2)] nonnull_filter[OF at_rest_nonnull(2)[OF rest]] by metis
qed


lemma destroy_at_rest:
  fixes s t :: "('k, 'z) sheap_scheme" and P :: "('k, 'z) sheap_scheme pthread_ops"
  assumes rest: "at_rest t service sv ts ls cs ws" and P: "ws = [] \<or> join_idle P" and stop: "xv_service_stop K s service = Some (r, t)"
  shows "\<exists>k. xv_service_destroy K P s service = Some (remains (service_objs t service sv (parts ts ls cs ws)) k t) \<and>
     shut_run K (joins P) (concat (map (part_evs t) (parts ts ls cs ws))) (kern t) k"
proof -
  have r: "service \<noteq> NULL" "services t service = Some sv" "sv_io_threads sv \<noteq> NULL"
    "io_thread_arrays t (sv_io_threads sv) = Some (map Some ts)" "io_thread_count (sv_config sv) = int (length ts)"
    "sv_connections sv \<noteq> NULL" "conn_arrays t (sv_connections sv) = Some (map Some cs)" "sv_conn_setsize sv = int (length cs)"
    "pool_live t (sv_worker_threads sv) ws" "halt_workers (set ws) (workers t) = workers t"
    using rest by (simp_all add: at_rest_def)
  let ?pool = "sv_worker_threads sv"
  obtain k1 where k1: "destroy_listeners (sv_listeners sv) t = Some (remains (parts_objs t (map Listener ls)) k1 t)" "shut_run K (joins P) [] (kern t) k1"
    using destroy_parts_listeners[OF rest P] by blast
  obtain k2 where k2: "each_connection xv_connection_destroy service (length cs) 0 (remains (parts_objs t (map Listener ls)) k1 t) =
     Some (remains (parts_objs t (parts [] ls cs [])) k2 t)" "shut_run K (joins P) [] k1 k2" using destroy_parts_conns[OF rest P] by blast
  let ?D = "\<lambda>ts. parts_objs t (parts ts ls cs []) \<union> {O_table (sv_connections sv)}"
  let ?E = "parts_objs t (parts ts ls cs []) \<union> {O_table (sv_connections sv), O_threads (sv_io_threads sv)}"
  obtain k3 where k3: "each_io_thread (xv_io_thread_destroy K) service (length ts) 0 (remains (?D []) k2 t) = Some (remains (?D ts) k3 t)"
    "shut_run K (joins P) (concat (map (\<lambda>x. part_evs t (Thread x)) ts)) k2 k3" using destroy_parts_threads[OF rest P] by blast
  define G where "G = ?E \<union> \<Union> ((\<lambda>x. objs t (Worker x)) ` set ws) \<union> pool_objs t ?pool"
  have off: "?E \<inter> pool_objs t ?pool = {}" by (auto simp: pool_objs_def parts_objs_kinds)
  have "\<exists>k4. (if ?pool = NULL then Some (remains ?E k3 t) else xv_thread_pool_destroy K P (remains ?E k3 t) ?pool) = Some (remains G k4 t) \<and>
      shut_run K (joins P) (concat (map (\<lambda>x. part_evs t (Worker x)) ws)) k3 k4"
    unfolding G_def by (rule pool_release[OF r(9,10) at_restD(4)[OF rest P] off])
  then obtain k4 where k4: "(if ?pool = NULL then Some (remains ?E k3 t) else xv_thread_pool_destroy K P (remains ?E k3 t) ?pool) = Some (remains G k4 t)"
    "shut_run K (joins P) (concat (map (\<lambda>x. part_evs t (Worker x)) ws)) k3 k4" by (elim exE conjE)
  let ?F = "service_objs t service sv (parts ts ls cs ws)"
  have F: "?F = insert (O_service service) G" by (auto simp: service_objs_def G_def parts_objs_simps(4)[of t ts ls cs ws] simp del: objs.simps)
  have noG: "O_service service \<notin> G" by (simp add: G_def pool_objs_def parts_objs_kinds objs_kinds del: objs.simps)
  define t1 t2 t3 t4 t5 u where states: "t1 = remains (parts_objs t (parts [] ls cs [])) k2 t" "t2 = remains (?D []) k2 t" "t3 = remains (?D ts) k3 t"
    "t4 = remains ?E k3 t" "t5 = remains G k4 t" "u = remains ?F k4 t"
  have table: "xv_free (conn_arrays t1) (sv_connections sv) = Some (conn_arrays t2)" "t1\<lparr>conn_arrays := conn_arrays t2\<rparr> = t2"
    using r(6,7) by (simp_all add: states remains_simps parts_objs_kinds xv_free_def)
  have E: "?E = insert (O_threads (sv_io_threads sv)) (?D ts)" by auto
  have own: "xv_free (io_thread_arrays t3) (sv_io_threads sv) = Some (io_thread_arrays t4)" "t3\<lparr>io_thread_arrays := io_thread_arrays t4\<rparr> = t4"
    unfolding states E using r(3,4) by (simp_all add: remains_simps parts_objs_kinds xv_free_def)
  have last: "xv_free (services t5) service = Some (services u)" "t5\<lparr>services := services u\<rparr> = u"
    unfolding states F using r(1,2) noG by (simp_all add: remains_simps xv_free_def)
  have "xv_service_destroy K P s service = Some u"
    using stop r(1,2,5,8) k1(1) k2(1)[folded states] k3(1)[folded states] k4(1)[folded states]
    by (simp add: xv_service_destroy_def table own last)
  then have "xv_service_destroy K P s service = Some (remains ?F k4 t)" by (simp add: states)
  moreover have "concat (map (part_evs t) (parts ts ls cs ws)) =
      concat (map (\<lambda>x. part_evs t (Thread x)) ts) @ concat (map (\<lambda>x. part_evs t (Worker x)) ws)"
    by (simp add: parts_def comp_def)
  ultimately show ?thesis using shut_run_trans[OF k4(2) shut_run_trans[OF k3(2) shut_run_trans[OF k2(2) k1(2)]]] by (metis append_Nil)
qed

text \<open>Stopping a service leaves its parts complete and the watchers of the I/O threads stopped.\<close>

lemma halted_objs:
  assumes h: "halted K J es Ls A B s t"
  shows "objs t p = objs s p"
  using halted_fields(5)[OF h] more_sheap_l[OF halted_fields(2)[OF h]] h
  by (cases p) (simp_all add: halted_def queue_objs_def async_objs_def loop_objs_def break_in_sel Let_def)

lemma halted_evs:
  assumes h: "halted K J es Ls A B s t"
  shows "part_evs t p = part_evs s p"
  using more_sheap_l[OF halted_fields(2)[OF h]] by (cases p) (simp_all add: evfd_def)

text \<open>The loop of a part that has one.\<close>

fun part_loop :: "('k, 'z) sheap_scheme \<Rightarrow> part \<Rightarrow> addr option" where
  "part_loop s (Thread x) = Some (thread_loop s x)"
| "part_loop s (Worker x) = Some (worker_loop s x)"
| "part_loop s _ = None"

lemma halted_whole:
  assumes h: "halted K J es Ls A B s t" and w: "whole s p" and L: "\<forall>l. part_loop s p = Some l \<longrightarrow> l \<in> Ls"
  shows "whole t p"
proof -
  note f = more_sheap_l[OF halted_fields(2)[OF h]]
  have io: "ios t a \<noteq> None \<longleftrightarrow> ios s a \<noteq> None" for a by (simp add: halted_fields(4)[OF h] stop_in_def)
  have q: "queue_whole t = queue_whole s" "queue_objs t = queue_objs s" "async_whole t = async_whole s" "async_objs t = async_objs s"
    using h f(1) io by (auto simp: fun_eq_iff halted_def queue_whole_def queue_objs_def async_whole_def async_objs_def)
  show ?thesis
  proof (cases p)
    case (Thread x)
    then have "loop_ok t (thread_loop s x)" using L halted_fields(1)[OF h] unfolding loops_ok_def by simp
    then show ?thesis using w Thread f(11) q by (auto simp: thread_loop_def)
  next
    case (Worker x)
    obtain v i a where v: "x \<noteq> NULL" "workers s x = Some v" "w_id v = Some i" "\<forall>q u. workers s q = Some u \<longrightarrow> w_id u = Some i \<longrightarrow> q = x"
      "queue_whole s (w_task_queue v)" "async_whole s (w_async v)" "asyncs s (w_async v) = Some a" "watcher_fits s (w_loop v) (as_read_io a)"
      "marked_registered s (w_loop v) (as_read_io a)" "\<forall>fd ev. watched s (w_loop v) fd ev = NULL \<or> watched s (w_loop v) fd ev = as_read_io a"
      using w unfolding Worker whole.simps by blast
    have l: "w_loop v \<in> Ls" using L Worker v(2) by (simp add: worker_loop_def)
    have "\<forall>fd ev. watched t (w_loop v) fd ev = NULL \<or> watched t (w_loop v) fd ev = as_read_io a" using v(10) halted_fields(6)[OF h l] by simp
    moreover have "loop_ok t (w_loop v)" using l halted_fields(1)[OF h] unfolding loops_ok_def by simp
    moreover note halted_fits(1)[OF h l v(8)] halted_fits(2)[OF h l v(8,9)]
    ultimately show ?thesis using v(1-7) unfolding Worker whole.simps f(1,3) q by blast
  qed (use w f io in \<open>auto simp del: not_None_eq\<close>)
qed

text \<open>Telling workers to end changes their flags only.\<close>

lemma halt_workers_part:
  fixes s :: "('k, 'z) sheap_scheme" and W :: "addr set"
  defines "t \<equiv> s\<lparr>workers := halt_workers W (workers s)\<rparr>"
  shows "objs t p = objs s p" "whole s p \<Longrightarrow> whole t p" "ios_stopped t D = ios_stopped s D" "part_evs t p = part_evs s p"
proof -
  have x: "w_loop (the (halt_workers W h a)) = w_loop (the (h a))" "w_async (the (halt_workers W h a)) = w_async (the (h a))"
    "w_task_queue (the (halt_workers W h a)) = w_task_queue (the (h a))" "w_id (the (halt_workers W h a)) = w_id (the (h a))" for h a by (cases "h a"; simp add: halt_workers_def)+
  show "part_evs t p = part_evs s p" by (cases p) (simp_all add: t_def x evfd_def Let_def)
  show "objs t p = objs s p" by (cases p) (simp_all add: t_def x queue_objs_def async_objs_def loop_objs_def Let_def)
  show "ios_stopped t D = ios_stopped s D" by (simp add: t_def ios_stopped_def)
  have q: "queue_whole t = queue_whole s" "queue_objs t = queue_objs s" "async_whole t = async_whole s" "async_objs t = async_objs s" "loop_ok t = loop_ok s"
    "watched t = watched s" "watcher_fits t = watcher_fits s" "marked_registered t = marked_registered s" "asyncs t = asyncs s"
    using halt_service_upd(4,5)[where s = s and g = "halt_workers W (workers s)"]
    by (simp_all add: t_def fun_eq_iff queue_whole_def queue_objs_def async_whole_def async_objs_def watcher_fits_def loop_size_def marked_registered_def)
  show "whole t p" if w: "whole s p"
  proof (cases p)
    case (Worker x)
    obtain v i a where v: "x \<noteq> NULL" "workers s x = Some v" "w_id v = Some i" "\<forall>q u. workers s q = Some u \<longrightarrow> w_id u = Some i \<longrightarrow> q = x"
      "queue_whole s (w_task_queue v)" "async_whole s (w_async v)" "asyncs s (w_async v) = Some a" "loop_ok s (w_loop v)" "watcher_fits s (w_loop v) (as_read_io a)"
      "marked_registered s (w_loop v) (as_read_io a)" "\<forall>fd ev. watched s (w_loop v) fd ev = NULL \<or> watched s (w_loop v) fd ev = as_read_io a"
      using w unfolding Worker whole.simps by blast
    define v' where "v' = (if x \<in> W then v\<lparr>w_start := False\<rparr> else v)"
    then have v': "workers t x = Some v'" "w_id v' = Some i" "w_task_queue v' = w_task_queue v" "w_async v' = w_async v" "w_loop v' = w_loop v"
      using v(2,3) by (simp_all add: t_def halt_workers_def)
    have "\<forall>q u. workers t q = Some u \<longrightarrow> w_id u = Some i \<longrightarrow> q = x" using v(4) by (auto simp: t_def halt_workers_def split: if_splits)
    then have "workers t x = Some v' \<and> w_id v' = Some i \<and> (\<forall>q u. workers t q = Some u \<longrightarrow> w_id u = Some i \<longrightarrow> q = x) \<and>
        queue_whole s (w_task_queue v') \<and> async_whole s (w_async v') \<and> asyncs s (w_async v') = Some a \<and> loop_ok s (w_loop v') \<and>
        watcher_fits s (w_loop v') (as_read_io a) \<and> marked_registered s (w_loop v') (as_read_io a) \<and>
        (\<forall>fd ev. watched s (w_loop v') fd ev = NULL \<or> watched s (w_loop v') fd ev = as_read_io a)"
      unfolding v'(3-5) using v'(1,2) v(5-11) by (intro conjI)
    then show ?thesis unfolding Worker whole.simps q using v(1) by blast
  qed (use w q in \<open>auto simp: t_def\<close>)
qed

lemma part_ios:
  assumes "p \<in> set (parts ts ls cs [])" "whole s p" "O_io a \<in> objs s p"
  shows "a \<in> service_ios s ts ls cs"
proof (cases p)
  case (Listener x)
  then have "x \<in> set ls" "a \<in> listener_ios s x" using assms by (auto simp: parts_set listener_ios_def)
  then show ?thesis by (auto simp: service_ios_def)
next
  case (Conn c)
  then have "c \<in> set cs - {NULL}" "a \<in> conn_ios s c" using assms by (auto simp: parts_set conn_ios_def)
  then show ?thesis by (auto simp: service_ios_def)
next
  case (Thread x)
  then have "x \<in> set ts" "a \<in> thread_ios s x"
    using assms by (auto simp: parts_set thread_ios_def queue_objs_def async_objs_def loop_objs_def Let_def)
  then show ?thesis by (auto simp: service_ios_def)
qed (use assms in \<open>simp add: parts_set image_iff\<close>)

lemma whole_service_upd:
  assumes "whole s p"
  shows "whole (s\<lparr>services := h\<rparr>) p"
proof -
  let ?t = "s\<lparr>services := h\<rparr>"
  have "queue_whole ?t = queue_whole s" "queue_objs ?t = queue_objs s" "async_whole ?t = async_whole s" "async_objs ?t = async_objs s" "loop_ok ?t = loop_ok s"
    "watcher_fits ?t = watcher_fits s" "marked_registered ?t = marked_registered s"
    using halt_service_upd(3)[where s = s and h = h]
    by (simp_all add: fun_eq_iff queue_whole_def queue_objs_def async_whole_def async_objs_def watcher_fits_def loop_size_def marked_registered_def loop_ok_def loop_repr_def)
  then show ?thesis using assms halt_service_upd(3)[where s = s and h = h] by (cases p) simp_all
qed

lemma pool_live_halt:
  fixes s t :: "('k, 'z) sheap_scheme"
  assumes "pool_live s pool ws" "pools t = pools s" "thread_arrays t = thread_arrays s" "workers t = halt_workers W (workers s)"
  shows "pool_live t pool ws"
proof -
  have "(workers t w \<noteq> None) = (workers s w \<noteq> None)" for w by (simp add: assms(4) halt_workers_def)
  then show ?thesis using assms(1) by (simp only: pool_live_def assms(2,3))
qed

text \<open>C18. \<^verbatim>\<open>xv_service_destroy\<close> on a running service whose I/O threads and workers are idle with empty queues returns: it stops
  the service as \<^verbatim>\<open>xv_service_stop\<close> does, joins every worker, and releases every listener, connection, I/O thread and worker with all their
  watchers, buffers, queues, async objects and loops, the pool, the three arrays and the service, and nothing else. Besides changes of registrations the
  kernel is asked for exactly this, in this order: every listening socket is closed; of every I/O thread the two eventfds are closed; every worker
  is woken through its eventfd, then joined, then its eventfd is closed. So the sockets of the released connections and the epoll
  descriptors are never closed. A join of a worker that was told to end is taken to return when the worker has left its loop, having changed
  the kernel, its poller's events and its fired events only (\<open>join_idle\<close>).\<close>

theorem xv_service_destroy_releases:
  fixes s :: "('k, 'z) sheap_scheme" and P :: "('k, 'z) sheap_scheme pthread_ops"
  assumes run: "running s service sv ts ls cs ws" "sv_start sv" and P: "ws = [] \<or> join_idle P"
    and parts: "\<forall>p \<in> set (parts ts ls cs ws). whole s p" "separate s (parts ts ls cs ws)"
  shows "\<exists>t k. xv_service_stop K s service = Some (XV_OK, t) \<and>
     xv_service_destroy K P s service = Some (remains (service_objs s service sv (parts ts ls cs ws)) k t) \<and>
     shut_run K (joins P) (map (\<lambda>x. Closed (listener_fd s x)) ls @ concat (map (part_evs s) (parts ts ls cs ws))) (kern s) k"
proof -
  let ?sv = "sv\<lparr>sv_start := False\<rparr>" and ?Ls = "service_loops s ts ws"
  let ?s0 = "s\<lparr>services := (services s)(service \<mapsto> ?sv)\<rparr>"
  obtain h where h: "xv_service_stop K s service = Some (XV_OK, h\<lparr>workers := halt_workers (set ws) (workers s)\<rparr>)"
    "halted K (joins P) (map (\<lambda>x. Closed (listener_fd s x)) ls) ?Ls (service_ios s ts ls cs) (thread_loop s ` set ts) ?s0 h"
    using service_stop_law[where J = "joins P", OF run, of K] by blast
  define t where "t = h\<lparr>workers := halt_workers (set ws) (workers h)\<rparr>"
  note f = more_sheap_l[OF halted_fields(2)[OF h(2)]] and halt = halt_workers_part[where s = h and W = "set ws", folded t_def]
  have stop: "xv_service_stop K s service = Some (XV_OK, t)" using h(1) f(3) by (simp add: t_def)
  have o0: "objs ?s0 p = objs s p" for p by (cases p) (simp_all add: queue_objs_def async_objs_def loop_objs_def Let_def)
  have e0: "part_evs ?s0 p = part_evs s p" for p by (cases p) (simp_all add: evfd_def)
  have evs: "part_evs t p = part_evs s p" for p using halted_evs[OF h(2), of p] e0 halt(4) by simp
  have objs: "objs t p = objs s p" for p using halted_objs[OF h(2), of p] o0 halt(1) by simp
  have whole: "whole t p" if p: "p \<in> set (parts ts ls cs ws)" for p
  proof (rule halt(2), rule halted_whole[OF h(2)])
    show "whole ?s0 p" by (rule whole_service_upd) (use parts(1) p in simp)
    show "\<forall>l. part_loop ?s0 p = Some l \<longrightarrow> l \<in> ?Ls"
      using p by (auto simp: parts_set service_loops_def halt_service_upd worker_loop_def)
  qed
  have "still t p" if p: "p \<in> set (parts ts ls cs [])" for p
  proof -
    have p': "p \<in> set (parts ts ls cs ws)" using p by (auto simp: parts_set)
    have "a \<in> service_ios s ts ls cs" if "O_io a \<in> objs s p" for a using part_ios[OF p _ that] parts(1) p' by simp
    then have "ios_stopped h (objs s p)" by (auto simp: ios_stopped_def halted_fields(4)[OF h(2)] stop_in_def)
    then show ?thesis using whole[OF p'] by (simp add: still_def objs halt(3))
  qed
  moreover have "separate t (parts ts ls cs ws)" using parts(2) by (simp add: separate_def objs)
  moreover have "halt_workers (set ws) (workers t) = workers t" by (simp add: t_def)
  moreover have "pool_live t (sv_worker_threads sv) ws"
    by (rule pool_live_halt[where s = s and W = "set ws"]) (use f run(1) in \<open>simp_all add: t_def running_def\<close>)
  ultimately have rest: "at_rest t service ?sv ts ls cs ws" using run(1) f whole by (simp add: at_rest_def running_def t_def)
  have same: "pools t = pools s" "thread_arrays t = thread_arrays s" "workers t = halt_workers (set ws) (workers s)" using f by (simp_all add: t_def)
  have "pool_objs t (sv_worker_threads sv) = pool_objs s (sv_worker_threads sv)" by (simp add: pool_objs_def same)
  then have "service_objs t service ?sv (parts ts ls cs ws) = service_objs s service sv (parts ts ls cs ws)"
    by (simp add: service_objs_def parts_objs_def objs)
  then obtain k where "xv_service_destroy K P s service = Some (remains (service_objs s service sv (parts ts ls cs ws)) k t)"
    "shut_run K (joins P) (concat (map (part_evs s) (parts ts ls cs ws))) (kern t) k"
    using destroy_at_rest[OF rest P stop] ext[of "part_evs t" "part_evs s", OF evs] by auto
  then show ?thesis using stop shut_run_trans[OF _ halted_fields(3)[OF h(2)]] by (auto simp: t_def)
qed

subsection \<open>Examples\<close>

text \<open>Threads that have ended when they are joined.\<close>

definition ending_pth :: "sim_os sheap pthread_ops" where
  "ending_pth = \<lparr>pth_create = (\<lambda>e a s. (0, a, s)), pth_join = (\<lambda>i s. Some (0, s\<lparr>loops := break_in (ended_loops s i) (loops s)\<rparr>))\<rparr>"

lemma ending_pth_idle: "join_idle ending_pth"
  unfolding join_idle_def
proof (intro allI)
  fix i and s :: "sim_os sheap"
  show "\<exists>r k p f. waited s (ended_loops s i) p f \<and>
     pth_join ending_pth i s = Some (r, s\<lparr>kern := k, pollers := p, fired_arrays := f, loops := break_in (ended_loops s i) (loops s)\<rparr>)"
    by (rule exI[of _ 0], rule exI[of _ "kern s"], rule exI[of _ "pollers s"], rule exI[of _ "fired_arrays s"]) (simp add: ending_pth_def waited_def)
qed

lemma ex_down_whole: "\<forall>p \<in> set (parts [60] [50] ex_table [82]). whole ex_down p"
proof -
  have t: "set ex_table - {NULL} = {40}" by (auto simp: ex_table_def eval_nat_numeral)
  have l: "loop_ok ex_down 30" "loop_ok ex_down 83" using ex_down_repr by (auto simp: loop_ok_def)
  have "watcher_fits ex_down 83 88" "marked_registered ex_down 83 88" "\<forall>fd ev. watched ex_down 83 fd ev = NULL \<or> watched ex_down 83 fd ev = 88"
    using loop_size_repr[OF ex_down_repr(2)]
    by (simp_all add: watcher_fits_def marked_registered_def ex_down_watched) (simp_all add: ex_down_def ex_io_def)
  then have "whole ex_down (Worker 82)"
    using l(2) by (simp add: queue_whole_def async_whole_def)
       (simp add: ex_down_def ex_svc0_def ex_idle_worker_def ex_io_def empty_queue_def)
  moreover have "whole ex_down (Listener 50)" "whole ex_down (Conn 40)"
    by (simp_all add: ex_down_def ex_svc0_def ex_conn_def)
  moreover have "whole ex_down (Thread 60)"
    using l(1) by (simp add: queue_whole_def async_whole_def queue_objs_def async_objs_def) (simp add: ex_down_def ex_svc0_def ex_thread_def empty_queue_def)
  ultimately show ?thesis by (auto simp: parts_set t simp del: whole.simps)
qed

lemma ex_down_separate: "separate ex_down (parts [60] [50] ex_table [82])"
  by (simp add: separate_def parts_def ex_table_def eval_nat_numeral)
     (simp add: ex_down_def ex_svc0_def ex_conn_def ex_thread_def ex_idle_worker_def queue_objs_def async_objs_def loop_objs_def Let_def)

lemma ex_down_evs:
  "map (\<lambda>x. Closed (listener_fd ex_down x)) [50] @ concat (map (part_evs ex_down) (parts [60] [50] ex_table [82])) =
     [Closed 2, Closed 6, Closed 7, Woken 4, Joined 9, Closed 4]"
  by (simp add: parts_def ex_table_def eval_nat_numeral listener_fd_def evfd_def)
     (simp add: ex_down_def ex_svc0_def ex_conn_def ex_thread_def ex_idle_worker_def)

lemma sim_shut_open:
  assumes "shut_run sim_sys (joins ending_pth) es k k'" "fd \<in> set (os_open k)"
  shows "fd \<in> set (os_open k') \<longleftrightarrow> Closed fd \<notin> set es"
  using assms
proof (induction rule: shut_run.induct)
  case (shut_join es k k' i k'')
  then show ?case by (auto simp: joins_def ending_pth_def)
qed (auto simp: sim_sys_def sim_ctl_def Let_def split: if_splits prod.splits option.splits)

theorem xv_service_destroy_releases_witness:
  "\<exists>u. xv_service_destroy sim_sys ending_pth ex_down 70 = Some u \<and> services u 70 = None \<and> io_threads u 60 = None \<and> connections u 40 = None \<and>
     listeners u 50 = None \<and> workers u 82 = None \<and> loops u 83 = None \<and> pools u 80 = None \<and> 5 \<in> set (os_open (kern u)) \<and>
     shut_run sim_sys (joins ending_pth) [Closed 2, Closed 6, Closed 7, Woken 4, Joined 9, Closed 4] (kern ex_down) (kern u)"
proof -
  have st: "sv_start ex_down_sv" by (simp add: ex_down_sv_def ex_sv_def)
  let ?D = "service_objs ex_down 70 ex_down_sv (parts [60] [50] ex_table [82])"
  obtain t k where t: "xv_service_stop sim_sys ex_down 70 = Some (XV_OK, t)"
    "xv_service_destroy sim_sys ending_pth ex_down 70 = Some (remains ?D k t)"
    "shut_run sim_sys (joins ending_pth) [Closed 2, Closed 6, Closed 7, Woken 4, Joined 9, Closed 4] (kern ex_down) k"
    using xv_service_destroy_releases[OF ex_down_running st disjI2[OF ending_pth_idle] ex_down_whole ex_down_separate, of sim_sys]
    unfolding ex_down_evs by blast
  have "set ex_table - {NULL} = {40}" by (auto simp: ex_table_def eval_nat_numeral)
  moreover have "workers ex_down 82 = Some ex_idle_worker" by (simp add: ex_down_def)
  ultimately have "{O_service 70, O_thread 60, O_conn 40, O_listener 50, O_worker 82, O_loop 83, O_pool 80} \<subseteq> ?D"
    by (simp add: service_objs_def parts_objs_def parts_set pool_objs_def loop_objs_def ex_idle_worker_def ex_down_sv_def Let_def)
  moreover have "5 \<in> set (os_open (kern ex_down))" by (simp add: ex_down_def ex_svc0_def)
  then have "5 \<in> set (os_open k)" by (simp add: sim_shut_open[OF t(3)])
  ultimately show ?thesis using t(2,3) by (simp add: remains_def without_def)
qed

end
