(* ===== verification/Xv_Rounds.thy ===== *)
theory Xv_Rounds
  imports Xv_Dispatch
begin

section \<open>Rounds under an invariant\<close>

text \<open>
  The handlers of a service are safe only in states that the service keeps. The locale \<open>guarded_rounds\<close> is the contract between
  the event loop and handlers that share an invariant: every handler of a started watcher returns and keeps it, and
  so does waiting for events. Its client is the loop: any number of rounds returns and keeps the invariant.
\<close>

locale guarded_rounds =
  fixes K :: "('k, 'y) epoll_ops_scheme"
    and call :: "io_cb \<Rightarrow> addr \<Rightarrow> addr \<Rightarrow> ('k, 'z) lheap_scheme \<Rightarrow> ('k, 'z) lheap_scheme option"
    and loop :: addr and inv :: "('k, 'z) lheap_scheme \<Rightarrow> bool"
  assumes inv_loop: "inv s \<Longrightarrow> loop_ok s loop"
    and inv_call: "inv s \<Longrightarrow> ios s p = Some io \<Longrightarrow> io_start io \<Longrightarrow> io_cb io = Some cb \<Longrightarrow>
      \<exists>t. call cb loop p s = Some t \<and> inv t \<and> loop_size t loop = loop_size s loop \<and> fired_cells t loop = fired_cells s loop"
    and inv_wait: "inv s \<Longrightarrow> loops s loop = Some l \<Longrightarrow> pollers s (l_poller_data l) = Some d \<Longrightarrow>
      epoll_wait K (p_epfd d) (l_setsize l) timeout (kern s) = (res, k) \<Longrightarrow>
      case res of None \<Rightarrow> inv (s\<lparr>kern := k\<rparr>)
      | Some evs \<Rightarrow> int (length evs) \<le> l_setsize l \<and> (\<forall>ev \<in> set evs. 0 \<le> ev_fd ev \<and> ev_fd ev < l_setsize l) \<and> inv (after_wait l k evs s)"
begin

definition carries :: "('k, 'z) lheap_scheme \<Rightarrow> ('k, 'z) lheap_scheme \<Rightarrow> bool" where
  "carries s t \<longleftrightarrow> inv t \<and> loop_size t loop = loop_size s loop \<and> fired_cells t loop = fired_cells s loop"

lemma fire_carries:
  assumes "inv s"
  shows "\<exists>t. fire call loop (watched s loop fd ev) s = Some t \<and> carries s t"
proof (cases "watched s loop fd ev = NULL")
  case True
  then show ?thesis using assms by (simp add: fire_def carries_def)
next
  case False
  obtain io where io: "ios s (watched s loop fd ev) = Some io" "io_start io" using watched_started[OF inv_loop[OF assms] refl False] by blast
  show ?thesis
  proof (cases "io_cb io")
    case None
    then show ?thesis using False io assms by (simp add: fire_def carries_def)
  next
    case (Some cb)
    then show ?thesis using False io inv_call[OF assms io Some] by (simp add: fire_def carries_def)
  qed
qed

lemma fire_events_carries:
  assumes "inv s" "fired_cells s loop = Some arr" "\<And>j. j < length evs \<Longrightarrow> i + j < length arr \<and> arr ! (i + j) = Some (fired_of (evs ! j))"
    and "\<And>ev. ev \<in> set evs \<Longrightarrow> 0 \<le> ev_fd ev \<and> ev_fd ev < loop_size s loop"
  shows "\<exists>t. fire_events call loop (length evs) (int i) s = Some t \<and> carries s t"
  using assms
proof (induction evs arbitrary: s i)
  case Nil
  then show ?case by (simp add: carries_def)
next
  case (Cons ev evs)
  obtain l d ar where r: "loop_repr s loop l d ar" using inv_loop[OF Cons.prems(1)] by (auto simp: loop_ok_def)
  have f: "fired_arrays s (l_fired_events l) = Some arr" using Cons.prems(2) loop_reprD(2)[OF r] by (simp add: fired_cells_def)
  have get: "arr_get arr (int i) = Some (Some (fired_of ev))" using Cons.prems(3)[of 0] by (simp add: arr_get_def)
  have fd: "0 \<le> ev_fd ev" "ev_fd ev < loop_size s loop" using Cons.prems(4)[of ev] by simp_all
  have one: "\<exists>v. (if b then fire_io call loop (ev_fd ev) sel u else Some u) = Some v \<and> carries s v"
    if "carries s u" "sel = e_read_io \<or> sel = e_write_io" for b sel u
  proof -
    have u: "inv u" "loop_size u loop = loop_size s loop" using that(1) by (simp_all add: carries_def)
    have "\<exists>v. fire_io call loop (ev_fd ev) sel u = Some v \<and> carries u v"
      using that(2) fire_io_eq[OF inv_loop[OF u(1)] fd(1), of call] fd(2) u fire_carries[OF u(1)] by auto
    then show ?thesis using that(1) by (auto simp: carries_def)
  qed
  have "carries s s" using Cons.prems(1) by (simp add: carries_def)
  from one[OF this, of e_read_io "has (ev_events ev) EPOLLIN"] obtain u
    where u: "(if has (ev_events ev) EPOLLIN then fire_io call loop (ev_fd ev) e_read_io s else Some s) = Some u" "carries s u" by blast
  from one[OF u(2), of e_write_io "has (ev_events ev) EPOLLOUT \<or> has (ev_events ev) EPOLLHUP \<or> has (ev_events ev) EPOLLERR"] obtain v
    where v: "(if has (ev_events ev) EPOLLOUT \<or> has (ev_events ev) EPOLLHUP \<or> has (ev_events ev) EPOLLERR
      then fire_io call loop (ev_fd ev) e_write_io u else Some u) = Some v" "carries s v" by blast
  have "\<exists>t. fire_events call loop (length evs) (int (Suc i)) v = Some t \<and> carries v t"
    by (rule Cons.IH) (use v(2) Cons.prems(2,4) Cons.prems(3)[of "Suc _"] in \<open>auto simp: carries_def\<close>)
  then obtain t where t: "fire_events call loop (length evs) (int (Suc i)) v = Some t" "carries v t" by blast
  have "fire_events call loop (length (ev # evs)) (int i) s = do {
      s \<leftarrow> (if has (ev_events ev) EPOLLIN then fire_io call loop (ev_fd ev) e_read_io s else Some s);
      s \<leftarrow> (if has (ev_events ev) EPOLLOUT \<or> has (ev_events ev) EPOLLHUP \<or> has (ev_events ev) EPOLLERR
           then fire_io call loop (ev_fd ev) e_write_io s else Some s);
      fire_events call loop (length evs) (int (Suc i)) s }"
    using loop_reprD(1,2,10)[OF r] f get by (simp add: fired_of_def fired_mask_has add.commute Let_def)
  then have "fire_events call loop (length (ev # evs)) (int i) s = Some t" by (simp only: u(1) v(1) t(1) bind.bind_lunit)
  then show ?case using t(2) v(2) by (auto simp: carries_def)
qed

lemma round_safe:
  assumes "inv s"
  shows "\<exists>t. xv_loop_poll K call s loop timeout = Some t \<and> inv t"
proof -
  obtain l d arr where r: "loop_repr s loop l d arr" using inv_loop[OF assms] by (auto simp: loop_ok_def)
  note d = loop_reprD[OF r]
  obtain farr where f: "fired_arrays s (l_fired_events l) = Some farr" "length farr = nat (l_setsize l)" by (rule loop_repr_fired[OF r])
  obtain res k where w: "epoll_wait K (p_epfd d) (l_setsize l) timeout (kern s) = (res, k)" by fastforce
  note wait = inv_wait[OF assms d(2,4) w]
  note poll = poller_poll_law[of s "l_poller_data l" d "l_fired_events l" farr K timeout res k]
  show ?thesis
  proof (cases res)
    case None
    then show ?thesis using poll d f w wait by (simp add: xv_loop_poll_def)
  next
    case (Some evs)
    have evs: "int (length evs) \<le> l_setsize l" "\<forall>ev \<in> set evs. 0 \<le> ev_fd ev \<and> ev_fd ev < l_setsize l" "inv (after_wait l k evs s)"
      using wait Some by simp_all
    obtain cells where cells: "fired_cells (after_wait l k evs s) loop = Some (map Some (map fired_of evs) @ cells)"
      using after_wait_ok(3)[OF r evs(1)] by blast
    have "\<exists>t. fire_events call loop (length evs) (int 0) (after_wait l k evs s) = Some t \<and> carries (after_wait l k evs s) t"
      by (rule fire_events_carries[OF evs(3) cells])
         (use evs(2) after_wait_ok(2)[OF r evs(1)] loop_size_repr[OF r] in \<open>auto simp: nth_append\<close>)
    moreover have "xv_loop_poll K call s loop timeout = fire_events call loop (length evs) (int 0) (after_wait l k evs s)"
      using poll d f w evs(1) Some by (simp add: xv_loop_poll_def after_wait_def Let_def)
    ultimately show ?thesis by (auto simp: carries_def)
  qed
qed

lemma rounds_safe: "inv s \<Longrightarrow> \<exists>t. polls K call loop timeout n s = Some t \<and> inv t"
proof (induction n arbitrary: s)
  case (Suc n)
  obtain t where "xv_loop_poll K call s loop timeout = Some t" "inv t" using round_safe[OF Suc.prems] by blast
  then show ?case using Suc.IH by simp
qed simp

end

end
