(* ===== verification/Xv_Serve.thy ===== *)
theory Xv_Serve
  imports Xv_Release Xv_Rounds
begin

section \<open>A service that keeps serving\<close>

text \<open>
  A service with one I/O thread and no workers, seen over any number of rounds of its loop: clients come and go, requests arrive on
  any of them in any order, responses are sent as far as the sockets take them, system calls fail. The invariant \<open>serving\<close> describes
  the state between two handlers; every handler of the service returns in such a state and keeps it.
\<close>

subsection \<open>What is asked of the kernel and of the application\<close>

text \<open>\<open>opened\<close> are the open descriptors, \<open>interest\<close> the interest lists. Only \<^verbatim>\<open>epoll_ctl\<close> adds to an interest list; \<^verbatim>\<open>accept\<close> opens a
  descriptor below \<open>n\<close> that was not open (the limit of open files is at most the set size of the loop) and is
  interrupted finitely often. \<^verbatim>\<open>strerror_r\<close> fills its array, so that the messages of failed calls are defined.\<close>

definition untouched :: "('k \<Rightarrow> int \<Rightarrow> int \<Rightarrow> u32 option) \<Rightarrow> ('k \<Rightarrow> int set) \<Rightarrow> 'k \<Rightarrow> 'k \<Rightarrow> bool" where
  "untouched interest opened k k' \<longleftrightarrow> opened k' = opened k \<and> (\<forall>ep fd. interest k' ep fd \<noteq> None \<longrightarrow> interest k ep fd \<noteq> None)"

definition serve_doc ::
  "('k, 'y) sys_ops_scheme \<Rightarrow> ('k \<Rightarrow> int \<Rightarrow> int \<Rightarrow> u32 option) \<Rightarrow> ('k \<Rightarrow> int set) \<Rightarrow> ('k \<Rightarrow> nat) \<Rightarrow> int \<Rightarrow> bool" where
  "serve_doc K interest opened pending n \<longleftrightarrow> epoll_ctl_doc K interest \<and> epoll_wait_doc K interest \<and>
     (\<forall>ep op fd ev k. opened (snd (epoll_ctl K ep op fd ev k)) = opened k) \<and>
     (\<forall>ep m ms k. opened (snd (epoll_wait K ep m ms k)) = opened k) \<and>
     (\<forall>fd m k. untouched interest opened k (snd (sys_read K fd m k))) \<and>
     (\<forall>fd bs k. untouched interest opened k (snd (sys_write K fd bs k))) \<and>
     (\<forall>fd opt k. untouched interest opened k (snd (sys_setsockopt K fd opt k))) \<and>
     (\<forall>fd k. untouched interest opened k (snd (sys_getfl K fd k))) \<and>
     (\<forall>fd fl k. untouched interest opened k (snd (sys_setfl K fd fl k))) \<and>
     (\<forall>fd k. untouched interest opened k (snd (eventfd_read K fd k))) \<and>
     (\<forall>fd k. opened (snd (sys_close K fd k)) = opened k - {fd} \<and>
        (\<forall>ep fd'. interest (snd (sys_close K fd k)) ep fd' \<noteq> None \<longrightarrow> interest k ep fd' \<noteq> None)) \<and>
     (\<forall>fd k. case sys_accept K fd k of
          (Inl e, k') \<Rightarrow> untouched interest opened k k' \<and> (e = EINTR \<longrightarrow> pending k' < pending k)
        | (Inr (cfd, sa), k') \<Rightarrow> 0 \<le> cfd \<and> cfd < n \<and> cfd \<notin> opened k \<and> opened k' = insert cfd (opened k) \<and>
            (\<forall>ep fd'. interest k' ep fd' \<noteq> None \<longrightarrow> interest k ep fd' \<noteq> None)) \<and>
     (\<forall>fd m k bs. 0 < m \<longrightarrow> fst (sys_read K fd m k) = Inr bs \<longrightarrow> int (length bs) \<le> m) \<and>
     (\<forall>fd bs k n. fst (sys_write K fd bs k) = Inr n \<longrightarrow> 0 \<le> n \<and> n \<le> int (length bs)) \<and> strerror_fills K"

text \<open>A buffer whose readable bytes have all been written.\<close>

definition full_buffer :: "xv_buffer_t \<Rightarrow> bool" where
  "full_buffer b \<longleftrightarrow> buffer_wf b \<and> (\<exists>bs. readable b = map Some bs)"

text \<open>The size of a buffer once \<^verbatim>\<open>on_connection_read\<close> has made room for a read.\<close>

definition read_size :: "xv_buffer_t \<Rightarrow> int" where
  "read_size b = (if b_size b - b_write_idx b < XV_DEFAULT_READ_SIZE then b_size b + XV_DEFAULT_READ_SIZE else b_size b)"

text \<open>The functions of an application that never fault and touch nothing but what they are given: its \<^verbatim>\<open>decode\<close> rejects requests
  after which the next read would make the buffer outgrow \<open>B\<close> bytes, its \<^verbatim>\<open>process\<close> answers a message or does not, its \<^verbatim>\<open>encode\<close>
  leaves readable bytes in the write buffer, whatever is in it already. Its callbacks for new and closed connections and for the release of
  a packet, if it has them, leave the state of the library as it is.\<close>

definition decode_safe :: "('k, 'z) sheap_scheme user_ops \<Rightarrow> int \<Rightarrow> nat \<Rightarrow> bool" where
  "decode_safe U B d \<longleftrightarrow> (\<forall>s rb b. rb \<noteq> NULL \<longrightarrow> buffers s rb = Some b \<longrightarrow> full_buffer b \<longrightarrow> b_size b \<le> B \<longrightarrow>
     (\<exists>ret req b'. u_decode U d rb s = Some (ret, req, s\<lparr>buffers := (buffers s)(rb \<mapsto> b')\<rparr>) \<and> full_buffer b' \<and>
        (ret = XV_ERR \<or> read_size b' \<le> B)))"

definition process_safe :: "('k, 'z) sheap_scheme user_ops \<Rightarrow> nat \<Rightarrow> bool" where
  "process_safe U p \<longleftrightarrow> (\<forall>s m x. m \<noteq> NULL \<longrightarrow> messages s m = Some x \<longrightarrow> (\<exists>response. processes U p m response s))"

definition encode_safe :: "('k, 'z) sheap_scheme user_ops \<Rightarrow> nat \<Rightarrow> bool" where
  "encode_safe U e \<longleftrightarrow> (\<forall>s wb b response. response \<noteq> NULL \<longrightarrow> wb \<noteq> NULL \<longrightarrow> buffers s wb = Some b \<longrightarrow> full_buffer b \<longrightarrow>
     (\<exists>ret b'. u_encode U e wb response s = Some (ret, s\<lparr>buffers := (buffers s)(wb \<mapsto> b')\<rparr>) \<and> full_buffer b'))"

definition app_safe :: "('k, 'z) sheap_scheme user_ops \<Rightarrow> int \<Rightarrow> xv_service_handle_t \<Rightarrow> bool" where
  "app_safe U B h \<longleftrightarrow> callback_silent (u_on_connect U) (h_on_connect h) \<and> callback_silent (u_on_disconnect U) (h_on_disconnect h) \<and>
     cleanup_silent U (h_packet_cleanup h) \<and>
     (\<exists>d p. h_decode h = Some d \<and> h_process h = Some p \<and> decode_safe U B d \<and> process_safe U p) \<and>
     (\<forall>e. h_encode h = Some e \<longrightarrow> encode_safe U e)"

subsection \<open>The invariant\<close>

text \<open>The world of a service: what is observed of the kernel, the application, the bound of read buffers, the I/O thread and the
  set size of its loop.\<close>

record ('k, 's) site =
  site_interest :: "'k \<Rightarrow> int \<Rightarrow> int \<Rightarrow> u32 option"
  site_opened :: "'k \<Rightarrow> int set"
  site_user :: "'s user_ops"
  site_limit :: int
  site_thread :: addr
  site_io :: xv_io_thread_t
  site_size :: int

text \<open>What never changes: the thread, the applications, the empty queues of the two async objects.\<close>

definition idle_queue :: "'z qheap_scheme \<Rightarrow> addr \<Rightarrow> bool" where
  "idle_queue s q \<longleftrightarrow> q \<noteq> NULL \<and> (\<exists>cq x. cqueues s q = Some cq \<and> \<not> cq_mutex cq \<and> cq_queue cq \<noteq> NULL \<and>
     queues s (cq_queue cq) = Some x \<and> q_size x = 0)"

definition grounds :: "('k, ('k, 'z) sheap_scheme) site \<Rightarrow> ('k, 'z) sheap_scheme \<Rightarrow> bool" where
  "grounds W s \<longleftrightarrow> site_thread W \<noteq> NULL \<and> io_threads s (site_thread W) = Some (site_io W) \<and> loop_size s (it_loop (site_io W)) = site_size W \<and>
     (\<forall>x l. listeners s x = Some l \<longrightarrow> app_safe (site_user W) (site_limit W) (ls_handle l)) \<and>
     idle_queue s (it_conn_queue (site_io W)) \<and> idle_queue s (it_message_queue (site_io W))"

text \<open>A watcher of a listener or of an async object.\<close>

definition fixed_io :: "('k, ('k, 'z) sheap_scheme) site \<Rightarrow> ('k, 'z) sheap_scheme \<Rightarrow> xv_io_t \<Rightarrow> bool" where
  "fixed_io W s io \<longleftrightarrow> io_userdata io \<noteq> NULL \<and>
     (io_cb io = Some On_new_connection \<and> (\<exists>l. listeners s (io_userdata io) = Some l \<and> io_fd io = ls_fd l \<and> ls_io_thread l = site_thread W) \<or>
      io_cb io = Some Common_async_cb \<and> (\<exists>a. asyncs s (io_userdata io) = Some a \<and> as_userdata a = site_thread W \<and>
         as_cb a \<in> {Some Io_thread_add_conn_cb, Some Io_thread_return_message_cb}))"

text \<open>A connection between two handlers: complete, with the reference count \<open>r\<close> and a read buffer within \<open>z\<close> while it is open; a closed one
  that is still there is not watched.\<close>

definition conn_served ::
  "('k, ('k, 'z) sheap_scheme) site \<Rightarrow> (addr \<Rightarrow> int) \<Rightarrow> (addr \<Rightarrow> int) \<Rightarrow> ('k, 'z) sheap_scheme \<Rightarrow> addr \<Rightarrow> xv_connection_t \<Rightarrow> bool" where
  "conn_served W r z s conn c \<longleftrightarrow> conn_ok s conn c (site_io W) \<and> c_io_thread c = site_thread W \<and>
     map_option io_cb (ios s (c_read_io c)) = Some (Some On_connection_read) \<and>
     map_option io_cb (ios s (c_write_io c)) = Some (Some On_connection_write) \<and>
     (\<exists>b. buffers s (c_read_buffer c) = Some b \<and> full_buffer b \<and> (c_status c = XV_CONN_OPEN \<longrightarrow> read_size b \<le> z conn)) \<and>
     (\<exists>b. buffers s (c_write_buffer c) = Some b \<and> full_buffer b) \<and> c_fd c \<in> site_opened W (kern s) \<and>
     (c_status c = XV_CONN_OPEN \<longrightarrow> xv_atomic_get (c_ref_count c) = r conn) \<and>
     (c_status c \<noteq> XV_CONN_OPEN \<longrightarrow> (\<forall>p \<in> {c_read_io c, c_write_io c}. \<forall>io. ios s p = Some io \<longrightarrow> \<not> io_start io))"

text \<open>The table of the service has room for every descriptor of the loop, and lists exactly the connections that exist.\<close>

definition tabled :: "('k, ('k, 'z) sheap_scheme) site \<Rightarrow> ('k, 'z) sheap_scheme \<Rightarrow> bool" where
  "tabled W s \<longleftrightarrow> (\<exists>sv arr. table_repr s (it_service (site_io W)) sv arr \<and> site_size W \<le> sv_conn_setsize sv \<and>
       io_thread_count (sv_config sv) = 1 \<and> sv_worker_threads sv = NULL) \<and>
     (\<forall>fd p. p \<noteq> NULL \<longrightarrow> conn_at s (it_service (site_io W)) fd = p \<longleftrightarrow> (\<exists>c. connections s p = Some c \<and> c_fd c = fd))"

definition in_range :: "('k, ('k, 'z) sheap_scheme) site \<Rightarrow> ('k, 'z) sheap_scheme \<Rightarrow> bool" where
  "in_range W s \<longleftrightarrow> (\<forall>l d fd. loops s (it_loop (site_io W)) = Some l \<longrightarrow> pollers s (l_poller_data l) = Some d \<longrightarrow>
     site_interest W (kern s) (p_epfd d) fd \<noteq> None \<longrightarrow> 0 \<le> fd \<and> fd < site_size W)"

definition fresh_above :: "('k, 'z) sheap_scheme \<Rightarrow> bool" where
  "fresh_above s \<longleftrightarrow> (\<forall>p > brk s. ios s p = None \<and> connections s p = None \<and> buffers s p = None)"

definition buffers_apart :: "('k, 'z) sheap_scheme \<Rightarrow> bool" where
  "buffers_apart s \<longleftrightarrow> (\<forall>a b c d. connections s a = Some c \<longrightarrow> connections s b = Some d \<longrightarrow> a \<noteq> b \<longrightarrow>
     {c_read_buffer c, c_write_buffer c} \<inter> {c_read_buffer d, c_write_buffer d} = {})"

text \<open>Every started watcher belongs to a listener, an async object or a connection.\<close>

definition started_known :: "('k, ('k, 'z) sheap_scheme) site \<Rightarrow> ('k, 'z) sheap_scheme \<Rightarrow> bool" where
  "started_known W s \<longleftrightarrow> (\<forall>p io. ios s p = Some io \<longrightarrow> io_start io \<longrightarrow> p \<noteq> NULL \<and>
     (fixed_io W s io \<or> (\<exists>c. connections s (io_userdata io) = Some c \<and> p \<in> {c_read_io c, c_write_io c})))"

definition serving ::
  "('k, ('k, 'z) sheap_scheme) site \<Rightarrow> (addr \<Rightarrow> int) \<Rightarrow> (addr \<Rightarrow> int) \<Rightarrow> ('k, 'z) sheap_scheme \<Rightarrow> bool" where
  "serving W r z s \<longleftrightarrow> loop_ok s (it_loop (site_io W)) \<and> grounds W s \<and> tabled W s \<and> in_range W s \<and> fresh_above s \<and> buffers_apart s \<and>
     started_known W s \<and> (\<forall>a c. connections s a = Some c \<longrightarrow> conn_served W r z s a c)"

subsection \<open>Changes that keep the invariant\<close>

text \<open>What a handler leaves alone of the loop.\<close>

definition still_loop :: "('k, 'z) sheap_scheme \<Rightarrow> ('k, 'z) sheap_scheme \<Rightarrow> bool" where
  "still_loop s t \<longleftrightarrow> loops t = loops s \<and> fired_arrays t = fired_arrays s"

lemma still_loop_refl [simp]: "still_loop s s"
  by (simp add: still_loop_def)

lemma still_loop_trans [trans]: "still_loop s t \<Longrightarrow> still_loop t u \<Longrightarrow> still_loop s u"
  by (simp add: still_loop_def)

lemma still_loop_same: "still_loop s t \<Longrightarrow> loop_size t loop = loop_size s loop" "still_loop s t \<Longrightarrow> fired_cells t loop = fired_cells s loop"
  by (simp_all add: still_loop_def loop_size_def fired_cells_def cong: option.case_cong)

lemma servingD:
  assumes "serving W r z s"
  shows "loop_ok s (it_loop (site_io W))" "grounds W s" "tabled W s" "in_range W s" "fresh_above s" "buffers_apart s" "started_known W s"
    "\<And>a c. connections s a = Some c \<Longrightarrow> conn_served W r z s a c"
  using assms by (simp_all add: serving_def)

lemma grounds_cong:
  "grounds W s \<Longrightarrow> loops t = loops s \<Longrightarrow> io_threads t = io_threads s \<Longrightarrow> listeners t = listeners s \<Longrightarrow>
   cqueues t = cqueues s \<Longrightarrow> queues t = queues s \<Longrightarrow> grounds W t"
  by (simp add: grounds_def loop_size_def idle_queue_def)

lemma fixed_io_cong: "listeners t = listeners s \<Longrightarrow> asyncs t = asyncs s \<Longrightarrow> fixed_io W t io = fixed_io W s io"
  by (simp add: fixed_io_def)

text \<open>The watchers of a connection name it, so those of different connections differ.\<close>

lemma conn_servedD:
  assumes "conn_served W r z s conn c"
  obtains rio wio rb wb where "conn_ok s conn c (site_io W)" "c_io_thread c = site_thread W" "conn \<noteq> NULL" "connections s conn = Some c"
    "ios s (c_read_io c) = Some rio" "io_cb rio = Some On_connection_read" "io_userdata rio = conn" "io_event rio = XV_READ" "io_fd rio = c_fd c"
    "ios s (c_write_io c) = Some wio" "io_cb wio = Some On_connection_write" "io_userdata wio = conn" "io_event wio = XV_WRITE" "io_fd wio = c_fd c"
    "0 \<le> c_fd c" "c_fd c < loop_size s (it_loop (site_io W))" "c_read_io c \<noteq> c_write_io c"
    "buffers s (c_read_buffer c) = Some rb" "full_buffer rb" "c_status c = XV_CONN_OPEN \<Longrightarrow> read_size rb \<le> z conn"
    "buffers s (c_write_buffer c) = Some wb" "full_buffer wb" "c_fd c \<in> site_opened W (kern s)"
    "c_status c = XV_CONN_OPEN \<Longrightarrow> xv_atomic_get (c_ref_count c) = r conn"
    "c_status c \<noteq> XV_CONN_OPEN \<Longrightarrow> \<not> io_start rio \<and> \<not> io_start wio"
proof -
  note d = assms[unfolded conn_served_def]
  obtain rio where rio: "ios s (c_read_io c) = Some rio" "io_cb rio = Some On_connection_read" "io_userdata rio = conn" "io_event rio = XV_READ"
    "io_fd rio = c_fd c" "0 \<le> c_fd c" "c_fd c < loop_size s (it_loop (site_io W))"
    using d by (auto simp: conn_ok_def conn_watcher_def)
  obtain wio where wio: "ios s (c_write_io c) = Some wio" "io_cb wio = Some On_connection_write" "io_userdata wio = conn" "io_event wio = XV_WRITE"
    "io_fd wio = c_fd c"
    using d by (auto simp: conn_ok_def conn_watcher_def)
  have ne: "c_read_io c \<noteq> c_write_io c" using rio wio by auto
  obtain rb where rb: "buffers s (c_read_buffer c) = Some rb" "full_buffer rb" "c_status c = XV_CONN_OPEN \<longrightarrow> read_size rb \<le> z conn" using d by blast
  obtain wb where wb: "buffers s (c_write_buffer c) = Some wb" "full_buffer wb" using d by blast
  show thesis
    by (rule that[OF _ _ _ _ rio(1-5) wio rio(6,7) ne rb(1,2) _ wb]) (use d rb(3) rio wio in \<open>auto simp: conn_ok_def\<close>)
qed

lemma conn_served_ios:
  assumes "conn_served W r z s conn c"
  shows "\<exists>io. ios s (c_read_io c) = Some io \<and> io_userdata io = conn" "\<exists>io. ios s (c_write_io c) = Some io \<and> io_userdata io = conn"
  using assms by (auto simp: conn_served_def conn_ok_def conn_watcher_def)

lemma conn_ios_apart:
  assumes "conn_served W r z s a c" "conn_served W r z s b d" "a \<noteq> b"
  shows "{c_read_io c, c_write_io c} \<inter> {c_read_io d, c_write_io d} = {}"
proof -
  have "\<exists>io. ios s p = Some io \<and> io_userdata io = a" if "p \<in> {c_read_io c, c_write_io c}" for p
    using that conn_served_ios[OF assms(1)] by auto
  moreover have "\<exists>io. ios s p = Some io \<and> io_userdata io = b" if "p \<in> {c_read_io d, c_write_io d}" for p
    using that conn_served_ios[OF assms(2)] by auto
  ultimately show ?thesis using assms(3) by fastforce
qed

text \<open>A connection whose own objects have not changed.\<close>

lemma conn_served_other:
  assumes c: "conn_served W r z s a c"
    and t: "loop_ok t (it_loop (site_io W))" "loops t = loops s" "io_threads t = io_threads s" "listeners t = listeners s"
      "connections t a = Some c" "ios t (c_read_io c) = ios s (c_read_io c)" "ios t (c_write_io c) = ios s (c_write_io c)"
      "buffers t (c_read_buffer c) = buffers s (c_read_buffer c)" "buffers t (c_write_buffer c) = buffers s (c_write_buffer c)"
      "c_fd c \<in> site_opened W (kern t)" "r' a = r a" "z' a = z a"
  shows "conn_served W r' z' t a c"
proof -
  have "conn_ok s a c (site_io W)" using c by (simp add: conn_served_def)
  then have "conn_ok t a c (site_io W)" using t(1-9) by (simp add: conn_ok_def conn_watcher_def loop_size_def)
  then show ?thesis using c t(6-) by (simp add: conn_served_def)
qed

text \<open>Everything the invariant reads, except the kernel and the bump pointer, is as before.\<close>

lemma serving_frame:
  fixes s t :: "('k, 'z) sheap_scheme"
  assumes s: "serving W r z s"
    and f: "loops t = loops s" "pollers t = pollers s" "event_arrays t = event_arrays s" "fired_arrays t = fired_arrays s" "ios t = ios s"
      "cqueues t = cqueues s" "queues t = queues s" "asyncs t = asyncs s" "buffers t = buffers s" "connections t = connections s"
      "listeners t = listeners s" "io_threads t = io_threads s" "conn_arrays t = conn_arrays s" "services t = services s"
    and k: "brk s \<le> brk t" "site_opened W (kern s) \<subseteq> site_opened W (kern t)"
      "\<forall>ep fd. site_interest W (kern t) ep fd \<noteq> None \<longrightarrow> site_interest W (kern s) ep fd \<noteq> None \<or> 0 \<le> fd \<and> fd < site_size W"
  shows "serving W r z t"
proof -
  note d = servingD[OF s]
  have l: "loop_ok t (it_loop (site_io W))" by (rule loop_ok_cong[OF d(1)]) (simp_all add: f)
  have "conn_served W r z t a c" if "connections t a = Some c" for a c
  proof -
    have c: "conn_served W r z s a c" using d(8) that f(10) by simp
    then have "c_fd c \<in> site_opened W (kern t)" using k(2) by (auto simp: conn_served_def)
    then show ?thesis using l f that by (intro conn_served_other[OF c]) simp_all
  qed
  moreover have "grounds W t" by (rule grounds_cong[OF d(2)]) (simp_all add: f)
  moreover have "tabled W t" using d(3) conn_at_cong[OF f(14,13)] f by (simp add: tabled_def table_repr_def)
  moreover have "in_range W t" using d(4) k(3) f(1,2) by (fastforce simp: in_range_def)
  moreover have "fresh_above t" using d(5) k(1) f by (simp add: fresh_above_def)
  moreover have "buffers_apart t" using d(6) by (simp add: buffers_apart_def f)
  moreover have "started_known W t" using d(7) by (simp add: started_known_def f fixed_io_def)
  ultimately show ?thesis using l by (simp add: serving_def)
qed

lemma serving_kern:
  fixes s :: "('k, 'z) sheap_scheme"
  assumes "serving W r z s" "untouched (site_interest W) (site_opened W) (kern s) k"
  shows "serving W r z (s\<lparr>kern := k\<rparr>)"
  by (rule serving_frame[OF assms(1)]) (use assms(2) in \<open>auto simp: untouched_def\<close>)

lemma fresh_below: "fresh_above s \<Longrightarrow> ios s p \<noteq> None \<or> connections s p \<noteq> None \<or> buffers s p \<noteq> None \<Longrightarrow> p \<le> brk s"
  unfolding fresh_above_def by (meson not_less)

lemma conn_served_live:
  assumes "conn_served W r z s conn c"
  shows "connections s conn \<noteq> None" "ios s (c_read_io c) \<noteq> None" "ios s (c_write_io c) \<noteq> None"
    "buffers s (c_read_buffer c) \<noteq> None" "buffers s (c_write_buffer c) \<noteq> None"
  using assms conn_served_ios[OF assms] by (auto simp: conn_served_def conn_ok_def)

text \<open>One connection changes, the others and the table stay.\<close>

lemma serving_conn:
  fixes s t :: "('k, 'z) sheap_scheme"
  assumes s: "serving W r z s" and c: "connections s conn = Some c"
    and f: "loops t = loops s" "pollers t = pollers s" "cqueues t = cqueues s" "queues t = queues s" "asyncs t = asyncs s"
      "listeners t = listeners s" "io_threads t = io_threads s" "conn_arrays t = conn_arrays s" "services t = services s" "brk t = brk s"
    and l: "loop_ok t (it_loop (site_io W))" and k: "site_opened W (kern t) = site_opened W (kern s)" "in_range W t"
    and own: "connections t = (connections s)(conn \<mapsto> c')" "c_fd c' = c_fd c" "c_read_io c' = c_read_io c" "c_write_io c' = c_write_io c"
      "c_read_buffer c' = c_read_buffer c" "c_write_buffer c' = c_write_buffer c" "conn_served W r' z' t conn c'"
    and ios: "\<And>p. p \<notin> {c_read_io c, c_write_io c} \<Longrightarrow> ios t p = ios s p" "\<And>p. p \<notin> {c_read_buffer c, c_write_buffer c} \<Longrightarrow> buffers t p = buffers s p"
    and r: "\<And>a. a \<noteq> conn \<Longrightarrow> r' a = r a" "\<And>a. a \<noteq> conn \<Longrightarrow> z' a = z a"
  shows "serving W r' z' t"
proof -
  note d = servingD[OF s] and sc = servingD(8)[OF s c]
  have other: "conn_served W r' z' t a x" if x: "connections s a = Some x" "a \<noteq> conn" for a x
  proof -
    note sx = d(8)[OF x(1)]
    have "{c_read_io x, c_write_io x} \<inter> {c_read_io c, c_write_io c} = {}" by (rule conn_ios_apart[OF sx sc x(2)])
    moreover have "{c_read_buffer x, c_write_buffer x} \<inter> {c_read_buffer c, c_write_buffer c} = {}"
      using d(6) x c unfolding buffers_apart_def by blast
    moreover have "c_fd x \<in> site_opened W (kern t)" using sx k(1) by (simp add: conn_served_def)
    ultimately show ?thesis
      using x f l own(1) ios r by (intro conn_served_other[OF sx]) auto
  qed
  have g: "\<And>a x. connections t a = Some x \<Longrightarrow> conn_served W r' z' t a x"
    using other own(1,7) by (auto split: if_splits)
  have "grounds W t" by (rule grounds_cong[OF d(2)]) (simp_all add: f)
  moreover have "tabled W t"
    using d(3) conn_at_cong[OF f(9,8)] c own(2) by (auto simp: tabled_def table_repr_def f own(1))
  moreover have "fresh_above t"
  proof -
    have "conn \<le> brk s" "c_read_io c \<le> brk s" "c_write_io c \<le> brk s" "c_read_buffer c \<le> brk s" "c_write_buffer c \<le> brk s"
      by (rule fresh_below[OF d(5)]; use conn_served_live[OF sc] in simp)+
    then have "\<forall>p > brk s. p \<notin> {c_read_io c, c_write_io c} \<and> p \<notin> {c_read_buffer c, c_write_buffer c} \<and> p \<noteq> conn" by auto
    then show ?thesis using d(5) ios f(10) own(1) unfolding fresh_above_def by simp
  qed
  moreover have "buffers_apart t"
  proof -
    have old: "\<exists>x'. connections s a = Some x' \<and> c_read_buffer x' = c_read_buffer x \<and> c_write_buffer x' = c_write_buffer x"
      if "connections t a = Some x" for a x using that c own(1,5,6) by (auto split: if_splits)
    show ?thesis
      unfolding buffers_apart_def
    proof (intro allI impI)
      fix a b x y assume t: "connections t a = Some x" "connections t b = Some y" "a \<noteq> b"
      obtain x' y' where o: "connections s a = Some x'" "c_read_buffer x' = c_read_buffer x" "c_write_buffer x' = c_write_buffer x"
        "connections s b = Some y'" "c_read_buffer y' = c_read_buffer y" "c_write_buffer y' = c_write_buffer y"
        using old[OF t(1)] old[OF t(2)] by blast
      have "{c_read_buffer x', c_write_buffer x'} \<inter> {c_read_buffer y', c_write_buffer y'} = {}"
        using d(6) o(1,4) t(3) unfolding buffers_apart_def by blast
      then show "{c_read_buffer x, c_write_buffer x} \<inter> {c_read_buffer y, c_write_buffer y} = {}" by (simp add: o(2,3,5,6))
    qed
  qed
  moreover have "started_known W t"
    unfolding started_known_def
  proof (intro allI impI)
    fix p io assume p: "ios t p = Some io" "io_start io"
    show "p \<noteq> NULL \<and> (fixed_io W t io \<or> (\<exists>c. connections t (io_userdata io) = Some c \<and> p \<in> {c_read_io c, c_write_io c}))"
    proof (cases "p \<in> {c_read_io c, c_write_io c}")
      case True
      moreover have "io_userdata io = conn" "p \<noteq> NULL"
        using own(3,4,7) True p(1) by (auto simp: conn_served_def conn_ok_def conn_watcher_def)
      ultimately show ?thesis using own by auto
    next
      case False
      then have "ios s p = Some io" using ios(1) p(1) by simp
      then have "p \<noteq> NULL \<and> (fixed_io W s io \<or> (\<exists>c. connections s (io_userdata io) = Some c \<and> p \<in> {c_read_io c, c_write_io c}))"
        using d(7) p(2) unfolding started_known_def by blast
      moreover have "fixed_io W t io = fixed_io W s io" by (rule fixed_io_cong) (simp_all add: f)
      ultimately show ?thesis using False c own(1) by auto
    qed
  qed
  ultimately show ?thesis using l k(2) g by (simp add: serving_def)
qed

text \<open>Starting or stopping a watcher, with what it asks of the kernel.\<close>

definition io_moved :: "('k, 'y) sys_ops_scheme \<Rightarrow> addr \<Rightarrow> bool \<Rightarrow> ('k, 'z) sheap_scheme \<Rightarrow> ('k, 'z) sheap_scheme \<Rightarrow> bool" where
  "io_moved K p b s t \<longleftrightarrow> w_frame s t \<and> (\<exists>io. ios s p = Some io \<and> ios t = (ios s)(p \<mapsto> io\<lparr>io_start := b\<rparr>) \<and>
     (kern t = kern s \<or> (\<exists>ep op ev. kern t = snd (epoll_ctl K ep op (io_fd io) ev (kern s)))))"

lemma io_start_moves:
  fixes s :: "('k, 'z) sheap_scheme"
  assumes ok: "loop_ok s L" and p: "watcher_fits s L p"
  shows "\<exists>r t. xv_io_start K s L p = Some (r, t) \<and> loop_ok t L \<and> io_moved K p True s t"
proof -
  obtain l d arr where r: "loop_repr s L l d arr" using ok by (auto simp: loop_ok_def)
  obtain io where io: "ios s p = Some io" "p \<noteq> NULL" "0 \<le> io_fd io" "io_fd io < l_setsize l" "io_event io \<in> {XV_READ, XV_WRITE}"
    using p by (auto simp: watcher_fits_def loop_size_repr[OF r])
  obtain ret t where t: "xv_io_start K s L p = Some (ret, t)" "w_post K (\<lambda>_ _ _. None) L s (WStart p) ret t" using start_law[OF ok p] by blast
  show ?thesis
  proof (cases "io_start io")
    case True
    then have "t = s" using t(1) io by (simp add: xv_io_start_def)
    moreover have "io\<lparr>io_start := True\<rparr> = io" using True by (cases io) simp
    ultimately show ?thesis using t io by (auto simp: w_post_def io_moved_def fun_upd_idem)
  next
    case False
    define slot where "slot = arr ! nat (io_fd io)"
    obtain rc k where ctl: "epoll_ctl K (p_epfd d) (if e_event slot = XV_NONE then EPOLL_CTL_ADD else EPOLL_CTL_MOD) (io_fd io)
      \<lparr>ev_events = epoll_mask (io_event io OR e_event slot), ev_fd = io_fd io\<rparr> (kern s) = (rc, k)" by fastforce
    have "kern t = k" using start_eq[OF r io(1,2) False io(3,4) _ slot_def ctl] io(5) t(1) by auto
    then have "\<exists>ep op ev. kern t = snd (epoll_ctl K ep op (io_fd io) ev (kern s))" using ctl by (metis snd_conv)
    then show ?thesis using t io False by (auto simp: w_post_def w_view_of_def io_moved_def Let_def)
  qed
qed

lemma io_stop_moves:
  fixes s :: "('k, 'z) sheap_scheme"
  assumes ok: "loop_ok s L" and p: "watcher_fits s L p"
  shows "\<exists>r t. xv_io_stop K s L p = Some (r, t) \<and> loop_ok t L \<and> io_moved K p False s t"
proof -
  obtain l d arr where r: "loop_repr s L l d arr" using ok by (auto simp: loop_ok_def)
  obtain io where io: "ios s p = Some io" "p \<noteq> NULL" "0 \<le> io_fd io" "io_fd io < l_setsize l" "io_event io \<in> {XV_READ, XV_WRITE}"
    using p by (auto simp: watcher_fits_def loop_size_repr[OF r])
  obtain ret t where t: "xv_io_stop K s L p = Some (ret, t)" "w_post K (\<lambda>_ _ _. None) L s (WStop p) ret t" using stop_law[OF ok p] by blast
  show ?thesis
  proof (cases "io_start io")
    case False
    then have "t = s" using t(1) io by (simp add: xv_io_stop_def)
    then show ?thesis using t io False by (auto simp: w_post_def io_moved_def fun_upd_idem)
  next
    case True
    define slot where "slot = arr ! nat (io_fd io)"
    define rest where "rest = e_event slot AND NOT (io_event io)"
    obtain rc k where ctl: "epoll_ctl K (p_epfd d) (if rest = XV_NONE then EPOLL_CTL_DEL else EPOLL_CTL_MOD) (io_fd io)
      \<lparr>ev_events = epoll_mask (if rest = XV_NONE then io_event io else rest), ev_fd = io_fd io\<rparr> (kern s) = (rc, k)" by fastforce
    have "kern t = k" using stop_eq[OF r io(1,2) True io(3,4) _ slot_def rest_def ctl] io(5) t(1) by auto
    then have "\<exists>ep op ev. kern t = snd (epoll_ctl K ep op (io_fd io) ev (kern s))" using ctl by (metis snd_conv)
    then show ?thesis using t io True by (auto simp: w_post_def w_view_of_def io_moved_def Let_def)
  qed
qed

text \<open>The system calls, by what the invariant sees of them.\<close>

definition calm :: "('k, 's) site \<Rightarrow> 'k \<Rightarrow> 'k \<Rightarrow> bool" where
  "calm W k k' \<longleftrightarrow> site_opened W k' = site_opened W k \<and>
     (\<forall>ep fd. site_interest W k' ep fd \<noteq> None \<longrightarrow> site_interest W k ep fd \<noteq> None \<or> 0 \<le> fd \<and> fd < site_size W)"

definition site_doc :: "('k, 'y) sys_ops_scheme \<Rightarrow> ('k \<Rightarrow> nat) \<Rightarrow> ('k, 's) site \<Rightarrow> bool" where
  "site_doc K pending W \<longleftrightarrow> serve_doc K (site_interest W) (site_opened W) pending (site_size W)"

lemma calm_refl [simp]: "calm W k k"
  by (simp add: calm_def)

lemma calm_trans [trans]: "calm W k k' \<Longrightarrow> calm W k' k'' \<Longrightarrow> calm W k k''"
  unfolding calm_def by metis

lemma untouched_calm: "untouched (site_interest W) (site_opened W) k k' \<Longrightarrow> calm W k k'"
  by (simp add: untouched_def calm_def)

lemma serve_docD:
  assumes "serve_doc K interest opened pending n"
  shows "epoll_ctl_doc K interest" "epoll_wait_doc K interest" "\<forall>ep op fd ev k. opened (snd (epoll_ctl K ep op fd ev k)) = opened k"
    "\<forall>ep m ms k. opened (snd (epoll_wait K ep m ms k)) = opened k" "\<forall>fd m k. untouched interest opened k (snd (sys_read K fd m k))"
    "\<forall>fd bs k. untouched interest opened k (snd (sys_write K fd bs k))" "\<forall>fd opt k. untouched interest opened k (snd (sys_setsockopt K fd opt k))"
    "\<forall>fd k. untouched interest opened k (snd (sys_getfl K fd k))" "\<forall>fd fl k. untouched interest opened k (snd (sys_setfl K fd fl k))"
    "\<forall>fd k. untouched interest opened k (snd (eventfd_read K fd k))"
    "\<forall>fd k. opened (snd (sys_close K fd k)) = opened k - {fd} \<and>
        (\<forall>ep fd'. interest (snd (sys_close K fd k)) ep fd' \<noteq> None \<longrightarrow> interest k ep fd' \<noteq> None)"
    "\<forall>fd k. case sys_accept K fd k of
          (Inl e, k') \<Rightarrow> untouched interest opened k k' \<and> (e = EINTR \<longrightarrow> pending k' < pending k)
        | (Inr (cfd, sa), k') \<Rightarrow> 0 \<le> cfd \<and> cfd < n \<and> cfd \<notin> opened k \<and> opened k' = insert cfd (opened k) \<and>
            (\<forall>ep fd'. interest k' ep fd' \<noteq> None \<longrightarrow> interest k ep fd' \<noteq> None)"
    "\<forall>fd m k bs. 0 < m \<longrightarrow> fst (sys_read K fd m k) = Inr bs \<longrightarrow> int (length bs) \<le> m"
    "\<forall>fd bs k n. fst (sys_write K fd bs k) = Inr n \<longrightarrow> 0 \<le> n \<and> n \<le> int (length bs)" "strerror_fills K"
  using assms unfolding serve_doc_def by - ((elim conjE, assumption)+)

lemma calm_calls:
  assumes "site_doc K pending W"
  shows "calm W k (snd (sys_read K fd m k))" "calm W k (snd (sys_write K fd bs k))" "calm W k (snd (sys_setsockopt K fd opt k))"
    "calm W k (snd (sys_getfl K fd k))" "calm W k (snd (sys_setfl K fd fl k))" "calm W k (snd (eventfd_read K fd k))"
    "0 \<le> fd \<Longrightarrow> fd < site_size W \<Longrightarrow> calm W k (snd (epoll_ctl K ep op fd ev k))" "calm W k (snd (epoll_wait K ep m ms k))"
proof -
  note d = serve_docD[OF assms[unfolded site_doc_def]]
  show "calm W k (snd (sys_read K fd m k))" "calm W k (snd (sys_write K fd bs k))" "calm W k (snd (sys_setsockopt K fd opt k))"
    "calm W k (snd (sys_getfl K fd k))" "calm W k (snd (sys_setfl K fd fl k))" "calm W k (snd (eventfd_read K fd k))"
    by (rule untouched_calm, rule d[rule_format])+
  note o = d(3)[rule_format, of ep op fd ev k] d(4)[rule_format, of ep m ms k]
  obtain r k' where ctl: "epoll_ctl K ep op fd ev k = (r, k')" by fastforce
  have "if r = 0 then ctl_effect (site_interest W) k ep op fd (ev_events ev) k' else site_interest W k' = site_interest W k"
    by (rule d(1)[unfolded epoll_ctl_doc_def, rule_format, OF ctl])
  then have "site_interest W k ep' fd' \<noteq> None \<or> fd' = fd" if "site_interest W k' ep' fd' \<noteq> None" for ep' fd'
    using that by (auto simp: ctl_effect_def split: if_splits)
  then show "calm W k (snd (epoll_ctl K ep op fd ev k))" if "0 \<le> fd" "fd < site_size W" using o ctl that by (auto simp: calm_def)
  obtain res k2 where w: "epoll_wait K ep m ms k = (res, k2)" by fastforce
  then have "site_interest W k2 = site_interest W k" by (rule d(2)[unfolded epoll_wait_doc_def, rule_format, THEN conjunct1])
  then show "calm W k (snd (epoll_wait K ep m ms k))" using o w by (simp add: calm_def)
qed

end
