(* ===== verification/Xv_Serving.thy ===== *)
theory Xv_Serving
  imports Xv_Serve
begin

section \<open>The handlers of a serving service\<close>

text \<open>
  The handlers of \<^verbatim>\<open>src/src/xv_service.c\<close> for an accepted connection return and keep \<open>serving\<close>: first the steps they share
  (a buffer replaced, a watcher started or stopped, a reference counted, a connection closed and released), then one lemma each for
  \<^verbatim>\<open>on_connection_write\<close>, \<^verbatim>\<open>process_message\<close>, \<^verbatim>\<open>process_read_buffer\<close> and \<^verbatim>\<open>on_connection_read\<close>.
\<close>

subsection \<open>The steps the handlers share\<close>

text \<open>A buffer of a connection replaced by a full one.\<close>

lemma serving_buffer:
  fixes s :: "('k, 'z) sheap_scheme"
  assumes s: "serving W r z s" and c: "connections s conn = Some c"
    and p: "p = c_read_buffer c \<and> read_size b \<le> m \<or> p = c_write_buffer c \<and> z conn \<le> m" and b: "full_buffer b"
  shows "serving W r (z(conn := m)) (s\<lparr>buffers := (buffers s)(p \<mapsto> b)\<rparr>)"
proof -
  note d = servingD[OF s]
  note sc = d(8)[OF c]
  obtain rio wio rb wb where k: "conn_ok s conn c (site_io W)" "buffers s (c_read_buffer c) = Some rb" "full_buffer rb"
    "c_status c = XV_CONN_OPEN \<Longrightarrow> read_size rb \<le> z conn" "buffers s (c_write_buffer c) = Some wb" "full_buffer wb"
    by (rule conn_servedD[OF sc]) blast
  define t where "t = s\<lparr>buffers := (buffers s)(p \<mapsto> b)\<rparr>"
  have l: "loop_ok t (it_loop (site_io W))" by (rule loop_ok_cong[OF d(1)]) (simp_all add: t_def)
  have ne: "c_read_buffer c \<noteq> c_write_buffer c" using k(1) by (simp add: conn_ok_def)
  have ok: "conn_ok t conn c (site_io W)"
    using k(1) l p by (auto simp: conn_ok_def conn_watcher_def loop_size_def t_def)
  have "conn_served W r (z(conn := m)) t conn c"
    using sc ok p b k ne by (auto simp: conn_served_def t_def)
  then have "serving W r (z(conn := m)) t"
    by (intro serving_conn[OF s c, where c' = c]) (use l c p d(4) in \<open>auto simp: t_def in_range_def\<close>)
  then show ?thesis by (simp add: t_def)
qed

text \<open>A watcher of an open connection started, or one of any connection stopped.\<close>

lemma serving_io:
  fixes s t :: "('k, 'z) sheap_scheme"
  assumes doc: "site_doc K pending W" and s: "serving W r z s" and c: "connections s conn = Some c"
    and p: "p \<in> {c_read_io c, c_write_io c}" and m: "io_moved K p on s t" "on \<longrightarrow> c_status c = XV_CONN_OPEN"
    and l: "loop_ok t (it_loop (site_io W))"
  shows "serving W r z t" "still_loop s t"
proof -
  note d = servingD[OF s]
  note sc = d(8)[OF c]
  obtain rio wio where k: "conn_ok s conn c (site_io W)" "ios s (c_read_io c) = Some rio" "io_fd rio = c_fd c"
    "ios s (c_write_io c) = Some wio" "io_fd wio = c_fd c" "0 \<le> c_fd c" "c_fd c < loop_size s (it_loop (site_io W))"
    "io_cb rio = Some On_connection_read" "io_cb wio = Some On_connection_write"
    by (rule conn_servedD[OF sc]) blast
  obtain io where io: "ios s p = Some io" "ios t = (ios s)(p \<mapsto> io\<lparr>io_start := on\<rparr>)"
    "kern t = kern s \<or> (\<exists>ep op ev. kern t = snd (epoll_ctl K ep op (io_fd io) ev (kern s)))" and f: "w_frame s t"
    using m(1) by (auto simp: io_moved_def)
  note g = more_sheap_l[OF w_frame_fields(4)[OF f]]
  have w: "loops t = loops s" "pollers t = pollers s" "cqueues t = cqueues s" "queues t = queues s" "brk t = brk s"
    "fired_arrays t = fired_arrays s"
    using f by (simp_all add: w_frame_def)
  have fd: "io_fd io = c_fd c" using p io(1) k by auto
  have size: "loop_size s (it_loop (site_io W)) = site_size W" using d(2) by (simp add: grounds_def)
  have calm: "calm W (kern s) (kern t)"
    using io(3) calm_calls(7)[OF doc, of "c_fd c"] k(6,7) fd size by auto
  have r: "in_range W t"
    using d(4) calm unfolding in_range_def calm_def w(1,2) by blast
  have ok: "conn_ok t conn c (site_io W)"
    using k(1) l g w io(1,2) p by (auto simp: conn_ok_def conn_watcher_def loop_size_def)
  have "conn_served W r z t conn c"
    using sc ok g io(1,2) calm m(2) p k by (auto simp: conn_served_def calm_def)
  then show "serving W r z t"
    by (intro serving_conn[OF s c, where c' = c]) (use l r w g c calm io p in \<open>auto simp: calm_def\<close>)
  show "still_loop s t" using w by (simp add: still_loop_def)
qed

text \<open>The reference count of a connection.\<close>

lemma serving_ref:
  fixes s :: "('k, 'z) sheap_scheme"
  assumes s: "serving W r z s" and c: "connections s conn = Some c" and m: "c_status c = XV_CONN_OPEN \<longrightarrow> xv_atomic_get a = m"
  shows "serving W (r(conn := m)) z (s\<lparr>connections := (connections s)(conn \<mapsto> c\<lparr>c_ref_count := a\<rparr>)\<rparr>)"
proof -
  note d = servingD[OF s]
  note sc = d(8)[OF c]
  define t where "t = s\<lparr>connections := (connections s)(conn \<mapsto> c\<lparr>c_ref_count := a\<rparr>)\<rparr>"
  have l: "loop_ok t (it_loop (site_io W))" by (rule loop_ok_cong[OF d(1)]) (simp_all add: t_def)
  have "conn_ok t conn (c\<lparr>c_ref_count := a\<rparr>) (site_io W)"
    using sc l by (auto simp: conn_served_def conn_ok_def conn_watcher_def loop_size_def t_def)
  then have "conn_served W (r(conn := m)) z t conn (c\<lparr>c_ref_count := a\<rparr>)"
    using sc m by (auto simp: conn_served_def t_def)
  then have "serving W (r(conn := m)) z t"
    by (intro serving_conn[OF s c, where c' = "c\<lparr>c_ref_count := a\<rparr>"]) (use l d(4) in \<open>auto simp: t_def in_range_def\<close>)
  then show ?thesis by (simp add: t_def)
qed

subsection \<open>Connections that come and go\<close>

text \<open>One cell of the table is written.\<close>

lemma tabled_cell:
  fixes s t :: "('k, 'z) sheap_scheme"
  assumes tb: "table_repr s (it_service (site_io W)) sv arr" "site_size W \<le> sv_conn_setsize sv" "io_thread_count (sv_config sv) = 1" "sv_worker_threads sv = NULL"
    and fd: "0 \<le> fd" "fd < site_size W"
    and t: "services t = (services s)(it_service (site_io W) \<mapsto> sv\<lparr>sv_conn_count := a\<rparr>)"
      "conn_arrays t = (conn_arrays s)(sv_connections sv \<mapsto> arr[nat fd := Some p])"
    and c: "\<And>fd' q. q \<noteq> NULL \<Longrightarrow> ((conn_at s (it_service (site_io W)))(fd := p)) fd' = q \<longleftrightarrow> (\<exists>x. connections t q = Some x \<and> c_fd x = fd')"
  shows "tabled W t"
proof -
  let ?sv = "it_service (site_io W)"
  define v where "v = s\<lparr>conn_arrays := (conn_arrays s)(sv_connections sv \<mapsto> arr[nat fd := Some p]),
    services := (services s)(?sv \<mapsto> sv\<lparr>sv_conn_count := a\<rparr>)\<rparr>"
  have "fd < sv_conn_setsize sv" using fd(2) tb(2) by simp
  note tu = table_upd[OF tb(1) fd(1) this refl v_def]
  have e: "services t = services v" "conn_arrays t = conn_arrays v" by (simp_all add: t v_def)
  have "table_repr t ?sv (sv\<lparr>sv_conn_count := a\<rparr>) (arr[nat fd := Some p])" using tu(1) by (simp add: table_repr_def e)
  moreover have "conn_at t ?sv = (conn_at s ?sv)(fd := p)" using tu(2) conn_at_cong[OF e] by simp
  ultimately show ?thesis using tb(2-4) c unfolding tabled_def by auto
qed

text \<open>No watcher is started, and a connection that is dropped has stopped its own.\<close>

lemma started_known_keep:
  fixes s t :: "('k, 'z) sheap_scheme"
  assumes s: "started_known W s" and f: "listeners t = listeners s" "asyncs t = asyncs s"
    and p: "\<And>p io. ios t p = Some io \<Longrightarrow> io_start io \<Longrightarrow> ios s p = Some io"
      "\<And>p io c. ios t p = Some io \<Longrightarrow> connections s (io_userdata io) = Some c \<Longrightarrow> p \<in> {c_read_io c, c_write_io c} \<Longrightarrow>
         connections t (io_userdata io) = Some c"
  shows "started_known W t"
  unfolding started_known_def
proof (intro allI impI)
  fix q io assume q: "ios t q = Some io" "io_start io"
  have "q \<noteq> NULL \<and> (fixed_io W s io \<or> (\<exists>c. connections s (io_userdata io) = Some c \<and> q \<in> {c_read_io c, c_write_io c}))"
    using s p(1)[OF q] q(2) unfolding started_known_def by blast
  moreover have "fixed_io W t io = fixed_io W s io" by (rule fixed_io_cong[OF f])
  ultimately show "q \<noteq> NULL \<and> (fixed_io W t io \<or> (\<exists>c. connections t (io_userdata io) = Some c \<and> q \<in> {c_read_io c, c_write_io c}))"
    using p(2)[OF q(1)] by blast
qed

subsection \<open>Closing a connection\<close>

lemma connection_stop_calm:
  fixes s :: "('k, 'z) sheap_scheme"
  assumes doc: "site_doc K pending W" and ok: "conn_ok s conn c th" and size: "loop_size s (it_loop th) = site_size W"
    and io: "ios s (c_read_io c) = Some r" "ios s (c_write_io c) = Some w"
  shows "\<exists>t. xv_connection_stop K s (it_loop th) conn = Some t \<and> loop_ok t (it_loop th) \<and> w_frame s t \<and> calm W (kern s) (kern t) \<and>
     ios t = (ios s)(c_read_io c \<mapsto> r\<lparr>io_start := False\<rparr>, c_write_io c \<mapsto> w\<lparr>io_start := False\<rparr>)"
proof -
  have c: "conn \<noteq> NULL" "connections s conn = Some c" using ok by (simp_all add: conn_ok_def)
  have fd: "io_fd r = c_fd c" "io_fd w = c_fd c" "0 \<le> c_fd c" "c_fd c < site_size W" and ne: "c_read_io c \<noteq> c_write_io c"
    using ok io size by (auto simp: conn_ok_def conn_watcher_def)
  have calm: "calm W k k'" if "k' = k \<or> (\<exists>ep op ev. k' = snd (epoll_ctl K ep op (c_fd c) ev k))" for k k'
    using that calm_calls(7)[OF doc fd(3,4)] by auto
  note fits = conn_ok_fits[OF ok]
  obtain r1 s1 where s1: "xv_io_stop K s (it_loop th) (c_read_io c) = Some (r1, s1)" "loop_ok s1 (it_loop th)" "io_moved K (c_read_io c) False s s1"
    using io_stop_moves[OF fits(1,2)] by blast
  have f1: "w_frame s s1" "ios s1 = (ios s)(c_read_io c \<mapsto> r\<lparr>io_start := False\<rparr>)" "calm W (kern s) (kern s1)"
    using s1(3) io(1) fd(1) calm by (auto simp: io_moved_def)
  note g1 = more_sheap_l[OF w_frame_fields(4)[OF f1(1)]]
  have w1: "ios s1 (c_write_io c) = Some w" using f1(2) io(2) ne by simp
  have "watcher_fits s1 (it_loop th) (c_write_io c)"
    using fits(3) io(2) w1 w_frame_fields(3)[OF f1(1)] by (simp add: watcher_fits_def)
  then obtain r2 s2 where s2: "xv_io_stop K s1 (it_loop th) (c_write_io c) = Some (r2, s2)" "loop_ok s2 (it_loop th)"
    "io_moved K (c_write_io c) False s1 s2"
    using io_stop_moves[OF s1(2)] by blast
  have f2: "w_frame s1 s2" "ios s2 = (ios s1)(c_write_io c \<mapsto> w\<lparr>io_start := False\<rparr>)" "calm W (kern s1) (kern s2)"
    using s2(3) w1 fd(2) calm by (auto simp: io_moved_def)
  have "xv_connection_stop K s (it_loop th) conn = Some s2" using c g1 s1(1) s2(1) by (simp add: xv_connection_stop_def)
  then show ?thesis
    using s2(2) f1 f2 calm_trans[OF f1(3) f2(3)] by (intro exI[of _ s2]) (simp add: w_frame_def)
qed

text \<open>The connection is marked as closed and both its watchers are stopped.\<close>

definition shut_conn :: "xv_connection_t \<Rightarrow> xv_connection_t" where
  "shut_conn c = c\<lparr>c_status := XV_CONN_CLOSED\<rparr>"

lemma shut_conn_simps [simp]:
  "c_fd (shut_conn c) = c_fd c" "c_read_io (shut_conn c) = c_read_io c" "c_write_io (shut_conn c) = c_write_io c"
  "c_read_buffer (shut_conn c) = c_read_buffer c" "c_write_buffer (shut_conn c) = c_write_buffer c" "c_io_thread (shut_conn c) = c_io_thread c"
  "c_handle (shut_conn c) = c_handle c" "c_ref_count (shut_conn c) = c_ref_count c" "c_status (shut_conn c) = XV_CONN_CLOSED"
  by (simp_all add: shut_conn_def)

lemma serving_shut:
  fixes s :: "('k, 'z) sheap_scheme"
  assumes doc: "site_doc K pending W" and s: "serving W r z s" and c: "connections s conn = Some c"
  shows "\<exists>t. xv_connection_stop K (s\<lparr>connections := (connections s)(conn \<mapsto> shut_conn c)\<rparr>) (it_loop (site_io W)) conn = Some t \<and>
     serving W r z t \<and> still_loop s t \<and> connections t = (connections s)(conn \<mapsto> shut_conn c) \<and>
     brk t = brk s \<and> messages t = messages s \<and> listeners t = listeners s"
proof -
  note d = servingD[OF s]
  note sc = d(8)[OF c]
  obtain rio wio where k: "conn_ok s conn c (site_io W)" "ios s (c_read_io c) = Some rio" "ios s (c_write_io c) = Some wio" "c_read_io c \<noteq> c_write_io c"
    "io_cb rio = Some On_connection_read" "io_cb wio = Some On_connection_write"
    by (rule conn_servedD[OF sc]) blast
  define v where "v = s\<lparr>connections := (connections s)(conn \<mapsto> shut_conn c)\<rparr>"
  have lv: "loop_ok v (it_loop (site_io W))" by (rule loop_ok_cong[OF d(1)]) (simp_all add: v_def)
  have okv: "conn_ok v conn (shut_conn c) (site_io W)"
    using k(1) lv by (auto simp: conn_ok_def conn_watcher_def loop_size_def v_def)
  have size: "loop_size v (it_loop (site_io W)) = site_size W" using d(2) by (simp add: grounds_def loop_size_def v_def)
  obtain t where t: "xv_connection_stop K v (it_loop (site_io W)) conn = Some t" "loop_ok t (it_loop (site_io W))" "w_frame v t" "calm W (kern s) (kern t)"
    "ios t = (ios s)(c_read_io c \<mapsto> rio\<lparr>io_start := False\<rparr>, c_write_io c \<mapsto> wio\<lparr>io_start := False\<rparr>)"
    using connection_stop_calm[OF doc okv size, of rio wio] k(2,3) by (auto simp: v_def)
  note g = more_sheap_l[OF w_frame_fields(4)[OF t(3)]]
  have w: "loops t = loops s" "pollers t = pollers s" "cqueues t = cqueues s" "queues t = queues s" "brk t = brk s" "fired_arrays t = fired_arrays s"
    using t(3) by (simp_all add: w_frame_def v_def)
  have e: "connections t = (connections s)(conn \<mapsto> shut_conn c)" "asyncs t = asyncs s" "listeners t = listeners s" "io_threads t = io_threads s"
    "conn_arrays t = conn_arrays s" "services t = services s" "buffers t = buffers s" "messages t = messages s"
    using g by (simp_all add: v_def)
  have ok: "conn_ok t conn (shut_conn c) (site_io W)"
    using k t(2,5) e w by (auto simp: conn_ok_def conn_watcher_def loop_size_def)
  have "conn_served W r z t conn (shut_conn c)"
    using sc ok e t(4,5) k by (auto simp: conn_served_def calm_def)
  moreover have "in_range W t" using d(4) t(4) unfolding in_range_def calm_def w(1,2) by blast
  ultimately have "serving W r z t"
    by (intro serving_conn[OF s c, where c' = "shut_conn c"]) (use t(2,4,5) w e in \<open>auto simp: calm_def\<close>)
  then show ?thesis using t(1) w e by (intro exI[of _ t]) (simp add: still_loop_def v_def)
qed

text \<open>A closed connection leaves the table, its descriptor is closed and it is released.\<close>

lemma serving_released:
  fixes s :: "('k, 'z) sheap_scheme"
  assumes doc: "site_doc K pending W" and s: "serving W r z s" and c: "connections s conn = Some c" "c_status c = XV_CONN_CLOSED"
  shows "\<exists>t. do { (_, v) \<leftarrow> xv_service_del_connection s (it_service (site_io W)) conn;
        xv_connection_destroy (v\<lparr>kern := snd (xv_close K (c_fd c) (kern v))\<rparr>) conn } = Some t \<and>
     serving W r z t \<and> still_loop s t \<and> connections t = (connections s)(conn := None)"
proof -
  note d = servingD[OF s]
  note sc = d(8)[OF c(1)]
  let ?L = "it_loop (site_io W)" and ?sv = "it_service (site_io W)"
  obtain rio wio where k: "conn_ok s conn c (site_io W)" "ios s (c_read_io c) = Some rio" "ios s (c_write_io c) = Some wio" "c_read_io c \<noteq> c_write_io c"
    "\<not> io_start rio" "\<not> io_start wio" "0 \<le> c_fd c" "c_fd c < loop_size s ?L" "c_fd c \<in> site_opened W (kern s)"
    "io_userdata rio = conn" "io_userdata wio = conn"
    by (rule conn_servedD[OF sc]) (use c(2) in auto)
  have q: "conn \<noteq> NULL" "c_read_io c \<noteq> NULL" "c_write_io c \<noteq> NULL" "c_read_buffer c \<noteq> NULL" "c_write_buffer c \<noteq> NULL"
    "c_read_buffer c \<noteq> c_write_buffer c" "buffers s (c_read_buffer c) \<noteq> None" "buffers s (c_write_buffer c) \<noteq> None"
    using k(1) by (simp_all add: conn_ok_def conn_watcher_def)
  obtain sv arr where tb: "table_repr s ?sv sv arr" "site_size W \<le> sv_conn_setsize sv" "io_thread_count (sv_config sv) = 1" "sv_worker_threads sv = NULL"
    and ta: "\<And>fd p. p \<noteq> NULL \<Longrightarrow> conn_at s ?sv fd = p \<longleftrightarrow> (\<exists>c. connections s p = Some c \<and> c_fd c = fd)"
    using d(3) unfolding tabled_def by blast
  have size: "loop_size s ?L = site_size W" using d(2) by (simp add: grounds_def)
  have fd: "c_fd c < sv_conn_setsize sv" using k(8) size tb(2) by simp
  define v where "v = s\<lparr>conn_arrays := (conn_arrays s)(sv_connections sv \<mapsto> arr[nat (c_fd c) := Some NULL]),
    services := (services s)(?sv \<mapsto> sv\<lparr>sv_conn_count := snd (xv_atomic_decr (sv_conn_count sv))\<rparr>)\<rparr>"
  have del: "xv_service_del_connection s ?sv conn = Some (XV_OK, v)"
    unfolding v_def by (rule del_connection_law[OF tb(1) q(1) c(1) k(7) fd])
  define t where "t = v\<lparr>kern := snd (sys_close K (c_fd c) (kern s)), ios := (ios s)(c_read_io c := None, c_write_io c := None),
    buffers := (buffers s)(c_read_buffer c := None, c_write_buffer c := None), connections := (connections s)(conn := None)\<rparr>"
  have "xv_connection_destroy (v\<lparr>kern := snd (xv_close K (c_fd c) (kern v))\<rparr>) conn = Some t"
    using connection_destroy_law[of conn "v\<lparr>kern := snd (xv_close K (c_fd c) (kern v))\<rparr>" c rio wio] q k c(1)
    by (simp add: v_def t_def xv_close_def)
  then have run: "do { (_, v) \<leftarrow> xv_service_del_connection s ?sv conn;
      xv_connection_destroy (v\<lparr>kern := snd (xv_close K (c_fd c) (kern v))\<rparr>) conn } = Some t" using del by simp
  have l: "loop_ok t ?L" by (rule loop_ok_cong[OF d(1)]) (use k in \<open>auto simp: t_def v_def\<close>)
  note cl = serve_docD(11)[OF doc[unfolded site_doc_def], rule_format, of "c_fd c" "kern s"]
  have f: "loops t = loops s" "io_threads t = io_threads s" "listeners t = listeners s" "cqueues t = cqueues s" "queues t = queues s"
    "asyncs t = asyncs s" "pollers t = pollers s" "fired_arrays t = fired_arrays s"
    by (simp_all add: t_def v_def)
  have other: "conn_served W r z t a x" if x: "connections t a = Some x" for a x
  proof -
    have a: "a \<noteq> conn" "connections s a = Some x" using x by (auto simp: t_def split: if_splits)
    note sx = d(8)[OF a(2)]
    have "a \<noteq> NULL" using sx by (simp add: conn_served_def conn_ok_def)
    have i: "{c_read_io x, c_write_io x} \<inter> {c_read_io c, c_write_io c} = {}"
      "{c_read_buffer x, c_write_buffer x} \<inter> {c_read_buffer c, c_write_buffer c} = {}"
      using conn_ios_apart[OF sx sc a(1)] d(6) a c(1) unfolding buffers_apart_def by blast+
    have "conn_at s ?sv (c_fd x) = a" using a(2) by (intro ta[OF \<open>a \<noteq> NULL\<close>, THEN iffD2]) blast
    moreover have "conn_at s ?sv (c_fd c) = conn" using c(1) by (intro ta[OF q(1), THEN iffD2]) blast
    ultimately have "c_fd x \<noteq> c_fd c" using a(1) by metis
    then have o: "c_fd x \<in> site_opened W (kern t)" using sx cl by (simp add: conn_served_def t_def)
    show ?thesis using x l f i o by (intro conn_served_other[OF sx]) (auto simp: t_def v_def)
  qed
  have "tabled W t"
  proof (rule tabled_cell[OF tb k(7)])
    show "services t = (services s)(?sv \<mapsto> sv\<lparr>sv_conn_count := snd (xv_atomic_decr (sv_conn_count sv))\<rparr>)"
      "conn_arrays t = (conn_arrays s)(sv_connections sv \<mapsto> arr[nat (c_fd c) := Some NULL])" by (simp_all add: t_def v_def)
    show "((conn_at s ?sv)(c_fd c := NULL)) fd = p \<longleftrightarrow> (\<exists>x. connections t p = Some x \<and> c_fd x = fd)" if "p \<noteq> NULL" for fd p
      using ta[OF that, of fd] ta[OF q(1), of fd] c(1) that by (cases "fd = c_fd c"; cases "p = conn") (auto simp: t_def)
  qed (use k(8) size in simp)
  moreover have "grounds W t" by (rule grounds_cong[OF d(2)]) (simp_all add: f)
  moreover have "in_range W t" using d(4) cl by (auto simp: in_range_def t_def v_def)
  moreover have "fresh_above t" using d(5) by (simp add: fresh_above_def t_def v_def)
  moreover have "buffers_apart t"
    unfolding buffers_apart_def
  proof (intro allI impI)
    fix a b x y assume "connections t a = Some x" "connections t b = Some y" "a \<noteq> b"
    then have "connections s a = Some x" "connections s b = Some y" "a \<noteq> b" by (auto simp: t_def split: if_splits)
    then show "{c_read_buffer x, c_write_buffer x} \<inter> {c_read_buffer y, c_write_buffer y} = {}" using d(6) unfolding buffers_apart_def by blast
  qed
  moreover have "started_known W t"
    by (rule started_known_keep[OF d(7) f(3,6)]) (use c(1) in \<open>auto simp: t_def split: if_splits\<close>)
  ultimately have "serving W r z t" using l other by (simp add: serving_def)
  then show ?thesis using run f by (intro exI[of _ t]) (simp add: still_loop_def t_def)
qed

text \<open>\<^verbatim>\<open>xv_connection_close\<close> on an open connection: it is gone, or it is marked as closed when messages still refer to it.\<close>

lemma serving_close:
  fixes s :: "('k, 'z) sheap_scheme"
  assumes doc: "site_doc K pending W" and s: "serving W r z s" and c: "connections s conn = Some c" "c_status c = XV_CONN_OPEN"
  shows "\<exists>t. xv_connection_close K (site_user W) s conn = Some t \<and> serving W r z t \<and> still_loop s t \<and>
     (if 1 < r conn then connections t = (connections s)(conn \<mapsto> shut_conn c) \<and> messages t = messages s \<and> listeners t = listeners s
      else connections t = (connections s)(conn := None))"
proof -
  note d = servingD[OF s]
  note sc = d(8)[OF c(1)]
  obtain rio wio where k: "conn_ok s conn c (site_io W)" "c_io_thread c = site_thread W" "xv_atomic_get (c_ref_count c) = r conn"
    by (rule conn_servedD[OF sc]) (use c(2) in auto)
  obtain l where l: "listeners s (c_handle c) = Some l" "c_handle c \<noteq> NULL" "conn \<noteq> NULL" using k(1) by (auto simp: conn_ok_def)
  have h: "callback_silent (u_on_disconnect (site_user W)) (h_on_disconnect (ls_handle l))" using d(2) l(1) by (auto simp: grounds_def app_safe_def)
  have th: "io_threads s (site_thread W) = Some (site_io W)" "site_thread W \<noteq> NULL" using d(2) by (simp_all add: grounds_def)
  obtain u where u: "xv_connection_stop K (s\<lparr>connections := (connections s)(conn \<mapsto> shut_conn c)\<rparr>) (it_loop (site_io W)) conn = Some u"
    "serving W r z u" "still_loop s u" "connections u = (connections s)(conn \<mapsto> shut_conn c)" "messages u = messages s" "listeners u = listeners s"
    using serving_shut[OF doc s c(1)] by blast
  have thu: "io_threads u (site_thread W) = Some (site_io W)" using servingD(2)[OF u(2)] by (simp add: grounds_def)
  have run: "xv_connection_close K (site_user W) s conn = (if 1 < r conn then Some u
     else do { (_, v) \<leftarrow> xv_service_del_connection u (it_service (site_io W)) conn;
        xv_connection_destroy (v\<lparr>kern := snd (xv_close K (c_fd c) (kern v))\<rparr>) conn })"
    using c k(2,3) l th thu u(1,4) callback_silent_run[OF h] by (simp add: xv_connection_close_def handle_at_def flip: shut_conn_def)
  show ?thesis
  proof (cases "1 < r conn")
    case True
    then show ?thesis using run u by auto
  next
    case False
    obtain t where t: "do { (_, v) \<leftarrow> xv_service_del_connection u (it_service (site_io W)) conn;
        xv_connection_destroy (v\<lparr>kern := snd (xv_close K (c_fd (shut_conn c)) (kern v))\<rparr>) conn } = Some t"
      "serving W r z t" "still_loop u t" "connections t = (connections u)(conn := None)"
      using serving_released[OF doc u(2), of conn "shut_conn c"] u(4) by auto
    then show ?thesis using run False u(3,4) still_loop_trans[OF u(3) t(3)] by (intro exI[of _ t]) simp
  qed
qed

subsection \<open>Writing\<close>

text \<open>A step that neither adds nor drops a connection, message or listener.\<close>

definition steady :: "('k, 'z) sheap_scheme \<Rightarrow> ('k, 'z) sheap_scheme \<Rightarrow> bool" where
  "steady s t \<longleftrightarrow> still_loop s t \<and> connections t = connections s \<and> messages t = messages s \<and> listeners t = listeners s"

lemma steady_refl [simp]: "steady s s"
  by (simp add: steady_def)

lemma steady_trans [trans]: "steady s t \<Longrightarrow> steady t u \<Longrightarrow> steady s u"
  by (auto simp: steady_def intro: still_loop_trans)

lemma steady_upd [simp]: "steady s (s\<lparr>kern := k\<rparr>)" "steady s (s\<lparr>buffers := h\<rparr>)"
  by (simp_all add: steady_def still_loop_def)

lemma serving_stop:
  fixes s :: "('k, 'z) sheap_scheme"
  assumes doc: "site_doc K pending W" and s: "serving W r z s" and c: "connections s conn = Some c"
  shows "\<exists>t. map_option snd (xv_io_stop K s (it_loop (site_io W)) (c_write_io c)) = Some t \<and> serving W r z t \<and> steady s t"
proof -
  have "conn_ok s conn c (site_io W)" using servingD(8)[OF s c] by (simp add: conn_served_def)
  note fits = conn_ok_fits[OF this]
  obtain ret t where t: "xv_io_stop K s (it_loop (site_io W)) (c_write_io c) = Some (ret, t)" "loop_ok t (it_loop (site_io W))"
    "io_moved K (c_write_io c) False s t" using io_stop_moves[OF fits(1,3)] by blast
  have "serving W r z t" "still_loop s t" by (rule serving_io[OF doc s c _ t(3) _ t(2)]; simp)+
  moreover have "w_frame s t" using t(3) by (simp add: io_moved_def)
  note more_sheap_l[OF w_frame_fields(4)[OF this]]
  ultimately show ?thesis using t(1) by (simp add: steady_def)
qed

lemma serving_start:
  fixes s :: "('k, 'z) sheap_scheme"
  assumes doc: "site_doc K pending W" and s: "serving W r z s" and c: "connections s conn = Some c" "c_status c = XV_CONN_OPEN"
    and p: "p \<in> {c_read_io c, c_write_io c}"
  shows "\<exists>t. map_option snd (xv_io_start K s (it_loop (site_io W)) p) = Some t \<and> serving W r z t \<and> steady s t"
proof -
  have "conn_ok s conn c (site_io W)" using servingD(8)[OF s c(1)] by (simp add: conn_served_def)
  then have fits: "loop_ok s (it_loop (site_io W))" "watcher_fits s (it_loop (site_io W)) p" using conn_ok_fits p by blast+
  obtain ret t where t: "xv_io_start K s (it_loop (site_io W)) p = Some (ret, t)" "loop_ok t (it_loop (site_io W))"
    "io_moved K p True s t" using io_start_moves[OF fits] by blast
  have "serving W r z t" "still_loop s t" by (rule serving_io[OF doc s c(1) p t(3) _ t(2)]; simp add: c(2))+
  moreover have "w_frame s t" using t(3) by (simp add: io_moved_def)
  note more_sheap_l[OF w_frame_fields(4)[OF this]]
  ultimately show ?thesis using t(1) by (simp add: steady_def)
qed

text \<open>What \<^verbatim>\<open>write\<close> takes is dropped from the write buffer.\<close>

lemma serving_flush:
  fixes s :: "('k, 'z) sheap_scheme"
  assumes doc: "site_doc K pending W" and s: "serving W r z s" and c: "connections s conn = Some c"
    and b: "buffers s (c_write_buffer c) = Some b" "buffer_wf b" "readable b = map Some bs"
    and run: "do_write K s fd bs = (n, e, s2)"
  shows "serving W r z s2" "steady s s2"
    "\<exists>v. (if n > 0 then buffer_upd s2 (c_write_buffer c) (\<lambda>b. xv_buffer_incr_read_index b n) else Some s2) = Some v \<and> serving W r z v \<and> steady s v"
proof -
  obtain res k where w: "sys_write K fd bs (kern s) = (res, k)" by fastforce
  have s2: "s2 = s\<lparr>kern := k\<rparr>" and n: "res = Inr n \<or> n = - 1" using run w by (auto simp: do_write_def Let_def split: sum.splits)
  have "untouched (site_interest W) (site_opened W) (kern s) k"
    using serve_docD(6)[OF doc[unfolded site_doc_def], rule_format, of "kern s" fd bs] w by simp
  then show sv: "serving W r z s2" unfolding s2 by (rule serving_kern[OF s])
  show st: "steady s s2" by (simp add: s2)
  show "\<exists>v. (if n > 0 then buffer_upd s2 (c_write_buffer c) (\<lambda>b. xv_buffer_incr_read_index b n) else Some s2) = Some v \<and> serving W r z v \<and> steady s v"
  proof (cases "n > 0")
    case False
    then show ?thesis using sv st by simp
  next
    case True
    then have "n \<le> int (length bs)" using n serve_docD(14)[OF doc[unfolded site_doc_def], rule_format, of fd bs "kern s" n] w by auto
    then have le: "n \<le> int (length (readable b))" using b(3) by simp
    obtain b' where b': "xv_buffer_incr_read_index b n = Some b'" "buffer_wf b'" "readable b' = drop (nat n) (readable b)"
      by (rule incr_read_law[OF b(2) _ le]) (use True in simp_all)
    have full: "full_buffer b'" using b' b(3) by (auto simp: full_buffer_def drop_map)
    have c2: "connections s2 conn = Some c" "buffers s2 (c_write_buffer c) = Some b" "c_write_buffer c \<noteq> NULL"
      using c b(1) servingD(8)[OF s c] by (simp_all add: s2 conn_served_def conn_ok_def)
    have "serving W r (z(conn := z conn)) (s2\<lparr>buffers := (buffers s2)(c_write_buffer c \<mapsto> b')\<rparr>)"
      by (rule serving_buffer[OF sv c2(1) _ full]) simp
    moreover have "buffer_upd s2 (c_write_buffer c) (\<lambda>b. xv_buffer_incr_read_index b n) = Some (s2\<lparr>buffers := (buffers s2)(c_write_buffer c \<mapsto> b')\<rparr>)"
      using c2(2,3) b'(1) by (simp add: buffer_upd_def)
    ultimately show ?thesis using True steady_trans[OF st] by simp
  qed
qed

text \<open>\<^verbatim>\<open>on_connection_write\<close>.\<close>

lemma on_connection_write_serves:
  fixes s :: "('k, 'z) sheap_scheme"
  assumes doc: "site_doc K pending W" and s: "serving W r z s" and c: "connections s conn = Some c" "c_status c = XV_CONN_OPEN"
  shows "\<exists>t. on_connection_write K (site_user W) (it_loop (site_io W)) (c_write_io c) s = Some t \<and> serving W r z t \<and> still_loop s t"
proof -
  obtain wb bs where k: "conn_ok s conn c (site_io W)" "buffers s (c_write_buffer c) = Some wb" "buffer_wf wb" "readable wb = map Some bs"
    using conn_servedD[OF servingD(8)[OF s c(1)]] unfolding full_buffer_def by metis
  note run = on_connection_write_run[OF k(1-4)]
  show ?thesis
  proof (cases "bs = []")
    case True
    obtain t where t: "map_option snd (xv_io_stop K s (it_loop (site_io W)) (c_write_io c)) = Some t" "serving W r z t" "steady s t"
      using serving_stop[OF doc s c(1)] by blast
    then show ?thesis unfolding run(1)[OF True] steady_def by blast
  next
    case False
    obtain n e s2 where w: "do_write K s (c_fd c) bs = (n, e, s2)" by (cases "do_write K s (c_fd c) bs")
    note f = serving_flush[OF doc s c(1) k(2-4) w]
    have c2: "connections s2 conn = Some c" using f(2) c(1) by (simp add: steady_def)
    show ?thesis
    proof (cases "n = 0 \<or> n = - 1 \<and> \<not> retryable e")
      case True
      then show ?thesis
        using run(2)[OF False w] serving_close[OF doc f(1) c2 c(2)] f(2) by (auto simp: steady_def intro: still_loop_trans)
    next
      case go: False
      obtain v where v: "(if n > 0 then buffer_upd s2 (c_write_buffer c) (\<lambda>b. xv_buffer_incr_read_index b n) else Some s2) = Some v"
        "serving W r z v" "steady s v" using f(3) by blast
      have "connections v conn = Some c" using v(3) c(1) by (simp add: steady_def)
      from serving_stop[OF doc v(2) this] obtain t
        where t: "map_option snd (xv_io_stop K v (it_loop (site_io W)) (c_write_io c)) = Some t" "serving W r z t" "steady v t" by blast
      have "on_connection_write K (site_user W) (it_loop (site_io W)) (c_write_io c) s = (if n = int (length bs) then Some t else Some v)"
        using run(2)[OF False w, of "site_user W"] go v(1) t(1) by simp
      then show ?thesis using v t(2) steady_trans[OF v(3) t(3)] by (cases "n = int (length bs)") (simp_all add: steady_def)
    qed
  qed
qed

subsection \<open>Requests\<close>

text \<open>What the application of a connection is known to do.\<close>

lemma conn_app:
  assumes "serving W r z s" "connections s conn = Some c"
  obtains l where "listeners s (c_handle c) = Some l" "c_handle c \<noteq> NULL" "handle_at s (c_handle c) = Some (ls_handle l)"
    "app_safe (site_user W) (site_limit W) (ls_handle l)"
proof -
  have "c_handle c \<noteq> NULL" "listeners s (c_handle c) \<noteq> None" using servingD(8)[OF assms] by (simp_all add: conn_served_def conn_ok_def)
  then show thesis using servingD(2)[OF assms(1)] that by (auto simp: grounds_def handle_at_def)
qed

text \<open>Answering a message of an open connection; a write error marks the connection as closed.\<close>

lemma process_message_serves:
  fixes s :: "('k, 'z) sheap_scheme"
  assumes doc: "site_doc K pending W" and s: "serving W r z s" and c: "connections s conn = Some c" "c_status c = XV_CONN_OPEN"
    and m: "m \<noteq> NULL" "messages s m = Some x" and r: "1 < r conn"
  shows "\<exists>t. process_message K (site_user W) (it_loop (site_io W)) m conn (c_handle c) s = Some t \<and> serving W r z t \<and> still_loop s t \<and>
     messages t = messages s \<and> listeners t = listeners s \<and> connections t \<in> {connections s, (connections s)(conn \<mapsto> shut_conn c)}"
proof -
  let ?L = "it_loop (site_io W)" and ?wb = "c_write_buffer c"
  obtain l where l: "listeners s (c_handle c) = Some l" "handle_at s (c_handle c) = Some (ls_handle l)"
    "app_safe (site_user W) (site_limit W) (ls_handle l)" by (rule conn_app[OF s c(1)])
  have resp: "xv_message_get_response s m = Some (m_response x)" using m by (simp add: xv_message_get_response_def)
  show ?thesis
  proof (cases "h_encode (ls_handle l) = None \<or> m_response x = NULL")
    case True
    then have "process_message K (site_user W) ?L m conn (c_handle c) s = Some s"
      using resp l(2) by (cases "h_encode (ls_handle l)") (simp_all add: process_message_def)
    then show ?thesis using s by simp
  next
    case False
    then obtain e where e: "h_encode (ls_handle l) = Some e" "m_response x \<noteq> NULL" by auto
    have q: "conn \<noteq> NULL" "?wb \<noteq> NULL" using servingD(8)[OF s c(1)] by (simp_all add: conn_served_def conn_ok_def)
    obtain wb where wb: "buffers s ?wb = Some wb" "full_buffer wb" using servingD(8)[OF s c(1)] by (auto simp: conn_served_def)
    have es: "encode_safe (site_user W) e" using l(3) e(1) by (simp add: app_safe_def)
    obtain ret b where b: "u_encode (site_user W) e ?wb (m_response x) s = Some (ret, s\<lparr>buffers := (buffers s)(?wb \<mapsto> b)\<rparr>)" "full_buffer b"
      using es e(2) wb q(2) unfolding encode_safe_def by blast
    obtain bs where bs: "buffer_wf b" "readable b = map Some bs" using b(2) by (auto simp: full_buffer_def)
    define s1 where "s1 = s\<lparr>buffers := (buffers s)(?wb \<mapsto> b)\<rparr>"
    have "serving W r (z(conn := z conn)) s1" unfolding s1_def by (rule serving_buffer[OF s c(1) _ b(2)]) simp
    then have s1: "serving W r z s1" by simp
    have f1: "connections s1 conn = Some c" "buffers s1 ?wb = Some b" "steady s s1" using c(1) by (simp_all add: s1_def)
    note p = pending_bytes_law[OF bs]
    show ?thesis
    proof (cases "bs = []")
      case True
      then have "process_message K (site_user W) ?L m conn (c_handle c) s = Some s1"
        using resp l(2) e q c(1) b(1) p(1) f1(1,2) by (simp add: process_message_def flip: s1_def)
      then show ?thesis using s1 f1(3) by (auto simp: steady_def)
    next
      case ne: False
      obtain n er s2 where w: "do_write K s1 (c_fd c) bs = (n, er, s2)" by (cases "do_write K s1 (c_fd c) bs")
      note f = serving_flush[OF doc s1 f1(1,2) bs w]
      have run: "process_message K (site_user W) ?L m conn (c_handle c) s =
        (if n = - 1 \<and> \<not> retryable er then xv_connection_close K (site_user W) s2 conn
         else do { v \<leftarrow> (if n > 0 then buffer_upd s2 ?wb (\<lambda>b. xv_buffer_incr_read_index b n) else Some s2);
           if n < int (length bs) then map_option snd (xv_io_start K v ?L (c_write_io c)) else Some v })"
        using resp l(2) e q c b(1) p f1(1,2) w ne by (simp add: process_message_def flip: s1_def)
      have st2: "steady s s2" by (rule steady_trans[OF f1(3) f(2)])
      show ?thesis
      proof (cases "n = - 1 \<and> \<not> retryable er")
        case True
        have "connections s2 conn = Some c" using st2 c(1) by (simp add: steady_def)
        from serving_close[OF doc f(1) this c(2)] r obtain t where t: "xv_connection_close K (site_user W) s2 conn = Some t" "serving W r z t"
          "still_loop s2 t" "connections t = (connections s2)(conn \<mapsto> shut_conn c)" "messages t = messages s2" "listeners t = listeners s2" by auto
        then show ?thesis using run True st2 by (auto simp: steady_def intro: still_loop_trans)
      next
        case False
        obtain v where v: "(if n > 0 then buffer_upd s2 ?wb (\<lambda>b. xv_buffer_incr_read_index b n) else Some s2) = Some v"
          "serving W r z v" "steady s1 v" using f(3) by blast
        have sv: "steady s v" by (rule steady_trans[OF f1(3) v(3)])
        then have "connections v conn = Some c" using c(1) by (simp add: steady_def)
        from serving_start[OF doc v(2) this c(2), of "c_write_io c"] obtain t
          where t: "map_option snd (xv_io_start K v ?L (c_write_io c)) = Some t" "serving W r z t" "steady v t" by blast
        have "process_message K (site_user W) ?L m conn (c_handle c) s = (if n < int (length bs) then Some t else Some v)"
          using run False v(1) t(1) by simp
        then show ?thesis using v(2) t(2) sv steady_trans[OF sv t(3)] by (cases "n < int (length bs)") (simp_all add: steady_def)
      qed
    qed
  qed
qed

text \<open>Messages and the bump pointer are not part of the invariant.\<close>

lemma serving_messages:
  fixes s :: "('k, 'z) sheap_scheme"
  assumes "serving W r z s"
  shows "serving W r z (s\<lparr>messages := h\<rparr>)" "brk s \<le> n \<Longrightarrow> serving W r z (s\<lparr>brk := n\<rparr>)"
  by (rule serving_frame[OF assms]; simp)+

text \<open>Once a connection is gone, what was said of it does not matter.\<close>

lemma serving_forget:
  assumes "serving W r z s" "\<And>a. connections s a \<noteq> None \<Longrightarrow> r' a = r a \<and> z' a = z a"
  shows "serving W r' z' s"
proof -
  note d = servingD[OF assms(1)]
  have "conn_served W r' z' s a c" if "connections s a = Some c" for a c
    using d(8)[OF that] assms(2)[of a] that by (simp add: conn_served_def)
  then show ?thesis using d by (simp add: serving_def)
qed

text \<open>Between two handlers every open connection has one reference, and its read buffer stays within the limit.\<close>

definition at_work :: "('k, ('k, 'z) sheap_scheme) site \<Rightarrow> ('k, 'z) sheap_scheme \<Rightarrow> bool" where
  "at_work W s \<longleftrightarrow> serving W (\<lambda>_. 1) (\<lambda>_. site_limit W) s"

text \<open>A message for a connection is set up: one reference more.\<close>

lemma message_set_up:
  fixes s :: "('k, 'z) sheap_scheme"
  assumes s: "serving W r z s" and c: "connections s conn = Some c" "c_status c = XV_CONN_OPEN" and r: "r conn < INT_MAX"
  shows "\<exists>t. xv_message_init s conn = Some (brk s + 1, t) \<and> serving W (r(conn := r conn + 1)) z t \<and> still_loop s t \<and>
     connections t = (connections s)(conn \<mapsto> incr_conn c) \<and> listeners t = listeners s \<and>
     messages t = (messages s)(brk s + 1 \<mapsto> \<lparr>m_conn = conn, m_request = NULL, m_response = NULL\<rparr>)"
proof -
  have q: "conn \<noteq> NULL" "xv_atomic_get (c_ref_count c) = r conn" using servingD(8)[OF s c(1)] c(2) by (simp_all add: conn_served_def conn_ok_def)
  define u where "u = s\<lparr>connections := (connections s)(conn \<mapsto> incr_conn c)\<rparr>"
  have "xv_atomic_get (snd (xv_atomic_incr (c_ref_count c))) = r conn + 1" by (rule atomic_incr_get[OF q(2) r])
  then have "serving W (r(conn := r conn + 1)) z u"
    unfolding u_def incr_conn_def by (intro serving_ref[OF s c(1)]) simp
  from serving_messages(2)[OF serving_messages(1)[OF this, of "(messages s)(brk s + 1 \<mapsto> \<lparr>m_conn = conn, m_request = NULL, m_response = NULL\<rparr>)"], of "brk s + 1"]
  have sv: "serving W (r(conn := r conn + 1)) z
     (u\<lparr>messages := (messages s)(brk s + 1 \<mapsto> \<lparr>m_conn = conn, m_request = NULL, m_response = NULL\<rparr>), brk := brk s + 1\<rparr>)"
    by (simp add: u_def)
  have "xv_message_init s conn = Some (brk s + 1,
     u\<lparr>messages := (messages s)(brk s + 1 \<mapsto> \<lparr>m_conn = conn, m_request = NULL, m_response = NULL\<rparr>), brk := brk s + 1\<rparr>)"
    using c(1) q(1) by (cases s) (simp add: xv_message_init_def xv_malloc_def xv_connection_incr_ref_def u_def incr_conn_def)
  then show ?thesis using sv by (simp add: u_def still_loop_def)
qed

text \<open>A message is released, whether or not its connection has been closed meanwhile.\<close>

lemma message_put_away:
  fixes s :: "('k, 'z) sheap_scheme"
  assumes s: "serving W r z s" and c: "connections s conn = Some c" and m: "m \<noteq> NULL" "messages s m = Some x" "m_conn x = conn"
    and r: "INT_MIN < r conn" and co: "cleanup_silent (site_user W) co"
  shows "\<exists>t. xv_message_destroy (site_user W) s m co = Some t \<and> serving W (r(conn := r conn - 1)) z t \<and> still_loop s t"
proof -
  have q: "conn \<noteq> NULL" "c_status c = XV_CONN_OPEN \<longrightarrow> xv_atomic_get (c_ref_count c) = r conn"
    using servingD(8)[OF s c] by (simp_all add: conn_served_def conn_ok_def)
  define u where "u = s\<lparr>connections := (connections s)(conn \<mapsto> decr_conn c)\<rparr>"
  have "serving W (r(conn := r conn - 1)) z u"
    unfolding u_def decr_conn_def by (intro serving_ref[OF s c]) (use q(2) atomic_decr_get r in blast)
  then have "serving W (r(conn := r conn - 1)) z (u\<lparr>messages := (messages s)(m := None)\<rparr>)" by (rule serving_messages(1))
  moreover have "xv_message_destroy (site_user W) s m co = Some (u\<lparr>messages := (messages s)(m := None)\<rparr>)"
    using message_destroy_law[OF co m(1,2)] m(3) q(1) c by (simp add: u_def)
  ultimately show ?thesis by (simp add: u_def still_loop_def)
qed

lemma serving_service:
  assumes "serving W r z s"
  shows "io_threads s (site_thread W) = Some (site_io W)" "site_thread W \<noteq> NULL" "it_service (site_io W) \<noteq> NULL"
    "\<exists>sv. services s (it_service (site_io W)) = Some sv \<and> sv_worker_threads sv = NULL \<and> io_thread_count (sv_config sv) = 1"
  using servingD(2,3)[OF assms] by (auto simp: grounds_def tabled_def table_repr_def)

text \<open>A message for a request: set up, processed, answered and released; the connection may be closed by then.\<close>

lemma request_served:
  fixes s :: "('k, 'z) sheap_scheme"
  assumes doc: "site_doc K pending W" and s: "at_work W s" and c: "connections s conn = Some c" "c_status c = XV_CONN_OPEN"
    and p: "process_safe (site_user W) p"
    and co: "cleanup_silent (site_user W) co"
  obtains s2 s3 s4 s5 ret t where "xv_message_init s conn = Some (brk s + 1, s2)" "xv_message_set_request s2 (brk s + 1) req = Some s3"
    "listeners s3 = listeners s" "serving W ((\<lambda>_. 1)(conn := 2)) (\<lambda>_. site_limit W) s3" "connections s3 conn = Some (incr_conn c)"
    "u_process (site_user W) p (brk s + 1) s3 = Some (ret, s4)"
    "process_message K (site_user W) (it_loop (site_io W)) (brk s + 1) conn (c_handle c) s4 = Some s5" "listeners s5 = listeners s"
    "xv_message_destroy (site_user W) s5 (brk s + 1) co = Some t" "at_work W t" "still_loop s t"
proof -
  let ?m = "brk s + 1" and ?B = "\<lambda>_ :: addr. site_limit W" and ?L = "it_loop (site_io W)"
  define r2 :: "addr \<Rightarrow> int" where "r2 = (\<lambda>_. 1)(conn := 2)"
  have two: "1 < r2 conn" "INT_MIN < r2 conn" by (simp_all add: r2_def INT_MIN_def)
  have sB: "serving W (\<lambda>_. 1) ?B s" using s by (simp add: at_work_def)
  obtain s2 where s2: "xv_message_init s conn = Some (?m, s2)" "serving W r2 ?B s2" "still_loop s s2"
    "connections s2 = (connections s)(conn \<mapsto> incr_conn c)" "listeners s2 = listeners s"
    "messages s2 = (messages s)(?m \<mapsto> \<lparr>m_conn = conn, m_request = NULL, m_response = NULL\<rparr>)"
    using message_set_up[OF sB c] unfolding r2_def by (auto simp: INT_MAX_def)
  define s3 where "s3 = s2\<lparr>messages := (messages s)(?m \<mapsto> \<lparr>m_conn = conn, m_request = req, m_response = NULL\<rparr>)\<rparr>"
  have req: "xv_message_set_request s2 ?m req = Some s3" using s2(6) by (simp add: xv_message_set_request_def s3_def)
  have s3: "serving W r2 ?B s3" unfolding s3_def by (rule serving_messages(1)[OF s2(2)])
  have c3: "connections s3 conn = Some (incr_conn c)" "listeners s3 = listeners s" "still_loop s s3"
    using s2(3-5) by (simp_all add: s3_def still_loop_def)
  obtain response where pr: "processes (site_user W) p ?m response s3" 
    using p[unfolded process_safe_def, rule_format, of ?m s3] by (simp add: s3_def) blast
  define s4 where "s4 = s3\<lparr>messages := (messages s)(?m \<mapsto> \<lparr>m_conn = conn, m_request = req, m_response = response\<rparr>)\<rparr>"
  obtain ret where pr4: "u_process (site_user W) p ?m s3 = Some (ret, s4)" using pr by (auto simp: processes_def s3_def s4_def)
  have s4: "serving W r2 ?B s4" unfolding s4_def by (rule serving_messages(1)[OF s3])
  have c4: "connections s4 conn = Some (incr_conn c)" "messages s4 ?m = Some \<lparr>m_conn = conn, m_request = req, m_response = response\<rparr>"
    "c_status (incr_conn c) = XV_CONN_OPEN" "listeners s4 = listeners s" "still_loop s s4"
    using c3 c(2) by (simp_all add: s4_def incr_conn_def still_loop_def)
  have "c_handle (incr_conn c) = c_handle c" by (simp add: incr_conn_def)
  then obtain s5 where s5: "process_message K (site_user W) ?L ?m conn (c_handle c) s4 = Some s5" "serving W r2 ?B s5" "still_loop s4 s5"
    "messages s5 = messages s4" "listeners s5 = listeners s4" "connections s5 \<in> {connections s4, (connections s4)(conn \<mapsto> shut_conn (incr_conn c))}"
    using process_message_serves[OF doc s4 c4(1,3) _ c4(2) two(1)] by (metis Suc_eq_plus1 nat.distinct(1))
  obtain c5 where c5: "connections s5 conn = Some c5" using s5(6) c4(1) by fastforce
  have m5: "?m \<noteq> NULL" "messages s5 ?m = Some \<lparr>m_conn = conn, m_request = req, m_response = response\<rparr>" using s5(4) c4(2) by simp_all
  obtain t where t: "xv_message_destroy (site_user W) s5 ?m co = Some t" "serving W (r2(conn := r2 conn - 1)) ?B t" "still_loop s5 t"
    using message_put_away[OF s5(2) c5 m5 _ two(2) co] by auto
  have "r2(conn := r2 conn - 1) = (\<lambda>_. 1)" by (rule ext) (simp add: r2_def)
  then have "at_work W t" using t(2) by (simp add: at_work_def)
  moreover have "still_loop s t" by (rule still_loop_trans[OF c4(5) still_loop_trans[OF s5(3) t(3)]])
  ultimately show thesis
    using s5(5) c4(4) by (intro that[OF s2(1) req c3(2) s3[unfolded r2_def] c3(1) pr4 s5(1) _ t(1)]) simp_all
qed

text \<open>\<^verbatim>\<open>process_read_buffer\<close>: a request is decoded, processed and answered in place, or the connection is closed.\<close>

lemma process_read_buffer_serves:
  fixes s :: "('k, 'z) sheap_scheme"
  assumes doc: "site_doc K pending W" and s: "serving W (\<lambda>_. 1) ((\<lambda>_. site_limit W)(conn := n)) s"
    and c: "connections s conn = Some c" "c_status c = XV_CONN_OPEN" and b: "buffers s (c_read_buffer c) = Some b" "full_buffer b" "b_size b \<le> site_limit W"
  shows "\<exists>t. process_read_buffer K (site_user W) (it_loop (site_io W)) conn (c_handle c) s = Some t \<and> at_work W t \<and> still_loop s t"
proof -
  let ?L = "it_loop (site_io W)" and ?rb = "c_read_buffer c" and ?B = "\<lambda>_ :: addr. site_limit W"
  obtain l where l: "listeners s (c_handle c) = Some l" "c_handle c \<noteq> NULL" "handle_at s (c_handle c) = Some (ls_handle l)"
    "app_safe (site_user W) (site_limit W) (ls_handle l)" by (rule conn_app[OF s c(1)])
  obtain d p where dp: "h_decode (ls_handle l) = Some d" "h_process (ls_handle l) = Some p" "cleanup_silent (site_user W) (h_packet_cleanup (ls_handle l))"
    "decode_safe (site_user W) (site_limit W) d" "process_safe (site_user W) p"
    using l(4) unfolding app_safe_def by blast
  have q: "conn \<noteq> NULL" "?rb \<noteq> NULL" using servingD(8)[OF s c(1)] by (simp_all add: conn_served_def conn_ok_def)
  obtain ret req b' where dec: "u_decode (site_user W) d ?rb s = Some (ret, req, s\<lparr>buffers := (buffers s)(?rb \<mapsto> b')\<rparr>)" "full_buffer b'"
    "ret = XV_ERR \<or> read_size b' \<le> site_limit W" using dp(4) q(2) b unfolding decode_safe_def by blast
  define s1 where "s1 = s\<lparr>buffers := (buffers s)(?rb \<mapsto> b')\<rparr>"
  have zz: "((?B)(conn := n))(conn := k) = (?B)(conn := k)" for k by simp
  have s1: "serving W (\<lambda>_. 1) ((?B)(conn := read_size b')) s1"
    unfolding s1_def using serving_buffer[OF s c(1) _ dec(2), of ?rb "read_size b'"] zz by simp
  have f1: "connections s1 conn = Some c" "still_loop s s1" "handle_at s1 (c_handle c) = Some (ls_handle l)"
    using c(1) l(3) by (simp_all add: s1_def still_loop_def handle_at_def)
  show ?thesis
  proof (cases "ret = XV_ERR")
    case True
    obtain t where t: "xv_connection_close K (site_user W) s1 conn = Some t" "serving W (\<lambda>_. 1) ((?B)(conn := read_size b')) t" "still_loop s1 t"
      "connections t = (connections s1)(conn := None)" using serving_close[OF doc s1 f1(1) c(2)] by auto
    have "serving W (\<lambda>_. 1) ?B t" by (rule serving_forget[OF t(2)]) (auto simp: t(4) split: if_splits)
    moreover have "process_read_buffer K (site_user W) ?L conn (c_handle c) s = Some t"
      using l(3) c(1) q dp(1,2) dec(1) True t(1) by (simp add: process_read_buffer_def s1_def XV_OK_def XV_ERR_def)
    ultimately show ?thesis using still_loop_trans[OF f1(2) t(3)] by (auto simp: at_work_def)
  next
    case False
    have sB: "serving W (\<lambda>_. 1) ?B s1"
    proof -
      have "serving W (\<lambda>_. 1) (((?B)(conn := n))(conn := site_limit W)) s1"
        unfolding s1_def by (rule serving_buffer[OF s c(1) _ dec(2)]) (use dec(3) False in simp)
      then show ?thesis by (simp add: fun_upd_idem)
    qed
    show ?thesis
    proof (cases "ret = XV_OK")
      case no: False
      then have "process_read_buffer K (site_user W) ?L conn (c_handle c) s = Some s1"
        using l(3) c(1) q dp(1,2) dec(1) False by (simp add: process_read_buffer_def s1_def)
      then show ?thesis using sB f1(2) by (auto simp: at_work_def)
    next
      case True
      have s1: "at_work W s1" using sB by (simp add: at_work_def)
      obtain s2 s3 s4 s5 pret t where run: "xv_message_init s1 conn = Some (brk s1 + 1, s2)" "xv_message_set_request s2 (brk s1 + 1) req = Some s3"
        "listeners s3 = listeners s1" "serving W ((\<lambda>_. 1)(conn := 2)) ?B s3" "connections s3 conn = Some (incr_conn c)"
        "u_process (site_user W) p (brk s1 + 1) s3 = Some (pret, s4)"
        "process_message K (site_user W) ?L (brk s1 + 1) conn (c_handle c) s4 = Some s5" "listeners s5 = listeners s1"
        "xv_message_destroy (site_user W) s5 (brk s1 + 1) (h_packet_cleanup (ls_handle l)) = Some t" and t: "at_work W t" "still_loop s1 t"
        by (rule request_served[OF doc s1 f1(1) c(2) dp(5,3), where req = req])
      note sv3 = serving_service[OF run(4)]
      obtain sv where sv: "services s3 (it_service (site_io W)) = Some sv" "sv_worker_threads sv = NULL" using sv3(4) by blast
      have ct: "c_io_thread (incr_conn c) = site_thread W" using servingD(8)[OF run(4,5)] by (simp add: conn_served_def)
      have h: "handle_at s3 (c_handle c) = Some (ls_handle l)" "handle_at s5 (c_handle c) = Some (ls_handle l)"
        using f1(3) run(3,8) by (simp_all add: handle_at_def)
      have "process_read_buffer K (site_user W) ?L conn (c_handle c) s = Some t"
        using l(3) c(1) q dp(1,2) dec(1) True run(1,2,5-7,9) ct sv3(1-3) sv h
        by (simp add: process_read_buffer_def flip: s1_def)
      then show ?thesis using t(1) still_loop_trans[OF f1(2) t(2)] by auto
    qed
  qed
qed

text \<open>There is room for a read, and the buffer stays within the limit.\<close>

lemma room_for_read:
  assumes b: "full_buffer b" "read_size b \<le> n" "n \<le> INT_MAX"
  obtains b0 where "xv_buffer_ensure_writeable_size b 4096 = Some b0" "full_buffer b0" "read_size b0 \<le> n" "b_size b0 \<le> n"
    "4096 \<le> b_size b0 - b_write_idx b0"
proof (cases "b_size b - b_write_idx b < 4096")
  case True
  obtain bs where wf: "buffer_wf b" "readable b = map Some bs" using b(1) by (auto simp: full_buffer_def)
  have r: "b_size b + 4096 \<le> n" using True b(2) by (simp add: read_size_def XV_DEFAULT_READ_SIZE_def)
  then obtain b0 where b0: "xv_buffer_ensure_writeable_size b 4096 = Some b0" "buffer_wf b0" "readable b0 = readable b"
    "4096 \<le> b_size b0 - b_write_idx b0" "b_size b0 \<le> b_size b + 4096"
    using ensure_writeable_law[OF wf(1), of 4096] b(3) by (smt (verit))
  then show thesis
    using wf(2) r by (intro that[OF b0(1) _ _ _ b0(4)]) (auto simp: full_buffer_def read_size_def XV_DEFAULT_READ_SIZE_def)
next
  case False
  then have "xv_buffer_ensure_writeable_size b 4096 = Some b"
    using b(1) buffer_sizes by (auto simp: full_buffer_def xv_buffer_ensure_writeable_size_def)
  then show thesis
    using that[of b] b False by (simp add: read_size_def XV_DEFAULT_READ_SIZE_def)
qed

text \<open>\<^verbatim>\<open>on_connection_read\<close>.\<close>

lemma on_connection_read_serves:
  fixes s :: "('k, 'z) sheap_scheme"
  assumes doc: "site_doc K pending W" and lim: "site_limit W \<le> INT_MAX" and s: "at_work W s" and c: "connections s conn = Some c" "c_status c = XV_CONN_OPEN"
  shows "\<exists>t. on_connection_read K (site_user W) (it_loop (site_io W)) (c_read_io c) s = Some t \<and> at_work W t \<and> still_loop s t"
proof -
  let ?L = "it_loop (site_io W)" and ?rb = "c_read_buffer c" and ?B = "\<lambda>_ :: addr. site_limit W"
  have sB: "serving W (\<lambda>_. 1) ?B s" using s by (simp add: at_work_def)
  note sc = servingD(8)[OF sB c(1)]
  obtain rb where k: "conn_ok s conn c (site_io W)" "buffers s ?rb = Some rb" "full_buffer rb" "read_size rb \<le> site_limit W"
    using sc c(2) by (auto simp: conn_served_def)
  have q: "?rb \<noteq> NULL" using k(1) by (simp add: conn_ok_def)
  obtain b0 where b0: "xv_buffer_ensure_writeable_size rb 4096 = Some b0" "full_buffer b0" "read_size b0 \<le> site_limit W" "b_size b0 \<le> site_limit W"
    "4096 \<le> b_size b0 - b_write_idx b0" by (rule room_for_read[OF k(3,4) lim])
  obtain res ker where rd: "sys_read K (c_fd c) 4096 (kern s) = (res, ker)" by fastforce
  define s0 where "s0 = s\<lparr>buffers := (buffers s)(?rb \<mapsto> b0), kern := ker\<rparr>"
  note run = on_connection_read_run[OF k(1) c(2) k(2) b0(1) rd, folded s0_def]
  have "serving W (\<lambda>_. 1) (?B(conn := site_limit W)) (s\<lparr>buffers := (buffers s)(?rb \<mapsto> b0)\<rparr>)"
    by (rule serving_buffer[OF sB c(1) _ b0(2)]) (simp add: b0(3))
  moreover have "untouched (site_interest W) (site_opened W) (kern s) ker"
    using serve_docD(5)[OF doc[unfolded site_doc_def], rule_format, of "kern s" "c_fd c" 4096] rd by simp
  ultimately have s0: "serving W (\<lambda>_. 1) ?B s0"
    using serving_kern[of W "\<lambda>_. 1" ?B "s\<lparr>buffers := (buffers s)(?rb \<mapsto> b0)\<rparr>" ker] by (simp add: s0_def fun_upd_idem)
  have f0: "connections s0 conn = Some c" "buffers s0 ?rb = Some b0" "still_loop s s0" using c(1) by (simp_all add: s0_def still_loop_def)
  have close: "\<exists>t. xv_connection_close K (site_user W) s0 conn = Some t \<and> at_work W t \<and> still_loop s t"
    using serving_close[OF doc s0 f0(1) c(2)] still_loop_trans[OF f0(3)] by (auto simp: at_work_def)
  show ?thesis
  proof (cases res)
    case (Inl e)
    then show ?thesis using run close s0 f0(3) by (cases "e = EAGAIN \<or> e = EINTR") (auto simp: at_work_def)
  next
    case (Inr bs)
    show ?thesis
    proof (cases "bs = []")
      case True
      then show ?thesis using run close Inr by simp
    next
      case False
      obtain old where wf: "buffer_wf b0" "readable b0 = map Some old" using b0(2) by (auto simp: full_buffer_def)
      have "int (length bs) \<le> 4096"
        using serve_docD(13)[OF doc[unfolded site_doc_def], rule_format, of 4096 "c_fd c" "kern s" bs] rd Inr by simp
      then have room: "int (length (map Some bs)) \<le> b_size b0 - b_write_idx b0" using b0(5) by simp
      obtain blk b2 where b2: "mem_put (b_buf b0) (b_write_idx b0) (map Some bs) = Some blk"
        "xv_buffer_incr_write_index (b0\<lparr>b_buf := blk\<rparr>) (int (length (map Some bs))) = Some b2"
        "b2 = b0\<lparr>b_buf := blk, b_write_idx := b_write_idx b0 + int (length (map Some bs))\<rparr>" "buffer_wf b2" "readable b2 = readable b0 @ map Some bs"
        by (rule commit_law[OF wf(1) room])
      have full: "full_buffer b2" using b2(4,5) wf(2) by (auto simp: full_buffer_def simp flip: map_append)
      define v where "v = s0\<lparr>buffers := (buffers s0)(?rb \<mapsto> b2)\<rparr>"
      have "serving W (\<lambda>_. 1) (?B(conn := read_size b2)) v"
        unfolding v_def by (rule serving_buffer[OF s0 f0(1) _ full]) simp
      moreover have "connections v conn = Some c" "buffers v ?rb = Some b2" "b_size b2 \<le> site_limit W" "still_loop s v"
        using f0 b0(4) by (simp_all add: v_def b2(3) still_loop_def)
      ultimately have "\<exists>t. process_read_buffer K (site_user W) ?L conn (c_handle c) v = Some t \<and> at_work W t \<and> still_loop s t"
        using process_read_buffer_serves[OF doc _ _ c(2) _ full] still_loop_trans by blast
      moreover have "on_connection_read K (site_user W) ?L (c_read_io c) s = process_read_buffer K (site_user W) ?L conn (c_handle c) v"
        using run[of "site_user W"] Inr False f0(2) q b2(1,2) by (simp add: buffer_upd_def xv_buffer_write_begin_def v_def)
      ultimately show ?thesis by simp
    qed
  qed
qed

end
