(* ===== verification/Xv_Clients.thy ===== *)
theory Xv_Clients
  imports Xv_Serving
begin

section \<open>Clients come and go\<close>

text \<open>
  Accepting a client and waking up without work keep \<open>serving\<close> too, and so does waiting for events. With the handlers of
  \<^verbatim>\<open>Xv_Serving\<close> these are the laws of \<open>guarded_rounds\<close>: the interpretation \<open>serve\<close> discharges them for the callbacks of the service, and
  the property reads off that any number of rounds is free of undefined behaviour.
\<close>

subsection \<open>New connections\<close>

text \<open>The retries of \<^verbatim>\<open>accept\<close> end, because it is interrupted finitely often.\<close>

lemma accept_retry_returns:
  assumes "site_doc K pending W"
  shows "\<exists>res k'. accept_retry K fd k = Some (res, k') \<and>
     (case res of Inl e \<Rightarrow> calm W k k'
      | Inr (cfd, sa) \<Rightarrow> 0 \<le> cfd \<and> cfd < site_size W \<and> cfd \<notin> site_opened W k \<and> site_opened W k' = insert cfd (site_opened W k) \<and>
          (\<forall>ep fd'. site_interest W k' ep fd' \<noteq> None \<longrightarrow> site_interest W k ep fd' \<noteq> None))"
proof (induction "pending k" arbitrary: k rule: less_induct)
  case less
  note d = serve_docD(12)[OF assms[unfolded site_doc_def], rule_format, of k fd]
  obtain res k1 where a: "sys_accept K fd k = (res, k1)" by fastforce
  show ?case
  proof (cases "res = Inl EINTR")
    case True
    then have step: "pending k1 < pending k" "calm W k k1" using d a by (simp_all add: untouched_calm)
    obtain res' k' where r: "accept_retry K fd k1 = Some (res', k')" "case res' of Inl e \<Rightarrow> calm W k1 k'
      | Inr (cfd, sa) \<Rightarrow> 0 \<le> cfd \<and> cfd < site_size W \<and> cfd \<notin> site_opened W k1 \<and> site_opened W k' = insert cfd (site_opened W k1) \<and>
          (\<forall>ep fd'. site_interest W k' ep fd' \<noteq> None \<longrightarrow> site_interest W k1 ep fd' \<noteq> None)"
      using less[OF step(1)] by blast
    have "site_interest W k1 ep fd' \<noteq> None \<longrightarrow> site_interest W k ep fd' \<noteq> None" for ep fd'
      using d a True by (simp add: untouched_def)
    moreover have "accept_retry K fd k = Some (res', k')" using r(1) a True by (subst accept_retry.simps) simp
    ultimately show ?thesis
      using r(2) step(2) calm_trans[OF step(2)] by (intro exI[of _ res'] exI[of _ k']) (auto simp: calm_def split: sum.splits)
  next
    case False
    then have "accept_retry K fd k = Some (res, k1)" using a by (subst accept_retry.simps) simp
    then show ?thesis using d a by (auto simp: untouched_calm split: sum.splits)
  qed
qed

text \<open>A client that has just been accepted: its connection is set up, in the table, and owned by the thread.\<close>

definition welcomed ::
  "('k, ('k, 'z) sheap_scheme) site \<Rightarrow> ('k, 'z) sheap_scheme \<Rightarrow> 'k \<Rightarrow> string \<Rightarrow> int \<Rightarrow> int \<Rightarrow> addr \<Rightarrow> xv_service_t \<Rightarrow> addr option list \<Rightarrow>
   ('k, 'z) sheap_scheme" where
  "welcomed W s k a port fd listener sv arr =
     (let u = accept_state s k a port fd listener (it_service (site_io W)) sv arr
      in u\<lparr>connections := (connections u)(brk s + 1 \<mapsto> (new_conn (brk s) a port fd listener)\<lparr>c_io_thread := site_thread W\<rparr>)\<rparr>)"

lemma new_buffer: "full_buffer (xv_buffer_init XV_DEFAULT_BUFFRT_SIZE)" "read_size (xv_buffer_init XV_DEFAULT_BUFFRT_SIZE) = 8192"
  by (simp_all add: full_buffer_def read_size_def XV_DEFAULT_BUFFRT_SIZE_def XV_DEFAULT_READ_SIZE_def xv_buffer_init_def buffer_wf_def readable_def INT_MAX_def)

lemma serving_welcomed:
  fixes s :: "('k, 'z) sheap_scheme"
  assumes s: "serving W r z s" and lim: "r (brk s + 1) = 1" "8192 \<le> z (brk s + 1)"
    and l: "listeners s listener = Some l" "listener \<noteq> NULL" and tb: "table_repr s (it_service (site_io W)) sv arr" "site_size W \<le> sv_conn_setsize sv"
    "io_thread_count (sv_config sv) = 1" "sv_worker_threads sv = NULL"
    and fd: "0 < fd" "fd < site_size W" "fd \<notin> site_opened W (kern s)" "site_opened W k = insert fd (site_opened W (kern s))"
    and k: "\<forall>ep fd'. site_interest W k ep fd' \<noteq> None \<longrightarrow> site_interest W (kern s) ep fd' \<noteq> None \<or> 0 \<le> fd' \<and> fd' < site_size W"
  shows "serving W r z (welcomed W s k a port fd listener sv arr)"
proof -
  let ?n = "brk s" and ?L = "it_loop (site_io W)" and ?sv = "it_service (site_io W)"
  define c where "c = (new_conn ?n a port fd listener)\<lparr>c_io_thread := site_thread W\<rparr>"
  define t where "t = welcomed W s k a port fd listener sv arr"
  note d = servingD[OF s]
  have fresh: "ios s p = None" "connections s p = None" "buffers s p = None" if "p > brk s" for p
    using d(5) that by (simp_all add: fresh_above_def)
  have size: "loop_size s ?L = site_size W" using d(2) by (simp add: grounds_def)
  have t: "kern t = k" "brk t = ?n + 5" "connections t = (connections s)(?n + 1 \<mapsto> c)"
    "ios t = (ios s)(?n + 2 \<mapsto> new_io fd XV_READ On_connection_read (?n + 1), ?n + 3 \<mapsto> new_io fd XV_WRITE On_connection_write (?n + 1))"
    "buffers t = (buffers s)(?n + 4 \<mapsto> xv_buffer_init XV_DEFAULT_BUFFRT_SIZE, ?n + 5 \<mapsto> xv_buffer_init XV_DEFAULT_BUFFRT_SIZE)"
    "loops t = loops s" "pollers t = pollers s" "cqueues t = cqueues s" "queues t = queues s" "asyncs t = asyncs s"
    "listeners t = listeners s" "io_threads t = io_threads s" "event_arrays t = event_arrays s" "fired_arrays t = fired_arrays s"
    by (simp_all add: t_def welcomed_def accept_state_def c_def Let_def)
  have cs: "c_fd c = fd" "c_read_io c = ?n + 2" "c_write_io c = ?n + 3" "c_read_buffer c = ?n + 4" "c_write_buffer c = ?n + 5"
    "c_io_thread c = site_thread W" "c_handle c = listener" "c_status c = XV_CONN_OPEN" "xv_atomic_get (c_ref_count c) = 1"
    by (simp_all add: c_def new_conn_def xv_atomic_get_def)
  have lt: "loop_ok t ?L" by (rule loop_ok_cong[OF d(1)]) (use fresh(1) in \<open>auto simp: t\<close>)
  have "conn_ok t (?n + 1) c (site_io W)"
    using lt l fd d(2) size by (auto simp: conn_ok_def conn_watcher_def t cs new_io_def grounds_def loop_size_def)
  then have new: "conn_served W r z t (?n + 1) c"
    using new_buffer lim fd(4) by (simp add: conn_served_def t cs new_io_def)
  have old: "conn_served W r z t x y" if "connections s x = Some y" for x y
  proof -
    note sx = d(8)[OF that] and live = conn_served_live[OF d(8)[OF that]]
    have "x \<le> ?n" "c_read_io y \<le> ?n" "c_write_io y \<le> ?n" "c_read_buffer y \<le> ?n" "c_write_buffer y \<le> ?n"
      by (rule fresh_below[OF d(5)]; use live in simp)+
    moreover have "c_fd y \<in> site_opened W (kern s)" using sx by (simp add: conn_served_def)
    ultimately show ?thesis using that lt fd(4) by (intro conn_served_other[OF sx]) (auto simp: t)
  qed
  have conns: "conn_served W r z t x y" if "connections t x = Some y" for x y
    using that new old by (auto simp: t split: if_splits)
  have "tabled W t"
  proof (rule tabled_cell[OF tb])
    have at: "\<And>fd p. p \<noteq> NULL \<Longrightarrow> conn_at s ?sv fd = p \<longleftrightarrow> (\<exists>c. connections s p = Some c \<and> c_fd c = fd)"
      using d(3) unfolding tabled_def by blast
    show "services t = (services s)(?sv \<mapsto> sv\<lparr>sv_conn_count := snd (xv_atomic_incr (sv_conn_count sv))\<rparr>)"
      "conn_arrays t = (conn_arrays s)(sv_connections sv \<mapsto> arr[nat fd := Some (?n + 1)])"
      by (simp_all add: t_def welcomed_def accept_state_def Let_def)
    show "((conn_at s ?sv)(fd := ?n + 1)) fd' = p \<longleftrightarrow> (\<exists>x. connections t p = Some x \<and> c_fd x = fd')" if "p \<noteq> NULL" for fd' p
    proof -
      have "c_fd x \<noteq> fd" if "connections s p = Some x" for x
        using d(8)[OF that] fd(3) by (auto simp: conn_served_def)
      moreover have "connections s (?n + 1) = None" using fresh(2)[of "?n + 1"] by simp
      ultimately show ?thesis using at[OF that, of fd'] cs(1) by (cases "fd' = fd"; cases "p = ?n + 1") (auto simp: t(3))
    qed
  qed (use fd(1,2) in simp_all)
  moreover have "grounds W t" by (rule grounds_cong[OF d(2)]) (simp_all add: t)
  moreover have "in_range W t" using d(4) k unfolding in_range_def t by blast
  moreover have "fresh_above t" using d(5) by (simp add: fresh_above_def t)
  moreover have "buffers_apart t"
  proof -
    have low: "c_read_buffer y \<le> ?n \<and> c_write_buffer y \<le> ?n" if "connections s x = Some y" for x y
      using fresh_below[OF d(5)] conn_served_live[OF d(8)[OF that]] by blast
    show ?thesis
      unfolding buffers_apart_def
    proof (intro allI impI)
      fix x y u w assume h: "connections t x = Some u" "connections t y = Some w" "x \<noteq> y"
      have e: "x = ?n + 1 \<and> u = c \<or> connections s x = Some u" if "connections t x = Some u" for x u
        using that by (cases "x = ?n + 1") (simp_all add: t(3))
      consider "connections s x = Some u" "connections s y = Some w" | "u = c" "connections s y = Some w" | "connections s x = Some u" "w = c"
        using e[OF h(1)] e[OF h(2)] h(3) by metis
      then show "{c_read_buffer u, c_write_buffer u} \<inter> {c_read_buffer w, c_write_buffer w} = {}"
      proof cases
        case 1
        then show ?thesis using d(6) h(3) unfolding buffers_apart_def by blast
      next
        case 2
        then show ?thesis using low[of y w] cs(4,5) by auto
      next
        case 3
        then show ?thesis using low[of x u] cs(4,5) by auto
      qed
    qed
  qed
  moreover have "started_known W t"
  proof (rule started_known_keep[OF d(7) t(11,10)])
    show "ios s p = Some io" if "ios t p = Some io" "io_start io" for p io using that by (auto simp: t new_io_def split: if_splits)
    show "connections t (io_userdata io) = Some y" if "connections s (io_userdata io) = Some y" for io y
      using that fresh(2)[of "?n + 1"] by (cases "io_userdata io = ?n + 1") (simp_all add: t(3))
  qed
  ultimately show ?thesis using lt conns by (simp add: serving_def t_def)
qed

lemma at_work_kern:
  fixes s :: "('k, 'z) sheap_scheme"
  assumes "at_work W s" "site_opened W (kern s) \<subseteq> site_opened W k"
    "\<forall>ep fd. site_interest W k ep fd \<noteq> None \<longrightarrow> site_interest W (kern s) ep fd \<noteq> None \<or> 0 \<le> fd \<and> fd < site_size W"
  shows "at_work W (s\<lparr>kern := k\<rparr>)"
  unfolding at_work_def by (rule serving_frame[OF assms(1)[unfolded at_work_def]]) (use assms(2,3) in simp_all)

text \<open>The options of a new descriptor.\<close>

lemma options_calm:
  assumes "site_doc K pending W"
  shows "\<exists>r k'. xv_nonblock K fd k = Some (r, k') \<and> calm W k k'" "\<exists>r k'. xv_tcp_nodelay K fd k = Some (r, k') \<and> calm W k k'"
proof -
  have l: "strerror_fills K" using assms serve_docD(15) unfolding site_doc_def by blast
  obtain fl k1 where g: "sys_getfl K fd k = (fl, k1)" by fastforce
  obtain ret k2 where f: "sys_setfl K fd (fl OR O_NONBLOCK) k1 = (ret, k2)" by fastforce
  have "calm W k k1" using calm_calls(4)[OF assms, of k fd] g by simp
  moreover have "calm W k1 k2" using calm_calls(5)[OF assms, of k1 fd "fl OR O_NONBLOCK"] f by simp
  ultimately show "\<exists>r k'. xv_nonblock K fd k = Some (r, k') \<and> calm W k k'" using g f l by (auto simp: xv_nonblock_def intro: calm_trans)
  show "\<exists>r k'. xv_tcp_nodelay K fd k = Some (r, k') \<and> calm W k k'"
    using calm_calls(3)[OF assms, of k fd TCP_NODELAY] l by (auto simp: xv_tcp_nodelay_def Let_def split: prod.splits)
qed

text \<open>The connection of a client that has been accepted is set up and its reader is started.\<close>

lemma client_welcomed:
  fixes s :: "('k, 'z) sheap_scheme"
  assumes doc: "site_doc K pending W" and lim: "8192 \<le> site_limit W" and s: "at_work W s"
    and io: "p \<noteq> NULL" "ios s p = Some io" "io_userdata io = x" "x \<noteq> NULL" "listeners s x = Some l" "io_fd io = ls_fd l" "ls_io_thread l = site_thread W"
    and fd: "0 < fd" "fd < site_size W" "fd \<notin> site_opened W (kern s)" "site_opened W k = insert fd (site_opened W (kern s))"
    and k: "\<forall>ep fd'. site_interest W k ep fd' \<noteq> None \<longrightarrow> site_interest W (kern s) ep fd' \<noteq> None \<or> 0 \<le> fd' \<and> fd' < site_size W"
    and sv: "services s (it_service (site_io W)) = Some sv"
    and acc: "accepted K (ls_fd l) (tcp_nodealy (sv_config sv)) (kern s) fd a port k"
  shows "\<exists>t. on_new_connection K (site_user W) (it_loop (site_io W)) p s = Some t \<and> at_work W t \<and> still_loop s t"
proof -
  let ?L = "it_loop (site_io W)" and ?sv = "it_service (site_io W)" and ?c = "(new_conn (brk s) a port fd x)\<lparr>c_io_thread := site_thread W\<rparr>"
  have sB: "serving W (\<lambda>_. 1) (\<lambda>_. site_limit W) s" using s by (simp add: at_work_def)
  note d = servingD[OF sB]
  obtain arr where tb: "table_repr s ?sv sv arr" "site_size W \<le> sv_conn_setsize sv" "io_thread_count (sv_config sv) = 1" "sv_worker_threads sv = NULL"
    using d(3) sv by (auto simp: tabled_def table_repr_def)
  have th: "site_thread W \<noteq> NULL" "io_threads s (site_thread W) = Some (site_io W)" "app_safe (site_user W) (site_limit W) (ls_handle l)"
    using d(2) io(5) by (simp_all add: grounds_def)
  have ready: "accept_ready (site_user W) s p x l (site_io W)"
    using io th d(1,5) by (simp add: accept_ready_def app_safe_def fresh_above_def)
  have fs: "fd < sv_conn_setsize sv" using fd(2) tb(2) by simp
  define u where "u = accept_state s k a port fd x ?sv sv arr"
  define v where "v = welcomed W s k a port fd x sv arr"
  have run: "on_new_connection K (site_user W) ?L p s = dispatch_connection K ?L x ?sv (brk s + 1) u"
    unfolding u_def by (rule on_new_connection_accepts[OF ready tb(1) acc fs])
  have v: "serving W (\<lambda>_. 1) (\<lambda>_. site_limit W) v"
    unfolding v_def by (rule serving_welcomed[OF sB _ _ io(5,4) tb fd k]) (simp_all add: lim)
  have cv: "connections v (brk s + 1) = Some ?c" "c_status ?c = XV_CONN_OPEN" "still_loop s v"
    by (simp_all add: v_def welcomed_def accept_state_def Let_def new_conn_def still_loop_def)
  obtain t where t: "map_option snd (xv_io_start K v ?L (c_read_io ?c)) = Some t" "serving W (\<lambda>_. 1) (\<lambda>_. site_limit W) t" "steady v t"
    using serving_start[OF doc v cv(1,2)] by blast
  have us: "services u ?sv = Some (sv\<lparr>sv_conn_count := snd (xv_atomic_incr (sv_conn_count sv))\<rparr>)" "?sv \<noteq> NULL"
    "connections u (brk s + 1) = Some (new_conn (brk s) a port fd x)" "listeners u x = Some l"
    "u\<lparr>connections := (connections u)(brk s + 1 \<mapsto> ?c)\<rparr> = v" "c_read_io ?c = c_read_io (new_conn (brk s) a port fd x)"
    using tb(1) io(5) by (simp_all add: u_def v_def welcomed_def accept_state_def table_repr_def Let_def)
  have "dispatch_connection K ?L x ?sv (brk s + 1) u = Some t"
    using us t(1) tb(3) io(4,7) by (simp add: dispatch_connection_def Let_def)
  then show ?thesis using run t(2,3) still_loop_trans[OF cv(3)] by (auto simp: at_work_def steady_def)
qed

text \<open>\<^verbatim>\<open>on_new_connection\<close>.\<close>

lemma on_new_connection_keeps:
  fixes s :: "('k, 'z) sheap_scheme"
  assumes doc: "site_doc K pending W" and lim: "8192 \<le> site_limit W" and s: "at_work W s"
    and io: "p \<noteq> NULL" "ios s p = Some io" "io_userdata io = x" "x \<noteq> NULL" "listeners s x = Some l" "io_fd io = ls_fd l" "ls_io_thread l = site_thread W"
  shows "\<exists>t. on_new_connection K (site_user W) (it_loop (site_io W)) p s = Some t \<and> at_work W t \<and> still_loop s t"
proof -
  let ?L = "it_loop (site_io W)" and ?sv = "it_service (site_io W)"
  note d = servingD[OF s[unfolded at_work_def]] and serv = serving_service[OF s[unfolded at_work_def]]
  have get: "xv_io_get_fd s p = Some (ls_fd l)" "\<And>k. xv_io_get_userdata (s\<lparr>kern := k\<rparr>) p = Some x"
    using io by (simp_all add: xv_io_get_fd_def xv_io_get_userdata_def)
  obtain sv where sv: "services s ?sv = Some sv" using serv(4) by blast
  obtain res k1 where a: "accept_retry K (ls_fd l) (kern s) = Some (res, k1)" "case res of Inl e \<Rightarrow> calm W (kern s) k1
    | Inr (cfd, sa) \<Rightarrow> 0 \<le> cfd \<and> cfd < site_size W \<and> cfd \<notin> site_opened W (kern s) \<and> site_opened W k1 = insert cfd (site_opened W (kern s)) \<and>
        (\<forall>ep fd'. site_interest W k1 ep fd' \<noteq> None \<longrightarrow> site_interest W (kern s) ep fd' \<noteq> None)"
    using accept_retry_returns[OF doc] by blast
  show ?thesis
  proof (cases res)
    case (Inl e)
    then have "on_new_connection K (site_user W) ?L p s = Some (s\<lparr>kern := k1\<rparr>)"
      using a(1) get(1) serve_docD(15)[OF doc[unfolded site_doc_def]] by (simp add: on_new_connection_def xv_tcp_accept_def XV_ERR_def Let_def)
    moreover have "at_work W (s\<lparr>kern := k1\<rparr>)" by (rule at_work_kern[OF s]) (use a(2) Inl in \<open>auto simp: calm_def\<close>)
    ultimately show ?thesis by (simp add: still_loop_def)
  next
    case (Inr client)
    obtain fd sa where cl: "client = (fd, sa)" by fastforce
    have fd: "0 \<le> fd" "fd < site_size W" "fd \<notin> site_opened W (kern s)" "site_opened W k1 = insert fd (site_opened W (kern s))"
      "\<forall>ep fd'. site_interest W k1 ep fd' \<noteq> None \<longrightarrow> site_interest W (kern s) ep fd' \<noteq> None"
      using a(2) Inr cl by simp_all
    obtain addr port where acc: "xv_tcp_accept K (ls_fd l) (Some []) (int XV_ADDR_LEN) (Some 0) (kern s) = Some (fd, Some addr, Some port, k1)"
      using a(1) Inr cl by (simp add: xv_tcp_accept_def Let_def)
    have closed: "at_work W (s\<lparr>kern := snd (xv_close K fd k)\<rparr>)" if "calm W k1 k" for k
    proof (rule at_work_kern[OF s])
      note c = serve_docD(11)[OF doc[unfolded site_doc_def], rule_format, of fd k]
      show "site_opened W (kern s) \<subseteq> site_opened W (snd (xv_close K fd k))" using c that fd(3,4) by (auto simp: xv_close_def calm_def)
      show "\<forall>ep fd'. site_interest W (snd (xv_close K fd k)) ep fd' \<noteq> None \<longrightarrow>
        site_interest W (kern s) ep fd' \<noteq> None \<or> 0 \<le> fd' \<and> fd' < site_size W"
      proof (intro allI impI)
        fix ep fd' assume h: "site_interest W (snd (xv_close K fd k)) ep fd' \<noteq> None"
        have "site_interest W k ep fd' \<noteq> None" using conjunct2[OF c, rule_format, of ep fd'] h by (simp add: xv_close_def)
        then have "site_interest W k1 ep fd' \<noteq> None \<or> 0 \<le> fd' \<and> fd' < site_size W" using that unfolding calm_def by blast
        then show "site_interest W (kern s) ep fd' \<noteq> None \<or> 0 \<le> fd' \<and> fd' < site_size W" using fd(5) by blast
      qed
    qed
    obtain r2 k2 where nb: "xv_nonblock K fd k1 = Some (r2, k2)" and k2: "calm W k1 k2" using options_calm(1)[OF doc, of fd k1] by blast
    obtain r3 k3 where nd: "(if tcp_nodealy (sv_config sv) then xv_tcp_nodelay K fd k2 else Some (XV_OK, k2)) = Some (r3, k3)" and k23: "calm W k2 k3"
      using options_calm(2)[OF doc, of fd k2] by (cases "tcp_nodealy (sv_config sv)") auto
    have k3: "calm W k1 k3" by (rule calm_trans[OF k2 k23])
    consider "fd = 0" | "0 < fd" "r2 \<noteq> XV_OK" | "0 < fd" "r2 = XV_OK" "r3 \<noteq> XV_OK" | "0 < fd" "r2 = XV_OK" "r3 = XV_OK" using fd(1) by linarith
    then show ?thesis
    proof cases
      case 1
      then have "on_new_connection K (site_user W) ?L p s = Some (s\<lparr>kern := k1\<rparr>)"
        using acc get(1) by (simp add: on_new_connection_def Let_def)
      moreover have "at_work W (s\<lparr>kern := k1\<rparr>)" by (rule at_work_kern[OF s]) (use fd in auto)
      ultimately show ?thesis by (simp add: still_loop_def)
    next
      case 2
      then have "on_new_connection K (site_user W) ?L p s = Some (s\<lparr>kern := snd (xv_close K fd k2)\<rparr>)"
        using acc get(1) nb by (simp add: on_new_connection_def Let_def)
      then show ?thesis using closed[OF k2] by (simp add: still_loop_def)
    next
      case 3
      then have "tcp_nodealy (sv_config sv)" "xv_tcp_nodelay K fd k2 = Some (r3, k3)" using nd by (auto split: if_splits)
      then have "on_new_connection K (site_user W) ?L p s = Some (s\<lparr>kern := snd (xv_close K fd k3)\<rparr>)"
        using 3 acc get nb io(4,5,7) serv(1-3) sv by (simp add: on_new_connection_def Let_def)
      then show ?thesis using closed[OF k3] by (simp add: still_loop_def)
    next
      case 4
      have "site_opened W k3 = insert fd (site_opened W (kern s))" using k3 fd(4) by (simp add: calm_def)
      moreover have "\<forall>ep fd'. site_interest W k3 ep fd' \<noteq> None \<longrightarrow> site_interest W (kern s) ep fd' \<noteq> None \<or> 0 \<le> fd' \<and> fd' < site_size W"
      proof (intro allI impI)
        fix ep fd' assume "site_interest W k3 ep fd' \<noteq> None"
        then have "site_interest W k1 ep fd' \<noteq> None \<or> 0 \<le> fd' \<and> fd' < site_size W" using k3 unfolding calm_def by blast
        then show "site_interest W (kern s) ep fd' \<noteq> None \<or> 0 \<le> fd' \<and> fd' < site_size W" using fd(5) by blast
      qed
      moreover have "accepted K (ls_fd l) (tcp_nodealy (sv_config sv)) (kern s) fd addr port k3"
        using 4 acc nb nd by (auto simp: accepted_def)
      ultimately show ?thesis using client_welcomed[OF doc lim s io 4(1) fd(2,3) _ _ sv] by blast
    qed
  qed
qed

subsection \<open>Wake-ups without work\<close>

lemma idle_queue_size:
  fixes s :: "'z qheap_scheme"
  assumes "idle_queue s q"
  shows "xv_concurrent_queue_size s q = Some (0, s)"
proof -
  obtain cq x where d: "q \<noteq> NULL" "cqueues s q = Some cq" "\<not> cq_mutex cq" "cq_queue cq \<noteq> NULL" "queues s (cq_queue cq) = Some x" "q_size x = 0"
    using assms by (auto simp: idle_queue_def)
  then have "cq\<lparr>cq_mutex := False\<rparr> = cq" by (cases cq) simp
  then show ?thesis
    using d by (simp add: xv_concurrent_queue_size_def xv_queue_size_def pthread_mutex_lock_def pthread_mutex_unlock_def fun_upd_idem)
qed

lemma async_cb_keeps:
  fixes s :: "('k, 'z) sheap_scheme"
  assumes doc: "site_doc K pending W" and s: "at_work W s"
    and io: "p \<noteq> NULL" "ios s p = Some io" "io_userdata io = x" "x \<noteq> NULL" "asyncs s x = Some a" "as_userdata a = site_thread W"
      "as_cb a \<in> {Some Io_thread_add_conn_cb, Some Io_thread_return_message_cb}"
  shows "\<exists>t. common_async_cb K (async_call K U urun uasync) loop p s = Some t \<and> at_work W t \<and> still_loop s t"
proof -
  obtain r k where e: "eventfd_read K (io_fd io) (kern s) = (r, k)" by fastforce
  define t where "t = s\<lparr>kern := k\<rparr>"
  have "calm W (kern s) k" using calm_calls(6)[OF doc, of "kern s" "io_fd io"] e by simp
  then have t: "at_work W t" unfolding t_def by (intro at_work_kern[OF s]) (auto simp: calm_def)
  note g = servingD(2)[OF t[unfolded at_work_def], unfolded grounds_def]
  have th: "io_threads t (site_thread W) = Some (site_io W)" "site_thread W \<noteq> NULL"
    "xv_concurrent_queue_size t (it_conn_queue (site_io W)) = Some (0, t)" "xv_concurrent_queue_size t (it_message_queue (site_io W)) = Some (0, t)"
    using g idle_queue_size by auto
  have ud: "xv_async_get_userdata t x = Some (site_thread W)" using io by (simp add: xv_async_get_userdata_def t_def)
  have "io_thread_add_conn_cb K loop x t = Some t"
    using ud th by (simp add: io_thread_add_conn_cb_def add_conn_loop.simps)
  moreover have "io_thread_return_message_cb K U loop x t = Some t"
    using ud th by (simp add: io_thread_return_message_cb_def return_message_loop.simps)
  ultimately have "async_call K U urun uasync cb loop x t = Some t" if "as_cb a = Some cb" for cb
    using io(7) that by (auto simp: async_call_def)
  then have "common_async_cb K (async_call K U urun uasync) loop p s = Some t"
    using io e by (auto simp: common_async_cb_def xv_io_get_fd_def xv_io_get_userdata_def t_def)
  then show ?thesis using t by (auto simp: t_def still_loop_def)
qed

subsection \<open>Rounds\<close>

text \<open>Every callback of a started watcher.\<close>

definition site_fit :: "('k, 'y) sys_ops_scheme \<Rightarrow> ('k \<Rightarrow> nat) \<Rightarrow> ('k, ('k, 'z) sheap_scheme) site \<Rightarrow> bool" where
  "site_fit K pending W \<longleftrightarrow> site_doc K pending W \<and> 8192 \<le> site_limit W \<and> site_limit W \<le> INT_MAX"

lemma site_fitD:
  assumes "site_fit K pending W"
  shows "site_doc K pending W" "8192 \<le> site_limit W" "site_limit W \<le> INT_MAX"
  using assms by (simp_all add: site_fit_def)

lemma io_call_keeps:
  fixes s :: "('k, 'z) sheap_scheme"
  assumes W: "site_fit K pending W" and s: "at_work W s" and io: "ios s p = Some io" "io_start io" "io_cb io = Some cb"
  shows "\<exists>t. io_call K (site_user W) urun uasync uio cb (it_loop (site_io W)) p s = Some t \<and> at_work W t \<and> still_loop s t"
proof -
  let ?L = "it_loop (site_io W)"
  have doc: "site_doc K pending W" by (rule site_fitD[OF W])
  have sv: "serving W (\<lambda>_. 1) (\<lambda>_. site_limit W) s" using s by (simp add: at_work_def)
  have "p \<noteq> NULL \<and> (fixed_io W s io \<or> (\<exists>c. connections s (io_userdata io) = Some c \<and> p \<in> {c_read_io c, c_write_io c}))"
    using servingD(7)[OF sv] io(1,2) unfolding started_known_def by blast
  then consider (fixed) "p \<noteq> NULL" "fixed_io W s io" | (conn) c where "connections s (io_userdata io) = Some c" "p \<in> {c_read_io c, c_write_io c}" by blast
  then show ?thesis
  proof cases
    case fixed
    then consider (listener) l where "cb = On_new_connection" "listeners s (io_userdata io) = Some l" "io_fd io = ls_fd l" "ls_io_thread l = site_thread W"
      | (async) a where "cb = Common_async_cb" "asyncs s (io_userdata io) = Some a" "as_userdata a = site_thread W"
          "as_cb a \<in> {Some Io_thread_add_conn_cb, Some Io_thread_return_message_cb}"
      using io(3) unfolding fixed_io_def by auto
    then show ?thesis
    proof cases
      case listener
      have "io_userdata io \<noteq> NULL" using fixed(2) by (simp add: fixed_io_def)
      from on_new_connection_keeps[OF doc site_fitD(2)[OF W] s fixed(1) io(1) refl this listener(2-4)] show ?thesis
        by (simp add: io_call_def listener(1))
    next
      case async
      have "io_userdata io \<noteq> NULL" using fixed(2) by (simp add: fixed_io_def)
      from async_cb_keeps[OF doc s fixed(1) io(1) refl this async(2-4)] show ?thesis by (simp add: io_call_def async(1))
    qed
  next
    case conn
    note sc = servingD(8)[OF sv conn(1)]
    have open_c: "c_status c = XV_CONN_OPEN"
      using sc conn(2) io(1,2) by (cases "c_status c = XV_CONN_OPEN") (auto simp: conn_served_def)
    have cb: "cb = (if p = c_read_io c then On_connection_read else On_connection_write)"
      using sc conn(2) io(1,3) by (auto simp: conn_served_def)
    show ?thesis
    proof (cases "p = c_read_io c")
      case True
      then show ?thesis using on_connection_read_serves[OF doc site_fitD(3)[OF W] s conn(1) open_c] cb by (simp add: io_call_def)
    next
      case False
      then show ?thesis
        using on_connection_write_serves[OF doc sv conn(1) open_c] cb conn(2) by (simp add: io_call_def at_work_def)
    qed
  qed
qed

text \<open>Waiting for events.\<close>

lemma wait_keeps:
  fixes s :: "('k, 'z) sheap_scheme"
  assumes doc: "site_doc K pending W" and s: "at_work W s" and l: "loops s (it_loop (site_io W)) = Some l" "pollers s (l_poller_data l) = Some d"
    and w: "epoll_wait K (p_epfd d) (l_setsize l) timeout (kern s) = (res, k)"
  shows "case res of None \<Rightarrow> at_work W (s\<lparr>kern := k\<rparr>)
     | Some evs \<Rightarrow> int (length evs) \<le> l_setsize l \<and> (\<forall>ev \<in> set evs. 0 \<le> ev_fd ev \<and> ev_fd ev < l_setsize l) \<and> at_work W (after_wait l k evs s)"
proof -
  let ?L = "it_loop (site_io W)"
  note v = servingD[OF s[unfolded at_work_def]]
  note e = serve_docD(2)[OF doc[unfolded site_doc_def], unfolded epoll_wait_doc_def, rule_format, OF w]
  have "calm W (kern s) k" using calm_calls(8)[OF doc, of "kern s" "p_epfd d" "l_setsize l" timeout] w by simp
  then have kern: "at_work W (s\<lparr>kern := k\<rparr>)" by (intro at_work_kern[OF s]) (auto simp: calm_def)
  show ?thesis
  proof (cases res)
    case None
    then show ?thesis using kern by simp
  next
    case (Some evs)
    have size: "l_setsize l = site_size W" using v(2) l(1) by (simp add: grounds_def loop_size_def)
    have evs: "int (length evs) \<le> l_setsize l" "\<forall>ev \<in> set evs. site_interest W (kern s) (p_epfd d) (ev_fd ev) \<noteq> None" using e Some by blast+
    have rng: "\<forall>ev \<in> set evs. 0 \<le> ev_fd ev \<and> ev_fd ev < l_setsize l"
      using evs(2) v(4) l unfolding in_range_def size by blast
    obtain d' arr where r: "loop_repr s ?L l d' arr" using v(1) l(1) by (auto simp: loop_ok_def loop_repr_def)
    define t where "t = after_wait l k evs s"
    have lt: "loop_ok t ?L" unfolding t_def by (rule after_wait_ok(1)[OF r evs(1)])
    have f: "kern t = k" "brk t = brk s" "ios t = ios s" "cqueues t = cqueues s" "queues t = queues s" "asyncs t = asyncs s" "buffers t = buffers s"
      "connections t = connections s" "listeners t = listeners s" "io_threads t = io_threads s" "conn_arrays t = conn_arrays s" "services t = services s"
      "loops t = loops s" "pollers t = (pollers s)(l_poller_data l \<mapsto> d\<lparr>p_events := map Some evs @ drop (length evs) (p_events d)\<rparr>)"
      using l(2) by (simp_all add: t_def after_wait_def Let_def)
    have k: "site_opened W k = site_opened W (kern s)" "site_interest W k = site_interest W (kern s)"
      using \<open>calm W (kern s) k\<close> e by (simp_all add: calm_def)
    have "conn_served W (\<lambda>_. 1) (\<lambda>_. site_limit W) t a c" if "connections t a = Some c" for a c
    proof -
      have sc: "conn_served W (\<lambda>_. 1) (\<lambda>_. site_limit W) s a c" using v(8) that f(8) by simp
      then have "c_fd c \<in> site_opened W (kern t)" by (simp add: conn_served_def f(1) k(1))
      then show ?thesis using that lt f by (intro conn_served_other[OF sc]) simp_all
    qed
    moreover have "grounds W t" by (rule grounds_cong[OF v(2)]) (simp_all add: f)
    moreover have "tabled W t" using v(3) conn_at_cong[OF f(12,11)] f by (simp add: tabled_def table_repr_def)
    moreover have "in_range W t"
      using v(4) l f(1,13,14) k(2) unfolding in_range_def by (auto split: if_splits)
    moreover have "fresh_above t" using v(5) f by (simp add: fresh_above_def)
    moreover have "buffers_apart t" using v(6) by (simp add: buffers_apart_def f)
    moreover have "started_known W t" using v(7) by (simp add: started_known_def f fixed_io_def)
    ultimately have "at_work W t" using lt by (simp add: serving_def at_work_def)
    then show ?thesis using Some evs(1) rng by (simp add: t_def)
  qed
qed

text \<open>The handlers of a service and its invariant meet the contract of rounds.\<close>

interpretation serve: guarded_rounds K "io_call K (site_user W) urun uasync uio" "it_loop (site_io W)" "\<lambda>s. site_fit K pending W \<and> at_work W s"
  for K :: "('k, 'y) sys_ops_scheme" and W :: "('k, ('k, 'z) sheap_scheme) site" and urun uasync uio pending
proof
  fix s :: "('k, 'z) sheap_scheme"
  show "loop_ok s (it_loop (site_io W))" if "site_fit K pending W \<and> at_work W s"
    using that servingD(1) by (auto simp: at_work_def)
  show "\<exists>t. io_call K (site_user W) urun uasync uio cb (it_loop (site_io W)) p s = Some t \<and> (site_fit K pending W \<and> at_work W t) \<and>
      loop_size t (it_loop (site_io W)) = loop_size s (it_loop (site_io W)) \<and> fired_cells t (it_loop (site_io W)) = fired_cells s (it_loop (site_io W))"
    if "site_fit K pending W \<and> at_work W s" "ios s p = Some io" "io_start io" "io_cb io = Some cb" for p io cb
    using io_call_keeps[OF _ _ that(2-4), of K pending W urun uasync uio] that(1) still_loop_same by blast
  show "case res of None \<Rightarrow> site_fit K pending W \<and> at_work W (s\<lparr>kern := k\<rparr>)
     | Some evs \<Rightarrow> int (length evs) \<le> l_setsize l \<and> (\<forall>ev \<in> set evs. 0 \<le> ev_fd ev \<and> ev_fd ev < l_setsize l) \<and>
         (site_fit K pending W \<and> at_work W (after_wait l k evs s))"
    if "site_fit K pending W \<and> at_work W s" "loops s (it_loop (site_io W)) = Some l" "pollers s (l_poller_data l) = Some d"
      "epoll_wait K (p_epfd d) (l_setsize l) timeout (kern s) = (res, k)" for l d timeout res k
    using wait_keeps[OF site_fitD(1) _ that(2-4)] that(1) by (auto split: option.splits)
qed

subsection \<open>Property\<close>

text \<open>C3. A service with one I/O thread and no workers, whose applications are well-behaved (\<open>app_safe\<close>: the callbacks for new and closed
  connections are absent or change nothing, \<^verbatim>\<open>decode\<close> consumes or refuses what it gets so that the read buffer stays within the limit,
  \<^verbatim>\<open>process\<close> only sets the response, \<^verbatim>\<open>encode\<close> returns for whatever is still buffered), on a kernel as in \<open>serve_doc\<close> (descriptors of clients
  below the set size of the loop, finitely many interruptions of \<^verbatim>\<open>accept\<close> in a row, \<^verbatim>\<open>strerror_r\<close> fills its array), serves for ever
  without undefined behaviour: any number of rounds of its loop,
  whatever such clients connect, send and take, in whatever order events arrive and whatever system calls fail, runs to the end and
  keeps the invariant: every connection in the table is complete and in no one else's way, an open one holds a single reference and a
  read buffer within the limit, every started watcher belongs to a live object.\<close>

theorem service_serves_for_ever:
  fixes s :: "('k, 'z) sheap_scheme"
  assumes "site_doc K pending W" "8192 \<le> site_limit W" "site_limit W \<le> INT_MAX" and "serving W (\<lambda>_. 1) (\<lambda>_. site_limit W) s"
  shows "\<exists>t. polls K (io_call K (site_user W) urun uasync uio) (it_loop (site_io W)) timeout n s = Some t \<and>
     serving W (\<lambda>_. 1) (\<lambda>_. site_limit W) t"
  using serve.rounds_safe[of K pending W s] assms by (simp add: site_fit_def at_work_def)

subsection \<open>A service that serves\<close>

text \<open>A kernel with two descriptors left for new clients, an application that stops encoding when the client does not read, and
  the service of the examples with its listener watched, a client on descriptor 5 and events for both.\<close>

definition ex_serve_sys :: "sim_os sys_ops" where
  "ex_serve_sys = sim_sys\<lparr>sys_accept := (\<lambda>fd k. case filter (\<lambda>x. x \<notin> set (os_open k)) [3, 4] of
     [] \<Rightarrow> (Inl EAGAIN, k) | x # _ \<Rightarrow> (Inr (x, \<lparr>sin_port = htons 4000, sin_addr = 16777343\<rparr>), k\<lparr>os_open := x # os_open k\<rparr>))\<rparr>"

definition ex_serve_app :: "sim_os sheap user_ops" where
  "ex_serve_app = ex_user\<lparr>u_encode := (\<lambda>f b p s. do { x \<leftarrow> deref (buffers s) b;
     if b_size x \<le> 65536 then u_encode ex_user f b p s else Some (XV_ERR, s) })\<rparr>"

definition ex_open :: "sim_os sheap" where
  "ex_open = ex_svc0\<lparr>brk := 104, queues := [102 \<mapsto> empty_queue, 104 \<mapsto> empty_queue],
     cqueues := [101 \<mapsto> \<lparr>cq_queue = 102, cq_mutex = False\<rparr>, 103 \<mapsto> \<lparr>cq_queue = 104, cq_mutex = False\<rparr>],
     kern := (kern ex_svc0)\<lparr>os_open := [2, 5, 6, 7], k_ready := [\<lparr>ev_events = EPOLLIN, ev_fd = 2\<rparr>, \<lparr>ev_events = EPOLLIN, ev_fd = 5\<rparr>],
       k_interest := (\<lambda>ep fd. if ep = 9 \<and> (fd = 2 \<or> fd = 5) then Some (epoll_mask XV_READ) else None)\<rparr>,
     ios := (ios ex_svc0)(51 \<mapsto> ex_io 2 XV_READ On_new_connection 50 True),
     event_arrays := [32 \<mapsto> ex_slots[2 := \<lparr>e_event = XV_READ, e_read_io = 51, e_write_io = NULL\<rparr>]],
     connections := [40 \<mapsto> ex_conn]\<rparr>"

definition ex_site :: "(sim_os, sim_os sheap) site" where
  "ex_site = \<lparr>site_interest = k_interest, site_opened = (\<lambda>k. set (os_open k)), site_user = ex_serve_app, site_limit = 65536,
     site_thread = 60, site_io = ex_thread, site_size = 8\<rparr>"

lemma ex_site_doc: "site_doc ex_serve_sys (\<lambda>_. 0) ex_site"
proof -
  have ops: "epoll_ctl_doc ex_serve_sys k_interest" "epoll_wait_doc ex_serve_sys k_interest"
    using sim_ctl_doc sim_wait_doc by (simp_all add: ex_serve_sys_def sim_sys_def sim_ops_def epoll_ctl_doc_def epoll_wait_doc_def)
  have acc: "case sys_accept ex_serve_sys fd k of
          (Inl e, k') \<Rightarrow> untouched k_interest (\<lambda>k. set (os_open k)) k k' \<and> (e = EINTR \<longrightarrow> (0 :: nat) < 0)
        | (Inr (cfd, sa), k') \<Rightarrow> 0 \<le> cfd \<and> cfd < 8 \<and> cfd \<notin> set (os_open k) \<and> set (os_open k') = insert cfd (set (os_open k)) \<and>
            (\<forall>ep fd'. k_interest k' ep fd' \<noteq> None \<longrightarrow> k_interest k ep fd' \<noteq> None)" for fd k
    by (simp add: ex_serve_sys_def untouched_def)
  have sys: "sys_read ex_serve_sys = os_read" "sys_write ex_serve_sys = os_write" "sys_setsockopt ex_serve_sys = (\<lambda>fd opt k. (0, k))"
    "sys_getfl ex_serve_sys = (\<lambda>fd k. (2, k))" "sys_setfl ex_serve_sys = (\<lambda>fd fl k. (0, k))" "epoll_ctl ex_serve_sys = sim_ctl"
    "epoll_wait ex_serve_sys = sim_wait" "sys_close ex_serve_sys = (\<lambda>fd k. (0, k\<lparr>os_open := removeAll fd (os_open k)\<rparr>))"
    "eventfd_read ex_serve_sys = eventfd_read sim_sys" "strerror_fills ex_serve_sys"
    by (simp_all add: ex_serve_sys_def sim_sys_def)
  have efd: "untouched k_interest (\<lambda>k. set (os_open k)) k (snd (eventfd_read sim_sys fd k))" for fd k
    by (simp add: sim_sys_def untouched_def split: option.split)
  have ctl: "os_open (snd (sim_ctl ep op fd ev k)) = os_open k" "os_open (snd (sim_wait ep m ms k)) = os_open k" for ep op fd ev k m ms
    by (simp_all add: sim_ctl_def sim_wait_def Let_def)
  have st: "site_interest ex_site = k_interest" "site_opened ex_site = (\<lambda>k. set (os_open k))" "site_size ex_site = 8"
    by (simp_all add: ex_site_def)
  show ?thesis
    unfolding site_doc_def serve_doc_def st sys(9)
    by (intro conjI allI ops acc efd) (auto simp: sys ctl untouched_def os_read_def os_write_def Let_def split: if_splits)
qed

lemma ex_serve_app_safe: "app_safe ex_serve_app 65536 ex_handle"
proof -
  have "decode_safe ex_serve_app 65536 0"
    unfolding decode_safe_def
  proof (intro allI impI)
    fix s :: "sim_os sheap" and rb b assume h: "rb \<noteq> NULL" "buffers s rb = Some b" "full_buffer b" "b_size b \<le> 65536"
    have "full_buffer (xv_buffer_clear b)" using h(3) buffer_wf_clear by (auto simp: full_buffer_def)
    moreover have "read_size (xv_buffer_clear b) \<le> 65536" using h(4) by (simp add: read_size_def xv_buffer_clear_def XV_DEFAULT_READ_SIZE_def)
    ultimately show "\<exists>ret req b'. u_decode ex_serve_app 0 rb s = Some (ret, req, s\<lparr>buffers := (buffers s)(rb \<mapsto> b')\<rparr>) \<and> full_buffer b' \<and>
        (ret = XV_ERR \<or> read_size b' \<le> 65536)"
      using h(1,2) by (intro exI[of _ XV_OK] exI[of _ 8] exI[of _ "xv_buffer_clear b"]) (simp add: ex_serve_app_def ex_user_def buffer_upd_def)
  qed
  moreover have "process_safe ex_serve_app 2"
    unfolding process_safe_def
    by (intro allI impI exI[of _ 9]) (simp add: processes_def ex_serve_app_def ex_user_def xv_message_set_response_def)
  moreover have "encode_safe ex_serve_app 1"
    unfolding encode_safe_def
  proof (intro allI impI)
    fix s :: "sim_os sheap" and wb b response assume h: "wb \<noteq> NULL" "buffers s wb = Some b" "full_buffer b"
    obtain bs where wf: "buffer_wf b" "readable b = map Some bs" using h(3) by (auto simp: full_buffer_def)
    show "\<exists>ret b'. u_encode ex_serve_app 1 wb response s = Some (ret, s\<lparr>buffers := (buffers s)(wb \<mapsto> b')\<rparr>) \<and> full_buffer b'"
    proof (cases "b_size b \<le> 65536")
      case True
      then have "b_size b + int (length [10, 20, 30 :: byte]) \<le> INT_MAX" by (simp add: INT_MAX_def)
      then obtain b' where "xv_buffer_write_data b [10, 20, 30] (int (length [10, 20, 30 :: byte])) = Some (int (length [10, 20, 30 :: byte]), b')"
        "buffer_wf b'" "readable b' = readable b @ map Some [10, 20, 30]"
        using write_data_law[OF wf(1)] by blast
      moreover from this(2,3) have "full_buffer b'"
        unfolding full_buffer_def wf(2) by (intro conjI exI[of _ "bs @ [10, 20, 30]"]) simp_all
      ultimately show ?thesis
        using h(1,2) True
        by (intro exI[of _ 0] exI[of _ b']) (auto simp: ex_serve_app_def ex_user_def buffer_upd_def)
    next
      case False
      then show ?thesis
        using h by (intro exI[of _ XV_ERR] exI[of _ b]) (simp add: ex_serve_app_def fun_upd_idem)
    qed
  qed
  ultimately show ?thesis by (simp add: app_safe_def ex_handle_def cleanup_silent_def)
qed

lemma ex_open_serving: "serving ex_site (\<lambda>_. 1) (\<lambda>_. 65536) ex_open"
proof -
  have i: "ios ex_open = (ios ex_svc0)(51 \<mapsto> ex_io 2 XV_READ On_new_connection 50 True)" by (simp add: ex_open_def)
  have "slots_ok (ios ex_open) (ex_slots[2 := \<lparr>e_event = XV_READ, e_read_io = 51, e_write_io = NULL\<rparr>])"
    unfolding i by (auto simp: slots_ok_def ex_slots_def nth_list_update slot_ok_def slot_mask_def watcher_ok_def empty_slot_def
        ex_svc0_def ex_io_def code_defs)
  then have l: "loop_ok ex_open 30"
    unfolding loop_ok_def loop_repr_def
    by (intro exI[of _ "\<lparr>l_poller_data = 31, l_events = 32, l_fired_events = 33, l_setsize = 8, l_start = True\<rparr>"]
        exI[of _ "\<lparr>p_epfd = 9, p_setsize = 8, p_events = replicate 8 None\<rparr>"]
        exI[of _ "ex_slots[2 := \<lparr>e_event = XV_READ, e_read_io = 51, e_write_io = NULL\<rparr>]"])
       (simp, simp add: ex_open_def ex_svc0_def ex_slots_def)
  have site: "it_loop (site_io ex_site) = 30" "it_service (site_io ex_site) = 70" "site_io ex_site = ex_thread" "site_thread ex_site = 60" "site_size ex_site = 8"
    "it_loop ex_thread = 30" "it_service ex_thread = 70" "it_conn_queue ex_thread = 101" "it_message_queue ex_thread = 103"
    by (simp_all add: ex_site_def ex_thread_def)
  have "grounds ex_site ex_open"
    using ex_serve_app_safe
    by (simp add: grounds_def site) (auto simp: ex_site_def ex_open_def ex_svc0_def loop_size_def idle_queue_def empty_queue_def split: if_splits)
  moreover have "tabled ex_site ex_open"
  proof -
    have e: "services ex_open = services ex_svc" "conn_arrays ex_open = conn_arrays ex_svc"
      unfolding ex_svc_more by (simp_all add: ex_open_def)
    have "table_repr ex_open 70 ex_sv ((replicate 8 (Some NULL))[5 := Some 40])" using ex_svc_table by (simp add: table_repr_def e)
    moreover have "conn_at ex_open 70 = (\<lambda>_. NULL)(5 := 40)" using ex_svc_conn_at conn_at_cong[OF e] by simp
    moreover have "connections ex_open = [40 \<mapsto> ex_conn]" by (simp add: ex_open_def)
    ultimately show ?thesis unfolding tabled_def site by (auto simp: ex_sv_def ex_conn_def)
  qed
  moreover have "in_range ex_site ex_open"
    unfolding in_range_def site by (auto simp: ex_site_def ex_open_def split: if_splits)
  moreover have "fresh_above ex_open" by (simp add: fresh_above_def ex_open_def ex_svc0_def)
  moreover have "buffers_apart ex_open" by (auto simp: buffers_apart_def ex_open_def split: if_splits)
  moreover have "started_known ex_site ex_open"
    unfolding started_known_def fixed_io_def site i
    by (auto simp: ex_open_def ex_svc0_def ex_io_def ex_conn_def split: if_splits)
  moreover have "conn_served ex_site (\<lambda>_. 1) (\<lambda>_. 65536) ex_open 40 ex_conn"
  proof -
    have "conn_ok ex_open 40 ex_conn ex_thread"
      using l unfolding conn_ok_def conn_watcher_def
      by (simp add: ex_open_def ex_svc0_def ex_conn_def ex_thread_def ex_io_def loop_size_def)
    then show ?thesis
      using new_buffer unfolding conn_served_def site
      by (simp add: ex_open_def ex_svc0_def ex_conn_def ex_io_def ex_site_def XV_DEFAULT_BUFFRT_SIZE_def xv_atomic_get_def)
  qed
  moreover have "connections ex_open a = Some c \<Longrightarrow> a = 40 \<and> c = ex_conn" for a c by (auto simp: ex_open_def split: if_splits)
  ultimately show ?thesis using l unfolding serving_def site by blast
qed

theorem service_serves_for_ever_witness:
  "\<exists>t. polls ex_serve_sys (io_call ex_serve_sys ex_serve_app (\<lambda>_ _. Some) (\<lambda>_ _ _. Some) (\<lambda>_ _ _. Some)) 30 (- 1) 1000 ex_open = Some t \<and>
     serving ex_site (\<lambda>_. 1) (\<lambda>_. 65536) t"
proof -
  have site: "site_limit ex_site = 65536" "site_user ex_site = ex_serve_app" "it_loop (site_io ex_site) = 30"
    by (simp_all add: ex_site_def ex_thread_def)
  show ?thesis
    using service_serves_for_ever[OF ex_site_doc, of ex_open "\<lambda>_ _. Some" "\<lambda>_ _ _. Some" "\<lambda>_ _ _. Some" "- 1" 1000] ex_open_serving
    by (simp add: site INT_MAX_def)
qed

end
