(* ===== verification/Xv_Startup.thy ===== *)
theory Xv_Startup
  imports Xv_Clients
begin

section \<open>From the first call to the running service\<close>

text \<open>
  The way a program with one I/O thread and no workers goes: \<^verbatim>\<open>xv_service_init\<close>, any number of \<^verbatim>\<open>xv_service_add_listen\<close>, each with its
  listening socket, \<^verbatim>\<open>xv_service_start\<close>, and the leader thread up to its loop. The invariant \<open>serving\<close> holds from the first of these calls on, so the
  rounds of \<^verbatim>\<open>Xv_Clients\<close> apply to the state in which the leader enters its loop.
\<close>

subsection \<open>What is asked of the kernel while the service is set up\<close>

text \<open>Descriptors stay below the limit \<open>n\<close> of open files, and a call that creates one adds nothing to an interest list. The three
  descriptors \<^verbatim>\<open>xv_service_init\<close> needs, an epoll instance and two eventfds, are to be had.\<close>

definition adds_none :: "('k \<Rightarrow> int \<Rightarrow> int \<Rightarrow> u32 option) \<Rightarrow> 'k \<Rightarrow> 'k \<Rightarrow> bool" where
  "adds_none interest k k' \<longleftrightarrow> (\<forall>ep fd. interest k' ep fd \<noteq> None \<longrightarrow> interest k ep fd \<noteq> None)"

definition startup_doc :: "('k, 'y) sys_ops_scheme \<Rightarrow> ('k \<Rightarrow> int \<Rightarrow> int \<Rightarrow> u32 option) \<Rightarrow> int \<Rightarrow> bool" where
  "startup_doc K interest n \<longleftrightarrow> epoll_create_doc K interest \<and>
     (\<forall>k fd k'. sys_eventfd K k = (fd, k') \<longrightarrow> fd < n \<and> adds_none interest k k') \<and>
     (\<forall>k fd k'. sys_socket K k = (fd, k') \<longrightarrow> fd < n \<and> adds_none interest k k') \<and>
     (\<forall>fd sa k. adds_none interest k (snd (sys_bind K fd sa k))) \<and> (\<forall>fd m k. adds_none interest k (snd (sys_listen K fd m k)))"

definition three_left :: "('k, 'y) sys_ops_scheme \<Rightarrow> 'k \<Rightarrow> bool" where
  "three_left K k \<longleftrightarrow> (case epoll_create K XV_DEFAULT_LOOP_SIZE k of (epfd, k1) \<Rightarrow> 0 \<le> epfd \<and>
     (case sys_eventfd K k1 of (e1, k2) \<Rightarrow> 0 \<le> e1 \<and> 0 \<le> fst (sys_eventfd K k2)))"

lemma startup_docD:
  assumes "startup_doc K interest n"
  shows "epoll_create_doc K interest"
    "\<forall>k fd k'. sys_eventfd K k = (fd, k') \<longrightarrow> fd < n \<and> adds_none interest k k'"
    "\<forall>k fd k'. sys_socket K k = (fd, k') \<longrightarrow> fd < n \<and> adds_none interest k k'"
    "\<forall>fd sa k. adds_none interest k (snd (sys_bind K fd sa k))" "\<forall>fd m k. adds_none interest k (snd (sys_listen K fd m k))"
  using assms unfolding startup_doc_def by - ((elim conjE, assumption)+)

lemma adds_none_refl [simp]: "adds_none interest k k"
  by (simp add: adds_none_def)

lemma adds_none_trans [trans]: "adds_none interest k k' \<Longrightarrow> adds_none interest k' k'' \<Longrightarrow> adds_none interest k k''"
  by (simp add: adds_none_def)

lemma untouched_adds_none: "untouched interest opened k k' \<Longrightarrow> adds_none interest k k'"
  by (simp add: untouched_def adds_none_def)

lemma close_adds_none:
  assumes "serve_doc K interest opened pending n"
  shows "adds_none interest k (snd (sys_close K fd k))"
  using serve_docD(11)[OF assms] unfolding adds_none_def by blast

lemma nonblock_adds_none:
  assumes "serve_doc K interest opened pending n"
  shows "\<exists>r k'. xv_nonblock K fd k = Some (r, k') \<and> adds_none interest k k'"
proof -
  obtain fl k1 where g: "sys_getfl K fd k = (fl, k1)" by fastforce
  obtain ret k2 where f: "sys_setfl K fd (fl OR O_NONBLOCK) k1 = (ret, k2)" by fastforce
  have "adds_none interest k k1" using serve_docD(8)[OF assms, rule_format, of k fd] g untouched_adds_none by fastforce
  moreover have "adds_none interest k1 k2" using serve_docD(9)[OF assms, rule_format, of k1 fd "fl OR O_NONBLOCK"] f untouched_adds_none by fastforce
  ultimately show ?thesis using g f serve_docD(15)[OF assms] by (auto simp: xv_nonblock_def intro: adds_none_trans)
qed

text \<open>A socket that listens.\<close>

lemma socket_doc:
  assumes K: "serve_doc K interest opened pending n" "startup_doc K interest n" and s: "xv_socket K k = Some (fd, k')"
  shows "fd < n \<or> fd = XV_ERR" "adds_none interest k k'"
proof -
  obtain sock k1 where a: "sys_socket K k = (sock, k1)" by fastforce
  obtain r k2 where b: "sys_setsockopt K sock SO_REUSEADDR k1 = (r, k2)" by fastforce
  have k1: "sock < n" "adds_none interest k k1" using startup_docD(3)[OF K(2)] a by blast+
  have k2: "adds_none interest k k2"
    using serve_docD(7)[OF K(1), rule_format, of k1 sock SO_REUSEADDR] b untouched_adds_none adds_none_trans[OF k1(2)] by fastforce
  have k3: "adds_none interest k (snd (sys_close K sock k2))" by (rule adds_none_trans[OF k2 close_adds_none[OF K(1)]])
  show "fd < n \<or> fd = XV_ERR" "adds_none interest k k'"
    using s a b k1 k2 k3 serve_docD(15)[OF K(1)] by (auto simp: xv_socket_def xv_tcp_reuse_addr_def xv_close_def Let_def split: if_splits prod.splits)
qed

lemma listen_doc:
  assumes K: "serve_doc K interest opened pending n" "startup_doc K interest n"
  shows "\<exists>fd k'. xv_tcp_listen K a port m k = Some (fd, k') \<and> (0 \<le> fd \<longrightarrow> fd < n) \<and> adds_none interest k k'"
proof -
  have l: "strerror_fills K" by (rule serve_docD(15)[OF K(1)])
  obtain sock k1 where so: "xv_socket K k = Some (sock, k1)" using wrappers_return(1)[OF l] by blast
  note d = socket_doc[OF K so]
  obtain r sa where fi: "fill_sockaddr K a port = (r, sa)" by fastforce
  obtain r2 k2 where bi: "sys_bind K sock sa k1 = (r2, k2)" by fastforce
  obtain r3 k3 where li: "sys_listen K sock m k2 = (r3, k3)" by fastforce
  have k2: "adds_none interest k k2" using startup_docD(4)[OF K(2), rule_format, of k1 sock sa] bi adds_none_trans[OF d(2)] by simp
  have k3: "adds_none interest k k3" using startup_docD(5)[OF K(2), rule_format, of k2 sock m] li adds_none_trans[OF k2] by simp
  show ?thesis
    using so fi bi li d k2 k3 l by (auto simp: xv_tcp_listen_def XV_ERR_def Let_def)
qed

subsection \<open>A service that is set up but not running\<close>

text \<open>The two async objects of the leader, and its listeners, as the leader will start them.\<close>

definition async_fit :: "('k, ('k, 'z) sheap_scheme) site \<Rightarrow> ('k, 'z) sheap_scheme \<Rightarrow> addr \<Rightarrow> bool" where
  "async_fit W s x \<longleftrightarrow> x \<noteq> NULL \<and> (\<exists>a io. asyncs s x = Some a \<and> as_userdata a = site_thread W \<and>
     as_cb a \<in> {Some Io_thread_add_conn_cb, Some Io_thread_return_message_cb} \<and> as_read_io a \<noteq> NULL \<and> ios s (as_read_io a) = Some io \<and>
     io_cb io = Some Common_async_cb \<and> io_userdata io = x \<and> io_event io = XV_READ \<and> 0 \<le> io_fd io \<and> io_fd io < site_size W)"

definition waiting_listener :: "('k, ('k, 'z) sheap_scheme) site \<Rightarrow> ('k, 'z) sheap_scheme \<Rightarrow> addr \<Rightarrow> bool" where
  "waiting_listener W s x \<longleftrightarrow> x \<noteq> NULL \<and> (\<exists>l io. listeners s x = Some l \<and> ls_io l \<noteq> NULL \<and> ios s (ls_io l) = Some io \<and>
     io_cb io = Some On_new_connection \<and> io_userdata io = x \<and> io_fd io = ls_fd l \<and> io_event io = XV_READ \<and> 0 \<le> io_fd io \<and> io_fd io < site_size W)"

definition set_up :: "('k, ('k, 'z) sheap_scheme) site \<Rightarrow> bool \<Rightarrow> addr list \<Rightarrow> ('k, 'z) sheap_scheme \<Rightarrow> bool" where
  "set_up W b xs s \<longleftrightarrow> at_work W s \<and> connections s = Map.empty \<and> (\<forall>p > brk s. listeners s p = None) \<and>
     it_idx (site_io W) = 0 \<and> async_fit W s (it_async_add_conn (site_io W)) \<and> async_fit W s (it_async_return_message (site_io W)) \<and>
     (\<exists>sv arr. services s (it_service (site_io W)) = Some sv \<and> sv_start sv = b \<and> chain (listeners s) xs (sv_listeners sv) \<and>
        sv_io_threads sv \<noteq> NULL \<and> io_thread_arrays s (sv_io_threads sv) = Some arr \<and> arr_get arr 0 = Some (Some (site_thread W))) \<and>
     distinct xs \<and> (\<forall>x \<in> set xs. waiting_listener W s x)"

lemma set_upD:
  assumes "set_up W b xs s"
  shows "at_work W s" "\<forall>p > brk s. listeners s p = None" "it_idx (site_io W) = 0" "async_fit W s (it_async_add_conn (site_io W))"
    "async_fit W s (it_async_return_message (site_io W))" "distinct xs" "\<And>x. x \<in> set xs \<Longrightarrow> waiting_listener W s x"
    "connections s = Map.empty"
  using assms by (simp_all add: set_up_def)

text \<open>A service without connections.\<close>

lemma at_work_idle:
  assumes "loop_ok s (it_loop (site_io W))" "grounds W s" "tabled W s" "in_range W s" "fresh_above s" "started_known W s" "connections s = Map.empty"
  shows "at_work W s"
  using assms by (simp add: at_work_def serving_def buffers_apart_def)

text \<open>What \<^verbatim>\<open>xv_service_init\<close> returns for one I/O thread and no workers.\<close>

definition lone_service :: "('k, 'z) sheap_scheme \<Rightarrow> xv_service_config_t \<Rightarrow> int \<Rightarrow> int \<Rightarrow> int \<Rightarrow> 'k \<Rightarrow> ('k, 'z) sheap_scheme" where
  "lone_service s config epfd e1 e2 k =
     (let n = brk s; t = add_thread (n + 3) 0 (n + 1) epfd e1 e2 k s
      in t\<lparr>brk := n + 16, io_thread_arrays := (io_thread_arrays s)(n + 2 \<mapsto> [Some (n + 3)]),
           conn_arrays := (conn_arrays s)(n + 16 \<mapsto> replicate (nat XV_DEFAULT_LOOP_SIZE) (Some NULL)),
           services := (services s)(n + 1 \<mapsto> new_service config (n + 2) (n + 16))\<rparr>)"

lemma lone_init:
  fixes s :: "('k, 'z) sheap_scheme"
  assumes K: "startup_doc K interest n" "three_left K (kern s)" and c: "io_thread_count config = 1" "worker_thread_count config = 0"
  shows "\<exists>epfd e1 e2 k. xv_service_init K s config = Some (brk s + 1, lone_service s config epfd e1 e2 k) \<and>
    0 \<le> e1 \<and> e1 < n \<and> 0 \<le> e2 \<and> e2 < n \<and> (\<forall>fd. interest k epfd fd = None) \<and>
    snd (sys_eventfd K (snd (sys_eventfd K (snd (epoll_create K XV_DEFAULT_LOOP_SIZE (kern s)))))) = k"
proof -
  note d = startup_docD[OF K(1)]
  obtain epfd k1 where k1: "epoll_create K XV_DEFAULT_LOOP_SIZE (kern s) = (epfd, k1)" by fastforce
  obtain e1 k2 where k2: "sys_eventfd K k1 = (e1, k2)" by fastforce
  obtain e2 k3 where k3: "sys_eventfd K k2 = (e2, k3)" by fastforce
  have e: "0 \<le> e1" "e1 < n" "0 \<le> e2" "e2 < n" "adds_none interest k1 k3"
    using d(2) k2 k3 K(2) k1 by (auto simp: three_left_def intro: adds_none_trans)
  have "0 \<le> epfd" using K(2) k1 k2 by (simp add: three_left_def)
  then have "interest k1 epfd fd = None" for fd using d(1) k1 unfolding epoll_create_doc_def by blast
  then have none: "interest k3 epfd fd = None" for fd using e(5) unfolding adds_none_def by blast
  define s1 where "s1 = s\<lparr>brk := brk s + 2, io_thread_arrays := (io_thread_arrays s)(brk s + 2 \<mapsto> [None])\<rparr>"
  have th: "xv_io_thread_init K s1 0 (brk s + 1) = Some (brk s + 3, add_thread (brk s + 3) 0 (brk s + 1) epfd e1 e2 k3 s1)"
    using io_thread_init_eq[of K s1 epfd k1 e1 k2 e2 k3 0 "brk s + 1"] k1 k2 k3 e by (simp add: s1_def numeral_3_eq_3)
  have init: "xv_service_init K s config = Some (brk s + 1, lone_service s config epfd e1 e2 k3)"
    using c th by (cases s) (simp add: xv_service_init_def xv_malloc_def s1_def arr_set_def lone_service_def add_thread_def new_service_def
        xv_atomic_set_def Let_def eval_nat_numeral)
  have last: "snd (sys_eventfd K (snd (sys_eventfd K (snd (epoll_create K XV_DEFAULT_LOOP_SIZE (kern s)))))) = k3" by (simp add: k1 k2 k3)
  show ?thesis using init e(1-4) none last by blast
qed

text \<open>The world of the new service; nothing else in the process uses its kinds of objects.\<close>

definition leader_site :: "('k \<Rightarrow> int \<Rightarrow> int \<Rightarrow> u32 option) \<Rightarrow> ('k \<Rightarrow> int set) \<Rightarrow> 's user_ops \<Rightarrow> int \<Rightarrow> addr \<Rightarrow> xv_io_thread_t \<Rightarrow> ('k, 's) site" where
  "leader_site interest opened U B p th = \<lparr>site_interest = interest, site_opened = opened, site_user = U, site_limit = B,
     site_thread = p, site_io = th, site_size = XV_DEFAULT_LOOP_SIZE\<rparr>"

lemma leader_site_simps [simp]:
  "site_interest (leader_site interest opened U B p th) = interest" "site_opened (leader_site interest opened U B p th) = opened"
  "site_user (leader_site interest opened U B p th) = U" "site_limit (leader_site interest opened U B p th) = B"
  "site_thread (leader_site interest opened U B p th) = p" "site_io (leader_site interest opened U B p th) = th"
  "site_size (leader_site interest opened U B p th) = XV_DEFAULT_LOOP_SIZE"
  by (simp_all add: leader_site_def)

definition fresh_process :: "('k, 'z) sheap_scheme \<Rightarrow> bool" where
  "fresh_process s \<longleftrightarrow> ios s = Map.empty \<and> connections s = Map.empty \<and> listeners s = Map.empty \<and> (\<forall>p > brk s. buffers s p = None)"

lemma new_thread_simps [simp]:
  "it_loop (new_thread p i service) = p + 1" "it_service (new_thread p i service) = service" "it_idx (new_thread p i service) = i"
  "it_conn_queue (new_thread p i service) = p + 5" "it_message_queue (new_thread p i service) = p + 9"
  "it_async_add_conn (new_thread p i service) = p + 7" "it_async_return_message (new_thread p i service) = p + 11"
  by (simp_all add: new_thread_def)

lemma lone_set_up:
  fixes s :: "('k, 'z) sheap_scheme"
  assumes s: "fresh_process s" and c: "io_thread_count config = 1" and e: "0 \<le> e1" "e1 < XV_DEFAULT_LOOP_SIZE" "0 \<le> e2" "e2 < XV_DEFAULT_LOOP_SIZE"
    and k: "\<And>fd. interest k epfd fd = None"
  shows "set_up (leader_site interest opened U B (brk s + 3) (new_thread (brk s + 3) 0 (brk s + 1))) False [] (lone_service s config epfd e1 e2 k)"
proof -
  let ?p = "brk s + 3" and ?svc = "brk s + 1"
  define t where "t = lone_service s config epfd e1 e2 k"
  define W where "W = leader_site interest opened U B ?p (new_thread ?p 0 ?svc)"
  have f: "brk t = brk s + 16" "kern t = k" "connections t = Map.empty" "listeners t = Map.empty" "buffers t = buffers s"
    "ios t = [?p + 8 \<mapsto> new_io e1 XV_READ Common_async_cb (?p + 7), ?p + 12 \<mapsto> new_io e2 XV_READ Common_async_cb (?p + 11)]"
    "loops t (?p + 1) = Some (new_loop ?p)" "services t = (services s)(?svc \<mapsto> new_service config (brk s + 2) (brk s + 16))"
    "conn_arrays t = (conn_arrays s)(brk s + 16 \<mapsto> replicate (nat XV_DEFAULT_LOOP_SIZE) (Some NULL))"
    "io_thread_arrays t = (io_thread_arrays s)(brk s + 2 \<mapsto> [Some ?p])"
    "asyncs t (?p + 7) = Some (new_async e1 Io_thread_add_conn_cb ?p (?p + 8))" "asyncs t (?p + 11) = Some (new_async e2 Io_thread_return_message_cb ?p (?p + 12))"
    "io_threads t ?p = Some (new_thread ?p 0 ?svc)"
    "pollers t (?p + 2) = Some \<lparr>p_epfd = epfd, p_setsize = XV_DEFAULT_LOOP_SIZE, p_events = replicate (nat XV_DEFAULT_LOOP_SIZE) None\<rparr>"
    using s by (simp_all add: t_def lone_service_def add_thread_def fresh_process_def Let_def)
  have r: "thread_repr t ?p 0 ?svc"
    using add_thread_repr[of ?p 0 ?svc epfd e1 e2 k s] by (simp add: thread_repr_def t_def lone_service_def Let_def)
  note lo = new_loop_ok[OF r]
  have "idle_queue t (?p + 5)" "idle_queue t (?p + 9)" using r by (auto simp: idle_queue_def thread_repr_def empty_queue_def)
  then have "grounds W t" using f lo(2) by (simp add: grounds_def W_def)
  moreover have "tabled W t"
  proof -
    have "table_repr t ?svc (new_service config (brk s + 2) (brk s + 16)) (replicate (nat XV_DEFAULT_LOOP_SIZE) (Some NULL))"
      using f by (simp add: table_repr_def new_service_def XV_DEFAULT_LOOP_SIZE_def INT_MAX_def)
    moreover from conn_at_repr[OF this] have "conn_at t ?svc fd = NULL" for fd by (simp add: new_service_def nat_less_iff)
    ultimately show ?thesis using c f(3) by (auto simp: tabled_def W_def new_service_def)
  qed
  moreover have "in_range W t" using f k by (simp add: in_range_def W_def new_loop_def)
  moreover have "fresh_above t" using f s by (simp add: fresh_above_def fresh_process_def)
  moreover have "started_known W t" by (auto simp: started_known_def f new_io_def split: if_splits)
  ultimately have work: "at_work W t" using f(3) lo(1) by (intro at_work_idle) (simp_all add: W_def)
  have "async_fit W t (?p + 7)" "async_fit W t (?p + 11)" using f e by (simp_all add: async_fit_def W_def new_async_def new_io_def)
  then show ?thesis
    using work f unfolding set_up_def t_def[symmetric] W_def[symmetric]
    by (simp add: W_def new_service_def arr_get_def)
qed

subsection \<open>Adding listeners\<close>

lemma set_up_kern:
  fixes s :: "('k, 'z) sheap_scheme"
  assumes s: "set_up W b xs s" and k: "adds_none (site_interest W) (kern s) k"
  shows "set_up W b xs (s\<lparr>kern := k\<rparr>)"
proof -
  define t where "t = s\<lparr>kern := k\<rparr>"
  note d = servingD[OF set_upD(1)[OF s, unfolded at_work_def]]
  have "loop_ok t (it_loop (site_io W))" by (rule loop_ok_cong[OF d(1)]) (simp_all add: t_def)
  moreover have "grounds W t" by (rule grounds_cong[OF d(2)]) (simp_all add: t_def)
  moreover have "tabled W t" using d(3) conn_at_cong[of t s] by (simp add: tabled_def table_repr_def t_def)
  moreover have "in_range W t" using d(4) k unfolding in_range_def adds_none_def by (simp add: t_def)
  moreover have "fresh_above t" using d(5) by (simp add: fresh_above_def t_def)
  moreover have "started_known W t" using d(7) by (simp add: started_known_def fixed_io_def t_def)
  ultimately have "at_work W t" using set_upD(8)[OF s] by (intro at_work_idle) (simp_all add: t_def)
  then show ?thesis using s by (simp add: set_up_def async_fit_def waiting_listener_def t_def)
qed

lemma chain_fresh: "x \<notin> set xs \<Longrightarrow> chain (h(x := y)) xs p = chain h xs p"
  by (induction xs arbitrary: p) auto

text \<open>The state after \<^verbatim>\<open>xv_listener_init\<close>, with the new listener at the head of the chain.\<close>

definition listening ::
  "('k, ('k, 'z) sheap_scheme) site \<Rightarrow> ('k, 'z) sheap_scheme \<Rightarrow> xv_service_t \<Rightarrow> string \<Rightarrow> int \<Rightarrow> int \<Rightarrow> xv_service_handle_t \<Rightarrow> ('k, 'z) sheap_scheme" where
  "listening W s sv a port fd h = s\<lparr>brk := brk s + 2, ios := (ios s)(brk s + 2 \<mapsto> new_io fd XV_READ On_new_connection (brk s + 1)),
     listeners := (listeners s)(brk s + 1 \<mapsto> \<lparr>ls_addr = copy_addr a, ls_port = port, ls_fd = fd, ls_io = brk s + 2, ls_handle = h,
       ls_io_thread = NULL, ls_next = Some (sv_listeners sv)\<rparr>),
     services := (services s)(it_service (site_io W) \<mapsto> sv\<lparr>sv_listeners := brk s + 1\<rparr>)\<rparr>"

lemma listening_set_up:
  fixes s :: "('k, 'z) sheap_scheme"
  assumes s: "set_up W b xs s" and sv: "services s (it_service (site_io W)) = Some sv" and h: "app_safe (site_user W) (site_limit W) h"
    and fd: "0 \<le> fd" "fd < site_size W"
  shows "set_up W b ((brk s + 1) # xs) (listening W s sv a port fd h)"
proof -
  let ?n = "brk s" and ?sv = "it_service (site_io W)"
  define t where "t = listening W s sv a port fd h"
  note u = set_upD[OF s] and d = servingD[OF set_upD(1)[OF s, unfolded at_work_def]]
  have f: "brk t = ?n + 2" "ios t = (ios s)(?n + 2 \<mapsto> new_io fd XV_READ On_new_connection (?n + 1))" "kern t = kern s" "connections t = connections s"
    "buffers t = buffers s" "asyncs t = asyncs s" "loops t = loops s" "pollers t = pollers s" "io_threads t = io_threads s"
    "conn_arrays t = conn_arrays s" "io_thread_arrays t = io_thread_arrays s"
    "services t = (services s)(?sv \<mapsto> sv\<lparr>sv_listeners := ?n + 1\<rparr>)"
    "listeners t = (listeners s)(?n + 1 \<mapsto> \<lparr>ls_addr = copy_addr a, ls_port = port, ls_fd = fd, ls_io = ?n + 2, ls_handle = h,
       ls_io_thread = NULL, ls_next = Some (sv_listeners sv)\<rparr>)"
    by (simp_all add: t_def listening_def)
  have fresh: "ios s (?n + 2) = None" "listeners s (?n + 1) = None" using d(5) u(2) by (simp_all add: fresh_above_def)
  have new: "?n + 1 \<notin> set xs" using u(7) fresh(2) by (force simp: waiting_listener_def)
  have "loop_ok t (it_loop (site_io W))" by (rule loop_ok_cong[OF d(1)]) (use fresh in \<open>auto simp: t_def listening_def\<close>)
  moreover have "grounds W t"
    using d(2) h by (auto simp: grounds_def loop_size_def idle_queue_def t_def listening_def)
  moreover have "tabled W t"
  proof -
    have "conn_at t ?sv = conn_at s ?sv" using sv by (auto simp: fun_eq_iff conn_at_def f)
    then show ?thesis using d(3) sv f by (auto simp: tabled_def table_repr_def)
  qed
  moreover have "in_range W t" using d(4) by (simp add: in_range_def f)
  moreover have "fresh_above t" using d(5) by (simp add: fresh_above_def f)
  moreover have "started_known W t"
    unfolding started_known_def
  proof (intro allI impI)
    fix p io assume p: "ios t p = Some io" "io_start io"
    then have "ios s p = Some io" by (auto simp: f new_io_def split: if_splits)
    then have k: "p \<noteq> NULL \<and> (fixed_io W s io \<or> (\<exists>c. connections s (io_userdata io) = Some c \<and> p \<in> {c_read_io c, c_write_io c}))"
      using d(7) p(2) unfolding started_known_def by blast
    have "fixed_io W t io" if "fixed_io W s io"
      using that fresh(2) unfolding fixed_io_def by (auto simp: f(6,13))
    then show "p \<noteq> NULL \<and> (fixed_io W t io \<or> (\<exists>c. connections t (io_userdata io) = Some c \<and> p \<in> {c_read_io c, c_write_io c}))"
      using k f(4) by auto
  qed
  ultimately have work: "at_work W t" using u(8) f by (intro at_work_idle) simp_all
  have io: "ios t p = ios s p" if "ios s p \<noteq> None" for p using that fresh(1) by (auto simp: f)
  have a: "async_fit W t x" if "async_fit W s x" for x
    using that io unfolding async_fit_def f(6) by (metis option.distinct(1))
  have l: "waiting_listener W t x" if "x \<in> set xs" for x
  proof -
    have "x \<noteq> ?n + 1" using that new by auto
    then have "listeners t x = listeners s x" by (simp add: f(13))
    then show ?thesis using u(7)[OF that] io unfolding waiting_listener_def by (metis option.distinct(1))
  qed
  have nl: "waiting_listener W t (?n + 1)" using fd by (simp add: waiting_listener_def f new_io_def)
  obtain arr where sa: "chain (listeners s) xs (sv_listeners sv)" "sv_io_threads sv \<noteq> NULL" "io_thread_arrays s (sv_io_threads sv) = Some arr"
    "arr_get arr 0 = Some (Some (site_thread W))" "sv_start sv = b" using s sv by (auto simp: set_up_def)
  have "chain (listeners t) ((?n + 1) # xs) (?n + 1)" using sa(1) chain_fresh[OF new] by (simp add: f(13))
  moreover have "\<forall>p > brk t. listeners t p = None" using u(2) by (simp add: f)
  ultimately show ?thesis
    unfolding set_up_def t_def[symmetric] using work u(3-6,8) a l nl new sa f by auto
qed

lemma add_listen_set_up:
  fixes s :: "('k, 'z) sheap_scheme"
  assumes K: "site_doc K pending W" "startup_doc K (site_interest W) (site_size W)" and s: "set_up W b xs s" and h: "app_safe (site_user W) (site_limit W) h"
  obtains fd k1 r k2 where "xv_tcp_listen K a port 1024 (kern s) = Some (fd, k1)" "xv_nonblock K fd k1 = Some (r, k2)"
    "fd < 0 \<Longrightarrow> xv_service_add_listen K s (it_service (site_io W)) a port h = None"
    "0 \<le> fd \<Longrightarrow> \<exists>ret t ys. xv_service_add_listen K s (it_service (site_io W)) a port h = Some (ret, t) \<and> set_up W b ys t \<and>
      kern t = (if r = XV_OK then k2 else snd (xv_close K fd k2))"
proof -
  let ?sv = "it_service (site_io W)"
  note doc = K(1)[unfolded site_doc_def]
  obtain fd k1 where l: "xv_tcp_listen K a port 1024 (kern s) = Some (fd, k1)" and ld: "0 \<le> fd \<longrightarrow> fd < site_size W" "adds_none (site_interest W) (kern s) k1"
    using listen_doc[OF doc K(2), of a port 1024 "kern s"] by blast
  obtain r k2 where nb: "xv_nonblock K fd k1 = Some (r, k2)" and nk: "adds_none (site_interest W) k1 k2" using nonblock_adds_none[OF doc, of fd k1] by blast
  have k2: "adds_none (site_interest W) (kern s) k2" by (rule adds_none_trans[OF ld(2) nk])
  have k3: "adds_none (site_interest W) (kern s) (snd (xv_close K fd k2))"
    using adds_none_trans[OF k2 close_adds_none[OF doc]] by (simp add: xv_close_def)
  obtain sv where sv: "services s ?sv = Some sv" "?sv \<noteq> NULL"
    using serving_service(3,4)[OF set_upD(1)[OF s, unfolded at_work_def]] by blast
  show thesis
  proof (rule that[OF l nb])
    show "xv_service_add_listen K s ?sv a port h = None" if "fd < 0" using l that by (simp add: xv_service_add_listen_def)
    assume fd: "0 \<le> fd"
    show "\<exists>ret t ys. xv_service_add_listen K s ?sv a port h = Some (ret, t) \<and> set_up W b ys t \<and> kern t = (if r = XV_OK then k2 else snd (xv_close K fd k2))"
    proof (cases "r = XV_OK")
      case False
      then show ?thesis using fd l nb set_up_kern[OF s k3] by (auto simp: xv_service_add_listen_def Let_def)
    next
      case True
      define u where "u = s\<lparr>kern := k2\<rparr>"
      have u: "set_up W b xs u" "services u ?sv = Some sv" "brk u = brk s" using set_up_kern[OF s k2] sv by (simp_all add: u_def)
      have "xv_service_add_listen K s ?sv a port h = Some (XV_OK, listening W u sv a port fd h)"
        using fd True l nb sv by (cases s) (simp add: xv_service_add_listen_def xv_listener_init_def xv_malloc_def xv_io_init_def xv_io_set_userdata_def
            listening_def u_def new_io_def Let_def eval_nat_numeral)
      moreover have "kern (listening W u sv a port fd h) = k2" by (simp add: listening_def u_def)
      ultimately show ?thesis using listening_set_up[OF u(1,2) h fd ld(1)[rule_format, OF fd], of a port] True by auto
    qed
  qed
qed

text \<open>Any number of listeners, one call after the other.\<close>

fun add_listens ::
  "('k, 'y) sys_ops_scheme \<Rightarrow> addr \<Rightarrow> (string \<times> int \<times> xv_service_handle_t) list \<Rightarrow> ('k, 'z) sheap_scheme \<Rightarrow> ('k, 'z) sheap_scheme option" where
  "add_listens K service [] s = Some s"
| "add_listens K service ((a, port, h) # rs) s = do {
     (_, s) \<leftarrow> xv_service_add_listen K s service a port h;
     add_listens K service rs s }"

text \<open>Every call gets its listening socket, made non-blocking or closed again.\<close>

fun listens :: "('k, 'y) sys_ops_scheme \<Rightarrow> (string \<times> int \<times> xv_service_handle_t) list \<Rightarrow> 'k \<Rightarrow> bool" where
  "listens K [] k = True"
| "listens K ((a, port, h) # rs) k = (case xv_tcp_listen K a port 1024 k of None \<Rightarrow> False
     | Some (fd, k1) \<Rightarrow> 0 \<le> fd \<and> (case xv_nonblock K fd k1 of None \<Rightarrow> False
        | Some (r, k2) \<Rightarrow> listens K rs (if r = XV_OK then k2 else snd (xv_close K fd k2))))"

lemma add_listens_set_up:
  fixes s :: "('k, 'z) sheap_scheme"
  assumes K: "site_doc K pending W" "startup_doc K (site_interest W) (site_size W)"
  shows "set_up W b xs s \<Longrightarrow> \<forall>(a, port, h) \<in> set rs. app_safe (site_user W) (site_limit W) h \<Longrightarrow>
    if listens K rs (kern s) then \<exists>t ys. add_listens K (it_service (site_io W)) rs s = Some t \<and> set_up W b ys t
    else add_listens K (it_service (site_io W)) rs s = None"
proof (induction rs arbitrary: s xs)
  case (Cons r rs)
  obtain a port h where r: "r = (a, port, h)" by (cases r)
  then have h: "app_safe (site_user W) (site_limit W) h" using Cons.prems(2) by simp
  obtain fd k1 q k2 where l: "xv_tcp_listen K a port 1024 (kern s) = Some (fd, k1)" "xv_nonblock K fd k1 = Some (q, k2)"
    "fd < 0 \<Longrightarrow> xv_service_add_listen K s (it_service (site_io W)) a port h = None"
    "0 \<le> fd \<Longrightarrow> \<exists>ret t ys. xv_service_add_listen K s (it_service (site_io W)) a port h = Some (ret, t) \<and> set_up W b ys t \<and>
      kern t = (if q = XV_OK then k2 else snd (xv_close K fd k2))"
    using add_listen_set_up[OF K Cons.prems(1) h] by blast
  show ?case
  proof (cases "0 \<le> fd")
    case True
    obtain ret t ys where t: "xv_service_add_listen K s (it_service (site_io W)) a port h = Some (ret, t)" "set_up W b ys t"
      "kern t = (if q = XV_OK then k2 else snd (xv_close K fd k2))" using l(4)[OF True] by blast
    have "listens K (r # rs) (kern s) = listens K rs (kern t)" using True l(1,2) t(3) r by simp
    moreover have "add_listens K (it_service (site_io W)) (r # rs) s = add_listens K (it_service (site_io W)) rs t" using r t(1) by simp
    moreover have "\<forall>(a, port, h) \<in> set rs. app_safe (site_user W) (site_limit W) h" using Cons.prems(2) by simp
    from Cons.IH[OF t(2) this] have "if listens K rs (kern t) then \<exists>u ys. add_listens K (it_service (site_io W)) rs t = Some u \<and> set_up W b ys u
        else add_listens K (it_service (site_io W)) rs t = None" .
    ultimately show ?thesis by (simp only:)
  next
    case False
    then show ?thesis using l(1,3) r by simp
  qed
qed auto

subsection \<open>Starting\<close>

text \<open>\<^verbatim>\<open>pthread_create\<close> succeeds; what the new thread does is not part of the call.\<close>

definition creates :: "('k, 'z) sheap_scheme pthread_ops \<Rightarrow> bool" where
  "creates P \<longleftrightarrow> (\<forall>e a s. \<exists>i. pth_create P e a s = (0, i, s))"

definition with_id :: "('k, 's) site \<Rightarrow> tid \<Rightarrow> ('k, 's) site" where
  "with_id W i = W\<lparr>site_io := (site_io W)\<lparr>it_id := Some i\<rparr>\<rparr>"

lemma with_id_simps [simp]:
  "site_interest (with_id W i) = site_interest W" "site_opened (with_id W i) = site_opened W" "site_user (with_id W i) = site_user W"
  "site_limit (with_id W i) = site_limit W" "site_thread (with_id W i) = site_thread W" "site_size (with_id W i) = site_size W"
  "it_loop (site_io (with_id W i)) = it_loop (site_io W)" "it_service (site_io (with_id W i)) = it_service (site_io W)"
  "it_idx (site_io (with_id W i)) = it_idx (site_io W)" "it_conn_queue (site_io (with_id W i)) = it_conn_queue (site_io W)"
  "it_message_queue (site_io (with_id W i)) = it_message_queue (site_io W)"
  "it_async_add_conn (site_io (with_id W i)) = it_async_add_conn (site_io W)"
  "it_async_return_message (site_io (with_id W i)) = it_async_return_message (site_io W)"
  "site_io (with_id W i) = (site_io W)\<lparr>it_id := Some i\<rparr>"
  by (simp_all add: with_id_def)

lemma service_start_set_up:
  fixes s :: "('k, 'z) sheap_scheme"
  assumes s: "set_up W False xs s" and P: "creates P"
  shows "\<exists>t i. xv_service_start K P s (it_service (site_io W)) = Some (XV_OK, t) \<and> set_up (with_id W i) True xs t"
proof -
  let ?sv = "it_service (site_io W)" and ?p = "site_thread W"
  note u = set_upD[OF s] and d = servingD[OF set_upD(1)[OF s, unfolded at_work_def]]
  note serv = serving_service[OF u(1)[unfolded at_work_def]]
  obtain sv arr where sv: "services s ?sv = Some sv" "\<not> sv_start sv" "chain (listeners s) xs (sv_listeners sv)"
    "sv_io_threads sv \<noteq> NULL" "io_thread_arrays s (sv_io_threads sv) = Some arr" "arr_get arr 0 = Some (Some ?p)"
    using s by (auto simp: set_up_def)
  have one: "sv_worker_threads sv = NULL" "io_thread_count (sv_config sv) = 1" using serv(4) sv(1) by simp_all
  define v where "v = s\<lparr>services := (services s)(?sv \<mapsto> sv\<lparr>sv_start := True\<rparr>)\<rparr>"
  obtain i where i: "pth_create P Io_thread_entry ?p v = (0, i, v)" using P unfolding creates_def by blast
  define t where "t = v\<lparr>io_threads := (io_threads s)(?p \<mapsto> (site_io W)\<lparr>it_id := Some i\<rparr>)\<rparr>"
  define W' where "W' = with_id W i"
  have run: "xv_service_start K P s ?sv = Some (XV_OK, t)"
    using serv(1-3) sv one i by (simp add: xv_service_start_def io_thread_at_def v_def t_def)
  have f: "services t = (services s)(?sv \<mapsto> sv\<lparr>sv_start := True\<rparr>)" "io_threads t = (io_threads s)(?p \<mapsto> (site_io W)\<lparr>it_id := Some i\<rparr>)"
    "kern t = kern s" "brk t = brk s" "ios t = ios s" "loops t = loops s" "pollers t = pollers s" "asyncs t = asyncs s" "listeners t = listeners s"
    "connections t = connections s" "conn_arrays t = conn_arrays s" "buffers t = buffers s" "io_thread_arrays t = io_thread_arrays s"
    "cqueues t = cqueues s" "queues t = queues s"
    by (simp_all add: t_def v_def)
  have "loop_ok t (it_loop (site_io W'))" using loop_ok_cong[OF d(1), of t] by (simp add: W'_def t_def v_def)
  moreover have "grounds W' t" using d(2) by (simp add: grounds_def W'_def idle_queue_def loop_size_def f)
  moreover have "tabled W' t"
  proof -
    have "conn_at t ?sv = conn_at s ?sv" using sv(1) by (auto simp: fun_eq_iff conn_at_def f)
    then show ?thesis using d(3) sv(1) f by (auto simp: tabled_def table_repr_def W'_def)
  qed
  moreover have "in_range W' t" using d(4) by (simp add: in_range_def f W'_def)
  moreover have "fresh_above t" using d(5) by (simp add: fresh_above_def f)
  moreover have "started_known W' t" using d(7) by (simp add: started_known_def fixed_io_def f W'_def)
  ultimately have "at_work W' t" using u(8) f by (intro at_work_idle) simp_all
  then have "set_up W' True xs t"
    using u sv f unfolding set_up_def async_fit_def waiting_listener_def W'_def by simp
  then show ?thesis using run by (auto simp: W'_def)
qed

subsection \<open>The leader\<close>

text \<open>One of its watchers is started.\<close>

lemma start_fixed:
  fixes s :: "('k, 'z) sheap_scheme"
  assumes doc: "site_doc K pending W" and s: "set_up W b xs s"
    and io: "p \<noteq> NULL" "ios s p = Some io" "fixed_io W s io" "io_event io = XV_READ" "0 \<le> io_fd io" "io_fd io < site_size W"
  shows "\<exists>r t. xv_io_start K s (it_loop (site_io W)) p = Some (r, t) \<and> set_up W b xs t \<and> lheap.more t = lheap.more s"
proof -
  let ?L = "it_loop (site_io W)"
  note u = set_upD[OF s] and d = servingD[OF set_upD(1)[OF s, unfolded at_work_def]]
  have size: "loop_size s ?L = site_size W" using d(2) by (simp add: grounds_def)
  have "watcher_fits s ?L p" using io size by (simp add: watcher_fits_def)
  then obtain r t where t: "xv_io_start K s ?L p = Some (r, t)" "loop_ok t ?L" "io_moved K p True s t"
    using io_start_moves[OF d(1)] by blast
  have f: "w_frame s t" "ios t = (ios s)(p \<mapsto> io\<lparr>io_start := True\<rparr>)" "calm W (kern s) (kern t)"
    using t(3) io(2) calm_calls(7)[OF doc io(5,6)] by (auto simp: io_moved_def)
  note g = more_sheap_l[OF w_frame_fields(4)[OF f(1)]]
  have w: "loops t = loops s" "pollers t = pollers s" "brk t = brk s" "cqueues t = cqueues s" "queues t = queues s"
    using f(1) by (simp_all add: w_frame_def)
  have "grounds W t" by (rule grounds_cong[OF d(2)]) (simp_all add: g w)
  moreover have "tabled W t" using d(3) conn_at_cong[OF g(14,13)] g by (simp add: tabled_def table_repr_def)
  moreover have "in_range W t" using d(4) f(3) unfolding in_range_def calm_def w by blast
  moreover have "fresh_above t" using d(5) fresh_below[OF d(5), of p] io(2) g w f(2) by (auto simp: fresh_above_def)
  moreover have "started_known W t"
    unfolding started_known_def
  proof (intro allI impI)
    fix q x assume q: "ios t q = Some x" "io_start x"
    have eq: "fixed_io W t y = fixed_io W s y" for y by (rule fixed_io_cong) (simp_all add: g)
    show "q \<noteq> NULL \<and> (fixed_io W t x \<or> (\<exists>c. connections t (io_userdata x) = Some c \<and> q \<in> {c_read_io c, c_write_io c}))"
    proof (cases "q = p")
      case True
      then have "x = io\<lparr>io_start := True\<rparr>" using q(1) f(2) by simp
      then have "fixed_io W s x" using io(3) by (simp add: fixed_io_def)
      then show ?thesis using True io(1) eq by simp
    next
      case False
      then have "ios s q = Some x" using q(1) f(2) by simp
      then show ?thesis using d(7) q(2) eq g(7) unfolding started_known_def by metis
    qed
  qed
  ultimately have work: "at_work W t" using t(2) u(8) g by (intro at_work_idle) simp_all
  have keep: "\<exists>y'. ios t q = Some y' \<and> io_cb y' = io_cb y \<and> io_userdata y' = io_userdata y \<and> io_event y' = io_event y \<and> io_fd y' = io_fd y"
    if "ios s q = Some y" for q y
    using that io(2) f(2) by (cases "q = p") auto
  have a: "async_fit W t x" if "async_fit W s x" for x
    using that unfolding async_fit_def g(1) by (metis keep)
  have l: "waiting_listener W t x" if "waiting_listener W s x" for x
    using that unfolding waiting_listener_def g(8) by (metis keep)
  have "set_up W b xs t"
    using s work a l u(2,8) unfolding set_up_def g(7,8,12,14) w(3) by blast
  then show ?thesis using t(1) w_frame_fields(4)[OF f(1)] by blast
qed

text \<open>A listener becomes the leader's.\<close>

lemma own_listener:
  fixes s :: "('k, 'z) sheap_scheme"
  assumes s: "set_up W b xs s" and x: "listeners s x = Some l"
  defines "t \<equiv> s\<lparr>listeners := (listeners s)(x \<mapsto> l\<lparr>ls_io_thread := site_thread W\<rparr>)\<rparr>"
  shows "set_up W b xs t" "chain (listeners t) ys p = chain (listeners s) ys p"
proof -
  note u = set_upD[OF s] and d = servingD[OF set_upD(1)[OF s, unfolded at_work_def]]
  show ch: "chain (listeners t) ys p = chain (listeners s) ys p" for ys p
    by (induction ys arbitrary: p) (auto simp: t_def x)
  have "loop_ok t (it_loop (site_io W))" by (rule loop_ok_cong[OF d(1)]) (simp_all add: t_def)
  moreover have "grounds W t" using d(2) x by (auto simp: grounds_def loop_size_def idle_queue_def t_def)
  moreover have "tabled W t" using d(3) conn_at_cong[of t s] by (simp add: tabled_def table_repr_def t_def)
  moreover have "in_range W t" using d(4) by (simp add: in_range_def t_def)
  moreover have "fresh_above t" using d(5) by (simp add: fresh_above_def t_def)
  moreover have "started_known W t"
  proof -
    have "fixed_io W t io" if "fixed_io W s io" for io using that x by (auto simp: fixed_io_def t_def)
    then show ?thesis using d(7) unfolding started_known_def by (auto simp: t_def)
  qed
  ultimately have work: "at_work W t" using u(8) by (intro at_work_idle) (simp_all add: t_def)
  have "waiting_listener W t y" if "waiting_listener W s y" for y
    using that x by (auto simp: waiting_listener_def t_def)
  moreover have "async_fit W t y = async_fit W s y" for y by (simp add: async_fit_def t_def)
  moreover have "\<forall>p > brk t. listeners t p = None" using u(2) x by (auto simp: t_def)
  moreover have "connections t = connections s" "services t = services s" "io_thread_arrays t = io_thread_arrays s" by (simp_all add: t_def)
  ultimately show "set_up W b xs t" using s work ch unfolding set_up_def by simp
qed

lemma start_listeners_set_up:
  fixes s :: "('k, 'z) sheap_scheme"
  assumes doc: "site_doc K pending W"
  shows "set_up W b xs s \<Longrightarrow> chain (listeners s) ys p \<Longrightarrow> set ys \<subseteq> set xs \<Longrightarrow>
    \<exists>t. start_listeners K (site_thread W) p s = Some t \<and> set_up W b xs t"
proof (induction ys arbitrary: p s)
  case Nil
  then show ?case by (simp add: start_listeners.simps)
next
  case (Cons x ys)
  obtain l n where l: "p = x" "listeners s x = Some l" "ls_next l = Some n" "chain (listeners s) ys n" using Cons.prems(2) by auto
  have wl: "waiting_listener W s x" using set_upD(7)[OF Cons.prems(1)] Cons.prems(3) by simp
  obtain io where io: "x \<noteq> NULL" "ls_io l \<noteq> NULL" "ios s (ls_io l) = Some io" "io_cb io = Some On_new_connection" "io_userdata io = x"
    "io_fd io = ls_fd l" "io_event io = XV_READ" "0 \<le> io_fd io" "io_fd io < site_size W"
    using wl l(2) by (auto simp: waiting_listener_def)
  define u where "u = s\<lparr>listeners := (listeners s)(x \<mapsto> l\<lparr>ls_io_thread := site_thread W\<rparr>)\<rparr>"
  note own = own_listener[OF Cons.prems(1) l(2), folded u_def]
  have fx: "fixed_io W u io" using io by (auto simp: fixed_io_def u_def)
  have iu: "ios u (ls_io l) = Some io" using io(3) by (simp add: u_def)
  obtain r t where t: "xv_io_start K u (it_loop (site_io W)) (ls_io l) = Some (r, t)" "set_up W b xs t" "lheap.more t = lheap.more u"
    using start_fixed[OF doc own(1) io(2) iu fx io(7,8,9)] by blast
  have lt: "listeners t = listeners u" by (rule more_sheap_l(8)[OF t(3)])
  have "chain (listeners t) ys n" using l(4) own(2) lt by simp
  then obtain v where v: "start_listeners K (site_thread W) n t = Some v" "set_up W b xs v" using Cons.IH[OF t(2)] Cons.prems(3) by auto
  have th: "io_threads s (site_thread W) = Some (site_io W)" "site_thread W \<noteq> NULL"
    using serving_service(1,2)[OF set_upD(1)[OF Cons.prems(1), unfolded at_work_def]] by simp_all
  have lx: "listeners t x = Some (l\<lparr>ls_io_thread := site_thread W\<rparr>)" using lt by (simp add: u_def)
  have "start_listeners K (site_thread W) p s = Some v"
    using l io(1) th t(1) v(1) lx by (subst start_listeners.simps) (simp flip: u_def)
  then show ?case using v(2) by blast
qed

lemma async_start_set_up:
  fixes s :: "('k, 'z) sheap_scheme"
  assumes doc: "site_doc K pending W" and s: "set_up W b xs s" and a: "async_fit W s x"
  shows "\<exists>r t. xv_async_start K s (it_loop (site_io W)) x = Some (r, t) \<and> set_up W b xs t"
proof -
  obtain y io where y: "x \<noteq> NULL" "asyncs s x = Some y" "as_userdata y = site_thread W" "as_cb y \<in> {Some Io_thread_add_conn_cb, Some Io_thread_return_message_cb}"
    "as_read_io y \<noteq> NULL" "ios s (as_read_io y) = Some io" "io_cb io = Some Common_async_cb" "io_userdata io = x" "io_event io = XV_READ"
    "0 \<le> io_fd io" "io_fd io < site_size W"
    using a by (auto simp: async_fit_def)
  have "fixed_io W s io" using y by (auto simp: fixed_io_def)
  from start_fixed[OF doc s y(5,6) this y(9,10,11)] show ?thesis using y(1,2) by (auto simp: xv_async_start_def)
qed

text \<open>\<^verbatim>\<open>io_thread_entry\<close> of the leader up to its loop.\<close>

lemma leader_begins:
  fixes s :: "('k, 'z) sheap_scheme"
  assumes doc: "site_doc K pending W" and s: "set_up W b xs s"
  shows "\<exists>u. at_work W u \<and> (\<forall>call. io_thread_entry K call (site_thread W) s = do {
     t \<leftarrow> xv_loop_run_timeout K call u (it_loop (site_io W)) 10;
     th \<leftarrow> deref (io_threads t) (site_thread W);
     if it_idx th = 0 then do { sv \<leftarrow> deref (services t) (it_service (site_io W)); stop_listeners K (site_thread W) (sv_listeners sv) t }
     else Some t })"
proof -
  let ?L = "it_loop (site_io W)" and ?p = "site_thread W"
  obtain r1 s1 where s1: "xv_async_start K s ?L (it_async_add_conn (site_io W)) = Some (r1, s1)" "set_up W b xs s1"
    using async_start_set_up[OF doc s set_upD(4)[OF s]] by blast
  obtain r2 s2 where s2: "xv_async_start K s1 ?L (it_async_return_message (site_io W)) = Some (r2, s2)" "set_up W b xs s2"
    using async_start_set_up[OF doc s1(2) set_upD(5)[OF s1(2)]] by blast
  obtain sv where sv: "services s2 (it_service (site_io W)) = Some sv" "chain (listeners s2) xs (sv_listeners sv)"
    using s2(2) by (auto simp: set_up_def)
  obtain u where u: "start_listeners K ?p (sv_listeners sv) s2 = Some u" "set_up W b xs u"
    using start_listeners_set_up[OF doc s2(2) sv(2)] by blast
  have th: "io_threads s ?p = Some (site_io W)" "?p \<noteq> NULL" "it_service (site_io W) \<noteq> NULL"
    using serving_service(1,2,3)[OF set_upD(1)[OF s, unfolded at_work_def]] by simp_all
  show ?thesis
    using set_upD(1)[OF u(2)] th s1(1) s2(1) sv(1) u(1) set_upD(3)[OF s]
    by (intro exI[of _ u]) (simp add: io_thread_entry_def Let_def)
qed

subsection \<open>Property\<close>

text \<open>C4. A service of one I/O thread and no workers runs from its first call on, with applications as in \<open>app_safe\<close> and a kernel as in
  \<open>serve_doc\<close> and \<open>startup_doc\<close>: in a fresh process \<^verbatim>\<open>xv_service_init\<close> succeeds; any number of calls of \<^verbatim>\<open>xv_service_add_listen\<close> is
  defined if and only if every one of them gets a listening socket, for one that does not prints a message whose arguments are missing (a socket
  that cannot be made non-blocking is closed again, and the call returns an error). If so, \<^verbatim>\<open>xv_service_start\<close> then reports success, and the entry
  of the thread it has created starts its watchers and reaches its loop; every number of rounds of that loop runs to the end without undefined
  behaviour and keeps the invariant of the running service.\<close>

theorem service_runs_from_start:
  fixes s :: "('k, 'z) sheap_scheme"
  assumes "serve_doc K interest opened pending XV_DEFAULT_LOOP_SIZE" "startup_doc K interest XV_DEFAULT_LOOP_SIZE" "three_left K (kern s)"
    and "8192 \<le> B" "B \<le> INT_MAX" "fresh_process s" "io_thread_count config = 1" "worker_thread_count config = 0"
    and "\<forall>(a, port, h) \<in> set rs. app_safe U B h" and "creates P"
  shows "\<exists>service s0. xv_service_init K s config = Some (service, s0) \<and>
     (add_listens K service rs s0 \<noteq> None \<longleftrightarrow> listens K rs (kern s0)) \<and>
     (listens K rs (kern s0) \<longrightarrow> (\<exists>s1 s2 p th u. add_listens K service rs s0 = Some s1 \<and>
        xv_service_start K P s1 service = Some (XV_OK, s2) \<and> io_threads s2 p = Some th \<and> it_service th = service \<and>
        (\<forall>call. io_thread_entry K call p s2 = do {
           t \<leftarrow> xv_loop_run_timeout K call u (it_loop th) 10;
           th \<leftarrow> deref (io_threads t) p;
           if it_idx th = 0 then do { sv \<leftarrow> deref (services t) service; stop_listeners K p (sv_listeners sv) t } else Some t }) \<and>
        (\<forall>n. \<exists>t. polls K (io_call K U urun uasync uio) (it_loop th) 10 n u = Some t \<and>
           serving (leader_site interest opened U B p th) (\<lambda>_. 1) (\<lambda>_. B) t)))"
proof -
  let ?p = "brk s + 3" and ?svc = "brk s + 1" and ?n = XV_DEFAULT_LOOP_SIZE
  define th where "th = new_thread ?p 0 ?svc"
  define W where "W = leader_site interest opened U B ?p th"
  obtain epfd e1 e2 k where init: "xv_service_init K s config = Some (?svc, lone_service s config epfd e1 e2 k)"
    "0 \<le> e1" "e1 < ?n" "0 \<le> e2" "e2 < ?n" "\<forall>fd. interest k epfd fd = None"
    using lone_init[OF assms(2,3,7,8)] by (elim exE conjE)
  have W: "site_doc K pending W" "startup_doc K (site_interest W) (site_size W)" "it_service (site_io W) = ?svc"
    using assms(1,2) by (simp_all add: W_def th_def site_doc_def)
  have s0: "set_up W False [] (lone_service s config epfd e1 e2 k)"
    using lone_set_up[OF assms(6,7) init(2-5), of interest k epfd opened U B] init(6)[rule_format] by (simp add: W_def th_def)
  let ?s0 = "lone_service s config epfd e1 e2 k"
  have adds: "if listens K rs (kern ?s0) then \<exists>t ys. add_listens K ?svc rs ?s0 = Some t \<and> set_up W False ys t else add_listens K ?svc rs ?s0 = None"
    using add_listens_set_up[OF W(1,2) s0, of rs, unfolded W(3)] assms(9) by (simp add: W_def)
  have defined: "add_listens K ?svc rs ?s0 \<noteq> None \<longleftrightarrow> listens K rs (kern ?s0)"
    using adds by (cases "listens K rs (kern ?s0)") (simp, elim exE conjE, simp, simp)
  have go: "\<exists>s1 s2 p th u. add_listens K ?svc rs ?s0 = Some s1 \<and>
        xv_service_start K P s1 ?svc = Some (XV_OK, s2) \<and> io_threads s2 p = Some th \<and> it_service th = ?svc \<and>
        (\<forall>call. io_thread_entry K call p s2 = do {
           t \<leftarrow> xv_loop_run_timeout K call u (it_loop th) 10;
           th \<leftarrow> deref (io_threads t) p;
           if it_idx th = 0 then do { sv \<leftarrow> deref (services t) ?svc; stop_listeners K p (sv_listeners sv) t } else Some t }) \<and>
        (\<forall>n. \<exists>t. polls K (io_call K U urun uasync uio) (it_loop th) 10 n u = Some t \<and>
           serving (leader_site interest opened U B p th) (\<lambda>_. 1) (\<lambda>_. B) t)" if ls: "listens K rs (kern ?s0)"
  proof -
    obtain s1 xs where s1: "add_listens K ?svc rs ?s0 = Some s1" "set_up W False xs s1" using adds ls by auto
    obtain s2 i where s2: "xv_service_start K P s1 ?svc = Some (XV_OK, s2)" "set_up (with_id W i) True xs s2"
      using service_start_set_up[OF s1(2) assms(10)] W(3) by metis
    define th' where "th' = th\<lparr>it_id := Some i\<rparr>"
    have W': "with_id W i = leader_site interest opened U B ?p th'" by (simp add: W_def th'_def with_id_def leader_site_def)
    note up = s2(2)[unfolded W']
    have fit: "site_doc K pending (leader_site interest opened U B ?p th')" using assms(1) by (simp add: site_doc_def)
    have th': "io_threads s2 ?p = Some th'" "it_service th' = ?svc"
      using serving_service(1)[OF set_upD(1)[OF up, unfolded at_work_def]] by (simp_all add: th'_def th_def)
    obtain u where u: "at_work (leader_site interest opened U B ?p th') u"
      and entry: "\<forall>call. io_thread_entry K call ?p s2 = do {
          t \<leftarrow> xv_loop_run_timeout K call u (it_loop th') 10;
          th \<leftarrow> deref (io_threads t) ?p;
          if it_idx th = 0 then do { sv \<leftarrow> deref (services t) ?svc; stop_listeners K ?p (sv_listeners sv) t } else Some t }"
      using leader_begins[OF fit up] unfolding leader_site_simps th'(2) by blast
    have "\<exists>t. polls K (io_call K U urun uasync uio) (it_loop th') 10 n u = Some t \<and>
        serving (leader_site interest opened U B ?p th') (\<lambda>_. 1) (\<lambda>_. B) t" for n
      using serve.rounds_safe[of K pending "leader_site interest opened U B ?p th'" u] fit u assms(4,5) by (simp add: site_fit_def at_work_def)
    then show ?thesis using s1(1) s2(1) th' entry
      by (intro exI[of _ s1] exI[of _ s2] exI[of _ ?p] exI[of _ th'] exI[of _ u]) simp
  qed
  show ?thesis by (rule exI[of _ ?svc], rule exI[of _ ?s0], intro conjI init(1) defined impI, rule go)
qed

subsection \<open>From nothing\<close>

text \<open>A kernel that gives out the descriptors 4 to 11, smallest first, and a program with two listeners.\<close>

definition low_fd :: "sim_os \<Rightarrow> int \<times> sim_os" where
  "low_fd k = (case filter (\<lambda>x. x \<notin> set (os_open k)) [4, 5, 6, 7, 8, 9, 10, 11] of
     [] \<Rightarrow> (- 1, k) | x # _ \<Rightarrow> (x, k\<lparr>os_open := x # os_open k\<rparr>))"

definition ex_start_sys :: "sim_os sys_ops" where
  "ex_start_sys = sim_sys\<lparr>sys_socket := low_fd,
     sys_eventfd := (\<lambda>k. let (fd, k') = low_fd k in if fd < 0 then (fd, k) else (fd, k'\<lparr>os_counter := (fd, 0) # os_counter k\<rparr>)),
     sys_accept := (\<lambda>fd k. let (fd, k') = low_fd k in
       if fd < 0 then (Inl EAGAIN, k) else (Inr (fd, \<lparr>sin_port = htons 4000, sin_addr = 16777343\<rparr>), k'))\<rparr>"

definition one_thread :: xv_service_config_t where
  "one_thread = three_threads\<lparr>io_thread_count := 1, worker_thread_count := 0\<rparr>"

definition two_listeners :: "(string \<times> int \<times> xv_service_handle_t) list" where
  "two_listeners = [(''127.0.0.1'', 8080, ex_handle), (''127.0.0.1'', 8081, ex_handle)]"

lemma low_fd_cases: "low_fd k = (- 1, k) \<or> (\<exists>x. 4 \<le> x \<and> x < 12 \<and> x \<notin> set (os_open k) \<and> low_fd k = (x, k\<lparr>os_open := x # os_open k\<rparr>))"
proof (cases "filter (\<lambda>x. x \<notin> set (os_open k)) [4, 5, 6, 7, 8, 9, 10, 11]")
  case Nil
  then show ?thesis unfolding low_fd_def by (simp only: list.case simp_thms)
next
  case (Cons x xs)
  then have "x \<in> set (filter (\<lambda>x. x \<notin> set (os_open k)) [4, 5, 6, 7, 8, 9, 10, 11])" by (simp only: list.set_intros)
  then have x: "x \<in> set [4, 5, 6, 7, 8, 9, 10, 11]" "x \<notin> set (os_open k)" unfolding set_filter by blast+
  have "low_fd k = (x, k\<lparr>os_open := x # os_open k\<rparr>)" unfolding low_fd_def Cons by (simp only: list.case)
  moreover have "4 \<le> x" "x < 12" using x(1) by auto
  ultimately show ?thesis using x(2) by blast
qed

lemma ex_start_ops:
  "sys_read ex_start_sys = os_read" "sys_write ex_start_sys = os_write" "sys_setsockopt ex_start_sys = (\<lambda>fd opt k. (0, k))"
  "sys_getfl ex_start_sys = (\<lambda>fd k. (2, k))" "sys_setfl ex_start_sys = (\<lambda>fd fl k. (0, k))" "epoll_ctl ex_start_sys = sim_ctl"
  "epoll_wait ex_start_sys = sim_wait" "sys_close ex_start_sys = (\<lambda>fd k. (0, k\<lparr>os_open := removeAll fd (os_open k)\<rparr>))"
  "eventfd_read ex_start_sys = eventfd_read sim_sys" "epoll_create ex_start_sys = epoll_create sim_ops" "sys_socket ex_start_sys = low_fd"
  "sys_bind ex_start_sys = sys_bind sim_sys" "sys_listen ex_start_sys = sys_listen sim_sys" "strerror_fills ex_start_sys"
  by (simp_all add: ex_start_sys_def sim_sys_def)

lemma ex_start_doc: "serve_doc ex_start_sys k_interest (\<lambda>k. set (os_open k)) (\<lambda>_. 0) XV_DEFAULT_LOOP_SIZE"
proof -
  have ops: "epoll_ctl_doc ex_start_sys k_interest" "epoll_wait_doc ex_start_sys k_interest"
    using sim_ctl_doc sim_wait_doc by (simp_all add: ex_start_ops sim_ops_def epoll_ctl_doc_def epoll_wait_doc_def)
  have acc: "case sys_accept ex_start_sys fd k of
          (Inl e, k') \<Rightarrow> untouched k_interest (\<lambda>k. set (os_open k)) k k' \<and> (e = EINTR \<longrightarrow> (0 :: nat) < 0)
        | (Inr (cfd, sa), k') \<Rightarrow> 0 \<le> cfd \<and> cfd < XV_DEFAULT_LOOP_SIZE \<and> cfd \<notin> set (os_open k) \<and> set (os_open k') = insert cfd (set (os_open k)) \<and>
            (\<forall>ep fd'. k_interest k' ep fd' \<noteq> None \<longrightarrow> k_interest k ep fd' \<noteq> None)" for fd k
    using low_fd_cases[of k] by (auto simp: ex_start_sys_def untouched_def XV_DEFAULT_LOOP_SIZE_def)
  have efd: "untouched k_interest (\<lambda>k. set (os_open k)) k (snd (eventfd_read sim_sys fd k))" for fd k
    by (simp add: sim_sys_def untouched_def split: option.split)
  have ctl: "os_open (snd (sim_ctl ep op fd ev k)) = os_open k" "os_open (snd (sim_wait ep m ms k)) = os_open k" for ep op fd ev k m ms
    by (simp_all add: sim_ctl_def sim_wait_def Let_def)
  show ?thesis
    unfolding serve_doc_def ex_start_ops(9)
    by (intro conjI allI ops acc efd) (auto simp: ex_start_ops(1-8,14) ctl untouched_def os_read_def os_write_def Let_def split: if_splits)
qed

lemma ex_startup_doc: "startup_doc ex_start_sys k_interest XV_DEFAULT_LOOP_SIZE"
proof -
  have c: "epoll_create_doc ex_start_sys k_interest" using sim_create_doc by (simp add: epoll_create_doc_def ex_start_ops)
  have f: "fst (low_fd k) < XV_DEFAULT_LOOP_SIZE" "k_interest (snd (low_fd k)) = k_interest k" for k
    using low_fd_cases[of k] by (auto simp: XV_DEFAULT_LOOP_SIZE_def)
  have e: "fd < XV_DEFAULT_LOOP_SIZE \<and> adds_none k_interest k k'" if "sys_eventfd ex_start_sys k = (fd, k')" for k fd k'
    using f[of k] that by (auto simp: ex_start_sys_def adds_none_def Let_def split: prod.splits if_splits)
  have s: "fd < XV_DEFAULT_LOOP_SIZE \<and> adds_none k_interest k k'" if "sys_socket ex_start_sys k = (fd, k')" for k fd k'
    using f[of k] that by (auto simp: ex_start_ops adds_none_def)
  show ?thesis
    unfolding startup_doc_def
    using c e s by (auto simp: ex_start_ops(12,13) sim_sys_def adds_none_def)
qed

theorem service_runs_from_start_witness:
  "\<exists>service s0 s1 s2 p th u t. xv_service_init ex_start_sys blank_svc one_thread = Some (service, s0) \<and>
     add_listens ex_start_sys service two_listeners s0 = Some s1 \<and> xv_service_start ex_start_sys idle_pth s1 service = Some (XV_OK, s2) \<and>
     polls ex_start_sys (io_call ex_start_sys ex_serve_app (\<lambda>_ _. Some) (\<lambda>_ _ _. Some) (\<lambda>_ _ _. Some)) (it_loop th) 10 1000 u = Some t \<and>
     serving (leader_site k_interest (\<lambda>k. set (os_open k)) ex_serve_app 65536 p th) (\<lambda>_. 1) (\<lambda>_. 65536) t"
proof -
  have three: "three_left ex_start_sys (kern blank_svc)"
    by (simp add: three_left_def ex_start_sys_def low_fd_def blank_svc_def os_start_def sim_sys_def sim_ops_def)
  have one_c: "io_thread_count one_thread = 1" "worker_thread_count one_thread = 0" by (simp_all add: one_thread_def)
  have lim: "8192 \<le> (65536 :: int)" "65536 \<le> INT_MAX" by (simp_all add: INT_MAX_def)
  have fresh: "fresh_process blank_svc" by (simp add: fresh_process_def blank_svc_def)
  have safe: "\<forall>(a, port, h) \<in> set two_listeners. app_safe ex_serve_app 65536 h" using ex_serve_app_safe by (simp add: two_listeners_def)
  have cr: "creates idle_pth" by (simp add: creates_def idle_pth_def)
  have ports: "htons 8080 \<noteq> htons 80" "htons 8081 \<noteq> htons 80" "htons 8081 \<noteq> htons 8080" by code_simp+
  have ls: "listens ex_start_sys two_listeners (kern s0)" if i: "xv_service_init ex_start_sys blank_svc one_thread = Some (service, s0)" for service s0
  proof -
    obtain epfd e1 e2 k where j: "xv_service_init ex_start_sys blank_svc one_thread = Some (brk blank_svc + 1, lone_service blank_svc one_thread epfd e1 e2 k)"
      and k: "snd (sys_eventfd ex_start_sys (snd (sys_eventfd ex_start_sys (snd (epoll_create ex_start_sys XV_DEFAULT_LOOP_SIZE (kern blank_svc)))))) = k"
      using lone_init[OF ex_startup_doc three one_c] by (elim exE conjE)
    have "kern s0 = k" using i[unfolded j] by (auto simp: lone_service_def add_thread_def Let_def)
    then show ?thesis
      unfolding k[symmetric] two_listeners_def
      by (simp add: ports ex_start_sys_def low_fd_def blank_svc_def os_start_def sim_sys_def sim_ops_def xv_tcp_listen_def xv_socket_def xv_tcp_reuse_addr_def
          fill_sockaddr_def xv_nonblock_def Let_def XV_ERR_def XV_OK_def)
  qed
  note runs = service_runs_from_start[OF ex_start_doc ex_startup_doc three lim fresh one_c safe cr, of "\<lambda>_ _. Some" "\<lambda>_ _ _. Some" "\<lambda>_ _ _. Some"]
  obtain service s0 where i: "xv_service_init ex_start_sys blank_svc one_thread = Some (service, s0)" and go: "listens ex_start_sys two_listeners (kern s0) \<longrightarrow>
     (\<exists>s1 s2 p th u. add_listens ex_start_sys service two_listeners s0 = Some s1 \<and>
        xv_service_start ex_start_sys idle_pth s1 service = Some (XV_OK, s2) \<and> io_threads s2 p = Some th \<and> it_service th = service \<and>
        (\<forall>call. io_thread_entry ex_start_sys call p s2 = do {
           t \<leftarrow> xv_loop_run_timeout ex_start_sys call u (it_loop th) 10;
           th \<leftarrow> deref (io_threads t) p;
           if it_idx th = 0 then do { sv \<leftarrow> deref (services t) service; stop_listeners ex_start_sys p (sv_listeners sv) t } else Some t }) \<and>
        (\<forall>n. \<exists>t. polls ex_start_sys (io_call ex_start_sys ex_serve_app (\<lambda>_ _. Some) (\<lambda>_ _ _. Some) (\<lambda>_ _ _. Some)) (it_loop th) 10 n u = Some t \<and>
           serving (leader_site k_interest (\<lambda>k. set (os_open k)) ex_serve_app 65536 p th) (\<lambda>_. 1) (\<lambda>_. 65536) t))"
    using runs by (elim exE conjE)
  from go[rule_format, OF ls[OF i]] obtain s1 s2 p th u where run: "add_listens ex_start_sys service two_listeners s0 = Some s1"
    "xv_service_start ex_start_sys idle_pth s1 service = Some (XV_OK, s2)"
    "\<forall>n. \<exists>t. polls ex_start_sys (io_call ex_start_sys ex_serve_app (\<lambda>_ _. Some) (\<lambda>_ _ _. Some) (\<lambda>_ _ _. Some)) (it_loop th) 10 n u = Some t \<and>
        serving (leader_site k_interest (\<lambda>k. set (os_open k)) ex_serve_app 65536 p th) (\<lambda>_. 1) (\<lambda>_. 65536) t"
    by (elim exE conjE)
  from run(3) show ?thesis using i run(1,2) by blast
qed

end
