(* ===== verification/Xv_Log.thy ===== *)
theory Xv_Log
  imports Xv_Prelude
begin

section \<open>The logger (\<^verbatim>\<open>src/src/xv_log.c\<close>)\<close>

text \<open>
  The module's static variables, the set of open streams and what was printed to each. Writing to
  or closing a stream that is not open is undefined. What the functions ask of the C library and of
  the system (the stream \<^verbatim>\<open>fopen\<close> returns, the formatted message, the time stamp, the thread id,
  \<^verbatim>\<open>basename\<close>) are arguments.
\<close>

subsection \<open>Levels\<close>

datatype xv_log_level_t = XV_LOG_DEBUG | XV_LOG_INFO | XV_LOG_WARNING | XV_LOG_ERROR

fun level_value :: "xv_log_level_t \<Rightarrow> nat" where
  "level_value XV_LOG_DEBUG = 0"
| "level_value XV_LOG_INFO = 1"
| "level_value XV_LOG_WARNING = 2"
| "level_value XV_LOG_ERROR = 3"

lemma level_value_inject [simp]: "level_value l = level_value l' \<longleftrightarrow> l = l'"
  by (cases l; cases l') simp_all

text \<open>The comparison of the enum's values.\<close>

instantiation xv_log_level_t :: linorder
begin

definition less_eq_xv_log_level_t :: "xv_log_level_t \<Rightarrow> xv_log_level_t \<Rightarrow> bool" where
  "l \<le> l' \<longleftrightarrow> level_value l \<le> level_value l'"

definition less_xv_log_level_t :: "xv_log_level_t \<Rightarrow> xv_log_level_t \<Rightarrow> bool" where
  "l < l' \<longleftrightarrow> level_value l < level_value l'"

instance
  by standard (auto simp: less_eq_xv_log_level_t_def less_xv_log_level_t_def)

end

definition xv_log_level_str :: "nat \<Rightarrow> string" where
  "xv_log_level_str level =
     (if 0 \<le> level \<and> level \<le> 3 then [''DEUBG'', ''INFO'', ''WARN'', ''ERROR''] ! level
      else ''UNKNOWN'')"

subsection \<open>State and operations\<close>

definition XV_LOG_LINE_MAX :: nat where
  "XV_LOG_LINE_MAX = 1024"

definition stderr :: addr where
  "stderr = 1"

record xv_log_state =
  xv_logger_fp :: addr
  xv_curr_log_level :: xv_log_level_t
  open_streams :: "addr list"
  printed :: "addr \<Rightarrow> string list"
  atexit_handlers :: nat

definition xv_log_initial :: xv_log_state where
  "xv_log_initial = \<lparr>xv_logger_fp = NULL, xv_curr_log_level = XV_LOG_INFO, open_streams = [stderr],
     printed = (\<lambda>_. []), atexit_handlers = 0\<rparr>"

definition xv_set_log_file :: "xv_log_state \<Rightarrow> addr \<Rightarrow> xv_log_state" where
  "xv_set_log_file s pf = (if pf \<noteq> NULL then s\<lparr>xv_logger_fp := pf\<rparr> else s)"

definition fclose :: "xv_log_state \<Rightarrow> addr \<Rightarrow> xv_log_state option" where
  "fclose s fp = (if fp \<in> set (open_streams s)
     then Some (s\<lparr>open_streams := removeAll fp (open_streams s)\<rparr>) else None)"

definition xv_close_log_file :: "xv_log_state \<Rightarrow> xv_log_state option" where
  "xv_close_log_file s =
     (if xv_logger_fp s \<noteq> NULL \<and> xv_logger_fp s \<noteq> stderr then fclose s (xv_logger_fp s) else Some s)"

definition xv_set_log_filename ::
  "(string \<Rightarrow> xv_log_state \<Rightarrow> addr) \<Rightarrow> xv_log_state \<Rightarrow> string \<Rightarrow> (int \<times> xv_log_state) option" where
  "xv_set_log_filename fopen s filename = do {
     s \<leftarrow> xv_close_log_file s;
     let fp = fopen filename s;
     if fp = NULL then Some (XV_ERR, s)
     else Some (XV_OK, s\<lparr>open_streams := fp # open_streams s, xv_logger_fp := fp,
                         atexit_handlers := Suc (atexit_handlers s)\<rparr>) }"

definition xv_set_log_level :: "xv_log_state \<Rightarrow> xv_log_level_t \<Rightarrow> xv_log_state" where
  "xv_set_log_level s level = s\<lparr>xv_curr_log_level := level\<rparr>"

fun digits_of :: "nat \<Rightarrow> string" where
  "digits_of n = (if n < 10 then [char_of (n + 48)] else digits_of (n div 10) @ [char_of (n mod 10 + 48)])"

declare digits_of.simps [simp del]

definition show_int :: "int \<Rightarrow> string" where
  "show_int i = (if i < 0 then CHR ''-'' # digits_of (nat (- i)) else digits_of (nat i))"

text \<open>What a call of \<^verbatim>\<open>xv_log\<close> reads from its surroundings.\<close>

record log_env =
  e_datetime :: string
  e_tid :: int
  e_basename :: "string \<Rightarrow> string"

definition log_line :: "log_env \<Rightarrow> xv_log_level_t \<Rightarrow> string \<Rightarrow> int \<Rightarrow> string \<Rightarrow> string \<Rightarrow> string" where
  "log_line e level file line func logger_buf =
     ''['' @ e_datetime e @ ''] '' @ xv_log_level_str (level_value level) @ '' '' @ func @ ''('' @
     e_basename e file @ '':'' @ show_int line @ '') ['' @ show_int (e_tid e) @ ''] '' @ logger_buf @ [CHR 0x0A]"

text \<open>\<open>msg\<close> is the message \<^verbatim>\<open>vsnprintf\<close> would write without a limit; the buffer keeps one byte
  less than its size.\<close>

definition xv_log ::
  "log_env \<Rightarrow> xv_log_state \<Rightarrow> xv_log_level_t \<Rightarrow> string \<Rightarrow> int \<Rightarrow> string \<Rightarrow> string \<Rightarrow> xv_log_state option" where
  "xv_log e s level file line func msg =
     (if level < xv_curr_log_level s then Some s
      else do {
        let logger_buf = take (XV_LOG_LINE_MAX - 1) msg;
        let s = (if xv_logger_fp s = NULL then s\<lparr>xv_logger_fp := stderr\<rparr> else s);
        let fp = xv_logger_fp s;
        if fp \<in> set (open_streams s)
        then Some (s\<lparr>printed := (printed s)(fp := printed s fp @ [log_line e level file line func logger_buf])\<rparr>)
        else None })"

text \<open>At \<^verbatim>\<open>exit\<close> the registered handlers run, each of them \<^verbatim>\<open>xv_close_log_file\<close>.\<close>

fun run_atexit :: "nat \<Rightarrow> xv_log_state \<Rightarrow> xv_log_state option" where
  "run_atexit 0 s = Some s"
| "run_atexit (Suc n) s = do { s \<leftarrow> xv_close_log_file s; run_atexit n s }"

definition log_exit :: "xv_log_state \<Rightarrow> xv_log_state option" where
  "log_exit s = run_atexit (atexit_handlers s) s"

subsection \<open>Laws\<close>

text \<open>The logger is usable when its stream, if any, is open.\<close>

definition log_ok :: "xv_log_state \<Rightarrow> bool" where
  "log_ok s \<longleftrightarrow> stderr \<in> set (open_streams s) \<and>
     (xv_logger_fp s \<noteq> NULL \<longrightarrow> xv_logger_fp s \<in> set (open_streams s))"

text \<open>The documented result of \<^verbatim>\<open>fopen\<close>: a null pointer, or a stream that is not yet open.\<close>

definition fopen_doc :: "(string \<Rightarrow> xv_log_state \<Rightarrow> addr) \<Rightarrow> bool" where
  "fopen_doc fopen \<longleftrightarrow> (\<forall>f s. fopen f s = NULL \<or> fopen f s \<notin> set (open_streams s))"

lemma log_ok_initial: "log_ok xv_log_initial"
  by (simp add: log_ok_def xv_log_initial_def)

lemma xv_log_keeps_ok:
  assumes "log_ok s"
  shows "\<exists>t. xv_log e s level file line func msg = Some t \<and> log_ok t"
  using assms by (auto simp: xv_log_def log_ok_def Let_def stderr_def)

lemma set_log_filename_cases:
  assumes ok: "log_ok s" and f: "fopen_doc fopen"
  obtains t where "xv_set_log_filename fopen s name = Some (XV_OK, t)" "log_ok t"
      "xv_logger_fp t \<noteq> NULL" "xv_logger_fp t \<noteq> stderr"
      "atexit_handlers t = Suc (atexit_handlers s)"
  | t where "xv_set_log_filename fopen s name = Some (XV_ERR, t)"
      "xv_logger_fp t = xv_logger_fp s" "xv_curr_log_level t = xv_curr_log_level s"
      "xv_logger_fp s \<noteq> NULL \<and> xv_logger_fp s \<noteq> stderr \<longrightarrow> xv_logger_fp t \<notin> set (open_streams t)"
      "xv_logger_fp s = NULL \<or> xv_logger_fp s = stderr \<longrightarrow> t = s"
proof -
  define s1 where "s1 = (if xv_logger_fp s \<noteq> NULL \<and> xv_logger_fp s \<noteq> stderr
      then s\<lparr>open_streams := removeAll (xv_logger_fp s) (open_streams s)\<rparr> else s)"
  have s1: "xv_close_log_file s = Some s1" "xv_logger_fp s1 = xv_logger_fp s"
    "xv_curr_log_level s1 = xv_curr_log_level s" "atexit_handlers s1 = atexit_handlers s"
    "stderr \<in> set (open_streams s1)"
    "xv_logger_fp s \<noteq> NULL \<and> xv_logger_fp s \<noteq> stderr \<longrightarrow> xv_logger_fp s1 \<notin> set (open_streams s1)"
    "xv_logger_fp s = NULL \<or> xv_logger_fp s = stderr \<longrightarrow> s1 = s"
    using ok by (simp_all add: xv_close_log_file_def log_ok_def fclose_def s1_def)
  show thesis
  proof (cases "fopen name s1 = NULL")
    case True
    then have "xv_set_log_filename fopen s name = Some (XV_ERR, s1)"
      using s1(1) by (simp add: xv_set_log_filename_def Let_def)
    then show thesis
      by (rule that(2)) (use s1 in simp_all)
  next
    case False
    then have new: "fopen name s1 \<notin> set (open_streams s1)"
      using f[unfolded fopen_doc_def, rule_format, of name s1] by simp
    have "xv_set_log_filename fopen s name = Some (XV_OK, s1\<lparr>open_streams := fopen name s1 # open_streams s1,
        xv_logger_fp := fopen name s1, atexit_handlers := Suc (atexit_handlers s1)\<rparr>)"
      using s1(1) False by (simp add: xv_set_log_filename_def Let_def)
    then show thesis
      by (rule that(1)) (use s1 False new in \<open>auto simp: log_ok_def\<close>)
  qed
qed


subsection \<open>Properties\<close>

text \<open>A library and an environment for the witnesses: \<^verbatim>\<open>fopen\<close> returns a stream above all open
  ones, except for the empty name.\<close>

definition fopen_ex :: "string \<Rightarrow> xv_log_state \<Rightarrow> addr" where
  "fopen_ex name s = (if name = [] then NULL else Suc (sum_list (open_streams s)))"

definition env_ex :: log_env where
  "env_ex = \<lparr>e_datetime = ''2019-08-09 00:00:00.000001'', e_tid = 7, e_basename = id\<rparr>"

lemma fopen_ex_doc: "fopen_doc fopen_ex"
  using member_le_sum_list[where 'a = nat] by (fastforce simp: fopen_doc_def fopen_ex_def)

lemma show_int_newline: "CHR 0x0A \<notin> set (show_int i)"
proof -
  have "CHR 0x0A \<noteq> (char_of (m + 48) :: char)" if "m < 10" for m :: nat
  proof
    assume "CHR 0x0A = (char_of (m + 48) :: char)"
    then have "of_char (CHR 0x0A) = (of_char (char_of (m + 48) :: char) :: nat)" by simp
    then have "10 = (m + 48) mod 256" by (simp only: of_char_of) simp
    then show False using that by simp
  qed
  then have "CHR 0x0A \<notin> set (digits_of n)" for n
    by (induction n rule: digits_of.induct) (subst digits_of.simps, auto)
  then show ?thesis by (simp add: show_int_def)
qed

text \<open>C38. \<^verbatim>\<open>xv_log\<close> on a usable logger: a message below the current level changes nothing. Any other
  message appends to the current stream, standard error if none was set, the text
  \<^verbatim>\<open>[datetime] level func(file:line) [tid] message\<close> and a newline, with at most 1023 characters of
  the message; nothing is printed to any other stream, and level, open streams and exit handlers stay as they are. If neither the message nor the names
  hold a newline, this is one line: the stream has one newline more.\<close>

theorem xv_log_spec:
  assumes ok: "log_ok s"
  shows "\<exists>t. xv_log e s level file line func msg = Some t \<and> log_ok t \<and>
    xv_curr_log_level t = xv_curr_log_level s \<and> open_streams t = open_streams s \<and> atexit_handlers t = atexit_handlers s \<and>
    (if level < xv_curr_log_level s then t = s
     else let fp = (if xv_logger_fp s = NULL then stderr else xv_logger_fp s) in
       xv_logger_fp t = fp \<and> (\<forall>g. g \<noteq> fp \<longrightarrow> printed t g = printed s g) \<and>
       concat (printed t fp) = concat (printed s fp) @
         ''['' @ e_datetime e @ ''] '' @
         (case level of XV_LOG_DEBUG \<Rightarrow> ''DEUBG'' | XV_LOG_INFO \<Rightarrow> ''INFO'' | XV_LOG_WARNING \<Rightarrow> ''WARN'' | XV_LOG_ERROR \<Rightarrow> ''ERROR'') @
         '' '' @ func @ ''('' @ e_basename e file @ '':'' @ show_int line @ '') ['' @ show_int (e_tid e) @ ''] '' @ take 1023 msg @ [CHR 0x0A] \<and>
       (CHR 0x0A \<notin> set (e_datetime e @ func @ e_basename e file @ take 1023 msg) \<longrightarrow>
         count_list (concat (printed t fp)) (CHR 0x0A) = Suc (count_list (concat (printed s fp)) (CHR 0x0A))))"
proof -
  define fp where "fp = (if xv_logger_fp s = NULL then stderr else xv_logger_fp s)"
  define ln where "ln = log_line e level file line func (take 1023 msg)"
  define t where "t = (if level < xv_curr_log_level s then s else s\<lparr>xv_logger_fp := fp, printed := (printed s)(fp := printed s fp @ [ln])\<rparr>)"
  have str: "xv_log_level_str (level_value level) =
      (case level of XV_LOG_DEBUG \<Rightarrow> ''DEUBG'' | XV_LOG_INFO \<Rightarrow> ''INFO'' | XV_LOG_WARNING \<Rightarrow> ''WARN'' | XV_LOG_ERROR \<Rightarrow> ''ERROR'')"
    by (cases level) (simp_all add: xv_log_level_str_def)
  have run: "xv_log e s level file line func msg = Some t" "log_ok t"
    using ok by (auto simp: xv_log_def log_ok_def t_def fp_def ln_def Let_def stderr_def XV_LOG_LINE_MAX_def)
  have none: "count_list xs (CHR 0x0A) = 0" if "CHR 0x0A \<notin> set xs" for xs using that by (simp add: count_list_0_iff)
  have "count_list ln (CHR 0x0A) = Suc 0" if "CHR 0x0A \<notin> set (e_datetime e @ func @ e_basename e file @ take 1023 msg)"
  proof -
    have "CHR 0x0A \<notin> set (xv_log_level_str (level_value level))" unfolding str by (cases level) simp_all
    then show ?thesis using that show_int_newline by (simp add: ln_def log_line_def none)
  qed
  then show ?thesis
    using run unfolding fp_def[symmetric] Let_def
    by (intro exI[of _ t]) (simp add: t_def ln_def log_line_def str)
qed

theorem xv_log_spec_witness:
  "\<exists>t. xv_log env_ex xv_log_initial XV_LOG_WARNING ''a.c'' 12 ''f'' ''boom'' = Some t \<and>
     concat (printed t stderr) = ''[2019-08-09 00:00:00.000001] WARN f(a.c:12) [7] boom'' @ [CHR 0x0A] \<and>
     count_list (concat (printed t stderr)) (CHR 0x0A) = 1"
proof -
  have f: "\<not> XV_LOG_WARNING < xv_curr_log_level xv_log_initial" "xv_logger_fp xv_log_initial = NULL"
    "printed xv_log_initial = (\<lambda>_. [])"
    by (simp_all add: xv_log_initial_def less_xv_log_level_t_def)
  have n: "show_int 12 = ''12''" "show_int 7 = ''7''" by code_simp+
  show ?thesis
    using xv_log_spec[OF log_ok_initial, of env_ex XV_LOG_WARNING "''a.c''" 12 "''f''" "''boom''"]
    unfolding if_not_P[OF f(1)] f(2,3) Let_def by (auto simp: env_ex_def n)
qed

text \<open>A failed \<^verbatim>\<open>xv_set_log_filename\<close> poisons the logger: the old log file is closed before the
  new one is opened, and when \<^verbatim>\<open>fopen\<close> fails the closed stream stays current, so the next message
  that passes the level filter is printed to a closed stream.\<close>

theorem failed_reopen_poisons_logger:
  assumes ok: "log_ok s" and f: "fopen_doc fopen"
    and stream: "xv_logger_fp s \<noteq> NULL" "xv_logger_fp s \<noteq> stderr"
    and fail: "xv_set_log_filename fopen s name = Some (XV_ERR, t)"
    and level: "xv_curr_log_level t \<le> level"
  shows "xv_log e t level file line func msg = None"
proof -
  have "xv_logger_fp t = xv_logger_fp s" "xv_logger_fp t \<notin> set (open_streams t)"
    by (rule set_log_filename_cases[OF ok f, of name]; use fail stream in simp)+
  then show ?thesis
    using stream level by (simp add: xv_log_def Let_def)
qed

theorem failed_reopen_poisons_logger_witness:
  "\<exists>s t. xv_set_log_filename fopen_ex xv_log_initial ''log'' = Some (XV_OK, s) \<and>
     xv_set_log_filename fopen_ex s [] = Some (XV_ERR, t) \<and>
     xv_log env_ex t XV_LOG_ERROR ''a.c'' 1 ''f'' ''m'' = None"
proof -
  obtain s where s: "xv_set_log_filename fopen_ex xv_log_initial ''log'' = Some (XV_OK, s)"
    "log_ok s" "xv_logger_fp s \<noteq> NULL" "xv_logger_fp s \<noteq> stderr"
    by (rule set_log_filename_cases[OF log_ok_initial fopen_ex_doc, of "''log''"])
      (auto simp: xv_set_log_filename_def xv_log_initial_def xv_close_log_file_def fopen_ex_def Let_def)
  obtain t where t: "xv_set_log_filename fopen_ex s [] = Some (XV_ERR, t)"
    by (rule set_log_filename_cases[OF s(2) fopen_ex_doc, of "[]"])
      (auto simp: xv_set_log_filename_def fopen_ex_def Let_def Option.bind_eq_Some_conv)
  have "xv_curr_log_level t \<le> XV_LOG_ERROR"
    by (cases "xv_curr_log_level t") (simp_all add: less_eq_xv_log_level_t_def)
  from failed_reopen_poisons_logger[OF s(2) fopen_ex_doc s(3,4) t this] s(1) t show ?thesis by blast
qed

text \<open>Exit handlers: every successful \<^verbatim>\<open>xv_set_log_filename\<close> registers one more handler, and the
  handler does not clear the stream; so exit is well defined after one log file was set, and closes
  the same stream twice (undefined) after two or more.\<close>

theorem log_exit_after_filenames:
  assumes ok: "log_ok s" and stream: "xv_logger_fp s \<noteq> NULL" "xv_logger_fp s \<noteq> stderr"
  shows "log_exit s = None \<longleftrightarrow> 2 \<le> atexit_handlers s"
proof -
  define s1 where "s1 = s\<lparr>open_streams := removeAll (xv_logger_fp s) (open_streams s)\<rparr>"
  have c: "xv_close_log_file s = Some s1" "xv_close_log_file s1 = None"
    using ok stream by (simp_all add: xv_close_log_file_def log_ok_def fclose_def s1_def)
  consider "atexit_handlers s = 0" | "atexit_handlers s = 1"
    | n where "atexit_handlers s = Suc (Suc n)"
    by (metis One_nat_def not0_implies_Suc)
  then show ?thesis
    by cases (simp_all add: log_exit_def c)
qed

theorem log_exit_after_filenames_witness:
  "\<exists>s t. xv_set_log_filename fopen_ex xv_log_initial ''a'' = Some (XV_OK, s) \<and>
     xv_set_log_filename fopen_ex s ''b'' = Some (XV_OK, t) \<and> log_exit s \<noteq> None \<and> log_exit t = None"
proof -
  obtain s where s: "xv_set_log_filename fopen_ex xv_log_initial ''a'' = Some (XV_OK, s)"
    "log_ok s" "xv_logger_fp s \<noteq> NULL" "xv_logger_fp s \<noteq> stderr" "atexit_handlers s = 1"
    by (rule set_log_filename_cases[OF log_ok_initial fopen_ex_doc, of "''a''"])
      (auto simp: xv_set_log_filename_def xv_log_initial_def xv_close_log_file_def fopen_ex_def Let_def)
  obtain t where t: "xv_set_log_filename fopen_ex s ''b'' = Some (XV_OK, t)"
    "log_ok t" "xv_logger_fp t \<noteq> NULL" "xv_logger_fp t \<noteq> stderr" "atexit_handlers t = 2"
    by (rule set_log_filename_cases[OF s(2) fopen_ex_doc, of "''b''"])
      (auto simp: s(5) xv_set_log_filename_def fopen_ex_def Let_def Option.bind_eq_Some_conv)
  show ?thesis
    using s t log_exit_after_filenames[OF s(2-4)] log_exit_after_filenames[OF t(2-4)] by auto
qed

end
