(* ===== verification/Spec2Isabelle.thy ===== *)
theory Spec2Isabelle
  imports Xv_Startup Xv_Log
begin

text \<open>
  \<^bold>\<open>libxv: a verification library for the event-driven network library in \<^verbatim>\<open>src/src\<close>\<close>

  \<^bold>\<open>The program.\<close> libxv is a small C library for network servers on Linux. At the bottom are a byte buffer
  (\<^verbatim>\<open>xv_buffer.c\<close>), a linked-list queue and its mutex-protected variant (\<^verbatim>\<open>xv_queue.c\<close>), an atomic counter
  (\<^verbatim>\<open>xv_atomic.h\<close>) and a logger (\<^verbatim>\<open>xv_log.c\<close>). An event loop (\<^verbatim>\<open>xv.c\<close>) keeps a table of watchers
  indexed by file descriptor and mirrors it into an epoll instance through a poller (\<^verbatim>\<open>xv_epoll.c\<close>); one
  round of the loop asks the poller for events and invokes the callbacks of the watchers concerned. An async
  object (\<^verbatim>\<open>xv_async.c\<close>) wakes a loop from another thread through an eventfd; together with a concurrent
  queue it is the mailbox by which threads hand each other work. A thread pool (\<^verbatim>\<open>xv_th_pool.c\<close>) has one
  mailbox of tasks per worker. The service (\<^verbatim>\<open>xv_service.c\<close>) puts these together: a leader I/O thread
  accepts clients on the listening sockets (\<^verbatim>\<open>xv_socket.c\<close>) and keeps them or sends them to followers; each
  I/O thread reads requests into the read buffer of a connection, has the user's functions decode and
  process them, in place or on a worker, and writes the encoded responses through the write buffer.

  \<^bold>\<open>How C is modelled\<close> (\<open>Xv_Prelude\<close>). Structs are records in typed heaps, maps from addresses, that are
  fields of one state record; each component extends the record of the components it uses (\<open>memory\<close>,
  \<open>qheap\<close>, \<open>pheap\<close>, \<open>lheap\<close>, \<open>aheap\<close>, \<open>wheap\<close>, \<open>sheap\<close>), so every operation is polymorphic in the
  fields of the components above it, and two objects never share an address. Operations pass the state
  explicitly in the option monad. \<open>None\<close> stands for undefined behaviour (a null, dangling or unassigned
  pointer, an index or byte range outside its block, signed overflow, division by zero, a join of a thread
  never created) and for a run that does not return; so \<open>f s = Some r\<close> always says that \<open>f\<close> returns and does
  nothing undefined. The codes \<open>XV_OK\<close>, \<open>XV_ERR\<close>, \<open>XV_AGAIN\<close> and null pointers are ordinary values.
  \<^verbatim>\<open>int\<close> is \<open>int\<close> with checked operations, masks, ports and counters are words. Allocation succeeds: the
  sources never test it. Loops over arrays are structural recursions; loops that need not end (the event
  loop, retries on \<^verbatim>\<open>EINTR\<close>, drains of a queue, walks along links) are partial functions into option, so no
  fuel is chosen anywhere; that they return is proved where it is claimed. Calls of the logger are left
  out of the other components, together with the texts they print, except where the call itself can be undefined: the messages of
  failed system calls in \<^verbatim>\<open>xv_socket.c\<close> print an array that \<^verbatim>\<open>strerror_r\<close> need not have assigned (\<open>xv_log_errno_error\<close>, defined if
  the C library is one that assigns it, \<open>strerror_fills\<close>), and line 658 of \<^verbatim>\<open>xv_service.c\<close>, after listening has failed, has conversions without
  arguments (\<open>xv_service_add_listen\<close> is undefined there). The message at line 147 of \<^verbatim>\<open>xv.c\<close>, with a wrong conversion, is never reached.

  \<^bold>\<open>What is a parameter.\<close> The kernel is a record of functions on an abstract kernel state (\<open>epoll_ops\<close>, extended
  by \<open>sys_ops\<close>); threads are created and joined through \<open>pthread_ops\<close>, whose join returns the state as all
  threads have left it; callbacks are names (\<open>io_cb\<close>, \<open>async_cb\<close>, \<open>task_cb\<close>, \<open>nat\<close> for the functions of a
  handle) and the code behind the application's names is an argument; where a theorem asks that a callback be absent or only look at its
  connection it says \<open>callback_silent\<close>. What the proofs need of the kernel is
  what the man pages say, as named predicates: \<open>strerror_fills\<close> (the POSIX \<^verbatim>\<open>strerror_r\<close>, not the GNU one), \<open>epoll_create_doc\<close>, \<open>epoll_ctl_doc\<close>, \<open>epoll_wait_doc\<close>,
  \<open>eventfd_doc\<close>, \<open>read_doc\<close>, \<open>write_doc\<close>, \<open>fd_doc\<close>, \<open>ctl_silent\<close>,
  \<open>eventfd_silent\<close>, \<open>create_keeps_eventfds\<close>, and \<open>fds_available\<close>, that descriptors do not run out. \<open>sim_ops\<close> and \<open>sim_sys\<close> are executable
  kernels that satisfy them, and the theorems are applied to concrete states on top of these.

  \<^bold>\<open>Theories and what they show.\<close>

  \<^item> \<open>Xv_Buffer\<close> (\<^verbatim>\<open>xv_buffer.c\<close>): the block and its two indices. Every call refines an operation on the
    list of readable bytes; bytes come out in the order they went in; exactly when growing overflows.

  \<^item> \<open>Xv_Queue\<close> (\<^verbatim>\<open>xv_queue.c\<close>): nodes and queues in a heap. Any run of operations on any number of
    queues refines FIFO lists; destroying a queue that is not empty is undefined.

  \<^item> \<open>Xv_Concurrent_Queue\<close>: the operations as whole calls, and as steps (\<open>cq_step\<close>) of any number of threads
    that interleave between lock and unlock: linearizable, mutually exclusive, free of deadlock.

  \<^item> \<open>Xv_Atomic\<close> (\<^verbatim>\<open>xv_atomic.h\<close>): wrap-around, and independence of the interleaving.

  \<^item> \<open>Xv_Log\<close> (\<^verbatim>\<open>xv_log.c\<close>): levels, one line per message, truncation, the life of the stream.

  \<^item> \<open>Xv_Poller\<close> (\<^verbatim>\<open>xv_epoll.c\<close>) and \<open>Xv_Loop\<close> (\<^verbatim>\<open>xv.c\<close>): the watch table. Starting and stopping watchers
    refines an abstract table, and the interest list of the kernel is its image (locale
    \<open>watcher_registry\<close>); the defects of resizing and of failed starts.

  \<^item> \<open>Xv_Dispatch\<close>: a round of the loop calls exactly the callbacks a specification names, is safe under any
    callbacks that respect the loop, and \<^verbatim>\<open>xv_loop_run\<close> returns exactly when a round clears the flag.

  \<^item> \<open>Xv_Socket\<close> (\<^verbatim>\<open>xv_socket.c\<close>): blocking reads and writes return and transfer exactly the stream; which
    descriptors failures leave open.

  \<^item> \<open>Xv_Async\<close> (\<^verbatim>\<open>xv_async.c\<close>) and \<open>Xv_Mailbox\<close>: the life of an async object, and the protocol of a queue
    with an async object as steps of producers and a consumer (\<open>mbox_step\<close>, locale \<open>mailbox\<close>): nothing is
    lost, no wake-up is missed, and everything handed in is delivered.

  \<^item> \<open>Xv_Pool\<close> (\<^verbatim>\<open>xv_th_pool.c\<close>): routing of tasks to workers, a woken worker runs everything in order, and the
    defects of hash codes, starting and destroying.

  \<^item> \<open>Xv_Connection\<close>, \<open>Xv_Handlers\<close>, \<open>Xv_Service\<close> (\<^verbatim>\<open>xv_service.c\<close>): the definitions of the service layer in
    the order of the source: objects and closing; event handlers and the tables that tie function pointers to
    code (\<open>io_call\<close>, \<open>async_call\<close>, \<open>task_run\<close>); the body of an I/O thread and the life cycle of a service.

  \<^item> \<open>Xv_Conn_Table\<close>: the table of connections refines a map with a size (locale \<open>keyed_table\<close>), and what
    happens at and above its set size.

  \<^item> \<open>Xv_Lifetime\<close>: reference counts as an invariant of a step relation over the operations that create and
    release objects (\<open>ref_step\<close>), the full effect of closing, and the late message that breaks both.

  \<^item> \<open>Xv_Traffic\<close>: the byte streams of a connection through the read, process and write handlers.

  \<^item> \<open>Xv_Routing\<close>: where accepted connections, responses and requests go; a connection accepted by
    \<^verbatim>\<open>on_new_connection\<close> satisfies \<open>conn_ok\<close>, the hypothesis of the theorems on the other handlers.

  \<^item> \<open>Xv_Follower\<close>: the receiving ends of the mailboxes of a service: an I/O thread takes over every connection
    queued for it, and the job of a worker hands its message back to the right I/O thread.

  \<^item> \<open>Xv_Answer\<close>: a request from its decoding to its response, in place and through a worker, as one run of the
    handlers concerned: the response stands behind everything sent before and nothing is left behind; and the
    connection that a write error leaves stranded. What is asked of the application is \<open>app_doc\<close>.

  \<^item> \<open>Xv_Lifecycle\<close>: what \<^verbatim>\<open>xv_service_init\<close> sets up, I/O threads and workers, meets the invariants of the other theories; destroying an
    unstarted service gives back the heap if it has no workers and is undefined if it has; stopping before the leader has run is undefined.

  \<^item> \<open>Xv_Shutdown\<close>: \<^verbatim>\<open>xv_service_stop\<close> on a running service, over the loops of all its I/O threads; what the kernel is asked for is
    the exact trace of descriptors closed, eventfds written and threads joined (\<open>shut_run\<close>).

  \<^item> \<open>Xv_Release\<close>: \<^verbatim>\<open>xv_service_destroy\<close> on a running service: which objects are released (locale
    \<open>part_destroyer\<close>, interpreted for listeners, connections, I/O threads and workers), and the exact trace of closings, wake-ups and joins.
    Of \<^verbatim>\<open>pthread_join\<close> it asks what \<open>join_idle\<close> says: it returns once the worker, told to end, has left its loop, having changed the
    kernel and the arrays of events of its own loop.

  \<^item> \<open>Xv_Rounds\<close>, \<open>Xv_Serve\<close>, \<open>Xv_Serving\<close>, \<open>Xv_Clients\<close>: the service as a whole. \<open>guarded_rounds\<close> is the contract between the
    loop and handlers that share an invariant; \<open>serving\<close> is the invariant of a service with one I/O thread and no workers, over all its
    connections; every handler keeps it (connections that are accepted, read, answered, drained and closed, in any order), and the
    interpretation \<open>serve\<close> gives that no number of rounds does anything undefined. What is asked of the kernel is \<open>serve_doc\<close> (a limit of
    open files within the loop, no descriptor handed out twice, error messages that are defined), of the application \<open>app_safe\<close> (it bounds both
    buffers, because the library does not; its callbacks for new and closed connections are absent or change nothing, and \<^verbatim>\<open>process\<close> does no
    more than set the response: the two services among the tests ask for more than this).

  \<^item> \<open>Xv_Startup\<close>: how such a service comes to be: from \<^verbatim>\<open>xv_service_init\<close> in a fresh process through any number of
    \<^verbatim>\<open>xv_service_add_listen\<close> and \<^verbatim>\<open>xv_service_start\<close> to the loop of the leader, the invariant (\<open>set_up\<close>, then
    \<open>serving\<close>) holds, if and only if each of the calls gets a listening socket (\<open>listens\<close>). \<open>startup_doc\<close> and \<open>three_left\<close> say what is asked of the kernel meanwhile, \<open>creates\<close> that \<^verbatim>\<open>pthread_create\<close>
    succeeds.

  \<open>Xv_Service_Example\<close> holds the frame lemmas of the service heap and the example service.

  \<^bold>\<open>Concurrency.\<close> The shared queues and the mailbox are treated with all interleavings, at the granularity
  of their critical sections. Everything else is modelled as the thread that runs it sees it, one handler
  or API call at a time; accesses of different threads to the same connection, service or worker object
  outside the queues are not interleaved.

  \<^bold>\<open>Not modelled.\<close> \<^verbatim>\<open>xv_select.c\<close>, seven stubs for other systems in a file that defines
  \<^verbatim>\<open>struct xv_poller_data\<close> a second time and does not compile; \<^verbatim>\<open>xv_timer.c\<close> and \<^verbatim>\<open>xv_signal.c\<close>, which
  hold no code; the non-Linux branch of \<^verbatim>\<open>xv_async.c\<close>, which is empty; formatting of log lines by \<^verbatim>\<open>printf\<close>;
  memory barriers, which have no effect at the granularity above; the tests and examples.

  \<^bold>\<open>Still open.\<close> An invariant like \<open>serving\<close> for services with followers or workers, whose threads interleave; data races between API
  calls and I/O threads.
\<close>

end
